(* ===== verification/OFM_Prelude.thy ===== *)
theory OFM_Prelude
  imports Main "HOL-Library.Word"
begin

text \<open>
  The shared part of the development.  It fixes the machine types of the C and C++ sources, the
  few facts of the platform that the sources depend on (byte order and the signedness of
  \<open>char\<close>), the outcome type of operations that may block on a mutex or run into undefined
  behaviour, and the generic lemmas on words, bytes and lists that the component theories use.

  Undefined behaviour (an out-of-bounds access, an oversized shift) is the value \<open>Undef\<close>
  (or \<open>None\<close> for pure readers); a call that never gets its mutex is \<open>Blocked\<close>; a failed
  assertion or a call of the fatal-error routines is \<open>Aborted\<close>.
\<close>

unbundle bit_operations_syntax

named_theorems endian \<open>byte order: loads, stores and the network/host conversions\<close>

named_theorems run_simps \<open>unfolding of outcome-valued operations\<close>

section \<open>Machine types\<close>

type_synonym u8 = "8 word"
type_synonym u16 = "16 word"
type_synonym u32 = "32 word"
type_synonym u64 = "64 word"
type_synonym c_int = "32 word"
type_synonym bytes = "8 word list"

text \<open>The two properties of the compilation target that the sources depend on.\<close>

record platform =
  big_endian :: bool
  char_signed :: bool

section \<open>Outcomes\<close>

datatype 'a run = Ret 'a | Blocked | Undef | Aborted

fun run_bind :: "'a run \<Rightarrow> ('a \<Rightarrow> 'b run) \<Rightarrow> 'b run" where
  "run_bind (Ret x) f = f x"
| "run_bind Blocked f = Blocked"
| "run_bind Undef f = Undef"
| "run_bind Aborted f = Aborted"

definition run_of_option :: "'a option \<Rightarrow> 'a run" where
  "run_of_option x = (case x of None \<Rightarrow> Undef | Some y \<Rightarrow> Ret y)"

text \<open>Accesses to an array whose cells may be uninitialised (\<open>None\<close>); any access out of range and
  any use of an uninitialised cell is undefined.\<close>

definition arr_get :: "'a option list \<Rightarrow> nat \<Rightarrow> 'a run" where
  "arr_get xs i = (if i < length xs then run_of_option (xs ! i) else Undef)"

definition arr_set :: "'a option list \<Rightarrow> nat \<Rightarrow> 'a \<Rightarrow> 'a option list run" where
  "arr_set xs i v = (if i < length xs then Ret (xs[i := Some v]) else Undef)"

definition arr_copy :: "'a option list \<Rightarrow> nat \<Rightarrow> nat \<Rightarrow> 'a option list run" where
  "arr_copy xs off n = (if off + n \<le> length xs then Ret (take n (drop off xs)) else Undef)"

section \<open>Byte order\<close>

definition be16 :: "u8 \<Rightarrow> u8 \<Rightarrow> u16" where
  "be16 a b = push_bit 8 (ucast a) OR ucast b"

definition be32 :: "u8 \<Rightarrow> u8 \<Rightarrow> u8 \<Rightarrow> u8 \<Rightarrow> u32" where
  "be32 a b c d = push_bit 24 (ucast a) OR push_bit 16 (ucast b) OR push_bit 8 (ucast c) OR ucast d"

definition byte_of :: "nat \<Rightarrow> 'a::len word \<Rightarrow> u8" where
  "byte_of n w = ucast (drop_bit (8 * n) w)"

definition bswap16 :: "u16 \<Rightarrow> u16" where
  "bswap16 w = be16 (byte_of 0 w) (byte_of 1 w)"

definition bswap32 :: "u32 \<Rightarrow> u32" where
  "bswap32 w = be32 (byte_of 0 w) (byte_of 1 w) (byte_of 2 w) (byte_of 3 w)"

definition ntohs :: "platform \<Rightarrow> u16 \<Rightarrow> u16" where
  "ntohs P w = (if big_endian P then w else bswap16 w)"

definition htons :: "platform \<Rightarrow> u16 \<Rightarrow> u16" where
  "htons P w = ntohs P w"

definition ntohl :: "platform \<Rightarrow> u32 \<Rightarrow> u32" where
  "ntohl P w = (if big_endian P then w else bswap32 w)"

definition htonl :: "platform \<Rightarrow> u32 \<Rightarrow> u32" where
  "htonl P w = ntohl P w"

text \<open>Native loads of a 16-bit and a 32-bit object from its bytes in memory order, and the
  bytes a native store of a 32-bit object writes.\<close>

definition native16 :: "platform \<Rightarrow> u8 \<Rightarrow> u8 \<Rightarrow> u16" where
  "native16 P a b = (if big_endian P then be16 a b else be16 b a)"

definition native32 :: "platform \<Rightarrow> u8 \<Rightarrow> u8 \<Rightarrow> u8 \<Rightarrow> u8 \<Rightarrow> u32" where
  "native32 P a b c d = (if big_endian P then be32 a b c d else be32 d c b a)"

definition bytes_be32 :: "u32 \<Rightarrow> bytes" where
  "bytes_be32 w = [byte_of 3 w, byte_of 2 w, byte_of 1 w, byte_of 0 w]"

definition native_bytes32 :: "platform \<Rightarrow> u32 \<Rightarrow> bytes" where
  "native_bytes32 P w = (if big_endian P then bytes_be32 w else rev (bytes_be32 w))"

text \<open>Bounds-checked reads of a buffer; \<open>None\<close> is a read past its end.\<close>

definition rd8 :: "bytes \<Rightarrow> nat \<Rightarrow> u8 option" where
  "rd8 buf i = (if i < length buf then Some (buf ! i) else None)"

definition rd16 :: "platform \<Rightarrow> bytes \<Rightarrow> nat \<Rightarrow> u16 option" where
  "rd16 P buf i =
     (if i + 1 < length buf then Some (native16 P (buf ! i) (buf ! (i + 1))) else None)"

definition rd32 :: "platform \<Rightarrow> bytes \<Rightarrow> nat \<Rightarrow> u32 option" where
  "rd32 P buf i =
     (if i + 3 < length buf
      then Some (native32 P (buf ! i) (buf ! (i + 1)) (buf ! (i + 2)) (buf ! (i + 3)))
      else None)"

section \<open>C conversions and tests\<close>

definition flag_set :: "'a::len word \<Rightarrow> 'a word \<Rightarrow> bool" where
  "flag_set w f \<longleftrightarrow> w AND f \<noteq> 0"

definition sneg :: "'a::len word \<Rightarrow> bool" where
  "sneg w \<longleftrightarrow> sint w < 0"

text \<open>The value of a \<open>char\<close> object as an \<open>int\<close>, which depends on the signedness of \<open>char\<close>.\<close>

definition char_to_int :: "platform \<Rightarrow> u8 \<Rightarrow> c_int" where
  "char_to_int P c = (if char_signed P then scast c else ucast c)"

definition byte_of_char :: "char \<Rightarrow> u8" where
  "byte_of_char c = word_of_nat (of_char c)"

definition char_of_byte :: "u8 \<Rightarrow> char" where
  "char_of_byte b = char_of (unat b)"

section \<open>Lemmas on words and bytes\<close>

lemma byte_of_be16 [simp]:
  "byte_of 1 (be16 a b) = a" "byte_of 0 (be16 a b) = b"
  by (simp_all add: byte_of_def be16_def bit_eq_iff bit_simps)
    (auto dest: bit_imp_le_length)

lemma byte_of_be16_Suc [simp]: "byte_of (Suc 0) (be16 a b) = a"
  using byte_of_be16(1) by simp

lemma be16_byte_of [simp]: "be16 (byte_of 1 w) (byte_of 0 w) = w"
proof (rule bit_word_eqI)
  fix n assume "n < LENGTH(16)"
  then have "n < 8 \<or> (8 \<le> n \<and> n < 16)" by auto
  then show "bit (be16 (byte_of 1 w) (byte_of 0 w)) n = bit w n"
    by (auto simp: byte_of_def be16_def bit_simps dest: bit_imp_le_length)
qed

lemma byte_of_be32 [simp]:
  "byte_of 3 (be32 a b c d) = a" "byte_of 2 (be32 a b c d) = b"
  "byte_of 1 (be32 a b c d) = c" "byte_of 0 (be32 a b c d) = d"
  by (simp_all add: byte_of_def be32_def bit_eq_iff bit_simps)
    (auto dest: bit_imp_le_length)

lemma byte_of_be32_Suc [simp]: "byte_of (Suc 0) (be32 a b c d) = c"
  using byte_of_be32(3) by simp

lemma be32_byte_of [simp]:
  "be32 (byte_of 3 w) (byte_of 2 w) (byte_of 1 w) (byte_of 0 w) = w"
proof (rule bit_word_eqI)
  fix n assume "n < LENGTH(32)"
  then have "n < 8 \<or> (8 \<le> n \<and> n < 16) \<or> (16 \<le> n \<and> n < 24) \<or> (24 \<le> n \<and> n < 32)"
    by auto
  then show "bit (be32 (byte_of 3 w) (byte_of 2 w) (byte_of 1 w) (byte_of 0 w)) n = bit w n"
    by (auto simp: byte_of_def be32_def bit_simps dest: bit_imp_le_length)
qed

lemma bswap16_bswap16 [simp]: "bswap16 (bswap16 w) = w"
  by (simp add: bswap16_def del: One_nat_def)

lemma bswap32_bswap32 [simp]: "bswap32 (bswap32 w) = w"
  by (simp add: bswap32_def del: One_nat_def)

lemma bswap16_be16 [simp]: "bswap16 (be16 a b) = be16 b a"
  by (simp add: bswap16_def)

lemma bswap32_be32 [simp]: "bswap32 (be32 a b c d) = be32 d c b a"
  by (simp add: bswap32_def)

lemma ntohs_htons [endian, simp]: "ntohs P (htons P w) = w" "htons P (ntohs P w) = w"
  by (simp_all add: ntohs_def htons_def)

lemma ntohl_htonl [endian, simp]: "ntohl P (htonl P w) = w" "htonl P (ntohl P w) = w"
  by (simp_all add: ntohl_def htonl_def)

text \<open>A network-order field read through a native load and converted is the big-endian value,
  on either byte order.\<close>

lemma ntohs_native16 [endian, simp]: "ntohs P (native16 P a b) = be16 a b"
  by (simp add: ntohs_def native16_def)

lemma ntohl_native32 [endian, simp]: "ntohl P (native32 P a b c d) = be32 a b c d"
  by (simp add: ntohl_def native32_def)

lemma length_native_bytes32 [simp]: "length (native_bytes32 P w) = 4"
  by (simp add: native_bytes32_def bytes_be32_def)

lemma length_bytes_be32 [simp]: "length (bytes_be32 w) = 4"
  by (simp add: bytes_be32_def)

lemma native_bytes32_htonl [endian]: "native_bytes32 P (htonl P w) = bytes_be32 w"
  by (simp add: native_bytes32_def htonl_def ntohl_def bytes_be32_def bswap32_def
      del: One_nat_def)

lemma native32_native_bytes32 [endian]:
  "native_bytes32 P w = [a, b, c, d] \<Longrightarrow> native32 P a b c d = w"
  by (auto simp: native_bytes32_def native32_def bytes_be32_def split: if_splits
      simp del: One_nat_def)

lemma narrow_widen [simp]:
  "ucast (ucast (x :: u16) :: u32) = x" "ucast (ucast (y :: u8) :: u32) = y"
  by (auto simp: bit_eq_iff bit_simps dest: bit_imp_le_length)

lemma char_of_byte_of_char [simp]: "char_of_byte (byte_of_char c) = c"
  by (simp add: char_of_byte_def byte_of_char_def unat_of_nat)

lemma byte_of_char_of_byte [simp]: "byte_of_char (char_of_byte b) = b"
proof -
  have "unat b < 2 ^ LENGTH(8)" by (rule unsigned_less)
  then show ?thesis by (simp add: char_of_byte_def byte_of_char_def)
qed

section \<open>Lemmas on outcomes\<close>

text \<open>As a congruence rule: evaluate the first run before the continuation.\<close>

lemma run_bind_weak: "m = m' \<Longrightarrow> run_bind m f = run_bind m' f"
  by simp

lemma run_bind_eq_Ret:
  "run_bind r f = Ret y \<longleftrightarrow> (\<exists>x. r = Ret x \<and> f x = Ret y)"
  by (cases r) auto

lemma run_bind_eq_Blocked:
  "run_bind r f = Blocked \<longleftrightarrow> r = Blocked \<or> (\<exists>x. r = Ret x \<and> f x = Blocked)"
  by (cases r) auto

lemma run_bind_cong [fundef_cong]:
  "r = r' \<Longrightarrow> (\<And>x. r' = Ret x \<Longrightarrow> f x = g x) \<Longrightarrow> run_bind r f = run_bind r' g"
  by (cases r') auto

lemma run_bind_assoc: "run_bind (run_bind r f) g = run_bind r (\<lambda>x. run_bind (f x) g)"
  by (cases r) auto

lemma run_of_option_simps [simp, run_simps]:
  "run_of_option None = Undef" "run_of_option (Some x) = Ret x"
  by (simp_all add: run_of_option_def)

lemma run_of_option_eq_Ret [simp]: "run_of_option x = Ret y \<longleftrightarrow> x = Some y"
  by (cases x) auto

lemma arr_get_Some [simp]: "i < length xs \<Longrightarrow> xs ! i = Some v \<Longrightarrow> arr_get xs i = Ret v"
  by (simp add: arr_get_def)

lemma arr_set_Ret [simp]: "i < length xs \<Longrightarrow> arr_set xs i v = Ret (xs[i := Some v])"
  by (simp add: arr_set_def)

lemma arr_copy_Ret [simp]: "off + n \<le> length xs \<Longrightarrow> arr_copy xs off n = Ret (take n (drop off xs))"
  by (simp add: arr_copy_def)

section \<open>Lemmas on lists\<close>

text \<open>The first element of a list that satisfies a test, with the rest around it: the shape of
  every search loop over a linked list in the sources.\<close>

lemma find_append_Some:
  "find P xs = Some x \<Longrightarrow> \<exists>ys zs. xs = ys @ x # zs \<and> P x \<and> (\<forall>y \<in> set ys. \<not> P y)"
proof (induction xs)
  case Nil
  then show ?case by simp
next
  case (Cons a xs)
  show ?case
  proof (cases "P a")
    case True
    with Cons.prems show ?thesis by (intro exI [of _ "[]"] exI [of _ xs]) auto
  next
    case False
    with Cons.prems have "find P xs = Some x" by simp
    from Cons.IH [OF this] obtain ys zs
      where "xs = ys @ x # zs" "P x" "\<forall>y \<in> set ys. \<not> P y" by blast
    with False show ?thesis by (intro exI [of _ "a # ys"] exI [of _ zs]) auto
  qed
qed

end
