(* ===== verification/Sdmbn_Types.thy ===== *)
theory Sdmbn_Types
  imports OFM_Prelude
begin

text \<open>
  The data of the shared library that is linked into every network function: the structures
  of \<^verbatim>\<open>shared/SDMBN.h\<close>, \<^verbatim>\<open>shared/event.h\<close>, \<^verbatim>\<open>shared/SDMBNCore.h\<close> and
  \<^verbatim>\<open>shared/SDMBNConfig.h\<close>, at the widths of the C declarations, and the library's global
  state as one record.  The callbacks a network function registers (\<open>SDMBNLocals\<close>) are
  optional functions on that state, \<open>None\<close> being a null function pointer.
\<close>

section \<open>Flow keys\<close>

record PerflowKey =
  nw_src :: u32
  nw_src_mask :: u32
  nw_dst :: u32
  nw_dst_mask :: u32
  tp_src :: u16
  tp_dst :: u16
  dl_type :: u16
  nw_proto :: u8
  wildcards :: u8
  tp_flip :: u8

definition WILDCARD_DL_TYPE :: u8 where "WILDCARD_DL_TYPE = 0x01"
definition WILDCARD_NW_SRC :: u8 where "WILDCARD_NW_SRC = 0x02"
definition WILDCARD_NW_DST :: u8 where "WILDCARD_NW_DST = 0x04"
definition WILDCARD_NW_PROTO :: u8 where "WILDCARD_NW_PROTO = 0x08"
definition WILDCARD_TP_SRC :: u8 where "WILDCARD_TP_SRC = 0x10"
definition WILDCARD_TP_DST :: u8 where "WILDCARD_TP_DST = 0x20"
definition WILDCARD_NW_SRC_MASK :: u8 where "WILDCARD_NW_SRC_MASK = 0x40"
definition WILDCARD_NW_DST_MASK :: u8 where "WILDCARD_NW_DST_MASK = 0x80"
definition WILDCARD_ALL :: u8 where "WILDCARD_ALL = 0xFF"

lemmas wildcard_defs =
  WILDCARD_DL_TYPE_def WILDCARD_NW_SRC_def WILDCARD_NW_DST_def WILDCARD_NW_PROTO_def
  WILDCARD_TP_SRC_def WILDCARD_TP_DST_def WILDCARD_NW_SRC_MASK_def WILDCARD_NW_DST_MASK_def
  WILDCARD_ALL_def

text \<open>The all-zero key that \<^verbatim>\<open>bzero\<close> leaves.\<close>

definition zero_key :: PerflowKey where
  "zero_key = \<lparr>nw_src = 0, nw_src_mask = 0, nw_dst = 0, nw_dst_mask = 0, tp_src = 0, tp_dst = 0,
     dl_type = 0, nw_proto = 0, wildcards = 0, tp_flip = 0\<rparr>"

section \<open>Packets, contexts and event filters\<close>

record pcap_pkthdr =
  ts_sec :: u64
  ts_usec :: u64
  caplen :: u32
  pktlen :: u32

record BufferedPkt =
  b_hdr :: pcap_pkthdr
  b_pkt :: bytes

definition EVENT_ACTION_DROP :: c_int where "EVENT_ACTION_DROP = 0"
definition EVENT_ACTION_BUFFER :: c_int where "EVENT_ACTION_BUFFER = 1"
definition EVENT_ACTION_PROCESS :: c_int where "EVENT_ACTION_PROCESS = 2"

lemmas action_defs = EVENT_ACTION_DROP_def EVENT_ACTION_BUFFER_def EVENT_ACTION_PROCESS_def

text \<open>A filter's buffer is the chain from \<open>bufferHead\<close> to \<open>bufferTail\<close>, in that order; \<open>f_addr\<close> is
  the address of the filter, by which the sources compare filters.\<close>

record EventFilter =
  f_addr :: nat
  f_key :: PerflowKey
  f_action :: c_int
  f_id :: c_int
  f_buffer :: "BufferedPkt list"

record ProcessContext =
  ctx_injected :: u8
  ctx_stop :: u8
  ctx_event :: u8

definition PACKET_FLAG_DO_NOT_BUFFER :: u8 where
  "PACKET_FLAG_DO_NOT_BUFFER = push_bit 2 1"

definition PACKET_FLAG_DO_NOT_DROP :: u8 where
  "PACKET_FLAG_DO_NOT_DROP = push_bit 3 1"

section \<open>Statistics and configuration\<close>

record SDMBNStatistics =
  gets_per_count :: c_int
  gets_per_time :: u64
  puts_per_count :: c_int
  puts_per_time :: u64
  gets_mul_count :: c_int
  gets_mul_time :: u64
  puts_mul_count :: c_int
  puts_mul_time :: u64
  pkts_received :: c_int
  flows_active :: c_int
  reprocess_raised :: c_int
  pkts_nofilter_count :: c_int
  pkts_drop_count :: c_int
  pkts_buffer_count :: c_int
  pkts_nobuffer_count :: c_int
  pkts_release_count :: c_int
  pkts_process_count :: c_int
  events_count :: c_int

definition zero_stats :: SDMBNStatistics where
  "zero_stats = \<lparr>gets_per_count = 0, gets_per_time = 0, puts_per_count = 0, puts_per_time = 0,
     gets_mul_count = 0, gets_mul_time = 0, puts_mul_count = 0, puts_mul_time = 0,
     pkts_received = 0, flows_active = 0, reprocess_raised = 0, pkts_nofilter_count = 0,
     pkts_drop_count = 0, pkts_buffer_count = 0, pkts_nobuffer_count = 0,
     pkts_release_count = 0, pkts_process_count = 0, events_count = 0\<rparr>"

record SDMBNConfig =
  ctrl_ip :: string
  ctrl_port_state :: u16
  ctrl_port_event :: u16
  release_get_pkts :: c_int
  release_get_flows :: c_int
  max_get_flows :: c_int

section \<open>The library state and the callbacks of a network function\<close>

text \<open>
  The globals of the library.  \<open>s_sent\<close> is the history of \<^verbatim>\<open>json_send\<close>: each message with
  the connection it was written to.  The two mutexes whose protocol spans several calls are
  booleans (held or free); \<open>s_nf\<close> is the state of the network function itself.
\<close>

record ('nf, 'j) sdmbn =
  s_filters :: "EventFilter list"
  s_stats :: SDMBNStatistics
  s_config :: SDMBNConfig
  s_conn_event :: c_int
  s_conn_state :: c_int
  s_sent :: "(c_int \<times> 'j) list"
  s_lock_processing :: bool
  s_lock_get :: bool
  s_nf :: 'nf

text \<open>The extension list of a get call.  The only extension lives in a block that ends before
  the pointer is used, so what the callback receives is a pointer past its object's lifetime;
  the constructor keeps the content the object had.\<close>

record SDMBNExt =
  ext_id :: u8
  ext_data :: c_int

datatype exts = ExtNull | ExtDangling SDMBNExt

definition SDMBN_EXT_MAX_CHUNKS :: u8 where "SDMBN_EXT_MAX_CHUNKS = 0x01"

record 's SDMBNLocals =
  loc_init :: "('s \<Rightarrow> c_int \<times> 's) option"
  loc_cleanup :: "('s \<Rightarrow> c_int \<times> 's) option"
  loc_get_perflow :: "(PerflowKey \<Rightarrow> c_int \<Rightarrow> c_int \<Rightarrow> exts \<Rightarrow> 's \<Rightarrow> c_int \<times> 's) option"
  loc_put_perflow :: "(c_int \<Rightarrow> PerflowKey \<Rightarrow> string \<Rightarrow> 's \<Rightarrow> c_int \<times> 's) option"
  loc_get_allflows :: "(c_int \<Rightarrow> 's \<Rightarrow> c_int \<times> 's) option"
  loc_put_allflows :: "(c_int \<Rightarrow> string \<Rightarrow> 's \<Rightarrow> c_int \<times> 's) option"
  loc_get_multiflow :: "(PerflowKey option \<Rightarrow> c_int \<Rightarrow> 's \<Rightarrow> c_int \<times> 's) option"
  loc_put_multiflow :: "(c_int \<Rightarrow> PerflowKey \<Rightarrow> string \<Rightarrow> 's \<Rightarrow> c_int \<times> 's) option"
  loc_delete_multiflow :: "(PerflowKey option \<Rightarrow> c_int \<Rightarrow> c_int \<Rightarrow> 's \<Rightarrow> c_int \<times> 's) option"
  loc_delete_perflow :: "(PerflowKey option \<Rightarrow> c_int \<Rightarrow> 's \<Rightarrow> c_int \<times> 's) option"
  loc_get_config :: "(c_int \<Rightarrow> 's \<Rightarrow> c_int \<times> 's) option"
  loc_put_config :: "(c_int \<Rightarrow> string \<Rightarrow> 's \<Rightarrow> c_int \<times> 's) option"
  loc_process_packet :: "(pcap_pkthdr \<Rightarrow> bytes \<Rightarrow> 's \<Rightarrow> c_int \<times> 's) option"
  loc_device :: "string option"

text \<open>A network function that registers no callback.\<close>

definition no_callbacks :: "'s SDMBNLocals" where
  "no_callbacks = \<lparr>loc_init = None, loc_cleanup = None, loc_get_perflow = None, loc_put_perflow = None,
     loc_get_allflows = None, loc_put_allflows = None, loc_get_multiflow = None,
     loc_put_multiflow = None, loc_delete_multiflow = None, loc_delete_perflow = None,
     loc_get_config = None, loc_put_config = None, loc_process_packet = None, loc_device = None\<rparr>"

text \<open>The globals before \<^verbatim>\<open>sdmbn_init\<close>, with the network function in state \<open>nf\<close>.\<close>

definition zero_sdmbn :: "'nf \<Rightarrow> ('nf, 'j) sdmbn" where
  "zero_sdmbn nf = \<lparr>s_filters = [], s_stats = zero_stats,
     s_config = \<lparr>ctrl_ip = [], ctrl_port_state = 0, ctrl_port_event = 0, release_get_pkts = 0,
       release_get_flows = 0, max_get_flows = 0\<rparr>,
     s_conn_event = 0, s_conn_state = 0, s_sent = [], s_lock_processing = False,
     s_lock_get = False, s_nf = nf\<rparr>"

text \<open>Updating one counter of the statistics, as the sources do in place.\<close>

definition upd_stats :: "(SDMBNStatistics \<Rightarrow> SDMBNStatistics) \<Rightarrow> ('nf, 'j) sdmbn \<Rightarrow> ('nf, 'j) sdmbn" where
  "upd_stats f s = s\<lparr>s_stats := f (s_stats s)\<rparr>"

lemma upd_stats_simps [simp]:
  "s_filters (upd_stats f s) = s_filters s" "s_config (upd_stats f s) = s_config s"
  "s_conn_event (upd_stats f s) = s_conn_event s" "s_conn_state (upd_stats f s) = s_conn_state s"
  "s_sent (upd_stats f s) = s_sent s" "s_lock_processing (upd_stats f s) = s_lock_processing s"
  "s_lock_get (upd_stats f s) = s_lock_get s" "s_nf (upd_stats f s) = s_nf s"
  "s_stats (upd_stats f s) = f (s_stats s)"
  by (simp_all add: upd_stats_def)

end
