(* ===== verification/Sdmbn_Base64.thy ===== *)
theory Sdmbn_Base64
  imports Sdmbn_Types
begin

text \<open>
  The text encoding of binary blobs in \<^verbatim>\<open>shared/SDMBNCore.c\<close>: each byte becomes two
  characters, its low and its high half, each written with the alphabet of base 64.  The
  theory shows that decoding an encoded blob gives the blob back, that the encoded text stays
  within the first sixteen letters (so that it survives as a C string and as a JSON string),
  and that decoding text of odd length writes one byte past the buffer it allocates.
\<close>

section \<open>The functions of the source\<close>

definition base64_encode_bits :: "u8 \<Rightarrow> u8" where
  "base64_encode_bits data =
     (if data < 26 then data + 65
      else if data < 52 then data - 26 + 97
      else if data < 62 then data - 52 + 48
      else if data = 62 then 43
      else if data = 63 then 47
      else 0)"

text \<open>The loop of \<^verbatim>\<open>sdmbn_base64_encode\<close>, over the \<open>size\<close> bytes of the blob.\<close>

fun base64_encode_loop :: "bytes \<Rightarrow> u8 list" where
  "base64_encode_loop [] = []"
| "base64_encode_loop (b # bs) =
     (let lower = b AND 0x0F; upper = drop_bit 4 (b AND 0xF0)
      in base64_encode_bits lower # base64_encode_bits upper # base64_encode_loop bs)"

text \<open>The C string that a sequence of characters ending in NUL denotes.\<close>

definition c_string :: "u8 list \<Rightarrow> string" where
  "c_string cs = map char_of_byte (takeWhile (\<lambda>c. c \<noteq> 0) cs)"

text \<open>\<open>blob\<close> is \<open>None\<close> for a null pointer; otherwise it holds the \<open>size\<close> bytes.  \<open>mem_ok\<close>
  says whether \<^verbatim>\<open>malloc\<close> succeeds for a request.\<close>

definition sdmbn_base64_encode :: "(int \<Rightarrow> bool) \<Rightarrow> bytes option \<Rightarrow> c_int \<Rightarrow> string option" where
  "sdmbn_base64_encode mem_ok blob sz =
     (case blob of
        None \<Rightarrow> None
      | Some bs \<Rightarrow>
          if sint sz < 1 then None
          else if \<not> mem_ok (sint (sz * 2 + 1)) then None
          else Some (c_string (base64_encode_loop (take (nat (sint sz)) bs) @ [0])))"

definition base64_decode_bits :: "u8 \<Rightarrow> u8" where
  "base64_decode_bits data =
     (if data \<ge> 65 \<and> data \<le> 90 then data - 65
      else if data \<ge> 97 \<and> data \<le> 122 then data + 26 - 97
      else if data \<ge> 48 \<and> data \<le> 57 then data + 52 - 48
      else if data = 43 then 62
      else if data = 47 then 63
      else 0)"

text \<open>The loop of \<^verbatim>\<open>sdmbn_base64_decode\<close> consumes two characters per round while
  \<open>size > 0\<close>; on a text of odd length the last round takes the terminating NUL as its second
  character.\<close>

fun base64_decode_loop :: "u8 list \<Rightarrow> bytes" where
  "base64_decode_loop [] = []"
| "base64_decode_loop [l] =
     [push_bit 4 (base64_decode_bits 0) OR base64_decode_bits l]"
| "base64_decode_loop (l # u # cs) =
     (push_bit 4 (base64_decode_bits u) OR base64_decode_bits l) # base64_decode_loop cs"

text \<open>The buffer has \<open>size / 2\<close> bytes; writing more than that is undefined behaviour.  The
  inner \<open>None\<close> is the null pointer.\<close>

definition sdmbn_base64_decode :: "(int \<Rightarrow> bool) \<Rightarrow> string option \<Rightarrow> bytes option run" where
  "sdmbn_base64_decode mem_ok blob =
     (case blob of
        None \<Rightarrow> Ret None
      | Some str \<Rightarrow>
          let cs = map byte_of_char str; n = length cs; out = base64_decode_loop cs
          in if \<not> mem_ok (int (n div 2)) then Ret None
             else if length out > n div 2 then Undef
             else Ret (Some out))"

section \<open>Properties of the two loops\<close>

lemma nibble_exhaust:
  assumes "unat (n :: u8) < 16" and "\<forall>k \<in> set [0..<16]. P (word_of_nat k :: u8)"
  shows "P n"
proof -
  have "unat n \<in> set [0..<16]" using assms(1) by simp
  with assms(2) have "P (word_of_nat (unat n))" by (rule bspec)
  then show ?thesis by simp
qed

lemma decode_encode_bits:
  assumes "unat n < 16"
  shows "base64_decode_bits (base64_encode_bits n) = n"
  using assms by (rule nibble_exhaust) code_simp

lemma encode_bits_range:
  assumes "unat n < 16"
  shows "65 \<le> base64_encode_bits n \<and> base64_encode_bits n \<le> 80"
  using assms by (rule nibble_exhaust) code_simp

lemma nibble_lower: "unat ((b :: u8) AND 0x0F) < 16"
proof -
  have "b AND 0x0F \<le> 0x0F" by (rule word_and_le1)
  then show ?thesis by (simp add: word_le_nat_alt)
qed

lemma nibble_upper: "unat (drop_bit 4 ((b :: u8) AND 0xF0)) < 16"
proof -
  have "drop_bit 4 (b AND 0xF0) = drop_bit 4 b AND 0x0F" by (simp add: bit_eq_iff bit_simps)
  then show ?thesis by (simp only: nibble_lower)
qed

lemma nibbles_join: "push_bit 4 (drop_bit 4 ((b :: u8) AND 0xF0)) OR (b AND 0x0F) = b"
proof (rule bit_word_eqI)
  fix n assume "n < LENGTH(8)"
  then have "n \<in> {0, 1, 2, 3, 4, 5, 6, 7}" by auto
  then show "bit (push_bit 4 (drop_bit 4 (b AND 0xF0)) OR (b AND 0x0F)) n = bit b n"
    by (auto simp: bit_simps)
qed

lemma length_encode_loop [simp]: "length (base64_encode_loop bs) = 2 * length bs"
  by (induction bs) (simp_all add: Let_def)

lemma encode_loop_range:
  "c \<in> set (base64_encode_loop bs) \<Longrightarrow> 65 \<le> c \<and> c \<le> 80"
  by (induction bs) (auto simp: Let_def encode_bits_range nibble_lower nibble_upper)

lemma decode_encode_loop [simp]: "base64_decode_loop (base64_encode_loop bs) = bs"
proof (induction bs)
  case (Cons b bs)
  then show ?case
    by (simp only: base64_encode_loop.simps base64_decode_loop.simps Let_def
        decode_encode_bits nibble_lower nibble_upper nibbles_join)
qed simp

lemma length_decode_loop: "length (base64_decode_loop cs) = (length cs + 1) div 2"
  by (induction cs rule: base64_decode_loop.induct) simp_all

lemma takeWhile_encode_loop:
  "takeWhile (\<lambda>c. c \<noteq> 0) (base64_encode_loop bs @ [0]) = base64_encode_loop bs"
proof -
  have "\<forall>c \<in> set (base64_encode_loop bs). c \<noteq> 0"
    using encode_loop_range by fastforce
  then show ?thesis by (simp add: takeWhile_append2)
qed

lemma c_string_encode_loop:
  "c_string (base64_encode_loop bs @ [0]) = map char_of_byte (base64_encode_loop bs)"
  by (simp add: c_string_def takeWhile_encode_loop)

lemma encode_eq:
  assumes "0 < length bs" "sint sz = int (length bs)" "mem_ok (sint (sz * 2 + 1))"
  shows "sdmbn_base64_encode mem_ok (Some bs) sz =
    Some (map char_of_byte (base64_encode_loop bs))"
  using assms by (simp add: sdmbn_base64_encode_def c_string_encode_loop)

lemma decode_eq:
  assumes "even (length str)" "mem_ok (int (length str div 2))"
  shows "sdmbn_base64_decode mem_ok (Some str) =
    Ret (Some (base64_decode_loop (map byte_of_char str)))"
  using assms by (auto simp: sdmbn_base64_decode_def Let_def length_decode_loop elim!: evenE)

section \<open>The round trip and the overrun\<close>

text \<open>C23. Decoding what \<^verbatim>\<open>sdmbn_base64_encode\<close> produced for a non-empty blob gives the
  same bytes back, for every blob (all 256 byte values) whose allocations succeed.\<close>

theorem base64_roundtrip:
  assumes "0 < length bs" "sint sz = int (length bs)"
    and "mem_ok (sint (sz * 2 + 1))" "mem_ok (int (length bs))"
  shows "\<exists>text. sdmbn_base64_encode mem_ok (Some bs) sz = Some text
    \<and> length text = 2 * length bs \<and> set text \<subseteq> set ''ABCDEFGHIJKLMNOP''
    \<and> sdmbn_base64_decode mem_ok (Some text) = Ret (Some bs)"
proof -
  let ?text = "map char_of_byte (base64_encode_loop bs)"
  have "char_of_byte c \<in> set ''ABCDEFGHIJKLMNOP''" if "65 \<le> c" "c \<le> 80" for c :: u8
  proof -
    have "unat c \<in> {65..80}" using that by (simp add: word_le_nat_alt)
    moreover have "\<forall>k \<in> {65..80}. char_of (k :: nat) \<in> set ''ABCDEFGHIJKLMNOP''" by code_simp
    ultimately show ?thesis by (auto simp only: char_of_byte_def)
  qed
  then have "set ?text \<subseteq> set ''ABCDEFGHIJKLMNOP''"
    using encode_loop_range by fastforce
  moreover have "sdmbn_base64_decode mem_ok (Some ?text) = Ret (Some bs)"
    using assms by (simp add: decode_eq comp_def)
  ultimately show ?thesis using assms encode_eq by fastforce
qed

theorem base64_roundtrip_witness:
  "sdmbn_base64_encode (\<lambda>_. True) (Some [0xFF, 0x00, 0x7A]) 3 = Some ''PPAAKH''
   \<and> (\<exists>text. sdmbn_base64_encode (\<lambda>_. True) (Some [0xFF, 0x00, 0x7A]) 3 = Some text
       \<and> sdmbn_base64_decode (\<lambda>_. True) (Some text) = Ret (Some [0xFF, 0x00, 0x7A]))"
proof -
  have "sdmbn_base64_encode (\<lambda>_. True) (Some [0xFF, 0x00, 0x7A]) 3 = Some ''PPAAKH''"
    by code_simp
  then show ?thesis
    using base64_roundtrip [of "[0xFF, 0x00, 0x7A]" 3 "\<lambda>_. True"] by auto
qed

text \<open>C37. Decoding a text of odd length is undefined behaviour: the loop writes
  \<open>size / 2 + 1\<close> bytes into a buffer of \<open>size / 2\<close> bytes.  Texts of even length never
  overrun.\<close>

theorem base64_decode_overruns_iff_odd:
  assumes "\<And>n. mem_ok n"
  shows "sdmbn_base64_decode mem_ok (Some str) = Undef \<longleftrightarrow> odd (length str)"
proof -
  have "(length str + 1) div 2 > length str div 2 \<longleftrightarrow> odd (length str)" by presburger
  then show ?thesis
    using assms by (simp add: sdmbn_base64_decode_def Let_def length_decode_loop)
qed

theorem base64_decode_overruns_witness:
  "sdmbn_base64_decode (\<lambda>_. True) (Some ''ABC'') = Undef"
  using base64_decode_overruns_iff_odd [of "\<lambda>_. True" "''ABC''"] by simp

end
