(* ===== verification/Sdmbn_Json.thy ===== *)
theory Sdmbn_Json
  imports Sdmbn_Base64
begin

text \<open>
  The message layer of the shared library, \<^verbatim>\<open>shared/SDMBNJson.c\<close>: flow keys and messages as
  JSON objects.  The JSON library itself (json-c) is not part of the sources, so its functions
  are a parameter, the record \<open>json_c\<close>; the locale \<open>json_c_laws\<close> states what the sources rely on
  (an added member is found again, integers and strings read back).  The address functions of
  the C library are modelled here because a flow key carries addresses as dotted text.

  The main result is that parsing a composed flow key gives the key back up to the fields that
  its wildcard bits switch off.
\<close>

section \<open>The JSON library as a parameter\<close>

record 'j json_c =
  json_object_new_object :: 'j
  json_object_object_add :: "'j \<Rightarrow> string \<Rightarrow> 'j \<Rightarrow> 'j"
  json_object_object_get :: "'j \<Rightarrow> string \<Rightarrow> 'j option"
  json_object_new_int :: "c_int \<Rightarrow> 'j"
  json_object_new_string :: "string \<Rightarrow> 'j"
  json_object_get_int :: "'j \<Rightarrow> c_int"
  json_object_get_string :: "'j \<Rightarrow> string"
  json_object_to_json_string :: "'j \<Rightarrow> string"
  json_tokener_parse :: "string \<Rightarrow> 'j option"

section \<open>Dotted addresses (C library)\<close>

definition digit_char :: "nat \<Rightarrow> char" where
  "digit_char d = char_of (48 + d)"

fun show_dec :: "nat \<Rightarrow> string" where
  "show_dec n = (if n < 10 then [digit_char n] else show_dec (n div 10) @ [digit_char (n mod 10)])"

declare show_dec.simps [simp del]

definition inet_ntoa :: "platform \<Rightarrow> u32 \<Rightarrow> string" where
  "inet_ntoa P s_addr =
     (case map (\<lambda>b. show_dec (unat b)) (native_bytes32 P s_addr) of
        [a, b, c, d] \<Rightarrow> a @ ''.'' @ b @ ''.'' @ c @ ''.'' @ d
      | _ \<Rightarrow> [])"

definition digit_val :: "char \<Rightarrow> nat" where
  "digit_val c =
     (let n = of_char c in
      if 48 \<le> n \<and> n \<le> 57 then n - 48
      else if 97 \<le> n \<and> n \<le> 102 then n - 87
      else if 65 \<le> n \<and> n \<le> 70 then n - 55
      else 99)"

definition digits_in_base :: "nat \<Rightarrow> string \<Rightarrow> nat option" where
  "digits_in_base base ds =
     (if ds \<noteq> [] \<and> list_all (\<lambda>c. digit_val c < base) ds
      then Some (foldl (\<lambda>acc c. acc * base + digit_val c) 0 ds) else None)"

text \<open>A part of an address is a C integer constant: decimal, octal or hexadecimal.\<close>

definition inet_part :: "string \<Rightarrow> nat option" where
  "inet_part s =
     (case s of
        [] \<Rightarrow> None
      | c # ds \<Rightarrow>
          if c = CHR ''0'' then
            (case ds of
               [] \<Rightarrow> Some 0
             | x # hs \<Rightarrow> if x = CHR ''x'' \<or> x = CHR ''X'' then digits_in_base 16 hs
                        else digits_in_base 8 ds)
          else digits_in_base 10 s)"

fun split_dots :: "string \<Rightarrow> string list" where
  "split_dots [] = [[]]"
| "split_dots (c # cs) =
     (if c = CHR ''.'' then [] # split_dots cs
      else (case split_dots cs of [] \<Rightarrow> [[c]] | p # ps \<Rightarrow> (c # p) # ps))"

definition is_space :: "char \<Rightarrow> bool" where
  "is_space c \<longleftrightarrow> (let n = of_char c :: nat in n = 32 \<or> (9 \<le> n \<and> n \<le> 13))"

text \<open>One to four parts; the last fills the remaining bytes.  The value is stored in network
  order.  \<open>None\<close> is the failure result, which leaves the address untouched.\<close>

definition inet_aton :: "platform \<Rightarrow> string \<Rightarrow> u32 option" where
  "inet_aton P str =
     (let parts = map inet_part (split_dots (takeWhile (\<lambda>c. \<not> is_space c) str)) in
      if None \<in> set parts then None else
      (case map the parts of
         [a] \<Rightarrow> if a < 2 ^ 32 then Some (htonl P (word_of_nat a)) else None
       | [a, b] \<Rightarrow> if a < 256 \<and> b < 2 ^ 24
           then Some (htonl P (word_of_nat (a * 2 ^ 24 + b))) else None
       | [a, b, c] \<Rightarrow> if a < 256 \<and> b < 256 \<and> c < 2 ^ 16
           then Some (htonl P (word_of_nat (a * 2 ^ 24 + b * 2 ^ 16 + c))) else None
       | [a, b, c, d] \<Rightarrow> if a < 256 \<and> b < 256 \<and> c < 256 \<and> d < 256
           then Some (htonl P (be32 (word_of_nat a) (word_of_nat b) (word_of_nat c) (word_of_nat d)))
           else None
       | _ \<Rightarrow> None))"

section \<open>Composing and parsing a flow key\<close>

definition json_add_unless :: "'j json_c \<Rightarrow> bool \<Rightarrow> string \<Rightarrow> 'j \<Rightarrow> 'j \<Rightarrow> 'j" where
  "json_add_unless J skip k v field =
     (if skip then field else json_object_object_add J field k v)"

definition json_compose_perflow_key :: "'j json_c \<Rightarrow> platform \<Rightarrow> PerflowKey \<Rightarrow> 'j" where
  "json_compose_perflow_key J P key =
     (let jint = json_object_new_int J; str = json_object_new_string J;
          wild = flag_set (wildcards key);
          field = json_object_new_object J;
          field = json_add_unless J (wild WILDCARD_DL_TYPE) ''dl_type''
                    (jint (ucast (dl_type key))) field;
          field = json_add_unless J (wild WILDCARD_NW_SRC) ''nw_src''
                    (str (inet_ntoa P (nw_src key))) field;
          field = json_add_unless J (wild WILDCARD_NW_SRC_MASK) ''nw_src_mask''
                    (jint (nw_src_mask key)) field;
          field = json_add_unless J (wild WILDCARD_NW_DST) ''nw_dst''
                    (str (inet_ntoa P (nw_dst key))) field;
          field = json_add_unless J (wild WILDCARD_NW_DST_MASK) ''nw_dst_mask''
                    (jint (nw_dst_mask key)) field;
          field = json_add_unless J (wild WILDCARD_NW_PROTO) ''nw_proto''
                    (jint (ucast (nw_proto key))) field;
          field = json_add_unless J (wild WILDCARD_TP_SRC) ''tp_src''
                    (jint (ucast (ntohs P (tp_src key)))) field;
          field = json_add_unless J (wild WILDCARD_TP_DST) ''tp_dst''
                    (jint (ucast (ntohs P (tp_dst key)))) field
      in json_add_unless J (wild WILDCARD_TP_SRC \<and> wild WILDCARD_TP_DST) ''tp_flip''
           (jint (ucast (tp_flip key))) field)"

text \<open>One field of \<^verbatim>\<open>json_parse_perflow_key\<close>: store the member, or set the wildcard bit when
  the object has no such member.\<close>

definition json_parse_field ::
  "'j json_c \<Rightarrow> 'j \<Rightarrow> string \<Rightarrow> ('j \<Rightarrow> PerflowKey \<Rightarrow> PerflowKey) \<Rightarrow> u8 \<Rightarrow> PerflowKey \<Rightarrow> PerflowKey" where
  "json_parse_field J field name store wild key =
     (case json_object_object_get J field name of
        Some v \<Rightarrow> store v key
      | None \<Rightarrow> key\<lparr>wildcards := wildcards key OR wild\<rparr>)"

definition parse_addr :: "'j json_c \<Rightarrow> platform \<Rightarrow> 'j \<Rightarrow> u32" where
  "parse_addr J P v =
     (case inet_aton P (json_object_get_string J v) of None \<Rightarrow> 0 | Some a \<Rightarrow> a)"

definition json_parse_perflow_key :: "'j json_c \<Rightarrow> platform \<Rightarrow> 'j \<Rightarrow> PerflowKey" where
  "json_parse_perflow_key J P field =
     (let get = json_object_get_int J;
          key = zero_key;
          key = json_parse_field J field ''dl_type''
                  (\<lambda>v k. k\<lparr>dl_type := ucast (get v)\<rparr>) WILDCARD_DL_TYPE key;
          key = json_parse_field J field ''nw_src''
                  (\<lambda>v k. k\<lparr>nw_src := parse_addr J P v\<rparr>) WILDCARD_NW_SRC key;
          key = json_parse_field J field ''nw_src_mask''
                  (\<lambda>v k. k\<lparr>nw_src_mask := get v\<rparr>) WILDCARD_NW_SRC_MASK key;
          key = json_parse_field J field ''nw_dst''
                  (\<lambda>v k. k\<lparr>nw_dst := parse_addr J P v\<rparr>) WILDCARD_NW_DST key;
          key = json_parse_field J field ''nw_dst_mask''
                  (\<lambda>v k. k\<lparr>nw_dst_mask := get v\<rparr>) WILDCARD_NW_DST_MASK key;
          key = json_parse_field J field ''nw_proto''
                  (\<lambda>v k. k\<lparr>nw_proto := ucast (get v)\<rparr>) WILDCARD_NW_PROTO key;
          key = json_parse_field J field ''tp_src''
                  (\<lambda>v k. k\<lparr>tp_src := htons P (ucast (get v))\<rparr>) WILDCARD_TP_SRC key;
          key = json_parse_field J field ''tp_dst''
                  (\<lambda>v k. k\<lparr>tp_dst := htons P (ucast (get v))\<rparr>) WILDCARD_TP_DST key
      in case json_object_object_get J field ''tp_flip'' of
           Some v \<Rightarrow> key\<lparr>tp_flip := ucast (get v)\<rparr>
         | None \<Rightarrow> key\<lparr>tp_flip := 0\<rparr>)"

section \<open>Address lemmas\<close>

lemma digit_char_props:
  assumes "d < 10"
  shows "digit_val (digit_char d) = d" "\<not> is_space (digit_char d)" "digit_char d \<noteq> CHR ''.''"
    "digit_char d = CHR ''0'' \<longleftrightarrow> d = 0"
proof -
  have code: "of_char (digit_char d) = 48 + d"
    using assms by (simp add: digit_char_def of_char_of)
  then show "digit_val (digit_char d) = d" "\<not> is_space (digit_char d)"
    using assms by (simp_all add: digit_val_def is_space_def)
  have "of_char CHR ''.'' = (46 :: nat)" "of_char CHR ''0'' = (48 :: nat)" by simp_all
  then show "digit_char d \<noteq> CHR ''.''" "digit_char d = CHR ''0'' \<longleftrightarrow> d = 0"
    using code assms by (metis add_cancel_left_right of_char_eq_iff numeral_eq_iff
        semiring_norm le_add1 not_numeral_le_zero)+
qed

lemma show_dec_digits: "set (show_dec n) \<subseteq> digit_char ` {..<10}"
proof (induction n rule: show_dec.induct)
  case (1 n)
  then show ?case by (auto simp: show_dec.simps [of n])
qed

lemma show_dec_digitE:
  assumes "c \<in> set (show_dec n)"
  obtains d where "d < 10" "c = digit_char d"
  using assms show_dec_digits [of n] by auto

lemma show_dec_not_Nil: "show_dec n \<noteq> []"
  by (subst show_dec.simps) simp

lemma foldl_show_dec: "foldl (\<lambda>acc c. acc * 10 + digit_val c) 0 (show_dec n) = n"
proof (induction n rule: show_dec.induct)
  case (1 n)
  then show ?case by (subst show_dec.simps) (simp add: digit_char_props)
qed

lemma hd_show_dec: "hd (show_dec n) = CHR ''0'' \<longleftrightarrow> n = 0"
proof (induction n rule: show_dec.induct)
  case (1 n)
  show ?case
  proof (cases "n < 10")
    case True
    then show ?thesis by (simp add: show_dec.simps [of n] digit_char_props)
  next
    case False
    with 1 show ?thesis
      by (simp add: show_dec.simps [of n] show_dec_not_Nil div_eq_0_iff)
  qed
qed

lemma inet_part_show_dec: "inet_part (show_dec n) = Some n"
proof -
  obtain c ds where cd: "show_dec n = c # ds"
    using show_dec_not_Nil by (cases "show_dec n") auto
  have all: "list_all (\<lambda>c. digit_val c < 10) (show_dec n)"
    by (auto simp: list_all_iff digit_char_props elim!: show_dec_digitE)
  show ?thesis
  proof (cases "n = 0")
    case True
    then show ?thesis
      using digit_char_props(4) [of 0] by (simp add: show_dec.simps inet_part_def)
  next
    case False
    then have "c \<noteq> CHR ''0''" using hd_show_dec [of n] cd by simp
    then have "inet_part (show_dec n) = digits_in_base 10 (show_dec n)"
      by (simp add: inet_part_def cd)
    also have "\<dots> = Some n"
      using all by (simp add: digits_in_base_def show_dec_not_Nil foldl_show_dec)
    finally show ?thesis .
  qed
qed

lemma split_dots_digits:
  "list_all (\<lambda>c. c \<noteq> CHR ''.'') ds \<Longrightarrow> split_dots ds = [ds]"
  by (induction ds) simp_all

lemma split_dots_part:
  "list_all (\<lambda>c. c \<noteq> CHR ''.'') ds \<Longrightarrow> split_dots (ds @ CHR ''.'' # rest) = ds # split_dots rest"
  by (induction ds) simp_all

lemma unat_less_256: "unat (b :: u8) < 256"
proof -
  have "unat b < 2 ^ LENGTH(8)" by (rule unsigned_less)
  then show ?thesis by simp
qed

lemma show_dec_plain:
  "list_all (\<lambda>c. c \<noteq> CHR ''.'') (show_dec n)"
  "takeWhile (\<lambda>c. \<not> is_space c) (show_dec n) = show_dec n"
  "takeWhile (\<lambda>c. \<not> is_space c) (show_dec n @ rest) =
     show_dec n @ takeWhile (\<lambda>c. \<not> is_space c) rest"
proof -
  have *: "\<forall>c \<in> set (show_dec n). c \<noteq> CHR ''.'' \<and> \<not> is_space c"
    by (auto simp: digit_char_props elim!: show_dec_digitE)
  then show "list_all (\<lambda>c. c \<noteq> CHR ''.'') (show_dec n)" by (simp add: list_all_iff)
  from * show "takeWhile (\<lambda>c. \<not> is_space c) (show_dec n) = show_dec n"
    "takeWhile (\<lambda>c. \<not> is_space c) (show_dec n @ rest) =
     show_dec n @ takeWhile (\<lambda>c. \<not> is_space c) rest"
    by (simp_all add: takeWhile_eq_all_conv takeWhile_append2)
qed

lemma inet_aton_ntoa [simp]: "inet_aton P (inet_ntoa P w) = Some w"
proof -
  obtain a b c d where w: "native_bytes32 P w = [a, b, c, d]"
    by (cases "big_endian P") (auto simp: native_bytes32_def bytes_be32_def)
  have dot: "\<not> is_space CHR ''.''" by (simp add: is_space_def)
  have "htonl P (be32 a b c d) = w"
    using native32_native_bytes32 [OF w] ntohl_native32 [of P a b c d]
    by (metis ntohl_htonl(2))
  then show ?thesis
    by (simp add: inet_aton_def inet_ntoa_def w show_dec_plain inet_part_show_dec dot split_dots_part
        split_dots_digits unat_less_256)
qed

section \<open>The laws of the JSON library and the round trip of a flow key\<close>

locale json_c_laws =
  fixes J :: "'j json_c"
  assumes get_new: "json_object_object_get J (json_object_new_object J) k = None"
    and get_add: "json_object_object_get J (json_object_object_add J obj k v) k' =
      (if k' = k then Some v else json_object_object_get J obj k')"
    and get_int_new_int: "json_object_get_int J (json_object_new_int J i) = i"
    and get_string_new_string: "json_object_get_string J (json_object_new_string J str) = str"
begin

lemmas json_laws = get_new get_add get_int_new_int get_string_new_string

lemma get_add_unless:
  "json_object_object_get J (json_add_unless J skip k v obj) k' =
     (if k' = k \<and> \<not> skip then Some v else json_object_object_get J obj k')"
  by (simp add: json_add_unless_def json_laws)

end

text \<open>The key with every field that its wildcard bits switch off cleared; \<open>tp_flip\<close> counts
  only while at least one of the two ports does.\<close>

definition key_norm :: "PerflowKey \<Rightarrow> PerflowKey" where
  "key_norm key =
     (let wild = flag_set (wildcards key) in
      \<lparr>nw_src = (if wild WILDCARD_NW_SRC then 0 else nw_src key),
       nw_src_mask = (if wild WILDCARD_NW_SRC_MASK then 0 else nw_src_mask key),
       nw_dst = (if wild WILDCARD_NW_DST then 0 else nw_dst key),
       nw_dst_mask = (if wild WILDCARD_NW_DST_MASK then 0 else nw_dst_mask key),
       tp_src = (if wild WILDCARD_TP_SRC then 0 else tp_src key),
       tp_dst = (if wild WILDCARD_TP_DST then 0 else tp_dst key),
       dl_type = (if wild WILDCARD_DL_TYPE then 0 else dl_type key),
       nw_proto = (if wild WILDCARD_NW_PROTO then 0 else nw_proto key),
       wildcards = wildcards key,
       tp_flip = (if wild WILDCARD_TP_SRC \<and> wild WILDCARD_TP_DST then 0 else tp_flip key)\<rparr>)"

lemma parse_field_other:
  "(\<And>v k. sel (store v k) = sel k) \<Longrightarrow> (\<And>k w. sel (k\<lparr>wildcards := w\<rparr>) = sel k) \<Longrightarrow>
   sel (json_parse_field J field n store w key) = sel key"
  by (simp add: json_parse_field_def split: option.splits)

lemma parse_field_wildcards:
  "(\<And>v k. wildcards (store v k) = wildcards k) \<Longrightarrow>
   wildcards (json_parse_field J field n store w key) =
     wildcards key OR (if json_object_object_get J field n = None then w else 0)"
  by (simp add: json_parse_field_def split: option.splits)

lemma if_None_eq: "(if c then None else Some x) = None \<longleftrightarrow> c"
  by simp

lemma case_wildcards:
  "wildcards (case x of None \<Rightarrow> key\<lparr>tp_flip := a\<rparr> | Some v \<Rightarrow> key\<lparr>tp_flip := b v\<rparr>) = wildcards key"
  by (cases x) simp_all

lemma parse_field_own:
  "(\<And>k w. sel (k\<lparr>wildcards := w\<rparr>) = sel k) \<Longrightarrow>
   sel (json_parse_field J field n store w key) =
     (case json_object_object_get J field n of None \<Rightarrow> sel key | Some v \<Rightarrow> sel (store v key))"
  by (simp add: json_parse_field_def split: option.splits)

lemmas parse_field_frame =
  parse_field_other [where sel = nw_src] parse_field_other [where sel = nw_src_mask]
  parse_field_other [where sel = nw_dst] parse_field_other [where sel = nw_dst_mask]
  parse_field_other [where sel = tp_src] parse_field_other [where sel = tp_dst]
  parse_field_other [where sel = dl_type] parse_field_other [where sel = nw_proto]
  parse_field_other [where sel = tp_flip]

lemma wildcard_bits:
  "(if flag_set w WILDCARD_DL_TYPE then WILDCARD_DL_TYPE else 0)
   OR (if flag_set w WILDCARD_NW_SRC then WILDCARD_NW_SRC else 0)
   OR (if flag_set w WILDCARD_NW_SRC_MASK then WILDCARD_NW_SRC_MASK else 0)
   OR (if flag_set w WILDCARD_NW_DST then WILDCARD_NW_DST else 0)
   OR (if flag_set w WILDCARD_NW_DST_MASK then WILDCARD_NW_DST_MASK else 0)
   OR (if flag_set w WILDCARD_NW_PROTO then WILDCARD_NW_PROTO else 0)
   OR (if flag_set w WILDCARD_TP_SRC then WILDCARD_TP_SRC else 0)
   OR (if flag_set w WILDCARD_TP_DST then WILDCARD_TP_DST else 0) = w"
proof -
  have single: "flag_set w (push_bit i 1) = bit w i" if "i < 8" for i
  proof
    assume "flag_set w (push_bit i 1)"
    then obtain n where "bit (w AND push_bit i 1) n"
      unfolding flag_set_def by (metis bit_eqI bit_0_eq bot_apply bot_bool_def)
    then show "bit w i" by (auto simp: bit_simps)
  next
    assume "bit w i"
    then have "bit (w AND push_bit i 1) i" using that by (simp add: bit_simps)
    then show "flag_set w (push_bit i 1)" unfolding flag_set_def by (metis bit_0_eq bot_apply bot_bool_def)
  qed
  have flags: "flag_set w WILDCARD_DL_TYPE = bit w 0" "flag_set w WILDCARD_NW_SRC = bit w 1"
    "flag_set w WILDCARD_NW_DST = bit w 2" "flag_set w WILDCARD_NW_PROTO = bit w 3"
    "flag_set w WILDCARD_TP_SRC = bit w 4" "flag_set w WILDCARD_TP_DST = bit w 5"
    "flag_set w WILDCARD_NW_SRC_MASK = bit w 6" "flag_set w WILDCARD_NW_DST_MASK = bit w 7"
    using single [of 0] single [of 1] single [of 2] single [of 3] single [of 4] single [of 5]
      single [of 6] single [of 7] by (simp_all add: wildcard_defs)
  show ?thesis
  proof (rule bit_word_eqI)
    fix n assume "n < LENGTH(8)"
    then have "n \<in> {0, 1, 2, 3, 4, 5, 6, 7}" by auto
    then show "bit ((if flag_set w WILDCARD_DL_TYPE then WILDCARD_DL_TYPE else 0)
      OR (if flag_set w WILDCARD_NW_SRC then WILDCARD_NW_SRC else 0)
      OR (if flag_set w WILDCARD_NW_SRC_MASK then WILDCARD_NW_SRC_MASK else 0)
      OR (if flag_set w WILDCARD_NW_DST then WILDCARD_NW_DST else 0)
      OR (if flag_set w WILDCARD_NW_DST_MASK then WILDCARD_NW_DST_MASK else 0)
      OR (if flag_set w WILDCARD_NW_PROTO then WILDCARD_NW_PROTO else 0)
      OR (if flag_set w WILDCARD_TP_SRC then WILDCARD_TP_SRC else 0)
      OR (if flag_set w WILDCARD_TP_DST then WILDCARD_TP_DST else 0)) n = bit w n"
      unfolding flags by (elim insertE; simp add: wildcard_defs bit_simps)
  qed
qed

context json_c_laws
begin

text \<open>What each member of a composed key reads back as.\<close>

lemma get_compose_perflow_key:
  fixes key P
  defines "field \<equiv> json_compose_perflow_key J P key" and "wild \<equiv> flag_set (wildcards key)"
  shows "json_object_object_get J field ''dl_type'' =
      (if wild WILDCARD_DL_TYPE then None else Some (json_object_new_int J (ucast (dl_type key))))"
    "json_object_object_get J field ''nw_src'' =
      (if wild WILDCARD_NW_SRC then None else Some (json_object_new_string J (inet_ntoa P (nw_src key))))"
    "json_object_object_get J field ''nw_src_mask'' =
      (if wild WILDCARD_NW_SRC_MASK then None else Some (json_object_new_int J (nw_src_mask key)))"
    "json_object_object_get J field ''nw_dst'' =
      (if wild WILDCARD_NW_DST then None else Some (json_object_new_string J (inet_ntoa P (nw_dst key))))"
    "json_object_object_get J field ''nw_dst_mask'' =
      (if wild WILDCARD_NW_DST_MASK then None else Some (json_object_new_int J (nw_dst_mask key)))"
    "json_object_object_get J field ''nw_proto'' =
      (if wild WILDCARD_NW_PROTO then None else Some (json_object_new_int J (ucast (nw_proto key))))"
    "json_object_object_get J field ''tp_src'' =
      (if wild WILDCARD_TP_SRC then None else Some (json_object_new_int J (ucast (ntohs P (tp_src key)))))"
    "json_object_object_get J field ''tp_dst'' =
      (if wild WILDCARD_TP_DST then None else Some (json_object_new_int J (ucast (ntohs P (tp_dst key)))))"
    "json_object_object_get J field ''tp_flip'' =
      (if wild WILDCARD_TP_SRC \<and> wild WILDCARD_TP_DST then None
       else Some (json_object_new_int J (ucast (tp_flip key))))"
  by (simp_all add: field_def wild_def json_compose_perflow_key_def Let_def get_add_unless json_laws)

lemma perflow_key_roundtrip:
  "json_parse_perflow_key J P (json_compose_perflow_key J P key) = key_norm key"
proof (rule PerflowKey.equality)
  let ?parsed = "json_parse_perflow_key J P (json_compose_perflow_key J P key)"
  note defs = json_parse_perflow_key_def Let_def key_norm_def get_compose_perflow_key
    zero_key_def json_laws parse_addr_def
  show "nw_src ?parsed = nw_src (key_norm key)"
    by (simp add: defs parse_field_frame parse_field_own [where sel = nw_src and n = "''nw_src''"])
  show "nw_src_mask ?parsed = nw_src_mask (key_norm key)"
    by (simp add: defs parse_field_frame parse_field_own [where sel = nw_src_mask and n = "''nw_src_mask''"])
  show "nw_dst ?parsed = nw_dst (key_norm key)"
    by (simp add: defs parse_field_frame parse_field_own [where sel = nw_dst and n = "''nw_dst''"])
  show "nw_dst_mask ?parsed = nw_dst_mask (key_norm key)"
    by (simp add: defs parse_field_frame parse_field_own [where sel = nw_dst_mask and n = "''nw_dst_mask''"])
  show "tp_src ?parsed = tp_src (key_norm key)"
    by (simp add: defs parse_field_frame parse_field_own [where sel = tp_src and n = "''tp_src''"])
  show "tp_dst ?parsed = tp_dst (key_norm key)"
    by (simp add: defs parse_field_frame parse_field_own [where sel = tp_dst and n = "''tp_dst''"])
  show "dl_type ?parsed = dl_type (key_norm key)"
    by (simp add: defs parse_field_frame parse_field_own [where sel = dl_type and n = "''dl_type''"])
  show "nw_proto ?parsed = nw_proto (key_norm key)"
    by (simp add: defs parse_field_frame parse_field_own [where sel = nw_proto and n = "''nw_proto''"])
  show "tp_flip ?parsed = tp_flip (key_norm key)"
    by (simp add: defs)
  show "wildcards ?parsed = wildcards (key_norm key)"
    using wildcard_bits [of "wildcards key"]
    by (simp add: defs parse_field_wildcards if_None_eq or.assoc case_wildcards split del: if_split)
qed simp

end

section \<open>A concrete JSON library\<close>

text \<open>Objects as trees with an association list of members, newest first; it satisfies the laws
  and serves to evaluate the model on concrete inputs.\<close>

datatype json_value = JInt c_int | JStr string | JObj "(string \<times> json_value) list"

fun tree_get :: "json_value \<Rightarrow> string \<Rightarrow> json_value option" where
  "tree_get (JObj kvs) k = map_of kvs k"
| "tree_get _ k = None"

fun tree_add :: "json_value \<Rightarrow> string \<Rightarrow> json_value \<Rightarrow> json_value" where
  "tree_add (JObj kvs) k v = JObj ((k, v) # kvs)"
| "tree_add _ k v = JObj [(k, v)]"

fun tree_int :: "json_value \<Rightarrow> c_int" where
  "tree_int (JInt i) = i"
| "tree_int _ = 0"

fun tree_string :: "json_value \<Rightarrow> string" where
  "tree_string (JStr str) = str"
| "tree_string _ = []"

definition json_tree :: "json_value json_c" where
  "json_tree = \<lparr>json_object_new_object = JObj [], json_object_object_add = tree_add,
     json_object_object_get = tree_get, json_object_new_int = JInt, json_object_new_string = JStr,
     json_object_get_int = tree_int, json_object_get_string = tree_string,
     json_object_to_json_string = (\<lambda>_. ''{}''), json_tokener_parse = (\<lambda>_. Some (JObj []))\<rparr>"

lemma tree_get_add:
  "tree_get (tree_add obj k v) k' = (if k' = k then Some v else tree_get obj k')"
  by (cases obj) simp_all

interpretation jt: json_c_laws json_tree
  by unfold_locales (simp_all add: json_tree_def tree_get_add)

section \<open>The round trip of a flow key\<close>

text \<open>C25. A flow key survives the trip through JSON: parsing the object that
  \<^verbatim>\<open>json_compose_perflow_key\<close> builds gives the key with exactly the wildcarded fields cleared,
  on either byte order and for any JSON library that satisfies the laws.\<close>

theorem perflow_key_json_roundtrip:
  assumes "json_c_laws J"
  shows "json_parse_perflow_key J P (json_compose_perflow_key J P key) = key_norm key"
  by (rule json_c_laws.perflow_key_roundtrip [OF assms])

theorem perflow_key_json_roundtrip_witness:
  "json_c_laws json_tree \<and>
   json_parse_perflow_key json_tree \<lparr>big_endian = False, char_signed = True\<rparr>
     (json_compose_perflow_key json_tree \<lparr>big_endian = False, char_signed = True\<rparr>
       (zero_key\<lparr>nw_src := 0x0A000133, tp_src := 80, wildcards := 0xEC\<rparr>))
   = key_norm (zero_key\<lparr>nw_src := 0x0A000133, tp_src := 80, wildcards := 0xEC\<rparr>)"
  using perflow_key_json_roundtrip [OF jt.json_c_laws_axioms] jt.json_c_laws_axioms by blast

end
