(* ===== verification/Sdmbn_Messages.thy ===== *)
theory Sdmbn_Messages
  imports Sdmbn_Json
begin

text \<open>
  The messages of \<^verbatim>\<open>shared/SDMBNJson.c\<close>: acknowledgements, errors, exported state, the greeting
  and the reprocess event that carries a packet.  Every message is an object built by adding
  its members in the order of the source.  The lemmas give what the members read back as.
\<close>

section \<open>Field names and message types\<close>

abbreviation FIELD_ID :: string where "FIELD_ID \<equiv> ''id''"
abbreviation FIELD_TYPE :: string where "FIELD_TYPE \<equiv> ''type''"
abbreviation FIELD_KEY :: string where "FIELD_KEY \<equiv> ''key''"
abbreviation FIELD_RAISEEVENTS :: string where "FIELD_RAISEEVENTS \<equiv> ''raiseEvents''"
abbreviation FIELD_HASHKEY :: string where "FIELD_HASHKEY \<equiv> ''hashkey''"
abbreviation FIELD_STATE :: string where "FIELD_STATE \<equiv> ''state''"
abbreviation FIELD_SEQ :: string where "FIELD_SEQ \<equiv> ''seq''"
abbreviation FIELD_COUNT :: string where "FIELD_COUNT \<equiv> ''count''"
abbreviation FIELD_CAUSE :: string where "FIELD_CAUSE \<equiv> ''cause''"
abbreviation FIELD_HOST :: string where "FIELD_HOST \<equiv> ''host''"
abbreviation FIELD_HEADER :: string where "FIELD_HEADER \<equiv> ''header''"
abbreviation FIELD_PACKET :: string where "FIELD_PACKET \<equiv> ''packet''"
abbreviation FIELD_PID :: string where "FIELD_PID \<equiv> ''pid''"
abbreviation FIELD_DELTYPE :: string where "FIELD_DELTYPE \<equiv> ''deltype''"
abbreviation FIELD_ACTION :: string where "FIELD_ACTION \<equiv> ''action''"

section \<open>Composing messages\<close>

text \<open>An object with the given members, added first to last.\<close>

definition json_members :: "'j json_c \<Rightarrow> (string \<times> 'j) list \<Rightarrow> 'j" where
  "json_members J kvs =
     foldl (\<lambda>obj (k, v). json_object_object_add J obj k v) (json_object_new_object J) kvs"

definition json_compose_perflow_state ::
  "'j json_c \<Rightarrow> platform \<Rightarrow> c_int \<Rightarrow> PerflowKey option \<Rightarrow> string option \<Rightarrow> c_int \<Rightarrow> c_int \<Rightarrow> 'j option" where
  "json_compose_perflow_state J P i key state hashkey seq =
     (case (key, state) of
        (Some k, Some st) \<Rightarrow> Some (json_members J
          [(FIELD_ID, json_object_new_int J i),
           (FIELD_TYPE, json_object_new_string J ''state-perflow''),
           (FIELD_KEY, json_compose_perflow_key J P k),
           (FIELD_HASHKEY, json_object_new_int J hashkey),
           (FIELD_STATE, json_object_new_string J st),
           (FIELD_SEQ, json_object_new_int J seq)])
      | _ \<Rightarrow> None)"

definition json_compose_multiflow_state ::
  "'j json_c \<Rightarrow> platform \<Rightarrow> c_int \<Rightarrow> PerflowKey option \<Rightarrow> string option \<Rightarrow> c_int \<Rightarrow> c_int \<Rightarrow> 'j option" where
  "json_compose_multiflow_state J P i key state hashkey seq =
     (case (key, state) of
        (Some k, Some st) \<Rightarrow> Some (json_members J
          [(FIELD_ID, json_object_new_int J i),
           (FIELD_TYPE, json_object_new_string J ''state-multiflow''),
           (FIELD_KEY, json_compose_perflow_key J P k),
           (FIELD_HASHKEY, json_object_new_int J hashkey),
           (FIELD_STATE, json_object_new_string J st),
           (FIELD_SEQ, json_object_new_int J seq)])
      | _ \<Rightarrow> None)"

definition json_compose_allflows_state ::
  "'j json_c \<Rightarrow> c_int \<Rightarrow> string option \<Rightarrow> c_int \<Rightarrow> 'j option" where
  "json_compose_allflows_state J i state seq =
     (case state of
        Some st \<Rightarrow> Some (json_members J
          [(FIELD_ID, json_object_new_int J i),
           (FIELD_TYPE, json_object_new_string J ''state-allflows''),
           (FIELD_STATE, json_object_new_string J st),
           (FIELD_SEQ, json_object_new_int J seq)])
      | None \<Rightarrow> None)"

definition json_compose_config_state ::
  "'j json_c \<Rightarrow> c_int \<Rightarrow> string option \<Rightarrow> c_int \<Rightarrow> 'j option" where
  "json_compose_config_state J i state seq =
     (case state of
        Some st \<Rightarrow> Some (json_members J
          [(FIELD_ID, json_object_new_int J i),
           (FIELD_TYPE, json_object_new_string J ''state-config''),
           (FIELD_STATE, json_object_new_string J st),
           (FIELD_SEQ, json_object_new_int J seq)])
      | None \<Rightarrow> None)"

text \<open>\<open>hostname\<close> and \<open>pid\<close> are what \<^verbatim>\<open>gethostname\<close> and \<^verbatim>\<open>getpid\<close> return.\<close>

definition json_compose_syn :: "'j json_c \<Rightarrow> string \<Rightarrow> c_int \<Rightarrow> 'j" where
  "json_compose_syn J hostname pid = json_members J
     [(FIELD_TYPE, json_object_new_string J ''syn''),
      (FIELD_HOST, json_object_new_string J hostname),
      (FIELD_PID, json_object_new_int J pid)]"

definition json_compose_discover :: "'j json_c \<Rightarrow> string \<Rightarrow> c_int \<Rightarrow> 'j" where
  "json_compose_discover J hostname pid = json_members J
     [(FIELD_TYPE, json_object_new_string J ''discover''),
      (FIELD_HOST, json_object_new_string J hostname),
      (FIELD_PID, json_object_new_int J pid)]"

definition json_compose_delete_perflow_ack :: "'j json_c \<Rightarrow> c_int \<Rightarrow> c_int \<Rightarrow> 'j" where
  "json_compose_delete_perflow_ack J i count = json_members J
     [(FIELD_ID, json_object_new_int J i),
      (FIELD_TYPE, json_object_new_string J ''delete-perflow-ack''),
      (FIELD_COUNT, json_object_new_int J count)]"

definition json_compose_delete_multiflow_ack :: "'j json_c \<Rightarrow> c_int \<Rightarrow> c_int \<Rightarrow> 'j" where
  "json_compose_delete_multiflow_ack J i count = json_members J
     [(FIELD_ID, json_object_new_int J i),
      (FIELD_TYPE, json_object_new_string J ''delete-multiflow-ack''),
      (FIELD_COUNT, json_object_new_int J count)]"

definition json_compose_get_perflow_ack :: "'j json_c \<Rightarrow> c_int \<Rightarrow> c_int \<Rightarrow> 'j" where
  "json_compose_get_perflow_ack J i count = json_members J
     [(FIELD_ID, json_object_new_int J i),
      (FIELD_TYPE, json_object_new_string J ''get-perflow-ack''),
      (FIELD_COUNT, json_object_new_int J count)]"

definition json_compose_put_perflow_ack :: "'j json_c \<Rightarrow> c_int \<Rightarrow> c_int \<Rightarrow> 'j" where
  "json_compose_put_perflow_ack J i hashkey = json_members J
     [(FIELD_ID, json_object_new_int J i),
      (FIELD_TYPE, json_object_new_string J ''put-perflow-ack''),
      (FIELD_HASHKEY, json_object_new_int J hashkey)]"

definition json_compose_get_multiflow_ack :: "'j json_c \<Rightarrow> c_int \<Rightarrow> c_int \<Rightarrow> 'j" where
  "json_compose_get_multiflow_ack J i count = json_members J
     [(FIELD_ID, json_object_new_int J i),
      (FIELD_TYPE, json_object_new_string J ''get-multiflow-ack''),
      (FIELD_COUNT, json_object_new_int J count)]"

definition json_compose_put_multiflow_ack :: "'j json_c \<Rightarrow> c_int \<Rightarrow> c_int \<Rightarrow> 'j" where
  "json_compose_put_multiflow_ack J i hashkey = json_members J
     [(FIELD_ID, json_object_new_int J i),
      (FIELD_TYPE, json_object_new_string J ''put-multiflow-ack''),
      (FIELD_HASHKEY, json_object_new_int J hashkey)]"

definition json_compose_get_allflows_ack :: "'j json_c \<Rightarrow> c_int \<Rightarrow> c_int \<Rightarrow> 'j" where
  "json_compose_get_allflows_ack J i count = json_members J
     [(FIELD_ID, json_object_new_int J i),
      (FIELD_TYPE, json_object_new_string J ''get-allflows-ack''),
      (FIELD_COUNT, json_object_new_int J count)]"

definition json_compose_put_allflows_ack :: "'j json_c \<Rightarrow> c_int \<Rightarrow> c_int \<Rightarrow> 'j" where
  "json_compose_put_allflows_ack J i hashkey = json_members J
     [(FIELD_ID, json_object_new_int J i),
      (FIELD_TYPE, json_object_new_string J ''put-allflows-ack''),
      (FIELD_HASHKEY, json_object_new_int J hashkey)]"

definition json_compose_get_config_ack :: "'j json_c \<Rightarrow> c_int \<Rightarrow> c_int \<Rightarrow> 'j" where
  "json_compose_get_config_ack J i count = json_members J
     [(FIELD_ID, json_object_new_int J i),
      (FIELD_TYPE, json_object_new_string J ''get-config-ack''),
      (FIELD_COUNT, json_object_new_int J count)]"

definition json_compose_put_config_ack :: "'j json_c \<Rightarrow> c_int \<Rightarrow> c_int \<Rightarrow> 'j" where
  "json_compose_put_config_ack J i hashkey = json_members J
     [(FIELD_ID, json_object_new_int J i),
      (FIELD_TYPE, json_object_new_string J ''put-config-ack''),
      (FIELD_HASHKEY, json_object_new_int J hashkey)]"

definition json_compose_events_ack :: "'j json_c \<Rightarrow> c_int \<Rightarrow> 'j" where
  "json_compose_events_ack J i = json_members J
     [(FIELD_ID, json_object_new_int J i),
      (FIELD_TYPE, json_object_new_string J ''events-ack'')]"

abbreviation ERROR_MALFORMED :: string where "ERROR_MALFORMED \<equiv> ''malformed''"
abbreviation ERROR_UNSUPPORTED :: string where "ERROR_UNSUPPORTED \<equiv> ''unsupported''"
abbreviation ERROR_INTERNAL :: string where "ERROR_INTERNAL \<equiv> ''internal-failure''"

definition json_compose_error :: "'j json_c \<Rightarrow> c_int \<Rightarrow> c_int \<Rightarrow> string \<Rightarrow> 'j" where
  "json_compose_error J i hashkey reason = json_members J
     [(FIELD_ID, json_object_new_int J i),
      (FIELD_TYPE, json_object_new_string J ''error''),
      (FIELD_HASHKEY, json_object_new_int J hashkey),
      (FIELD_CAUSE, json_object_new_string J reason)]"

section \<open>The reprocess event\<close>

text \<open>The bytes of a \<^verbatim>\<open>struct pcap_pkthdr\<close> in memory: two 64-bit words of the time stamp, then
  the two 32-bit lengths, all in native order.\<close>

definition native_bytes64 :: "platform \<Rightarrow> u64 \<Rightarrow> bytes" where
  "native_bytes64 P w =
     (let hi = native_bytes32 P (ucast (drop_bit 32 w)); lo = native_bytes32 P (ucast w)
      in if big_endian P then hi @ lo else lo @ hi)"

definition hdr_bytes :: "platform \<Rightarrow> pcap_pkthdr \<Rightarrow> bytes" where
  "hdr_bytes P hdr =
     native_bytes64 P (ts_sec hdr) @ native_bytes64 P (ts_usec hdr)
     @ native_bytes32 P (caplen hdr) @ native_bytes32 P (pktlen hdr)"

text \<open>Reading the structure back from memory; \<open>None\<close> when the memory is too short.\<close>

definition rd64 :: "platform \<Rightarrow> bytes \<Rightarrow> nat \<Rightarrow> u64 option" where
  "rd64 P buf i =
     (case (rd32 P buf i, rd32 P buf (i + 4)) of
        (Some a, Some b) \<Rightarrow>
          Some (if big_endian P then push_bit 32 (ucast a) OR ucast b
                else push_bit 32 (ucast b) OR ucast a)
      | _ \<Rightarrow> None)"

definition hdr_of_bytes :: "platform \<Rightarrow> bytes \<Rightarrow> pcap_pkthdr option" where
  "hdr_of_bytes P buf =
     (case (rd64 P buf 0, rd64 P buf 8, rd32 P buf 16, rd32 P buf 20) of
        (Some sec, Some usec, Some cl, Some l) \<Rightarrow>
          Some \<lparr>ts_sec = sec, ts_usec = usec, caplen = cl, pktlen = l\<rparr>
      | _ \<Rightarrow> None)"

text \<open>A blob that cannot be encoded (empty, or no memory) yields a null string, which
  \<^verbatim>\<open>json_object_new_string\<close> must not be given.\<close>

definition json_compose_base64_field ::
  "'j json_c \<Rightarrow> (int \<Rightarrow> bool) \<Rightarrow> bytes \<Rightarrow> c_int \<Rightarrow> 'j run" where
  "json_compose_base64_field J mem_ok blob sz =
     (case sdmbn_base64_encode mem_ok (Some blob) sz of
        None \<Rightarrow> Undef
      | Some encoded \<Rightarrow> Ret (json_object_new_string J encoded))"

definition json_compose_reprocess_event ::
  "'j json_c \<Rightarrow> platform \<Rightarrow> (int \<Rightarrow> bool) \<Rightarrow> c_int \<Rightarrow> c_int \<Rightarrow> pcap_pkthdr \<Rightarrow> bytes \<Rightarrow> 'j run" where
  "json_compose_reprocess_event J P mem_ok i hashkey hdr pkt =
     run_bind (json_compose_base64_field J mem_ok (hdr_bytes P hdr) 24) (\<lambda>hfield.
     run_bind (json_compose_base64_field J mem_ok pkt (caplen hdr)) (\<lambda>pfield.
       Ret (json_members J
         [(FIELD_TYPE, json_object_new_string J ''reprocess''),
          (FIELD_ID, json_object_new_int J i),
          (FIELD_HASHKEY, json_object_new_int J hashkey),
          (FIELD_HEADER, hfield),
          (FIELD_PACKET, pfield)])))"

section \<open>Sending\<close>

text \<open>\<^verbatim>\<open>json_send\<close> refuses a null message and otherwise writes it to the connection; the bytes
  it writes are the subject of the theory of connections.\<close>

definition json_send :: "'j option \<Rightarrow> c_int \<Rightarrow> ('nf, 'j) sdmbn \<Rightarrow> c_int \<times> ('nf, 'j) sdmbn" where
  "json_send msg conn s =
     (case msg of
        None \<Rightarrow> (-1, s)
      | Some m \<Rightarrow> (1, s\<lparr>s_sent := s_sent s @ [(conn, m)]\<rparr>))"

section \<open>Reading messages back\<close>

lemma native_bytes64_length [simp]: "length (native_bytes64 P w) = 8"
  by (simp add: native_bytes64_def Let_def)

lemma hdr_bytes_length [simp]: "length (hdr_bytes P hdr) = 24"
  by (simp add: hdr_bytes_def)

lemma rd32_native_bytes32:
  assumes "length pre = i"
  shows "rd32 P (pre @ native_bytes32 P w @ post) i = Some w"
proof -
  obtain a b c d where w: "native_bytes32 P w = [a, b, c, d]"
    by (cases "big_endian P") (auto simp: native_bytes32_def bytes_be32_def)
  with assms show ?thesis
    by (auto simp: rd32_def nth_append native32_native_bytes32 [OF w])
qed

lemma join_halves:
  "push_bit 32 (ucast (ucast (drop_bit 32 w) :: u32)) OR ucast (ucast w :: u32) = (w :: u64)"
  by (rule bit_word_eqI) (auto simp: bit_simps)

lemma rd64_native_bytes64:
  assumes "length pre = i"
  shows "rd64 P (pre @ native_bytes64 P w @ post) i = Some w"
proof (cases "big_endian P")
  case True
  with assms show ?thesis
    using rd32_native_bytes32 [OF assms, of P "ucast (drop_bit 32 w)" "native_bytes32 P (ucast w) @ post"]
      rd32_native_bytes32 [of "pre @ native_bytes32 P (ucast (drop_bit 32 w))" "i + 4" P "ucast w" post]
    by (simp add: rd64_def native_bytes64_def Let_def join_halves)
next
  case False
  with assms show ?thesis
    using rd32_native_bytes32 [OF assms, of P "ucast w" "native_bytes32 P (ucast (drop_bit 32 w)) @ post"]
      rd32_native_bytes32 [of "pre @ native_bytes32 P (ucast w)" "i + 4" P "ucast (drop_bit 32 w)" post]
    by (simp add: rd64_def native_bytes64_def Let_def join_halves)
qed

lemma hdr_of_hdr_bytes [simp]: "hdr_of_bytes P (hdr_bytes P hdr) = Some hdr"
proof -
  let ?a = "native_bytes64 P (ts_sec hdr)" and ?b = "native_bytes64 P (ts_usec hdr)"
    and ?c = "native_bytes32 P (caplen hdr)" and ?d = "native_bytes32 P (pktlen hdr)"
  have "rd64 P (hdr_bytes P hdr) 0 = Some (ts_sec hdr)"
    using rd64_native_bytes64 [of "[]" 0 P "ts_sec hdr" "?b @ ?c @ ?d"] by (simp add: hdr_bytes_def)
  moreover have "rd64 P (hdr_bytes P hdr) 8 = Some (ts_usec hdr)"
    using rd64_native_bytes64 [of ?a 8 P "ts_usec hdr" "?c @ ?d"] by (simp add: hdr_bytes_def)
  moreover have "rd32 P (hdr_bytes P hdr) 16 = Some (caplen hdr)"
    using rd32_native_bytes32 [of "?a @ ?b" 16 P "caplen hdr" ?d] by (simp add: hdr_bytes_def)
  moreover have "rd32 P (hdr_bytes P hdr) 20 = Some (pktlen hdr)"
    using rd32_native_bytes32 [of "?a @ ?b @ ?c" 20 P "pktlen hdr" "[]"] by (simp add: hdr_bytes_def)
  ultimately show ?thesis by (simp add: hdr_of_bytes_def)
qed

lemma json_send_sent: "s_sent (snd (json_send (Some m) c s)) = s_sent s @ [(c, m)]"
  by (simp add: json_send_def)

context json_c_laws
begin

lemma get_json_members:
  "json_object_object_get J (json_members J kvs) k = map_of (rev kvs) k"
proof (induction kvs rule: rev_induct)
  case Nil
  then show ?case by (simp add: json_members_def json_laws)
next
  case (snoc kv kvs)
  then show ?case by (cases kv) (simp add: json_members_def json_laws)
qed

end

end
