(* ===== verification/Sdmbn_Conn.thy ===== *)
theory Sdmbn_Conn
  imports Sdmbn_Messages
begin

text \<open>
  The byte level of a controller connection, \<^verbatim>\<open>shared/SDMBNConn.c\<close>: a message is written as a
  four-byte length in network order followed by its text, and read back with two loops around
  \<^verbatim>\<open>read\<close>.  The kernel side of a socket is the list of what successive arrivals deliver; a read
  of an exhausted list is end of file.  A loop that never returns is the value \<open>None\<close> of
  \<open>partial_function\<close>.

  Shown: whatever way the network cuts the byte stream into pieces, reading gives back the
  messages in order; and a peer that closes in the middle of a message leaves the reader in an
  endless loop.
\<close>

section \<open>The kernel's side of a socket\<close>

datatype arrival = ReadError | ReadBytes bytes

text \<open>\<^verbatim>\<open>read(conn, buf, n)\<close>: \<open>None\<close> is the error result, an empty list the result 0.\<close>

fun sys_read :: "nat \<Rightarrow> arrival list \<Rightarrow> bytes option \<times> arrival list" where
  "sys_read n [] = (Some [], [])"
| "sys_read n (ReadError # inp) = (None, inp)"
| "sys_read n (ReadBytes bs # inp) =
     (Some (take n bs), if length bs \<le> n then inp else ReadBytes (drop n bs) # inp)"

section \<open>Reading and writing a message\<close>

text \<open>The loop \<open>while (count < n) { result = read(...); if (result < 0) fail; count += result; }\<close>,
  which occurs twice in \<^verbatim>\<open>conn_read\<close>: \<open>need\<close> is what is missing, \<open>got\<close> what has arrived.\<close>

partial_function (option) read_loop ::
  "nat \<Rightarrow> bytes \<Rightarrow> arrival list \<Rightarrow> (bytes option \<times> arrival list) option" where
  "read_loop need got inp =
     (if need = 0 then Some (Some got, inp)
      else case sys_read need inp of
             (None, inp') \<Rightarrow> Some (None, inp')
           | (Some bs, inp') \<Rightarrow> read_loop (need - length bs) (got @ bs) inp')"

datatype conn_result = ConnNull | ConnAbort | ConnUndef | ConnMsg bytes

definition SDMBN_CONN_READ_MAX :: int where
  "SDMBN_CONN_READ_MAX = 1024 * 1024 * 1024"

text \<open>The message text once its length is known.  A failing assertion is \<open>ConnAbort\<close>.  A negative
  length passes the size check: the request \<open>strlen+1\<close> is then either zero bytes, and storing
  the terminator is out of bounds, or a huge size.\<close>

definition conn_read_body ::
  "(int \<Rightarrow> bool) \<Rightarrow> c_int \<Rightarrow> arrival list \<Rightarrow> (conn_result \<times> arrival list) option" where
  "conn_read_body mem_ok strlen inp =
     (if \<not> sint strlen < SDMBN_CONN_READ_MAX then Some (ConnAbort, inp)
      else if \<not> mem_ok (sint (strlen + 1)) then Some (ConnAbort, inp)
      else if strlen + 1 = 0 then Some (ConnUndef, inp)
      else if sint strlen < 0 then Some (ConnMsg [], inp)
      else map_option (\<lambda>(r, inp'). (case r of None \<Rightarrow> ConnNull | Some buf \<Rightarrow> ConnMsg buf, inp'))
             (read_loop (nat (sint strlen)) [] inp))"

definition conn_read ::
  "platform \<Rightarrow> (int \<Rightarrow> bool) \<Rightarrow> arrival list \<Rightarrow> (conn_result \<times> arrival list) option" where
  "conn_read P mem_ok inp =
     Option.bind (read_loop 4 [] inp) (\<lambda>(r, inp').
       case r of
         None \<Rightarrow> Some (ConnNull, inp')
       | Some lenchars \<Rightarrow>
           conn_read_body mem_ok
             (ntohl P (native32 P (lenchars ! 0) (lenchars ! 1) (lenchars ! 2) (lenchars ! 3))) inp')"

text \<open>Writing: \<open>wr n\<close> is the result of \<^verbatim>\<open>write\<close> for \<open>n\<close> bytes; the connection's output is
  extended by as many bytes as were taken.\<close>

definition sys_write :: "(nat \<Rightarrow> c_int) \<Rightarrow> bytes \<Rightarrow> bytes \<Rightarrow> c_int \<times> bytes" where
  "sys_write wr buf out = (wr (length buf), out @ take (nat (sint (wr (length buf)))) buf)"

definition conn_write :: "(nat \<Rightarrow> c_int) \<Rightarrow> bytes \<Rightarrow> bytes \<Rightarrow> c_int \<times> bytes" where
  "conn_write wr buf out = sys_write wr buf out"

definition conn_write_append_newline ::
  "platform \<Rightarrow> (nat \<Rightarrow> c_int) \<Rightarrow> bytes \<Rightarrow> c_int \<Rightarrow> bytes \<Rightarrow> c_int \<times> bytes" where
  "conn_write_append_newline P wr buf len out =
     (let tmplen = htonl P len;
          (_, out) = sys_write wr (native_bytes32 P tmplen) out
      in sys_write wr (take (nat (sint len)) buf) out)"

text \<open>The bytes \<^verbatim>\<open>json_send\<close> puts on the wire.\<close>

definition json_send_bytes ::
  "'j json_c \<Rightarrow> platform \<Rightarrow> (nat \<Rightarrow> c_int) \<Rightarrow> 'j \<Rightarrow> bytes \<Rightarrow> bytes" where
  "json_send_bytes J P wr msg out =
     (let jsonstr = map byte_of_char (json_object_to_json_string J msg)
      in snd (conn_write_append_newline P wr jsonstr (word_of_nat (length jsonstr)) out))"

section \<open>The stream a socket delivers\<close>

fun stream :: "arrival list \<Rightarrow> bytes" where
  "stream [] = []"
| "stream (ReadError # inp) = stream inp"
| "stream (ReadBytes bs # inp) = bs @ stream inp"

definition no_error :: "arrival list \<Rightarrow> bool" where
  "no_error inp \<longleftrightarrow> ReadError \<notin> set inp"

text \<open>The bytes of one message on the wire.\<close>

definition frame :: "bytes \<Rightarrow> bytes" where
  "frame msg = bytes_be32 (word_of_nat (length msg)) @ msg"

lemma sys_read_no_error:
  assumes "no_error inp" "sys_read n inp = (r, inp')"
  shows "\<exists>bs. r = Some bs \<and> bs @ stream inp' = stream inp \<and> length bs \<le> n \<and> no_error inp'
    \<and> (inp \<noteq> [] \<and> 0 < n \<longrightarrow> length inp' + length (stream inp') < length inp + length (stream inp))"
  using assms by (induction n inp rule: sys_read.induct)
    (auto simp: no_error_def split: if_splits)

text \<open>With enough bytes to come and no error, the loop returns exactly the bytes asked for.\<close>

lemma read_loop_returns:
  assumes "no_error inp" "need \<le> length (stream inp)"
  shows "\<exists>inp'. read_loop need got inp = Some (Some (got @ take need (stream inp)), inp')
    \<and> no_error inp' \<and> stream inp' = drop need (stream inp)"
  using assms
proof (induction "length inp + length (stream inp)" arbitrary: need got inp rule: less_induct)
  case less
  show ?case
  proof (cases "need = 0")
    case True
    with less.prems show ?thesis by (simp add: read_loop.simps)
  next
    case False
    with less.prems have "inp \<noteq> []" by auto
    obtain r inp1 where rd: "sys_read need inp = (r, inp1)" by (cases "sys_read need inp")
    from sys_read_no_error [OF less.prems(1) rd] False \<open>inp \<noteq> []\<close>
    obtain bs where bs: "r = Some bs" "bs @ stream inp1 = stream inp" "length bs \<le> need"
      "no_error inp1" "length inp1 + length (stream inp1) < length inp + length (stream inp)"
      by auto
    have len: "length (stream inp) = length bs + length (stream inp1)"
      using bs(2) by (metis length_append)
    then have "need - length bs \<le> length (stream inp1)" using less.prems(2) by simp
    from less.hyps [OF bs(5) bs(4) this, of "got @ bs"]
    obtain inp' where ih: "read_loop (need - length bs) (got @ bs) inp1 =
        Some (Some ((got @ bs) @ take (need - length bs) (stream inp1)), inp')"
      "no_error inp'" "stream inp' = drop (need - length bs) (stream inp1)"
      by auto
    have "take need (stream inp) = bs @ take (need - length bs) (stream inp1)"
      "drop need (stream inp) = drop (need - length bs) (stream inp1)"
      using bs(3) by (simp_all flip: bs(2))
    with ih False rd bs(1) show ?thesis by (simp add: read_loop.simps [of need])
  qed
qed

text \<open>With too few bytes to come and no error, the loop never returns.\<close>

lemma read_loop_endless:
  assumes "no_error inp" "length (stream inp) < need"
  shows "read_loop need got inp = None"
proof (rule ccontr)
  assume "read_loop need got inp \<noteq> None"
  then obtain r where ret: "read_loop need got inp = Some r" by auto
  have "no_error inp \<longrightarrow> \<not> length (stream inp) < need"
  proof (rule read_loop.raw_induct [where P = "\<lambda>need got inp r.
        no_error inp \<longrightarrow> \<not> length (stream inp) < need", OF _ ret])
    fix f need got inp r
    assume IH: "\<And>need got inp r. f need got inp = Some r \<Longrightarrow>
        no_error inp \<longrightarrow> \<not> length (stream inp) < need"
      and eq: "(if need = 0 then Some (Some got, inp)
        else case sys_read need inp of (None, inp') \<Rightarrow> Some (None, inp')
             | (Some bs, inp') \<Rightarrow> f (need - length bs) (got @ bs) inp') = Some r"
    show "no_error inp \<longrightarrow> \<not> length (stream inp) < need"
    proof (intro impI notI)
      assume ok: "no_error inp" and short: "length (stream inp) < need"
      obtain q inp1 where rd: "sys_read need inp = (q, inp1)" by (cases "sys_read need inp")
      from sys_read_no_error [OF ok rd] obtain bs where bs: "q = Some bs"
        "bs @ stream inp1 = stream inp" "length bs \<le> need" "no_error inp1" by blast
      with eq rd short have "f (need - length bs) (got @ bs) inp1 = Some r" by simp
      from IH [OF this] bs(4) have "\<not> length (stream inp1) < need - length bs" by simp
      moreover have "length (stream inp) = length bs + length (stream inp1)"
        using bs(2) by (metis length_append)
      ultimately show False using short bs(3) by simp
    qed
  qed
  with assms show False by simp
qed

section \<open>Framing\<close>

lemma sint_word_of_nat: "n < 2 ^ 31 \<Longrightarrow> sint (word_of_nat n :: c_int) = int n"
  by (simp add: signed_of_nat signed_take_bit_int_eq_self)

lemma conn_read_after_length:
  "read_loop 4 [] inp = Some (Some (bytes_be32 n), inp1) \<Longrightarrow>
   conn_read P mem_ok inp = conn_read_body mem_ok n inp1"
  by (simp add: conn_read_def bytes_be32_def del: One_nat_def)

lemma conn_read_body_valid:
  assumes "length msg < 2 ^ 30" "mem_ok (int (length msg) + 1)"
  shows "conn_read_body mem_ok (word_of_nat (length msg)) inp =
    map_option (\<lambda>(r, inp'). (case r of None \<Rightarrow> ConnNull | Some buf \<Rightarrow> ConnMsg buf, inp'))
      (read_loop (length msg) [] inp)"
proof -
  let ?n = "word_of_nat (length msg) :: c_int"
  have n: "sint ?n = int (length msg)"
    using assms(1) by (intro sint_word_of_nat) simp
  have "sint (word_of_nat (Suc (length msg)) :: c_int) = int (Suc (length msg))"
    using assms(1) by (intro sint_word_of_nat) simp
  then have n1: "sint (?n + 1) = int (length msg) + 1" by (simp add: add.commute)
  then have nz: "?n + 1 \<noteq> 0" by (intro notI) simp
  have "sint ?n < SDMBN_CONN_READ_MAX" "\<not> sint ?n < 0" "nat (sint ?n) = length msg"
    using n assms(1) by (simp_all add: SDMBN_CONN_READ_MAX_def)
  with n1 nz assms(2) show ?thesis
    unfolding conn_read_body_def by (simp only: if_True if_False not_True_eq_False)
qed

lemma conn_read_frame:
  assumes "no_error inp" "stream inp = frame msg @ rest" "length msg < 2 ^ 30"
    and "mem_ok (int (length msg) + 1)"
  shows "\<exists>inp'. conn_read P mem_ok inp = Some (ConnMsg msg, inp') \<and> no_error inp'
    \<and> stream inp' = rest"
proof -
  let ?n = "word_of_nat (length msg) :: c_int"
  from read_loop_returns [OF assms(1), of 4 "[]"] assms(2)
  obtain inp1 where r1: "read_loop 4 [] inp = Some (Some (bytes_be32 ?n), inp1)"
    "no_error inp1" "stream inp1 = msg @ rest"
    by (auto simp: frame_def)
  from read_loop_returns [OF r1(2), of "length msg" "[]"] r1(3)
  obtain inp2 where "read_loop (length msg) [] inp1 = Some (Some msg, inp2)"
    "no_error inp2" "stream inp2 = rest"
    by auto
  then show ?thesis
    by (simp add: conn_read_after_length [OF r1(1)] conn_read_body_valid [where mem_ok = mem_ok, OF assms(3,4)])
qed

lemma conn_read_truncated:
  assumes "no_error inp" "stream inp = take k (frame msg)" "k < 4 + length msg"
    and "length msg < 2 ^ 30" "mem_ok (int (length msg) + 1)"
  shows "conn_read P mem_ok inp = None"
proof (cases "k < 4")
  case True
  then have "length (stream inp) < 4" using assms(2) by (simp add: frame_def)
  then show ?thesis by (simp add: conn_read_def read_loop_endless [OF assms(1)])
next
  case False
  let ?n = "word_of_nat (length msg) :: c_int"
  from read_loop_returns [OF assms(1), of 4 "[]"] assms(2,3) False
  obtain inp1 where r1: "read_loop 4 [] inp = Some (Some (bytes_be32 ?n), inp1)"
    "no_error inp1" "stream inp1 = take (k - 4) msg"
    by (auto simp: frame_def)
  have "length (stream inp1) < length msg" using r1(3) assms(3) False by simp
  then have "read_loop (length msg) [] inp1 = None" by (rule read_loop_endless [OF r1(2)])
  then show ?thesis
    by (simp add: conn_read_after_length [OF r1(1)] conn_read_body_valid [where mem_ok = mem_ok, OF assms(4,5)])
qed

text \<open>A kernel that takes every write whole.\<close>

definition takes_all :: "(nat \<Rightarrow> c_int) \<Rightarrow> bool" where
  "takes_all wr \<longleftrightarrow> (\<forall>n < 2 ^ 31. sint (wr n) = int n)"

lemma sys_write_all:
  assumes "takes_all wr" "length buf < 2 ^ 31"
  shows "snd (sys_write wr buf out) = out @ buf"
  using assms by (simp add: sys_write_def takes_all_def)

lemma conn_write_frame:
  assumes "takes_all wr" "length msg < 2 ^ 30"
  shows "snd (conn_write_append_newline P wr msg (word_of_nat (length msg)) out) = out @ frame msg"
proof -
  have "sint (word_of_nat (length msg) :: c_int) = int (length msg)"
    using assms(2) by (intro sint_word_of_nat) simp
  then show ?thesis
    using assms
    by (simp add: conn_write_append_newline_def case_prod_beta sys_write_all native_bytes32_htonl
        frame_def)
qed

text \<open>Reading \<open>n\<close> messages one after the other, as the handler threads do; \<open>None\<close> if a read does
  not return or does not give a message.\<close>

fun read_messages ::
  "platform \<Rightarrow> (int \<Rightarrow> bool) \<Rightarrow> nat \<Rightarrow> arrival list \<Rightarrow> bytes list option" where
  "read_messages P mem_ok 0 inp = Some []"
| "read_messages P mem_ok (Suc n) inp =
     (case conn_read P mem_ok inp of
        Some (ConnMsg m, inp') \<Rightarrow> map_option ((#) m) (read_messages P mem_ok n inp')
      | _ \<Rightarrow> None)"

text \<open>Sending messages one after the other.\<close>

fun send_messages ::
  "platform \<Rightarrow> (nat \<Rightarrow> c_int) \<Rightarrow> bytes list \<Rightarrow> bytes \<Rightarrow> bytes" where
  "send_messages P wr [] out = out"
| "send_messages P wr (m # ms) out =
     send_messages P wr ms (snd (conn_write_append_newline P wr m (word_of_nat (length m)) out))"

lemma send_messages_frames:
  assumes "takes_all wr" "\<forall>m \<in> set ms. length m < 2 ^ 30"
  shows "send_messages P wr ms out = out @ concat (map frame ms)"
  using assms(2) by (induction ms arbitrary: out) (simp_all add: conn_write_frame [OF assms(1)])

lemma read_messages_frames:
  assumes "no_error inp" "stream inp = concat (map frame ms) @ rest"
    and "\<forall>m \<in> set ms. length m < 2 ^ 30" "\<forall>n. mem_ok n"
  shows "read_messages P mem_ok (length ms) inp = Some ms"
  using assms
proof (induction ms arbitrary: inp)
  case Nil
  then show ?case by simp
next
  case (Cons m ms)
  then have "stream inp = frame m @ (concat (map frame ms) @ rest)" "length m < 2 ^ 30" by simp_all
  from conn_read_frame [where mem_ok = mem_ok, OF Cons.prems(1) this Cons.prems(4) [rule_format]] obtain inp' where
    rd: "conn_read P mem_ok inp = Some (ConnMsg m, inp')" and "no_error inp'"
    "stream inp' = concat (map frame ms) @ rest" by blast
  moreover have "\<forall>m \<in> set ms. length m < 2 ^ 30" using Cons.prems(3) by simp
  ultimately have "read_messages P mem_ok (length ms) inp' = Some ms"
    using Cons.IH Cons.prems(4) by blast
  with rd show ?case by (simp del: split_paired_Ex)
qed

section \<open>Properties of a connection\<close>

text \<open>C24. Messages arrive as they were sent: if one side sends any sequence of messages (each
  shorter than 1 GiB) and the kernel takes every write whole, then the other side reads exactly
  these messages in this order, however the byte stream is cut into pieces on the way.  The two
  sides may have different byte orders.\<close>

theorem messages_delivered:
  assumes "takes_all wr" "\<forall>m \<in> set ms. length m < 2 ^ 30"
    and "\<forall>n. mem_ok n" "no_error inp" "stream inp = send_messages P wr ms []"
  shows "read_messages Q mem_ok (length ms) inp = Some ms"
proof (rule read_messages_frames [where rest = "[]"])
  show "stream inp = concat (map frame ms) @ []"
    by (simp only: assms(5) send_messages_frames [OF assms(1,2)] append_Nil append_Nil2)
qed (use assms in auto)

theorem messages_delivered_witness:
  "read_messages \<lparr>big_endian = True, char_signed = False\<rparr> (\<lambda>_. True) 2
     [ReadBytes [0], ReadBytes [0, 0], ReadBytes [2, 65, 66, 0, 0], ReadBytes [0, 1, 67]]
   = Some [[65, 66], [67]]"
proof -
  let ?wr = "\<lambda>n. word_of_nat n :: c_int" and ?P = "\<lparr>big_endian = False, char_signed = True\<rparr>"
  have "send_messages ?P ?wr [[65, 66], [67]] [] = [0, 0, 0, 2, 65, 66, 0, 0, 0, 1, 67]"
    by code_simp
  moreover have "takes_all ?wr" by (simp add: takes_all_def sint_word_of_nat)
  ultimately have "read_messages \<lparr>big_endian = True, char_signed = False\<rparr> (\<lambda>_. True)
      (length [[65, 66], [67 :: u8]])
      [ReadBytes [0], ReadBytes [0, 0], ReadBytes [2, 65, 66, 0, 0], ReadBytes [0, 1, 67]]
    = Some [[65, 66], [67]]"
    by (intro messages_delivered [of ?wr _ "\<lambda>_. True" _ ?P])
      (simp_all add: no_error_def del: send_messages.simps)
  then show ?thesis by (simp add: numeral_2_eq_2 del: read_messages.simps)
qed

text \<open>A peer that closes the connection before a complete message has arrived (the stream
  ends inside the length or inside the text) leaves \<^verbatim>\<open>conn_read\<close> in an endless loop: the
  result 0 of \<^verbatim>\<open>read\<close> at end of file is not treated as the end.\<close>

theorem conn_read_endless_at_eof:
  assumes "no_error inp" "stream inp = take k (frame msg)" "k < 4 + length msg"
    and "length msg < 2 ^ 30" "\<forall>n. mem_ok n"
  shows "conn_read P mem_ok inp = None"
  using assms by (intro conn_read_truncated) auto

theorem conn_read_endless_witness:
  "conn_read \<lparr>big_endian = False, char_signed = True\<rparr> (\<lambda>_. True) [ReadBytes [0, 0, 0, 2, 65]] = None"
  using conn_read_endless_at_eof [of "[ReadBytes [0, 0, 0, 2, 65]]" 5 "[65, 66]" "\<lambda>_. True"]
  by (simp add: no_error_def frame_def bytes_be32_def byte_of_def)

end
