(* ===== verification/Sdmbn_Event.thy ===== *)
theory Sdmbn_Event
  imports Sdmbn_Messages
begin

text \<open>
  Packet events, \<^verbatim>\<open>shared/event.c\<close>: the controller installs filters on flow keys; a packet that
  matches a filter is dropped, buffered or processed, and a reprocess event carries it to the
  controller.  Removing a filter releases its buffered packets; a received reprocess event
  injects its packet into this network function.

  The functions take the platform \<open>P\<close>, the JSON library \<open>J\<close>, the callbacks \<open>L\<close> of the network
  function, the allocator \<open>mem_ok\<close> where they allocate, and, where the source leaves an object
  uninitialised, its indeterminate content as an argument.
\<close>

section \<open>Replies\<close>

definition event_send_error ::
  "'j json_c \<Rightarrow> c_int \<Rightarrow> c_int \<Rightarrow> string \<Rightarrow> ('nf, 'j) sdmbn \<Rightarrow> ('nf, 'j) sdmbn" where
  "event_send_error J i hashkey cause s =
     snd (json_send (Some (json_compose_error J i hashkey cause)) (s_conn_event s) s)"

definition send_events_ack :: "'j json_c \<Rightarrow> c_int \<Rightarrow> ('nf, 'j) sdmbn \<Rightarrow> ('nf, 'j) sdmbn" where
  "send_events_ack J i s = snd (json_send (Some (json_compose_events_ack J i)) (s_conn_state s) s)"

section \<open>The list of filters\<close>

text \<open>\<open>addr\<close> and \<open>garbage\<close> are the address and the initial content of the action field of the
  allocated filter, \<open>rc\<close> the result of initialising its mutex.\<close>

definition events_add_filter ::
  "nat \<Rightarrow> c_int \<Rightarrow> c_int \<Rightarrow> PerflowKey \<Rightarrow> string \<Rightarrow> c_int \<Rightarrow> ('nf, 'j) sdmbn \<Rightarrow> c_int \<times> ('nf, 'j) sdmbn" where
  "events_add_filter addr garbage rc key action i s =
     (let act = (if action = ''drop'' then EVENT_ACTION_DROP
                 else if action = ''buffer'' then EVENT_ACTION_BUFFER
                 else if action = ''process'' then EVENT_ACTION_PROCESS
                 else garbage);
          flt = \<lparr>f_addr = addr, f_key = key, f_action = act, f_id = i, f_buffer = []\<rparr>
      in if sneg rc then (-1, s) else (1, s\<lparr>s_filters := flt # s_filters s\<rparr>))"

definition filter_at :: "nat \<Rightarrow> ('nf, 'j) sdmbn \<Rightarrow> EventFilter option" where
  "filter_at addr s = find (\<lambda>f. f_addr f = addr) (s_filters s)"

definition upd_buffer ::
  "nat \<Rightarrow> (BufferedPkt list \<Rightarrow> BufferedPkt list) \<Rightarrow> ('nf, 'j) sdmbn \<Rightarrow> ('nf, 'j) sdmbn" where
  "upd_buffer addr g s =
     s\<lparr>s_filters := map (\<lambda>f. if f_addr f = addr then f\<lparr>f_buffer := g (f_buffer f)\<rparr> else f) (s_filters s)\<rparr>"

text \<open>One round of the release loop: process the entry at the head of the buffer, count it unless
  processing failed, and take it off the buffer (which may have grown meanwhile).\<close>

definition release_packet ::
  "('nf, 'j) sdmbn SDMBNLocals \<Rightarrow> nat \<Rightarrow> BufferedPkt \<Rightarrow> ('nf, 'j) sdmbn \<Rightarrow> ('nf, 'j) sdmbn" where
  "release_packet L addr entry s =
     (let (write_len, s) = (case loc_process_packet L of
                              None \<Rightarrow> (-1, s)
                            | Some process_packet \<Rightarrow> process_packet (b_hdr entry) (b_pkt entry) s);
          s = (if sneg write_len then s
               else upd_stats (\<lambda>st. st\<lparr>pkts_release_count := pkts_release_count st + 1\<rparr>) s)
      in upd_buffer addr tl s)"

text \<open>The loop runs while the buffer has a head; \<open>None\<close> means that it never ends, \<open>Undef\<close> that
  the filter is gone when the loop looks at it again.\<close>

partial_function (option) release_loop ::
  "('nf, 'j) sdmbn SDMBNLocals \<Rightarrow> nat \<Rightarrow> ('nf, 'j) sdmbn \<Rightarrow> ('nf, 'j) sdmbn run option" where
  "release_loop L addr s =
     (case filter_at addr s of
        None \<Rightarrow> Some Undef
      | Some f \<Rightarrow>
          (case f_buffer f of
             [] \<Rightarrow> Some (Ret s)
           | entry # _ \<Rightarrow> release_loop L addr (release_packet L addr entry s)))"

text \<open>Unlinking the filter: the first list element at that address.\<close>

fun unlink_filter :: "nat \<Rightarrow> EventFilter list \<Rightarrow> EventFilter list" where
  "unlink_filter addr [] = []"
| "unlink_filter addr (f # fs) = (if f_addr f = addr then fs else f # unlink_filter addr fs)"

definition events_remove_filter ::
  "('nf, 'j) sdmbn SDMBNLocals \<Rightarrow> PerflowKey \<Rightarrow> ('nf, 'j) sdmbn \<Rightarrow> ('nf, 'j) sdmbn run option" where
  "events_remove_filter L key s =
     (case find (\<lambda>f. f_key f = key) (s_filters s) of
        None \<Rightarrow> Some (Ret s)
      | Some f \<Rightarrow>
          map_option (\<lambda>r. run_bind r (\<lambda>s'.
              Ret (s'\<lparr>s_filters := unlink_filter (f_addr f) (s_filters s')\<rparr>)))
            (release_loop L (f_addr f) s))"

section \<open>Matching a packet against the filters\<close>

abbreviation ETHER_HDR_LEN :: nat where "ETHER_HDR_LEN \<equiv> 14"
abbreviation ETHERTYPE_IP :: u16 where "ETHERTYPE_IP \<equiv> 0x0800"

text \<open>The three parts of \<^verbatim>\<open>build_packet_key\<close>; a read past the captured bytes is \<open>None\<close>.  The
  network part also gives the offset of the transport header.\<close>

definition build_key_network :: "platform \<Rightarrow> bytes \<Rightarrow> u16 \<Rightarrow> PerflowKey \<Rightarrow> (PerflowKey \<times> nat) option" where
  "build_key_network P pkt ether_type key =
     (let nxthdr = ETHER_HDR_LEN in
      if ether_type = ETHERTYPE_IP then
        (case (rd32 P pkt (nxthdr + 12), rd32 P pkt (nxthdr + 16), rd8 pkt (nxthdr + 9), rd8 pkt nxthdr) of
           (Some saddr, Some daddr, Some protocol, Some ver_ihl) \<Rightarrow>
             Some (key\<lparr>nw_src := ntohl P saddr, nw_dst := ntohl P daddr, nw_proto := protocol,
                       wildcards := wildcards key AND NOT (WILDCARD_NW_SRC OR WILDCARD_NW_DST OR WILDCARD_NW_PROTO)\<rparr>,
                   nxthdr + unat (ver_ihl AND 0x0F) * 4)
         | _ \<Rightarrow> None)
      else Some (key, nxthdr))"

definition build_key_transport :: "platform \<Rightarrow> bytes \<Rightarrow> nat \<Rightarrow> PerflowKey \<Rightarrow> PerflowKey option" where
  "build_key_transport P pkt nxthdr key =
     (if nw_proto key = 6 then
        (case (rd16 P pkt nxthdr, rd16 P pkt (nxthdr + 2), rd8 pkt (nxthdr + 12)) of
           (Some source, Some dest, Some doff) \<Rightarrow>
             Some (key\<lparr>tp_src := ntohs P source, tp_dst := ntohs P dest,
                       wildcards := wildcards key AND NOT (WILDCARD_TP_SRC OR WILDCARD_TP_DST)\<rparr>)
         | _ \<Rightarrow> None)
      else if nw_proto key = 17 then
        (case (rd16 P pkt nxthdr, rd16 P pkt (nxthdr + 2)) of
           (Some source, Some dest) \<Rightarrow>
             Some (key\<lparr>tp_src := ntohs P source, tp_dst := ntohs P dest,
                       wildcards := wildcards key AND NOT (WILDCARD_TP_SRC OR WILDCARD_TP_DST)\<rparr>)
         | _ \<Rightarrow> None)
      else Some key)"

definition build_packet_key :: "platform \<Rightarrow> bytes \<Rightarrow> PerflowKey \<Rightarrow> PerflowKey option" where
  "build_packet_key P pkt key =
     (case rd16 P pkt 12 of
        None \<Rightarrow> None
      | Some ether_type \<Rightarrow>
          let key = key\<lparr>dl_type := ntohs P ether_type, wildcards := WILDCARD_ALL AND NOT WILDCARD_DL_TYPE\<rparr>
          in Option.bind (build_key_network P pkt (ntohs P ether_type) key)
               (\<lambda>(key, nxthdr). build_key_transport P pkt nxthdr key))"

text \<open>The mask of a prefix: \<open>0xFFFFFFFF << (32 - bits)\<close>, undefined when the shift count is not
  below 32.\<close>

definition nw_mask :: "u8 \<Rightarrow> u8 \<Rightarrow> u32 \<Rightarrow> u32 option" where
  "nw_mask wild wbit bits =
     (if flag_set wild wbit then Some 0xFFFFFFFF
      else if unat (32 - bits) < 32 then Some (push_bit (unat (32 - bits)) 0xFFFFFFFF)
      else None)"

definition port_ok :: "u8 \<Rightarrow> u8 \<Rightarrow> u16 \<Rightarrow> u16 \<Rightarrow> u16 \<Rightarrow> u8 \<Rightarrow> bool" where
  "port_ok wild wbit fport fother pport flip \<longleftrightarrow>
     flag_set wild wbit \<or> fport = pport \<or> (flip \<noteq> 0 \<and> fother = pport)"

text \<open>The body of the search loop: does the filter key match the packet key?\<close>

definition filter_matches :: "PerflowKey \<Rightarrow> PerflowKey \<Rightarrow> bool option" where
  "filter_matches fKey pKey =
     (let w = wildcards fKey in
      if \<not> flag_set w WILDCARD_DL_TYPE \<and> dl_type fKey \<noteq> dl_type pKey then Some False
      else (case nw_mask w WILDCARD_NW_SRC_MASK (nw_src_mask fKey) of
          None \<Rightarrow> None
        | Some smask \<Rightarrow>
      if \<not> flag_set w WILDCARD_NW_SRC \<and> nw_src fKey AND smask \<noteq> nw_src pKey AND smask then Some False
      else (case nw_mask w WILDCARD_NW_DST_MASK (nw_dst_mask fKey) of
          None \<Rightarrow> None
        | Some dmask \<Rightarrow>
      if \<not> flag_set w WILDCARD_NW_DST \<and> nw_dst fKey AND dmask \<noteq> nw_dst pKey AND dmask then Some False
      else if \<not> flag_set w WILDCARD_NW_PROTO \<and> nw_proto fKey \<noteq> nw_proto pKey then Some False
      else Some (port_ok w WILDCARD_TP_SRC (tp_src fKey) (tp_dst fKey) (tp_src pKey) (tp_flip pKey)
                 \<and> port_ok w WILDCARD_TP_DST (tp_dst fKey) (tp_src fKey) (tp_dst pKey) (tp_flip pKey)))))"

fun match_loop :: "PerflowKey \<Rightarrow> EventFilter list \<Rightarrow> EventFilter option option" where
  "match_loop pKey [] = Some None"
| "match_loop pKey (f # fs) =
     (case filter_matches (f_key f) pKey of
        None \<Rightarrow> None
      | Some True \<Rightarrow> Some (Some f)
      | Some False \<Rightarrow> match_loop pKey fs)"

text \<open>\<open>stack\<close> is the content of the local key before it is filled in.\<close>

definition matches_filter ::
  "platform \<Rightarrow> PerflowKey \<Rightarrow> bytes \<Rightarrow> ('nf, 'j) sdmbn \<Rightarrow> EventFilter option option" where
  "matches_filter P stack pkt s =
     (if s_filters s = [] then Some None
      else Option.bind (build_packet_key P pkt stack) (\<lambda>pKey. match_loop pKey (s_filters s)))"

definition is_packet_flag_set :: "platform \<Rightarrow> bytes \<Rightarrow> u8 \<Rightarrow> bool option" where
  "is_packet_flag_set P pkt flag =
     (case rd16 P pkt 12 of
        None \<Rightarrow> None
      | Some ether_type \<Rightarrow>
          if ntohs P ether_type = ETHERTYPE_IP
          then map_option (\<lambda>tos. flag_set tos flag) (rd8 pkt (ETHER_HDR_LEN + 1))
          else Some False)"

section \<open>Processing a packet\<close>

definition sdmbn_raise_reprocess ::
  "'j json_c \<Rightarrow> platform \<Rightarrow> (int \<Rightarrow> bool) \<Rightarrow> c_int \<Rightarrow> c_int \<Rightarrow> pcap_pkthdr option \<Rightarrow> bytes option
   \<Rightarrow> ('nf, 'j) sdmbn \<Rightarrow> (c_int \<times> ('nf, 'j) sdmbn) run" where
  "sdmbn_raise_reprocess J P mem_ok i hashkey header packet s =
     (case (header, packet) of
        (Some hdr, Some pkt) \<Rightarrow>
          run_bind (json_compose_reprocess_event J P mem_ok i hashkey hdr pkt) (\<lambda>event.
            let (result, s) = json_send (Some event) (s_conn_event s) s
            in Ret (result, upd_stats (\<lambda>st. st\<lparr>reprocess_raised := reprocess_raised st + 1\<rparr>) s))
      | _ \<Rightarrow> Ret (-1, s))"

text \<open>The three actions on a matching packet.  Storing a filter id in the context keeps its low
  byte only.\<close>

definition action_buffer ::
  "platform \<Rightarrow> EventFilter \<Rightarrow> pcap_pkthdr \<Rightarrow> bytes \<Rightarrow> ProcessContext \<Rightarrow> ('nf, 'j) sdmbn
   \<Rightarrow> (ProcessContext \<times> ('nf, 'j) sdmbn) run" where
  "action_buffer P flt hdr pkt ctx s =
     (case is_packet_flag_set P pkt PACKET_FLAG_DO_NOT_BUFFER of
        None \<Rightarrow> Undef
      | Some True \<Rightarrow>
          Ret (ctx\<lparr>ctx_stop := 0, ctx_event := ucast (f_id flt)\<rparr>,
               upd_stats (\<lambda>st. st\<lparr>pkts_nobuffer_count := pkts_nobuffer_count st + 1\<rparr>) s)
      | Some False \<Rightarrow>
          if ctx_injected ctx \<noteq> 0 then Ret (ctx\<lparr>ctx_stop := 0, ctx_event := 0\<rparr>, s)
          else if length pkt < unat (caplen hdr) then Undef
          else let entry = \<lparr>b_hdr = hdr, b_pkt = take (unat (caplen hdr)) pkt\<rparr>
               in Ret (ctx\<lparr>ctx_stop := 1, ctx_event := -1\<rparr>,
                    upd_stats (\<lambda>st. st\<lparr>pkts_buffer_count := pkts_buffer_count st + 1\<rparr>)
                      (upd_buffer (f_addr flt) (\<lambda>buf. buf @ [entry]) s)))"

definition action_drop ::
  "'j json_c \<Rightarrow> platform \<Rightarrow> (int \<Rightarrow> bool) \<Rightarrow> EventFilter \<Rightarrow> pcap_pkthdr \<Rightarrow> bytes \<Rightarrow> ProcessContext
   \<Rightarrow> ('nf, 'j) sdmbn \<Rightarrow> (ProcessContext \<times> ('nf, 'j) sdmbn) run" where
  "action_drop J P mem_ok flt hdr pkt ctx s =
     (case is_packet_flag_set P pkt PACKET_FLAG_DO_NOT_DROP of
        None \<Rightarrow> Undef
      | Some True \<Rightarrow> Ret (ctx\<lparr>ctx_stop := 0, ctx_event := ucast (f_id flt)\<rparr>, s)
      | Some False \<Rightarrow>
          run_bind (sdmbn_raise_reprocess J P mem_ok (f_id flt) (-1) (Some hdr) (Some pkt) s) (\<lambda>(_, s).
            Ret (ctx\<lparr>ctx_stop := 1, ctx_event := -1\<rparr>,
                 upd_stats (\<lambda>st. st\<lparr>pkts_drop_count := pkts_drop_count st + 1\<rparr>) s)))"

definition action_process ::
  "EventFilter \<Rightarrow> ProcessContext \<Rightarrow> ('nf, 'j) sdmbn \<Rightarrow> (ProcessContext \<times> ('nf, 'j) sdmbn) run" where
  "action_process flt ctx s =
     Ret (ctx\<lparr>ctx_stop := 0, ctx_event := ucast (f_id flt)\<rparr>,
          upd_stats (\<lambda>st. st\<lparr>pkts_process_count := pkts_process_count st + 1\<rparr>) s)"

definition unlock_if_stopped ::
  "ProcessContext \<times> ('nf, 'j) sdmbn \<Rightarrow> (ProcessContext \<times> ('nf, 'j) sdmbn) run" where
  "unlock_if_stopped = (\<lambda>(ctx, s). Ret (ctx, if ctx_stop ctx \<noteq> 0 then s\<lparr>s_lock_processing := False\<rparr> else s))"

text \<open>The part of \<^verbatim>\<open>sdmbn_preprocess_packet\<close> between taking and releasing the lock: the switch on
  the action, in which an action outside the enumeration does nothing.\<close>

definition packet_action ::
  "'j json_c \<Rightarrow> platform \<Rightarrow> (int \<Rightarrow> bool) \<Rightarrow> PerflowKey \<Rightarrow> pcap_pkthdr \<Rightarrow> bytes \<Rightarrow> ProcessContext
   \<Rightarrow> ('nf, 'j) sdmbn \<Rightarrow> (ProcessContext \<times> ('nf, 'j) sdmbn) run" where
  "packet_action J P mem_ok stack hdr pkt ctx s =
     (case matches_filter P stack pkt s of
        None \<Rightarrow> Undef
      | Some None \<Rightarrow>
          Ret (ctx\<lparr>ctx_stop := 0, ctx_event := 0\<rparr>,
               upd_stats (\<lambda>st. st\<lparr>pkts_nofilter_count := pkts_nofilter_count st + 1\<rparr>) s)
      | Some (Some flt) \<Rightarrow>
          if f_action flt = EVENT_ACTION_BUFFER then action_buffer P flt hdr pkt ctx s
          else if f_action flt = EVENT_ACTION_DROP then action_drop J P mem_ok flt hdr pkt ctx s
          else if f_action flt = EVENT_ACTION_PROCESS then action_process flt ctx s
          else Ret (ctx, s))"

definition sdmbn_preprocess_packet ::
  "'j json_c \<Rightarrow> platform \<Rightarrow> (int \<Rightarrow> bool) \<Rightarrow> PerflowKey \<Rightarrow> pcap_pkthdr \<Rightarrow> bytes \<Rightarrow> ProcessContext
   \<Rightarrow> ('nf, 'j) sdmbn \<Rightarrow> (ProcessContext \<times> ('nf, 'j) sdmbn) run" where
  "sdmbn_preprocess_packet J P mem_ok stack hdr pkt ctx s =
     (if s_lock_processing s then Blocked
      else run_bind (packet_action J P mem_ok stack hdr pkt ctx (s\<lparr>s_lock_processing := True\<rparr>))
             unlock_if_stopped)"

definition sdmbn_postprocess_packet ::
  "'j json_c \<Rightarrow> platform \<Rightarrow> (int \<Rightarrow> bool) \<Rightarrow> pcap_pkthdr \<Rightarrow> bytes \<Rightarrow> ProcessContext
   \<Rightarrow> ('nf, 'j) sdmbn \<Rightarrow> ('nf, 'j) sdmbn run" where
  "sdmbn_postprocess_packet J P mem_ok hdr pkt ctx s =
     run_bind
       (if sint (char_to_int P (ctx_event ctx)) > 0
        then run_bind (sdmbn_raise_reprocess J P mem_ok (char_to_int P (ctx_event ctx)) (-1)
               (Some hdr) (Some pkt) s) (\<lambda>(_, s). Ret s)
        else Ret s)
       (\<lambda>s. Ret (s\<lparr>s_lock_processing := False\<rparr>))"

section \<open>Handling event messages\<close>

definition handle_enable_events ::
  "'j json_c \<Rightarrow> platform \<Rightarrow> nat \<Rightarrow> c_int \<Rightarrow> c_int \<Rightarrow> 'j \<Rightarrow> c_int \<Rightarrow> ('nf, 'j) sdmbn
   \<Rightarrow> c_int \<times> ('nf, 'j) sdmbn" where
  "handle_enable_events J P addr garbage rc msg i s =
     (case json_object_object_get J msg FIELD_KEY of
        None \<Rightarrow> (-1, event_send_error J i (-1) ERROR_MALFORMED s)
      | Some key_field \<Rightarrow>
          let key = json_parse_perflow_key J P key_field in
          (case json_object_object_get J msg FIELD_ACTION of
             None \<Rightarrow> (-1, event_send_error J i (-1) ERROR_MALFORMED s)
           | Some action_field \<Rightarrow>
               let (res, s) = events_add_filter addr garbage rc key
                                (json_object_get_string J action_field) i s
               in if sneg res then (-1, event_send_error J i (-1) ERROR_INTERNAL s)
                  else (1, send_events_ack J i s)))"

definition handle_disable_events ::
  "'j json_c \<Rightarrow> platform \<Rightarrow> ('nf, 'j) sdmbn SDMBNLocals \<Rightarrow> 'j \<Rightarrow> c_int \<Rightarrow> ('nf, 'j) sdmbn
   \<Rightarrow> (c_int \<times> ('nf, 'j) sdmbn) run option" where
  "handle_disable_events J P L msg i s =
     (case json_object_object_get J msg FIELD_KEY of
        None \<Rightarrow> Some (Ret (-1, event_send_error J i (-1) ERROR_MALFORMED s))
      | Some key_field \<Rightarrow>
          map_option (\<lambda>r. run_bind r (\<lambda>s. Ret (1, send_events_ack J i s)))
            (events_remove_filter L (json_parse_perflow_key J P key_field) s))"

text \<open>Injecting the packet of a reprocess event; a decoded header shorter than the structure, or
  a null buffer, must not be handed on.\<close>

definition inject_packet ::
  "platform \<Rightarrow> ('nf, 'j) sdmbn SDMBNLocals \<Rightarrow> bytes option \<Rightarrow> bytes option \<Rightarrow> ('nf, 'j) sdmbn
   \<Rightarrow> (c_int \<times> ('nf, 'j) sdmbn) run" where
  "inject_packet P L header packet s =
     (case loc_process_packet L of
        None \<Rightarrow> Ret (-1, s)
      | Some process_packet \<Rightarrow>
          (case (Option.bind header (hdr_of_bytes P), packet) of
             (Some hdr, Some pkt) \<Rightarrow> Ret (process_packet hdr pkt s)
           | _ \<Rightarrow> Undef))"

definition handle_reprocess_event ::
  "'j json_c \<Rightarrow> platform \<Rightarrow> (int \<Rightarrow> bool) \<Rightarrow> ('nf, 'j) sdmbn SDMBNLocals \<Rightarrow> 'j \<Rightarrow> c_int \<Rightarrow> ('nf, 'j) sdmbn
   \<Rightarrow> (c_int \<times> ('nf, 'j) sdmbn) run" where
  "handle_reprocess_event J P mem_ok L msg i s =
     (case json_object_object_get J msg FIELD_HASHKEY of
        None \<Rightarrow> Ret (-1, event_send_error J i (-1) ERROR_MALFORMED s)
      | Some hashkey_field \<Rightarrow>
          let hashkey = json_object_get_int J hashkey_field in
          (case json_object_object_get J msg FIELD_HEADER of
             None \<Rightarrow> Ret (-1, event_send_error J i hashkey ERROR_MALFORMED s)
           | Some header_field \<Rightarrow>
               run_bind (sdmbn_base64_decode mem_ok (Some (json_object_get_string J header_field))) (\<lambda>header.
               (case json_object_object_get J msg FIELD_PACKET of
                  None \<Rightarrow> Ret (-1, event_send_error J i hashkey ERROR_MALFORMED s)
                | Some packet_field \<Rightarrow>
                    run_bind (sdmbn_base64_decode mem_ok (Some (json_object_get_string J packet_field))) (\<lambda>packet.
                    run_bind (inject_packet P L header packet
                        (upd_stats (\<lambda>st. st\<lparr>events_count := events_count st + 1\<rparr>) s)) (\<lambda>(write_len, s).
                      Ret (if sneg write_len then -1 else write_len, s)))))))"

text \<open>One round of the thread that serves the event connection, for a message that has been read;
  a text that does not parse is skipped.\<close>

definition events_handler_message ::
  "'j json_c \<Rightarrow> platform \<Rightarrow> (int \<Rightarrow> bool) \<Rightarrow> ('nf, 'j) sdmbn SDMBNLocals \<Rightarrow> string \<Rightarrow> ('nf, 'j) sdmbn
   \<Rightarrow> ('nf, 'j) sdmbn run" where
  "events_handler_message J P mem_ok L buffer s =
     (case json_tokener_parse J buffer of
        None \<Rightarrow> Ret s
      | Some msg \<Rightarrow>
          (case json_object_object_get J msg FIELD_ID of
             None \<Rightarrow> Ret (event_send_error J (-1) (-1) ERROR_MALFORMED s)
           | Some id_field \<Rightarrow>
               let i = json_object_get_int J id_field in
               (case json_object_object_get J msg FIELD_TYPE of
                  None \<Rightarrow> Ret (event_send_error J i (-1) ERROR_MALFORMED s)
                | Some type_field \<Rightarrow>
                    if json_object_get_string J type_field = ''reprocess''
                    then run_bind (handle_reprocess_event J P mem_ok L msg i s) (\<lambda>(_, s). Ret s)
                    else Ret (event_send_error J i (-1) ERROR_MALFORMED s))))"

text \<open>The thread's loop: \<open>None\<close> in the list is a failed read, which ends it.\<close>

fun events_handler ::
  "'j json_c \<Rightarrow> platform \<Rightarrow> (int \<Rightarrow> bool) \<Rightarrow> ('nf, 'j) sdmbn SDMBNLocals \<Rightarrow> string option list
   \<Rightarrow> ('nf, 'j) sdmbn \<Rightarrow> ('nf, 'j) sdmbn run" where
  "events_handler J P mem_ok L [] s = Blocked"
| "events_handler J P mem_ok L (None # bufs) s = Ret s"
| "events_handler J P mem_ok L (Some buffer # bufs) s =
     run_bind (events_handler_message J P mem_ok L buffer s) (events_handler J P mem_ok L bufs)"

end
