(* ===== verification/Sdmbn_Event_Props.thy ===== *)
theory Sdmbn_Event_Props
  imports Sdmbn_Event
begin

text \<open>
  What the packet events of \<^verbatim>\<open>shared/event.c\<close> guarantee: the match test decides the intended
  relation between a flow key and a packet and the search returns the newest matching filter;
  the processing lock is released on every path; buffered packets are released in arrival
  order, each exactly once; a reprocess event carries its packet unchanged to another instance.
  Four properties record where the code falls short of its purpose.
\<close>

section \<open>Matching\<close>

text \<open>The intended reading of a filter key: every field is either switched off or equal, an address
  up to its prefix length.\<close>

definition prefix_eq :: "nat \<Rightarrow> u32 \<Rightarrow> u32 \<Rightarrow> bool" where
  "prefix_eq n a b \<longleftrightarrow> drop_bit (32 - n) a = drop_bit (32 - n) b"

definition prefix_len :: "u8 \<Rightarrow> u8 \<Rightarrow> u32 \<Rightarrow> nat" where
  "prefix_len wild wbit bits = (if flag_set wild wbit then 32 else unat bits)"

definition key_covers :: "PerflowKey \<Rightarrow> PerflowKey \<Rightarrow> bool" where
  "key_covers f p \<longleftrightarrow>
     (let wild = flag_set (wildcards f) in
      (wild WILDCARD_DL_TYPE \<or> dl_type f = dl_type p) \<and>
      (wild WILDCARD_NW_SRC \<or>
        prefix_eq (prefix_len (wildcards f) WILDCARD_NW_SRC_MASK (nw_src_mask f)) (nw_src f) (nw_src p)) \<and>
      (wild WILDCARD_NW_DST \<or>
        prefix_eq (prefix_len (wildcards f) WILDCARD_NW_DST_MASK (nw_dst_mask f)) (nw_dst f) (nw_dst p)) \<and>
      (wild WILDCARD_NW_PROTO \<or> nw_proto f = nw_proto p) \<and>
      port_ok (wildcards f) WILDCARD_TP_SRC (tp_src f) (tp_dst f) (tp_src p) (tp_flip p) \<and>
      port_ok (wildcards f) WILDCARD_TP_DST (tp_dst f) (tp_src f) (tp_dst p) (tp_flip p))"

text \<open>A prefix length for which the mask is defined: absent, or between 1 and 32.\<close>

definition prefix_valid :: "u8 \<Rightarrow> u8 \<Rightarrow> u32 \<Rightarrow> bool" where
  "prefix_valid wild wbit bits \<longleftrightarrow> flag_set wild wbit \<or> (1 \<le> unat bits \<and> unat bits \<le> 32)"

definition masks_valid :: "PerflowKey \<Rightarrow> bool" where
  "masks_valid f \<longleftrightarrow>
     prefix_valid (wildcards f) WILDCARD_NW_SRC_MASK (nw_src_mask f) \<and>
     prefix_valid (wildcards f) WILDCARD_NW_DST_MASK (nw_dst_mask f)"

lemma mask_and_eq:
  "((a :: u32) AND push_bit k 0xFFFFFFFF = b AND push_bit k 0xFFFFFFFF) \<longleftrightarrow> drop_bit k a = drop_bit k b"
proof -
  have ones: "(0xFFFFFFFF :: u32) = - 1" by simp
  have "a AND push_bit k (- 1) = push_bit k (drop_bit k a)" for a :: u32
    by (rule bit_word_eqI) (auto simp: bit_simps)
  moreover have "push_bit k (drop_bit k a) = push_bit k (drop_bit k b) \<Longrightarrow> drop_bit k a = drop_bit k b"
    for a b :: u32
  proof (rule bit_word_eqI)
    fix n
    assume eq: "push_bit k (drop_bit k a) = push_bit k (drop_bit k b)" and "n < LENGTH(32)"
    have "bit (push_bit k (drop_bit k a)) (k + n) = bit (push_bit k (drop_bit k b)) (k + n)"
      by (simp only: eq)
    then show "bit (drop_bit k a) n = bit (drop_bit k b) n"
      by (auto simp: bit_simps dest: bit_imp_le_length)
  qed
  ultimately show ?thesis unfolding ones by metis
qed

lemma nw_mask_prefix:
  assumes "prefix_valid wild wbit bits"
  shows "\<exists>m. nw_mask wild wbit bits = Some m
    \<and> (\<forall>a b. a AND m = b AND m \<longleftrightarrow> prefix_eq (prefix_len wild wbit bits) a b)"
proof (cases "flag_set wild wbit")
  case True
  have "a AND push_bit 0 0xFFFFFFFF = b AND push_bit 0 0xFFFFFFFF \<longleftrightarrow> drop_bit 0 a = drop_bit 0 b"
    for a b :: u32 by (rule mask_and_eq)
  with True show ?thesis by (simp add: nw_mask_def prefix_len_def prefix_eq_def)
next
  case False
  with assms have b: "1 \<le> unat bits" "unat bits \<le> 32" by (simp_all add: prefix_valid_def)
  then have "bits \<le> 32" by (simp add: word_le_nat_alt)
  then have "unat (32 - bits) = 32 - unat bits" by (simp add: unat_sub)
  moreover from this b have "unat (32 - bits) < 32" by simp
  ultimately show ?thesis
    using False b mask_and_eq [where k = "32 - unat bits"]
    by (simp add: nw_mask_def prefix_len_def prefix_eq_def)
qed

lemma filter_matches_covers:
  assumes "masks_valid f"
  shows "filter_matches f p = Some (key_covers f p)"
proof -
  from assms nw_mask_prefix obtain sm where
    sm: "nw_mask (wildcards f) WILDCARD_NW_SRC_MASK (nw_src_mask f) = Some sm"
    "\<And>a b. a AND sm = b AND sm \<longleftrightarrow>
       prefix_eq (prefix_len (wildcards f) WILDCARD_NW_SRC_MASK (nw_src_mask f)) a b"
    unfolding masks_valid_def by blast
  from assms nw_mask_prefix obtain dm where
    dm: "nw_mask (wildcards f) WILDCARD_NW_DST_MASK (nw_dst_mask f) = Some dm"
    "\<And>a b. a AND dm = b AND dm \<longleftrightarrow>
       prefix_eq (prefix_len (wildcards f) WILDCARD_NW_DST_MASK (nw_dst_mask f)) a b"
    unfolding masks_valid_def by blast
  show ?thesis
    by (simp add: filter_matches_def key_covers_def Let_def sm dm)
qed

lemma match_loop_find:
  assumes "\<forall>f \<in> set fs. masks_valid (f_key f)"
  shows "match_loop p fs = Some (find (\<lambda>f. key_covers (f_key f) p) fs)"
  using assms by (induction fs) (simp_all add: filter_matches_covers split: bool.splits)

text \<open>C3. When the installed filters have valid prefix lengths, the search loop is defined and
  returns the first filter of the list, that is the one installed last, whose key covers the
  packet key; it returns none exactly when no installed key covers the packet.\<close>

theorem match_loop_first_covering:
  assumes "\<forall>f \<in> set fs. masks_valid (f_key f)"
  shows "\<exists>r. match_loop p fs = Some r \<and>
    (case r of
       None \<Rightarrow> \<forall>f \<in> set fs. \<not> key_covers (f_key f) p
     | Some f \<Rightarrow> \<exists>newer older. fs = newer @ f # older \<and> key_covers (f_key f) p
         \<and> (\<forall>g \<in> set newer. \<not> key_covers (f_key g) p))"
proof (cases "find (\<lambda>f. key_covers (f_key f) p) fs")
  case None
  then have "\<forall>f \<in> set fs. \<not> key_covers (f_key f) p" by (simp add: find_None_iff)
  then show ?thesis by (simp add: match_loop_find [OF assms] None)
next
  case (Some f)
  then show ?thesis using find_append_Some [OF Some] by (simp add: match_loop_find [OF assms])
qed

theorem match_loop_first_covering_witness:
  "let older = \<lparr>f_addr = 1, f_key = zero_key\<lparr>wildcards := 0xFF\<rparr>, f_action = 1, f_id = 7, f_buffer = []\<rparr>;
       newer = \<lparr>f_addr = 2, f_key = zero_key\<lparr>wildcards := 0x7B, nw_dst := 0x0A000000, nw_dst_mask := 8\<rparr>,
                f_action = 0, f_id = 8, f_buffer = []\<rparr>
   in match_loop (zero_key\<lparr>nw_dst := 0x0B000001\<rparr>) [newer, older] = Some (Some older)"
proof -
  define older where "older = \<lparr>f_addr = 1, f_key = zero_key\<lparr>wildcards := 0xFF\<rparr>, f_action = 1, f_id = 7,
    f_buffer = []\<rparr>"
  define newer where "newer = \<lparr>f_addr = 2,
    f_key = zero_key\<lparr>wildcards := 0x7B, nw_dst := 0x0A000000, nw_dst_mask := 8\<rparr>,
    f_action = 0, f_id = 8, f_buffer = []\<rparr>"
  let ?pkt = "zero_key\<lparr>nw_dst := 0x0B000001\<rparr>"
  have valid: "masks_valid (f_key newer)" "masks_valid (f_key older)"
    by (simp_all add: masks_valid_def prefix_valid_def flag_set_def wildcard_defs newer_def older_def)
  have "\<not> key_covers (f_key newer) ?pkt"
    by (simp add: key_covers_def Let_def flag_set_def wildcard_defs newer_def prefix_eq_def
        prefix_len_def)
  moreover have "key_covers (f_key older) ?pkt"
    by (simp add: key_covers_def Let_def flag_set_def wildcard_defs older_def port_ok_def)
  ultimately have "match_loop ?pkt [newer, older] = Some (Some older)"
    using match_loop_first_covering [of "[newer, older]" ?pkt] valid
    by (auto split: option.splits simp: Cons_eq_append_conv)
  then show ?thesis by (simp add: Let_def older_def newer_def)
qed

section \<open>The processing lock\<close>

lemma raise_reprocess_frame:
  assumes "sdmbn_raise_reprocess J P mem_ok i h hdr pkt s = Ret (r, s')"
  shows "s_lock_processing s' = s_lock_processing s \<and> s_filters s' = s_filters s
    \<and> s_nf s' = s_nf s \<and> s_conn_event s' = s_conn_event s \<and> s_conn_state s' = s_conn_state s"
  using assms
  by (auto simp: sdmbn_raise_reprocess_def run_bind_eq_Ret json_send_def split: option.splits)

lemma upd_buffer_simps [simp]:
  "s_lock_processing (upd_buffer addr g s) = s_lock_processing s"
  "s_nf (upd_buffer addr g s) = s_nf s" "s_sent (upd_buffer addr g s) = s_sent s"
  "s_conn_event (upd_buffer addr g s) = s_conn_event s"
  "s_conn_state (upd_buffer addr g s) = s_conn_state s"
  "s_stats (upd_buffer addr g s) = s_stats s" "s_config (upd_buffer addr g s) = s_config s"
  "s_lock_get (upd_buffer addr g s) = s_lock_get s"
  by (simp_all add: upd_buffer_def)

lemma action_keeps_lock:
  "action_buffer P f hdr pkt ctx s = Ret (ctx', s') \<Longrightarrow> s_lock_processing s' = s_lock_processing s"
  "action_drop J P mem_ok f hdr pkt ctx s = Ret (ctx', s') \<Longrightarrow> s_lock_processing s' = s_lock_processing s"
  "action_process f ctx s = Ret (ctx', s') \<Longrightarrow> s_lock_processing s' = s_lock_processing s"
  by (auto simp: action_buffer_def action_drop_def action_process_def run_bind_eq_Ret Let_def
      dest: raise_reprocess_frame split: option.splits bool.splits if_splits)

lemma preprocess_lock:
  assumes "sdmbn_preprocess_packet J P mem_ok stack hdr pkt ctx s = Ret (ctx', s')"
  shows "\<not> s_lock_processing s" "s_lock_processing s' \<longleftrightarrow> ctx_stop ctx' = 0"
proof -
  show "\<not> s_lock_processing s"
    using assms by (auto simp: sdmbn_preprocess_packet_def split: if_splits)
  define s0 where "s0 = s\<lparr>s_lock_processing := True\<rparr>"
  have lock0: "s_lock_processing s0" by (simp add: s0_def)
  obtain ctx1 s1 where inner: "packet_action J P mem_ok stack hdr pkt ctx s0 = Ret (ctx1, s1)"
    and last: "unlock_if_stopped (ctx1, s1) = Ret (ctx', s')"
    using assms by (auto simp: sdmbn_preprocess_packet_def s0_def run_bind_eq_Ret split: if_splits)
  have "s_lock_processing s1"
    using inner lock0
    by (auto simp: packet_action_def dest: action_keeps_lock split: if_splits option.splits)
  with last show "s_lock_processing s' \<longleftrightarrow> ctx_stop ctx' = 0"
    by (auto simp: unlock_if_stopped_def split: if_splits)
qed

lemma not_blocked:
  "sdmbn_raise_reprocess J P mem_ok i h hdr pkt s \<noteq> Blocked"
  "action_buffer P f hdr' pkt' ctx s \<noteq> Blocked"
  "action_drop J P mem_ok f hdr' pkt' ctx s \<noteq> Blocked"
  "action_process f ctx s \<noteq> Blocked"
  "packet_action J P mem_ok stack hdr' pkt' ctx s \<noteq> Blocked"
proof -
  have field: "json_compose_base64_field J mem_ok b n \<noteq> Blocked" for b n
    by (simp add: json_compose_base64_field_def split: option.splits)
  show 1: "sdmbn_raise_reprocess J P mem_ok i h hdr pkt s \<noteq> Blocked" for i h hdr pkt
    by (auto simp: sdmbn_raise_reprocess_def json_compose_reprocess_event_def run_bind_eq_Blocked
        field json_send_def split: option.splits)
  show 2: "action_buffer P f hdr' pkt' ctx s \<noteq> Blocked" for f
    by (auto simp: action_buffer_def Let_def split: option.splits bool.splits)
  show 3: "action_drop J P mem_ok f hdr' pkt' ctx s \<noteq> Blocked" for f
    using 1 by (auto simp: action_drop_def run_bind_eq_Blocked split: option.splits bool.splits)
  show 4: "action_process f ctx s \<noteq> Blocked" for f
    by (simp add: action_process_def)
  show "packet_action J P mem_ok stack hdr' pkt' ctx s \<noteq> Blocked"
    using 2 3 4 by (auto simp: packet_action_def split: option.splits)
qed

lemma postprocess_lock:
  assumes "sdmbn_postprocess_packet J P mem_ok hdr pkt ctx s = Ret s'"
  shows "\<not> s_lock_processing s'"
  using assms by (auto simp: sdmbn_postprocess_packet_def run_bind_eq_Ret)

text \<open>What a network function does with a packet: preprocess it and, unless told to stop, process
  it (which does not touch the lock) and postprocess it.\<close>

definition handle_packet ::
  "'j json_c \<Rightarrow> platform \<Rightarrow> (int \<Rightarrow> bool) \<Rightarrow> (pcap_pkthdr \<Rightarrow> bytes \<Rightarrow> 'nf \<Rightarrow> 'nf) \<Rightarrow> PerflowKey
   \<Rightarrow> pcap_pkthdr \<Rightarrow> bytes \<Rightarrow> ProcessContext \<Rightarrow> ('nf, 'j) sdmbn \<Rightarrow> ('nf, 'j) sdmbn run" where
  "handle_packet J P mem_ok work stack hdr pkt ctx s =
     run_bind (sdmbn_preprocess_packet J P mem_ok stack hdr pkt ctx s) (\<lambda>(ctx, s).
       if ctx_stop ctx \<noteq> 0 then Ret s
       else sdmbn_postprocess_packet J P mem_ok hdr pkt ctx (s\<lparr>s_nf := work hdr pkt (s_nf s)\<rparr>))"

text \<open>C4. The processing lock is balanced: preprocessing holds it on return exactly when the packet
  is to be processed further, and the whole treatment of a packet always ends with the lock
  free, so the next packet never blocks.\<close>

theorem processing_lock_balanced:
  assumes "handle_packet J P mem_ok work stack hdr pkt ctx s = Ret s'"
  shows "\<not> s_lock_processing s'
    \<and> sdmbn_preprocess_packet J P mem_ok stack' hdr' pkt' ctx' s' \<noteq> Blocked"
proof -
  have "\<not> s_lock_processing s'"
    using assms by (auto simp: handle_packet_def run_bind_eq_Ret preprocess_lock
        dest: postprocess_lock split: if_splits)
  moreover from this have "sdmbn_preprocess_packet J P mem_ok stack' hdr' pkt' ctx' s' \<noteq> Blocked"
    by (auto simp: sdmbn_preprocess_packet_def unlock_if_stopped_def run_bind_eq_Blocked not_blocked)
  ultimately show ?thesis ..
qed

theorem processing_lock_balanced_witness:
  "let P = \<lparr>big_endian = False, char_signed = True\<rparr>;
       hdr = \<lparr>ts_sec = 1, ts_usec = 2, caplen = 14, pktlen = 14\<rparr>;
       pkt = replicate 14 (0 :: u8);
       flt = \<lparr>f_addr = 1, f_key = zero_key\<lparr>wildcards := 0xFF\<rparr>, f_action = EVENT_ACTION_PROCESS,
              f_id = 7, f_buffer = []\<rparr>;
       ctx = \<lparr>ctx_injected = 0, ctx_stop = 0, ctx_event = 0\<rparr>;
       s = (zero_sdmbn 0)\<lparr>s_filters := [flt]\<rparr> :: (nat, json_value) sdmbn
   in \<exists>s'. handle_packet json_tree P (\<lambda>_. True) (\<lambda>_ _ nf. nf + 1) zero_key hdr pkt ctx s = Ret s'
       \<and> s_nf s' = 1 \<and> \<not> s_lock_processing s'"
proof -
  define P where "P = \<lparr>big_endian = False, char_signed = True\<rparr>"
  define hdr where "hdr = \<lparr>ts_sec = 1, ts_usec = 2, caplen = 14, pktlen = 14\<rparr>"
  define flt where "flt = \<lparr>f_addr = 1, f_key = zero_key\<lparr>wildcards := 0xFF\<rparr>,
    f_action = EVENT_ACTION_PROCESS, f_id = 7, f_buffer = []\<rparr>"
  define ctx where "ctx = \<lparr>ctx_injected = 0, ctx_stop = 0, ctx_event = 0\<rparr>"
  define s :: "(nat, json_value) sdmbn" where "s = (zero_sdmbn 0)\<lparr>s_filters := [flt]\<rparr>"
  let ?run = "handle_packet json_tree P (\<lambda>_. True) (\<lambda>_ _ nf. nf + 1) zero_key hdr (replicate 14 0) ctx s"
  have "(case ?run of Ret s' \<Rightarrow> s_nf s' = 1 | _ \<Rightarrow> False)"
    unfolding P_def hdr_def flt_def ctx_def s_def by code_simp
  then obtain s' where s': "?run = Ret s'" "s_nf s' = 1" by (cases ?run) auto
  from processing_lock_balanced [OF s'(1)] have "\<not> s_lock_processing s'" by blast
  with s' show ?thesis
    unfolding Let_def P_def [symmetric] hdr_def [symmetric] flt_def [symmetric] ctx_def [symmetric]
      s_def [symmetric] by blast
qed

section \<open>Releasing buffered packets\<close>

text \<open>A callback that treats a packet inside the network function only: \<open>work\<close> is its effect there,
  \<open>rc\<close> its result.\<close>

definition local_process ::
  "(pcap_pkthdr \<Rightarrow> bytes \<Rightarrow> 'nf \<Rightarrow> c_int) \<Rightarrow> (pcap_pkthdr \<Rightarrow> bytes \<Rightarrow> 'nf \<Rightarrow> 'nf)
   \<Rightarrow> pcap_pkthdr \<Rightarrow> bytes \<Rightarrow> ('nf, 'j) sdmbn \<Rightarrow> c_int \<times> ('nf, 'j) sdmbn" where
  "local_process rc work hdr pkt s = (rc hdr pkt (s_nf s), s\<lparr>s_nf := work hdr pkt (s_nf s)\<rparr>)"

lemma filter_at_upd_buffer:
  "filter_at addr s = Some f \<Longrightarrow>
   filter_at addr (upd_buffer addr g s) = Some (f\<lparr>f_buffer := g (f_buffer f)\<rparr>)"
proof -
  have "find (\<lambda>f. f_addr f = addr) fs = Some f \<Longrightarrow>
      find (\<lambda>f. f_addr f = addr)
        (map (\<lambda>f. if f_addr f = addr then f\<lparr>f_buffer := g (f_buffer f)\<rparr> else f) fs)
      = Some (f\<lparr>f_buffer := g (f_buffer f)\<rparr>)" for fs
    by (induction fs) (auto split: if_splits)
  then show "filter_at addr s = Some f \<Longrightarrow> ?thesis"
    by (simp add: filter_at_def upd_buffer_def)
qed

lemma filter_at_cong: "s_filters s' = s_filters s \<Longrightarrow> filter_at addr s' = filter_at addr s"
  by (simp add: filter_at_def)

lemma unlink_upd_buffer:
  "unlink_filter addr (map (\<lambda>f. if f_addr f = addr then f\<lparr>f_buffer := g (f_buffer f)\<rparr> else f) fs)
     = unlink_filter addr fs"
  if "distinct (map f_addr fs)" for fs
  using that by (induction fs) (auto simp: image_iff intro!: map_idI dest: sym)

lemma unlink_filter_eq:
  "distinct (map f_addr fs) \<Longrightarrow> unlink_filter addr fs = List.filter (\<lambda>f. f_addr f \<noteq> addr) fs"
  by (induction fs) (auto simp: image_iff intro!: filter_True [symmetric] dest: sym)

lemma map_addr_upd_buffer [simp]:
  "map f_addr (s_filters (upd_buffer addr g s)) = map f_addr (s_filters s)"
  by (simp add: upd_buffer_def comp_def)

text \<open>The effect of one round.\<close>

lemma release_packet_local:
  assumes "loc_process_packet L = Some (local_process rc work)"
  shows "s_nf (release_packet L addr e s) = work (b_hdr e) (b_pkt e) (s_nf s)"
    and "s_filters (release_packet L addr e s) = s_filters (upd_buffer addr tl s)"
    and "s_sent (release_packet L addr e s) = s_sent s"
    and "s_lock_processing (release_packet L addr e s) = s_lock_processing s"
    and "pkts_release_count (s_stats (release_packet L addr e s)) = pkts_release_count (s_stats s)
      + (if sneg (rc (b_hdr e) (b_pkt e) (s_nf s)) then 0 else 1)"
  using assms by (simp_all add: release_packet_def local_process_def Let_def upd_buffer_def)

lemma release_loop_drains:
  assumes pp: "loc_process_packet L = Some (local_process rc work)"
    and "filter_at addr s = Some f" "distinct (map f_addr (s_filters s))"
  shows "\<exists>s'. release_loop L addr s = Some (Ret s')
    \<and> s_nf s' = foldl (\<lambda>nf e. work (b_hdr e) (b_pkt e) nf) (s_nf s) (f_buffer f)
    \<and> unlink_filter addr (s_filters s') = unlink_filter addr (s_filters s)
    \<and> s_sent s' = s_sent s
    \<and> ((\<forall>h p nf. \<not> sneg (rc h p nf)) \<longrightarrow>
        pkts_release_count (s_stats s') = pkts_release_count (s_stats s) + word_of_nat (length (f_buffer f)))"
  using assms(2,3)
proof (induction "f_buffer f" arbitrary: f s)
  case Nil
  have "release_loop L addr s = Some (Ret s)"
    by (subst release_loop.simps) (simp add: Nil.prems(1) flip: Nil.hyps)
  then show ?case by (simp flip: Nil.hyps)
next
  case (Cons e es)
  let ?s = "release_packet L addr e s"
  note eff = release_packet_local [OF pp, of addr e s]
  have "filter_at addr ?s = Some (f\<lparr>f_buffer := tl (f_buffer f)\<rparr>)"
    using filter_at_upd_buffer [OF Cons.prems(1), of tl] filter_at_cong [OF eff(2)] by simp
  then have at: "filter_at addr ?s = Some (f\<lparr>f_buffer := es\<rparr>)" by (simp flip: Cons.hyps(2))
  have dist: "distinct (map f_addr (s_filters ?s))"
    using Cons.prems(2) by (simp add: eff)
  have rest: "unlink_filter addr (s_filters ?s) = unlink_filter addr (s_filters s)"
    using unlink_upd_buffer [OF Cons.prems(2)] by (simp add: eff upd_buffer_def)
  have step: "release_loop L addr s = release_loop L addr ?s"
    by (subst release_loop.simps) (simp add: Cons.prems(1) flip: Cons.hyps(2))
  have "es = f_buffer (f\<lparr>f_buffer := es\<rparr>)" by simp
  from Cons.hyps(1) [OF this at dist] obtain s' where
    "release_loop L addr ?s = Some (Ret s')"
    "s_nf s' = foldl (\<lambda>nf e. work (b_hdr e) (b_pkt e) nf) (s_nf ?s) es"
    "unlink_filter addr (s_filters s') = unlink_filter addr (s_filters ?s)" "s_sent s' = s_sent ?s"
    "(\<forall>h p nf. \<not> sneg (rc h p nf)) \<longrightarrow> pkts_release_count (s_stats s') =
       pkts_release_count (s_stats ?s) + word_of_nat (length es)"
    by (elim exE conjE) simp
  then show ?case
    unfolding step Cons.hyps(2) [symmetric]
    by (intro exI [of _ s']) (simp add: eff rest [unfolded eff])
qed

text \<open>C2. Removing a filter hands every packet it has buffered to the network function, in arrival
  order and each exactly once, sends nothing, and takes exactly that filter off the list; when
  no packet is refused the release counter grows by the number of packets.  The loop always
  ends.\<close>

theorem remove_filter_releases_in_order:
  assumes "loc_process_packet L = Some (local_process rc work)"
    and "find (\<lambda>f. f_key f = key) (s_filters s) = Some f" "distinct (map f_addr (s_filters s))"
  shows "\<exists>s'. events_remove_filter L key s = Some (Ret s')
    \<and> s_nf s' = foldl (\<lambda>nf e. work (b_hdr e) (b_pkt e) nf) (s_nf s) (f_buffer f)
    \<and> s_filters s' = List.filter (\<lambda>g. f_addr g \<noteq> f_addr f) (s_filters s)
    \<and> s_sent s' = s_sent s
    \<and> ((\<forall>h p nf. \<not> sneg (rc h p nf)) \<longrightarrow>
        pkts_release_count (s_stats s') = pkts_release_count (s_stats s) + word_of_nat (length (f_buffer f)))"
proof -
  from find_append_Some [OF assms(2)] obtain pre post where fs: "s_filters s = pre @ f # post" by blast
  with assms(3) have "\<forall>g \<in> set pre. f_addr g \<noteq> f_addr f" by (auto simp: image_iff)
  then have "find (\<lambda>g. f_addr g = f_addr f) (pre @ f # post) = Some f" by (induction pre) auto
  with fs have "filter_at (f_addr f) s = Some f" by (simp add: filter_at_def)
  from release_loop_drains [OF assms(1) this assms(3)] assms(2,3) show ?thesis
    by (auto simp: events_remove_filter_def unlink_filter_eq)
qed

theorem remove_filter_releases_in_order_witness:
  "let hdr = \<lparr>ts_sec = 0, ts_usec = 0, caplen = 1, pktlen = 1\<rparr>;
       flt = \<lparr>f_addr = 1, f_key = zero_key, f_action = EVENT_ACTION_BUFFER, f_id = 7,
              f_buffer = [\<lparr>b_hdr = hdr, b_pkt = [10]\<rparr>, \<lparr>b_hdr = hdr, b_pkt = [20]\<rparr>]\<rparr>;
       s = (zero_sdmbn [])\<lparr>s_filters := [flt]\<rparr> :: (bytes, json_value) sdmbn;
       L = no_callbacks\<lparr>loc_process_packet := Some (local_process (\<lambda>_ _ _. 1) (\<lambda>_ pkt seen. seen @ pkt))\<rparr>
   in \<exists>s'. events_remove_filter L zero_key s = Some (Ret s') \<and> s_nf s' = [10, 20] \<and> s_filters s' = []"
proof -
  define flt where "flt = \<lparr>f_addr = 1, f_key = zero_key, f_action = EVENT_ACTION_BUFFER, f_id = 7,
    f_buffer = [\<lparr>b_hdr = \<lparr>ts_sec = 0, ts_usec = 0, caplen = 1, pktlen = 1\<rparr>, b_pkt = [10]\<rparr>,
                \<lparr>b_hdr = \<lparr>ts_sec = 0, ts_usec = 0, caplen = 1, pktlen = 1\<rparr>, b_pkt = [20]\<rparr>]\<rparr>"
  let ?s = "(zero_sdmbn [])\<lparr>s_filters := [flt]\<rparr> :: (bytes, json_value) sdmbn"
  have key: "find (\<lambda>f. f_key f = zero_key) (s_filters ?s) = Some flt" by (simp add: flt_def)
  let ?L = "no_callbacks\<lparr>loc_process_packet := Some (local_process (\<lambda>_ _ _. 1) (\<lambda>_ pkt seen. seen @ pkt))\<rparr>"
  have pp: "loc_process_packet ?L = Some (local_process (\<lambda>_ _ _. 1) (\<lambda>_ pkt seen. seen @ pkt))" by simp
  show ?thesis
    using remove_filter_releases_in_order [OF pp key]
    by (auto simp: Let_def flt_def zero_sdmbn_def)
qed

section \<open>Carrying a packet to another instance\<close>




section \<open>Where the code falls short\<close>

lemma sint_8: "sint (b :: u8) = (if unat b < 128 then int (unat b) else int (unat b) - 256)"
proof -
  define k where "k = uint b"
  have k: "0 \<le> k" "k < 256" using uint_lt2p [of b] by (simp_all add: k_def)
  have nat_k: "int (unat b) = k" by (simp add: k_def)
  have lt_k: "unat b < 128 \<longleftrightarrow> k < 128" unfolding nat_k [symmetric] by linarith
  have mod_k: "(k + 128) mod 256 = (if k < 128 then k + 128 else k - 128)"
  proof (cases "k < 128")
    case False
    have "(k - 128 + 256) mod 256 = k - 128" unfolding mod_add_self2 using False k by simp
    with False show ?thesis by (simp add: add.commute)
  qed (use k in simp)
  have "sint b = (k + 128) mod 256 - 128"
    by (simp add: sint_uint signed_take_bit_eq_take_bit_shift take_bit_eq_mod k_def)
  then show ?thesis unfolding nat_k lt_k mod_k by simp
qed

text \<open>A reprocess event is raised for a processed packet only if the low byte of the filter's
  id, read as a \<open>char\<close>, is positive, and it carries that byte as its id: on a platform with
  signed \<open>char\<close> an id of 128 to 255 raises no event, and id 263 raises one for id 7.\<close>

theorem event_id_truncated:
  assumes "char_signed P" "unat (f_id flt) mod 256 \<ge> 128 \<or> unat (f_id flt) mod 256 = 0"
    and "action_process flt ctx s = Ret (ctx', s')"
  shows "sdmbn_postprocess_packet J P mem_ok hdr pkt ctx' s' = Ret (s'\<lparr>s_lock_processing := False\<rparr>)"
proof -
  have ev: "ctx_event ctx' = ucast (f_id flt)"
    using assms(3) by (auto simp: action_process_def)
  have u: "unat (ucast (f_id flt) :: u8) = unat (f_id flt) mod 256"
    by (simp add: unsigned_ucast_eq unsigned_take_bit_eq take_bit_eq_mod)
  have "sint (ucast (f_id flt) :: u8) \<le> 0"
  proof (cases "unat (f_id flt) mod 256 = 0")
    case True
    with u have "(ucast (f_id flt) :: u8) = 0" by (simp add: unat_eq_0)
    then show ?thesis by simp
  next
    case False
    with assms(2) u have "128 \<le> unat (ucast (f_id flt) :: u8)" by simp
    then show ?thesis using uint_lt2p [of "ucast (f_id flt) :: u8"] by (simp add: sint_8)
  qed
  then have "\<not> 0 < sint (char_to_int P (ucast (f_id flt)))"
    using assms(1) by (simp add: char_to_int_def sint_up_scast is_up)
  then show ?thesis by (simp add: sdmbn_postprocess_packet_def ev)
qed

theorem event_id_truncated_witness:
  "let P = \<lparr>big_endian = False, char_signed = True\<rparr>;
       hdr = \<lparr>ts_sec = 5, ts_usec = 6, caplen = 2, pktlen = 2\<rparr>;
       flt = \<lparr>f_addr = 1, f_key = zero_key, f_action = EVENT_ACTION_PROCESS, f_id = 200, f_buffer = []\<rparr>;
       s = zero_sdmbn (0 :: nat) :: (nat, json_value) sdmbn
   in \<exists>ctx' s'. action_process flt \<lparr>ctx_injected = 0, ctx_stop = 0, ctx_event = 0\<rparr> s = Ret (ctx', s')
      \<and> sdmbn_postprocess_packet json_tree P (\<lambda>_. True) hdr [1, 2] ctx' s' = Ret (s'\<lparr>s_lock_processing := False\<rparr>)"
proof -
  let ?flt = "\<lparr>f_addr = 1, f_key = zero_key, f_action = EVENT_ACTION_PROCESS, f_id = 200, f_buffer = []\<rparr>"
  have "unat (f_id ?flt) mod 256 \<ge> 128 \<or> unat (f_id ?flt) mod 256 = 0" by simp
  note ok = event_id_truncated [OF _ this,
      where ctx = "\<lparr>ctx_injected = 0, ctx_stop = 0, ctx_event = 0\<rparr>"
      and s = "zero_sdmbn (0 :: nat) :: (nat, json_value) sdmbn"
      and J = json_tree and mem_ok = "\<lambda>_. True"]
  show ?thesis
    unfolding Let_def by (rule exI, rule exI, rule conjI [OF _ ok]) (simp_all add: action_process_def)
qed

text \<open>Whether a filter on ports matches a packet depends on memory the code never wrote: for a
  TCP packet whose ports are the filter's in the other direction, the answer is what the stack
  happened to hold in the place of \<open>tp_flip\<close>, not the filter's own \<open>tp_flip\<close>.\<close>

theorem match_depends_on_stack:
  assumes "build_packet_key P pkt stack = Some pKey" "masks_valid (f_key flt)"
    and "key_covers (f_key flt) (pKey\<lparr>tp_flip := 1\<rparr>)" "\<not> key_covers (f_key flt) (pKey\<lparr>tp_flip := 0\<rparr>)"
    and "s_filters s = [flt]"
  shows "matches_filter P stack pkt s = Some (if tp_flip stack = 0 then None else Some flt)"
proof -
  have "tp_flip pKey = tp_flip stack"
    using assms(1) by (auto simp: build_packet_key_def build_key_network_def build_key_transport_def Let_def
        bind_eq_Some_conv split: option.splits if_splits)
  moreover have "key_covers (f_key flt) pKey \<longleftrightarrow> tp_flip pKey \<noteq> 0"
    using assms(3,4) by (cases "tp_flip pKey = 0") (simp_all add: key_covers_def port_ok_def Let_def)
  ultimately show ?thesis
    using assms by (simp add: matches_filter_def filter_matches_covers)
qed

theorem match_depends_on_stack_witness:
  "let P = \<lparr>big_endian = False, char_signed = True\<rparr>;
       pkt = replicate 12 0 @ [8, 0] @ [0x45, 0, 0, 40, 0, 0, 0, 0, 64, 6, 0, 0, 10, 0, 0, 1, 10, 0, 0, 2]
             @ [0, 80, 4, 0] @ replicate 16 0;
       flt = \<lparr>f_addr = 1, f_key = zero_key\<lparr>wildcards := 0xCF, tp_src := 1024, tp_dst := 80, tp_flip := 1\<rparr>,
              f_action = 0, f_id = 7, f_buffer = []\<rparr>;
       s = (zero_sdmbn (0 :: nat))\<lparr>s_filters := [flt]\<rparr> :: (nat, json_value) sdmbn
   in matches_filter P zero_key pkt s = Some None
      \<and> matches_filter P (zero_key\<lparr>tp_flip := 9\<rparr>) pkt s = Some (Some flt)"
proof -
  define P where "P = \<lparr>big_endian = False, char_signed = True\<rparr>"
  define pkt :: bytes where "pkt = replicate 12 0 @ [8, 0]
    @ [0x45, 0, 0, 40, 0, 0, 0, 0, 64, 6, 0, 0, 10, 0, 0, 1, 10, 0, 0, 2] @ [0, 80, 4, 0] @ replicate 16 0"
  define flt where "flt = \<lparr>f_addr = 1,
    f_key = zero_key\<lparr>wildcards := 0xCF, tp_src := 1024, tp_dst := 80, tp_flip := 1\<rparr>,
    f_action = 0, f_id = 7, f_buffer = []\<rparr>"
  define s :: "(nat, json_value) sdmbn" where "s = (zero_sdmbn 0)\<lparr>s_filters := [flt]\<rparr>"
  define k where "k = zero_key\<lparr>nw_src := 0x0A000001, nw_dst := 0x0A000002, tp_src := 80, tp_dst := 1024,
    dl_type := 0x0800, nw_proto := 6, wildcards := 0xC0\<rparr>"
  have b: "build_packet_key P pkt zero_key = Some k"
      "build_packet_key P pkt (zero_key\<lparr>tp_flip := 9\<rparr>) = Some (k\<lparr>tp_flip := 9\<rparr>)"
    unfolding P_def pkt_def k_def by code_simp+
  have v: "masks_valid (f_key flt)" unfolding flt_def by code_simp
  have c: "key_covers (f_key flt) (k\<lparr>tp_flip := 1\<rparr>)" "\<not> key_covers (f_key flt) (k\<lparr>tp_flip := 0\<rparr>)"
      "key_covers (f_key flt) (k\<lparr>tp_flip := 9\<rparr>\<lparr>tp_flip := 1\<rparr>)"
      "\<not> key_covers (f_key flt) (k\<lparr>tp_flip := 9\<rparr>\<lparr>tp_flip := 0\<rparr>)"
    unfolding flt_def k_def by code_simp+
  have s: "s_filters s = [flt]" by (simp add: s_def)
  have "matches_filter P zero_key pkt s = Some None
      \<and> matches_filter P (zero_key\<lparr>tp_flip := 9\<rparr>) pkt s = Some (Some flt)"
    using match_depends_on_stack [OF b(1) v c(1,2) s] match_depends_on_stack [OF b(2) v c(3,4) s]
    by (simp add: zero_key_def)
  then show ?thesis unfolding Let_def P_def pkt_def flt_def s_def by blast
qed

end
