(* ===== verification/Sdmbn_State.thy ===== *)
theory Sdmbn_State
  imports Sdmbn_Event
begin

text \<open>
  The state connection, \<^verbatim>\<open>shared/state.c\<close>: the controller sends get, put and delete commands for
  per-flow, multi-flow, all-flows and configuration state and the commands that enable and
  disable events; each handler checks the command, calls the network function's callback and
  replies.  Exported state is sent by the callbacks through the \<open>sdmbn_send\<close> functions.

  \<open>elapsed\<close> is the time in microseconds that the statistics code measured for the call; the mutex
  \<open>sdmbn_lock_get\<close> is a boolean, taking it while it is held blocks, and releasing it while it is
  free is undefined behaviour.
\<close>

section \<open>Command names\<close>

abbreviation COMMAND_GET_PERFLOW :: string where "COMMAND_GET_PERFLOW \<equiv> ''get-perflow''"
abbreviation COMMAND_PUT_PERFLOW :: string where "COMMAND_PUT_PERFLOW \<equiv> ''put-perflow''"
abbreviation COMMAND_GET_MULTIFLOW :: string where "COMMAND_GET_MULTIFLOW \<equiv> ''get-multiflow''"
abbreviation COMMAND_PUT_MULTIFLOW :: string where "COMMAND_PUT_MULTIFLOW \<equiv> ''put-multiflow''"
abbreviation COMMAND_GET_ALLFLOWS :: string where "COMMAND_GET_ALLFLOWS \<equiv> ''get-allflows''"
abbreviation COMMAND_PUT_ALLFLOWS :: string where "COMMAND_PUT_ALLFLOWS \<equiv> ''put-allflows''"
abbreviation COMMAND_GET_CONFIG :: string where "COMMAND_GET_CONFIG \<equiv> ''get-config''"
abbreviation COMMAND_PUT_CONFIG :: string where "COMMAND_PUT_CONFIG \<equiv> ''put-config''"
abbreviation COMMAND_DELETE_PERFLOW :: string where "COMMAND_DELETE_PERFLOW \<equiv> ''delete-perflow''"
abbreviation COMMAND_DELETE_MULTIFLOW :: string where "COMMAND_DELETE_MULTIFLOW \<equiv> ''delete-multiflow''"
abbreviation COMMAND_ENABLE_EVENTS :: string where "COMMAND_ENABLE_EVENTS \<equiv> ''enable-events''"
abbreviation COMMAND_DISABLE_EVENTS :: string where "COMMAND_DISABLE_EVENTS \<equiv> ''disable-events''"

section \<open>Replies\<close>

text \<open>Acknowledgements of gets and deletes and errors go to the state connection, those of puts to
  the event connection.\<close>

definition reply_state :: "'j \<Rightarrow> ('nf, 'j) sdmbn \<Rightarrow> ('nf, 'j) sdmbn" where
  "reply_state m s = snd (json_send (Some m) (s_conn_state s) s)"

definition reply_event :: "'j \<Rightarrow> ('nf, 'j) sdmbn \<Rightarrow> ('nf, 'j) sdmbn" where
  "reply_event m s = snd (json_send (Some m) (s_conn_event s) s)"

definition send_delete_perflow_ack :: "'j json_c \<Rightarrow> c_int \<Rightarrow> c_int \<Rightarrow> ('nf, 'j) sdmbn \<Rightarrow> ('nf, 'j) sdmbn" where
  "send_delete_perflow_ack J i count = reply_state (json_compose_delete_perflow_ack J i count)"

definition send_delete_multiflow_ack :: "'j json_c \<Rightarrow> c_int \<Rightarrow> c_int \<Rightarrow> ('nf, 'j) sdmbn \<Rightarrow> ('nf, 'j) sdmbn" where
  "send_delete_multiflow_ack J i count = reply_state (json_compose_delete_multiflow_ack J i count)"

definition send_get_perflow_ack :: "'j json_c \<Rightarrow> c_int \<Rightarrow> c_int \<Rightarrow> ('nf, 'j) sdmbn \<Rightarrow> ('nf, 'j) sdmbn" where
  "send_get_perflow_ack J i count = reply_state (json_compose_get_perflow_ack J i count)"

definition send_put_perflow_ack :: "'j json_c \<Rightarrow> c_int \<Rightarrow> c_int \<Rightarrow> ('nf, 'j) sdmbn \<Rightarrow> ('nf, 'j) sdmbn" where
  "send_put_perflow_ack J i hashkey = reply_event (json_compose_put_perflow_ack J i hashkey)"

definition send_get_multiflow_ack :: "'j json_c \<Rightarrow> c_int \<Rightarrow> c_int \<Rightarrow> ('nf, 'j) sdmbn \<Rightarrow> ('nf, 'j) sdmbn" where
  "send_get_multiflow_ack J i count = reply_state (json_compose_get_multiflow_ack J i count)"

definition send_put_multiflow_ack :: "'j json_c \<Rightarrow> c_int \<Rightarrow> c_int \<Rightarrow> ('nf, 'j) sdmbn \<Rightarrow> ('nf, 'j) sdmbn" where
  "send_put_multiflow_ack J i hashkey = reply_event (json_compose_put_multiflow_ack J i hashkey)"

definition send_get_allflows_ack :: "'j json_c \<Rightarrow> c_int \<Rightarrow> c_int \<Rightarrow> ('nf, 'j) sdmbn \<Rightarrow> ('nf, 'j) sdmbn" where
  "send_get_allflows_ack J i count = reply_state (json_compose_get_allflows_ack J i count)"

definition send_put_allflows_ack :: "'j json_c \<Rightarrow> c_int \<Rightarrow> c_int \<Rightarrow> ('nf, 'j) sdmbn \<Rightarrow> ('nf, 'j) sdmbn" where
  "send_put_allflows_ack J i hashkey = reply_event (json_compose_put_allflows_ack J i hashkey)"

definition send_get_config_ack :: "'j json_c \<Rightarrow> c_int \<Rightarrow> c_int \<Rightarrow> ('nf, 'j) sdmbn \<Rightarrow> ('nf, 'j) sdmbn" where
  "send_get_config_ack J i count = reply_state (json_compose_get_config_ack J i count)"

definition send_put_config_ack :: "'j json_c \<Rightarrow> c_int \<Rightarrow> c_int \<Rightarrow> ('nf, 'j) sdmbn \<Rightarrow> ('nf, 'j) sdmbn" where
  "send_put_config_ack J i hashkey = reply_event (json_compose_put_config_ack J i hashkey)"

definition send_error ::
  "'j json_c \<Rightarrow> c_int \<Rightarrow> c_int \<Rightarrow> string \<Rightarrow> ('nf, 'j) sdmbn \<Rightarrow> ('nf, 'j) sdmbn" where
  "send_error J i hashkey cause = reply_state (json_compose_error J i hashkey cause)"

lemmas ack_defs =
  send_delete_perflow_ack_def send_delete_multiflow_ack_def send_get_perflow_ack_def
  send_put_perflow_ack_def send_get_multiflow_ack_def send_put_multiflow_ack_def
  send_get_allflows_ack_def send_put_allflows_ack_def send_get_config_ack_def
  send_put_config_ack_def send_error_def

section \<open>The get lock\<close>

definition lock_get :: "('nf, 'j) sdmbn \<Rightarrow> ('nf, 'j) sdmbn run" where
  "lock_get s = (if s_lock_get s then Blocked else Ret (s\<lparr>s_lock_get := True\<rparr>))"

definition unlock_get :: "('nf, 'j) sdmbn \<Rightarrow> ('nf, 'j) sdmbn run" where
  "unlock_get s = (if s_lock_get s then Ret (s\<lparr>s_lock_get := False\<rparr>) else Undef)"

section \<open>Per-flow state\<close>

definition get_perflow_exts :: "SDMBNConfig \<Rightarrow> exts" where
  "get_perflow_exts cfg =
     (if sint (max_get_flows cfg) > 0
      then ExtDangling \<lparr>ext_id = SDMBN_EXT_MAX_CHUNKS, ext_data = max_get_flows cfg\<rparr>
      else ExtNull)"

definition handle_get_perflow ::
  "'j json_c \<Rightarrow> platform \<Rightarrow> ('nf, 'j) sdmbn SDMBNLocals \<Rightarrow> u64 \<Rightarrow> 'j \<Rightarrow> c_int \<Rightarrow> ('nf, 'j) sdmbn
   \<Rightarrow> (c_int \<times> ('nf, 'j) sdmbn) run" where
  "handle_get_perflow J P L elapsed msg i s =
     (case loc_get_perflow L of
        None \<Rightarrow> Ret (-1, send_error J i (-1) ERROR_UNSUPPORTED s)
      | Some get_perflow \<Rightarrow>
     (case json_object_object_get J msg FIELD_KEY of
        None \<Rightarrow> Ret (-1, send_error J i (-1) ERROR_MALFORMED s)
      | Some key_field \<Rightarrow>
     (case json_object_object_get J msg FIELD_RAISEEVENTS of
        None \<Rightarrow> Ret (-1, send_error J i (-1) ERROR_MALFORMED s)
      | Some raiseEvents_field \<Rightarrow>
     run_bind (lock_get s) (\<lambda>s.
       let (count, s) = get_perflow (json_parse_perflow_key J P key_field) i
                          (json_object_get_int J raiseEvents_field) (get_perflow_exts (s_config s)) s
       in if sneg count then Ret (-1, send_error J i (-1) ERROR_INTERNAL s)
          else run_bind (unlock_get (send_get_perflow_ack J i count s)) (\<lambda>s.
            Ret (1, upd_stats (\<lambda>st. st\<lparr>gets_per_time := gets_per_time st + elapsed,
                                       gets_per_count := gets_per_count st + 1\<rparr>) s))))))"

definition sdmbn_send_perflow ::
  "'j json_c \<Rightarrow> platform \<Rightarrow> c_int \<Rightarrow> PerflowKey option \<Rightarrow> string option \<Rightarrow> c_int \<Rightarrow> c_int \<Rightarrow> ('nf, 'j) sdmbn
   \<Rightarrow> c_int \<times> ('nf, 'j) sdmbn" where
  "sdmbn_send_perflow J P i key state hashkey seq s =
     (if key = None \<or> state = None \<or> sneg seq then (-1, s)
      else json_send (json_compose_perflow_state J P i key state hashkey seq) (s_conn_state s) s)"

definition handle_put_perflow ::
  "'j json_c \<Rightarrow> platform \<Rightarrow> ('nf, 'j) sdmbn SDMBNLocals \<Rightarrow> u64 \<Rightarrow> 'j \<Rightarrow> c_int \<Rightarrow> ('nf, 'j) sdmbn
   \<Rightarrow> c_int \<times> ('nf, 'j) sdmbn" where
  "handle_put_perflow J P L elapsed msg i s =
     (case loc_put_perflow L of
        None \<Rightarrow> (-1, send_error J i (-1) ERROR_UNSUPPORTED s)
      | Some put_perflow \<Rightarrow>
     (case json_object_object_get J msg FIELD_HASHKEY of
        None \<Rightarrow> (-1, send_error J i (-1) ERROR_MALFORMED s)
      | Some hashkey_field \<Rightarrow>
     let hashkey = json_object_get_int J hashkey_field in
     (case json_object_object_get J msg FIELD_KEY of
        None \<Rightarrow> (-1, send_error J i hashkey ERROR_MALFORMED s)
      | Some key_field \<Rightarrow>
     (case json_object_object_get J msg FIELD_STATE of
        None \<Rightarrow> (-1, send_error J i hashkey ERROR_MALFORMED s)
      | Some state_field \<Rightarrow>
     let (result, s) = put_perflow hashkey (json_parse_perflow_key J P key_field)
                         (json_object_get_string J state_field) s
     in if sneg result then (-1, send_error J i hashkey ERROR_INTERNAL s)
        else (result,
          upd_stats (\<lambda>st. st\<lparr>puts_per_time := puts_per_time st + elapsed, puts_per_count := puts_per_count st + 1\<rparr>)
            (send_put_perflow_ack J i hashkey
              (upd_stats (\<lambda>st. st\<lparr>flows_active := flows_active st + 1\<rparr>) s)))))))"

text \<open>The optional key of the multi-flow and delete commands.\<close>

definition optional_key :: "'j json_c \<Rightarrow> platform \<Rightarrow> 'j \<Rightarrow> PerflowKey option" where
  "optional_key J P msg = map_option (json_parse_perflow_key J P) (json_object_object_get J msg FIELD_KEY)"

definition handle_delete_perflow ::
  "'j json_c \<Rightarrow> platform \<Rightarrow> ('nf, 'j) sdmbn SDMBNLocals \<Rightarrow> 'j \<Rightarrow> c_int \<Rightarrow> ('nf, 'j) sdmbn
   \<Rightarrow> c_int \<times> ('nf, 'j) sdmbn" where
  "handle_delete_perflow J P L msg i s =
     (case loc_delete_perflow L of
        None \<Rightarrow> (-1, send_error J i (-1) ERROR_UNSUPPORTED s)
      | Some delete_perflow \<Rightarrow>
          let (count, s) = delete_perflow (optional_key J P msg) i s
          in if sneg count then (-1, send_error J i (-1) ERROR_INTERNAL s)
             else (1, send_delete_perflow_ack J i count
                        (upd_stats (\<lambda>st. st\<lparr>flows_active := flows_active st - 1\<rparr>) s)))"

section \<open>Multi-flow state\<close>

definition handle_get_multiflow ::
  "'j json_c \<Rightarrow> platform \<Rightarrow> ('nf, 'j) sdmbn SDMBNLocals \<Rightarrow> u64 \<Rightarrow> 'j \<Rightarrow> c_int \<Rightarrow> ('nf, 'j) sdmbn
   \<Rightarrow> c_int \<times> ('nf, 'j) sdmbn" where
  "handle_get_multiflow J P L elapsed msg i s =
     (case loc_get_multiflow L of
        None \<Rightarrow> (-1, send_error J i (-1) ERROR_UNSUPPORTED s)
      | Some get_multiflow \<Rightarrow>
          let (count, s) = get_multiflow (optional_key J P msg) i s
          in if sneg count then (-1, send_error J i (-1) ERROR_INTERNAL s)
             else (1, upd_stats (\<lambda>st. st\<lparr>gets_mul_time := gets_mul_time st + elapsed,
                                         gets_mul_count := gets_mul_count st + 1\<rparr>)
                        (send_get_multiflow_ack J i count s)))"

definition sdmbn_send_multiflow ::
  "'j json_c \<Rightarrow> platform \<Rightarrow> c_int \<Rightarrow> PerflowKey option \<Rightarrow> string option \<Rightarrow> c_int \<Rightarrow> c_int \<Rightarrow> ('nf, 'j) sdmbn
   \<Rightarrow> c_int \<times> ('nf, 'j) sdmbn" where
  "sdmbn_send_multiflow J P i key state hashkey seq s =
     (if key = None \<or> state = None \<or> sneg seq then (-1, s)
      else json_send (json_compose_multiflow_state J P i key state hashkey seq) (s_conn_state s) s)"

definition handle_put_multiflow ::
  "'j json_c \<Rightarrow> platform \<Rightarrow> ('nf, 'j) sdmbn SDMBNLocals \<Rightarrow> u64 \<Rightarrow> 'j \<Rightarrow> c_int \<Rightarrow> ('nf, 'j) sdmbn
   \<Rightarrow> c_int \<times> ('nf, 'j) sdmbn" where
  "handle_put_multiflow J P L elapsed msg i s =
     (case loc_put_multiflow L of
        None \<Rightarrow> (-1, send_error J i (-1) ERROR_UNSUPPORTED s)
      | Some put_multiflow \<Rightarrow>
     (case json_object_object_get J msg FIELD_HASHKEY of
        None \<Rightarrow> (-1, send_error J i (-1) ERROR_MALFORMED s)
      | Some hashkey_field \<Rightarrow>
     let hashkey = json_object_get_int J hashkey_field in
     (case json_object_object_get J msg FIELD_KEY of
        None \<Rightarrow> (-1, send_error J i hashkey ERROR_MALFORMED s)
      | Some key_field \<Rightarrow>
     (case json_object_object_get J msg FIELD_STATE of
        None \<Rightarrow> (-1, send_error J i hashkey ERROR_MALFORMED s)
      | Some state_field \<Rightarrow>
     let (result, s) = put_multiflow hashkey (json_parse_perflow_key J P key_field)
                         (json_object_get_string J state_field) s
     in if sneg result then (-1, send_error J i hashkey ERROR_INTERNAL s)
        else (result,
          upd_stats (\<lambda>st. st\<lparr>puts_mul_time := puts_mul_time st + elapsed, puts_mul_count := puts_mul_count st + 1\<rparr>)
            (send_put_multiflow_ack J i hashkey s))))))"

definition handle_delete_multiflow ::
  "'j json_c \<Rightarrow> platform \<Rightarrow> ('nf, 'j) sdmbn SDMBNLocals \<Rightarrow> 'j \<Rightarrow> c_int \<Rightarrow> ('nf, 'j) sdmbn
   \<Rightarrow> c_int \<times> ('nf, 'j) sdmbn" where
  "handle_delete_multiflow J P L msg i s =
     (case loc_delete_multiflow L of
        None \<Rightarrow> (-1, send_error J i (-1) ERROR_UNSUPPORTED s)
      | Some delete_multiflow \<Rightarrow>
     (case json_object_object_get J msg FIELD_DELTYPE of
        None \<Rightarrow> (-1, send_error J i (-1) ERROR_MALFORMED s)
      | Some deltype_field \<Rightarrow>
          let (count, s) = delete_multiflow (optional_key J P msg) i (json_object_get_int J deltype_field) s
          in if sneg count then (-1, send_error J i (-1) ERROR_INTERNAL s)
             else (1, send_delete_multiflow_ack J i count s)))"

section \<open>All-flows state and configuration\<close>

definition handle_get_allflows ::
  "'j json_c \<Rightarrow> ('nf, 'j) sdmbn SDMBNLocals \<Rightarrow> c_int \<Rightarrow> ('nf, 'j) sdmbn \<Rightarrow> c_int \<times> ('nf, 'j) sdmbn" where
  "handle_get_allflows J L i s =
     (case loc_get_allflows L of
        None \<Rightarrow> (-1, send_error J i (-1) ERROR_UNSUPPORTED s)
      | Some get_allflows \<Rightarrow>
          let (count, s) = get_allflows i s
          in if sneg count then (-1, send_error J i (-1) ERROR_INTERNAL s)
             else (1, send_get_allflows_ack J i count s))"

definition sdmbn_send_allflows ::
  "'j json_c \<Rightarrow> c_int \<Rightarrow> string option \<Rightarrow> c_int \<Rightarrow> ('nf, 'j) sdmbn \<Rightarrow> c_int \<times> ('nf, 'j) sdmbn" where
  "sdmbn_send_allflows J i state seq s =
     (if state = None \<or> sneg seq then (-1, s)
      else json_send (json_compose_allflows_state J i state seq) (s_conn_state s) s)"

definition handle_put_allflows ::
  "'j json_c \<Rightarrow> ('nf, 'j) sdmbn SDMBNLocals \<Rightarrow> 'j \<Rightarrow> c_int \<Rightarrow> ('nf, 'j) sdmbn \<Rightarrow> c_int \<times> ('nf, 'j) sdmbn" where
  "handle_put_allflows J L msg i s =
     (case loc_put_allflows L of
        None \<Rightarrow> (-1, send_error J i (-1) ERROR_UNSUPPORTED s)
      | Some put_allflows \<Rightarrow>
     (case json_object_object_get J msg FIELD_HASHKEY of
        None \<Rightarrow> (-1, send_error J i (-1) ERROR_MALFORMED s)
      | Some hashkey_field \<Rightarrow>
     let hashkey = json_object_get_int J hashkey_field in
     (case json_object_object_get J msg FIELD_STATE of
        None \<Rightarrow> (-1, send_error J i hashkey ERROR_MALFORMED s)
      | Some state_field \<Rightarrow>
          let (result, s) = put_allflows hashkey (json_object_get_string J state_field) s
          in if sneg result then (-1, send_error J i hashkey ERROR_INTERNAL s)
             else (result, send_put_allflows_ack J i hashkey s))))"

definition handle_get_config ::
  "'j json_c \<Rightarrow> ('nf, 'j) sdmbn SDMBNLocals \<Rightarrow> c_int \<Rightarrow> ('nf, 'j) sdmbn \<Rightarrow> c_int \<times> ('nf, 'j) sdmbn" where
  "handle_get_config J L i s =
     (case loc_get_config L of
        None \<Rightarrow> (-1, send_error J i (-1) ERROR_UNSUPPORTED s)
      | Some get_config \<Rightarrow>
          let (count, s) = get_config i s
          in if sneg count then (-1, send_error J i (-1) ERROR_INTERNAL s)
             else (1, send_get_config_ack J i count s))"

definition sdmbn_send_config ::
  "'j json_c \<Rightarrow> c_int \<Rightarrow> string option \<Rightarrow> c_int \<Rightarrow> ('nf, 'j) sdmbn \<Rightarrow> c_int \<times> ('nf, 'j) sdmbn" where
  "sdmbn_send_config J i state seq s =
     (if state = None \<or> sneg seq then (-1, s)
      else json_send (json_compose_config_state J i state seq) (s_conn_state s) s)"

definition handle_put_config ::
  "'j json_c \<Rightarrow> ('nf, 'j) sdmbn SDMBNLocals \<Rightarrow> 'j \<Rightarrow> c_int \<Rightarrow> ('nf, 'j) sdmbn \<Rightarrow> c_int \<times> ('nf, 'j) sdmbn" where
  "handle_put_config J L msg i s =
     (case loc_put_config L of
        None \<Rightarrow> (-1, send_error J i (-1) ERROR_UNSUPPORTED s)
      | Some put_config \<Rightarrow>
     (case json_object_object_get J msg FIELD_HASHKEY of
        None \<Rightarrow> (-1, send_error J i (-1) ERROR_MALFORMED s)
      | Some hashkey_field \<Rightarrow>
     let hashkey = json_object_get_int J hashkey_field in
     (case json_object_object_get J msg FIELD_STATE of
        None \<Rightarrow> (-1, send_error J i hashkey ERROR_MALFORMED s)
      | Some state_field \<Rightarrow>
          let (result, s) = put_config hashkey (json_object_get_string J state_field) s
          in if sneg result then (-1, send_error J i hashkey ERROR_INTERNAL s)
             else (result, send_put_config_ack J i hashkey s))))"

section \<open>The thread that serves the state connection\<close>

text \<open>\<open>addr\<close>, \<open>garbage\<close> and \<open>rc\<close> are the allocation of an event filter, as for
  \<open>events_add_filter\<close>.  The outer option is \<open>None\<close> when the release of buffered packets never
  ends.\<close>

definition dispatch ::
  "'j json_c \<Rightarrow> platform \<Rightarrow> ('nf, 'j) sdmbn SDMBNLocals \<Rightarrow> nat \<Rightarrow> c_int \<Rightarrow> c_int \<Rightarrow> u64 \<Rightarrow> string \<Rightarrow> 'j \<Rightarrow> c_int
   \<Rightarrow> ('nf, 'j) sdmbn \<Rightarrow> (c_int \<times> ('nf, 'j) sdmbn) run option" where
  "dispatch J P L addr garbage rc elapsed typ msg i s =
     (if typ = COMMAND_GET_PERFLOW then Some (handle_get_perflow J P L elapsed msg i s)
      else if typ = COMMAND_PUT_PERFLOW then Some (Ret (handle_put_perflow J P L elapsed msg i s))
      else if typ = COMMAND_GET_MULTIFLOW then Some (Ret (handle_get_multiflow J P L elapsed msg i s))
      else if typ = COMMAND_PUT_MULTIFLOW then Some (Ret (handle_put_multiflow J P L elapsed msg i s))
      else if typ = COMMAND_GET_ALLFLOWS then Some (Ret (handle_get_allflows J L i s))
      else if typ = COMMAND_PUT_ALLFLOWS then Some (Ret (handle_put_allflows J L msg i s))
      else if typ = COMMAND_GET_CONFIG then Some (Ret (handle_get_config J L i s))
      else if typ = COMMAND_PUT_CONFIG then Some (Ret (handle_put_config J L msg i s))
      else if typ = COMMAND_DELETE_PERFLOW then Some (Ret (handle_delete_perflow J P L msg i s))
      else if typ = COMMAND_DELETE_MULTIFLOW then Some (Ret (handle_delete_multiflow J P L msg i s))
      else if typ = COMMAND_ENABLE_EVENTS then Some (Ret (handle_enable_events J P addr garbage rc msg i s))
      else if typ = COMMAND_DISABLE_EVENTS then handle_disable_events J P L msg i s
      else Some (Ret (-1, send_error J i (-1) ERROR_MALFORMED s)))"

definition state_handler_message ::
  "'j json_c \<Rightarrow> platform \<Rightarrow> ('nf, 'j) sdmbn SDMBNLocals \<Rightarrow> nat \<Rightarrow> c_int \<Rightarrow> c_int \<Rightarrow> u64 \<Rightarrow> string
   \<Rightarrow> ('nf, 'j) sdmbn \<Rightarrow> ('nf, 'j) sdmbn run option" where
  "state_handler_message J P L addr garbage rc elapsed buffer s =
     (case json_tokener_parse J buffer of
        None \<Rightarrow> Some (Ret s)
      | Some msg \<Rightarrow>
          (case json_object_object_get J msg FIELD_ID of
             None \<Rightarrow> Some (Ret (send_error J (-1) (-1) ERROR_MALFORMED s))
           | Some id_field \<Rightarrow>
               let i = json_object_get_int J id_field in
               (case json_object_object_get J msg FIELD_TYPE of
                  None \<Rightarrow> Some (Ret (send_error J i (-1) ERROR_MALFORMED s))
                | Some type_field \<Rightarrow>
                    map_option (\<lambda>r. run_bind r (\<lambda>(_, s). Ret s))
                      (dispatch J P L addr garbage rc elapsed (json_object_get_string J type_field) msg i s))))"

text \<open>The loop of the thread over what it reads; \<open>alloc\<close> gives, per round, the allocation and the
  measured time.  A failed read ends it; with nothing more to read it waits.\<close>

fun state_handler ::
  "'j json_c \<Rightarrow> platform \<Rightarrow> ('nf, 'j) sdmbn SDMBNLocals \<Rightarrow> (nat \<Rightarrow> nat \<times> c_int \<times> c_int \<times> u64) \<Rightarrow> nat
   \<Rightarrow> string option list \<Rightarrow> ('nf, 'j) sdmbn \<Rightarrow> ('nf, 'j) sdmbn run option" where
  "state_handler J P L alloc n [] s = Some Blocked"
| "state_handler J P L alloc n (None # bufs) s = Some (Ret s)"
| "state_handler J P L alloc n (Some buffer # bufs) s =
     (case alloc n of (addr, garbage, rc, elapsed) \<Rightarrow>
        (case state_handler_message J P L addr garbage rc elapsed buffer s of
           None \<Rightarrow> None
         | Some (Ret s) \<Rightarrow> state_handler J P L alloc (n + 1) bufs s
         | Some Blocked \<Rightarrow> Some Blocked
         | Some Undef \<Rightarrow> Some Undef
         | Some Aborted \<Rightarrow> Some Aborted))"

end
