(* ===== verification/Sdmbn_State_Props.thy ===== *)
theory Sdmbn_State_Props
  imports Sdmbn_State
begin

text \<open>
  What the state connection guarantees: every command is answered by exactly one reply of the
  library, which carries the command's id and says whether it succeeded; exported per-flow state
  reaches the put callback of another instance unchanged; the get lock is free again after a
  get that succeeded, and, unlike intended, held for ever after one that failed.
\<close>

section \<open>What may be sent during a step\<close>

text \<open>\<open>s'\<close> is reached from \<open>s\<close> by sending messages of \<open>C\<close> only, over unchanged connections.\<close>

definition sends :: "(c_int \<times> 'j) set \<Rightarrow> ('nf, 'j) sdmbn \<Rightarrow> ('nf, 'j) sdmbn \<Rightarrow> bool" where
  "sends C s s' \<longleftrightarrow>
     (\<exists>ch. s_sent s' = s_sent s @ ch \<and> set ch \<subseteq> C)
     \<and> s_conn_state s' = s_conn_state s \<and> s_conn_event s' = s_conn_event s"

lemma sends_refl [intro, simp]: "sends C s s"
  by (auto simp: sends_def)

lemma sends_trans [trans]:
  assumes "sends C s s'" "sends C s' s''"
  shows "sends C s s''"
proof -
  from assms obtain ch ch' where "s_sent s' = s_sent s @ ch" "s_sent s'' = s_sent s' @ ch'"
    "set ch \<subseteq> C" "set ch' \<subseteq> C" by (auto simp: sends_def)
  then have "s_sent s'' = s_sent s @ (ch @ ch')" "set (ch @ ch') \<subseteq> C" by auto
  then show ?thesis using assms unfolding sends_def by metis
qed

lemma sends_cong:
  "s_sent s'' = s_sent s' \<Longrightarrow> s_conn_state s'' = s_conn_state s' \<Longrightarrow> s_conn_event s'' = s_conn_event s'
   \<Longrightarrow> sends C s s'' = sends C s s'"
  by (simp add: sends_def)

text \<open>The callbacks of a network function send messages of \<open>C\<close> only (the exported state).\<close>

definition callbacks_send :: "(c_int \<times> 'j) set \<Rightarrow> ('nf, 'j) sdmbn SDMBNLocals \<Rightarrow> bool" where
  "callbacks_send C L \<longleftrightarrow>
     (\<forall>f. loc_get_perflow L = Some f \<longrightarrow> (\<forall>k i r e s. sends C s (snd (f k i r e s)))) \<and>
     (\<forall>f. loc_put_perflow L = Some f \<longrightarrow> (\<forall>h k st s. sends C s (snd (f h k st s)))) \<and>
     (\<forall>f. loc_get_allflows L = Some f \<longrightarrow> (\<forall>i s. sends C s (snd (f i s)))) \<and>
     (\<forall>f. loc_put_allflows L = Some f \<longrightarrow> (\<forall>h st s. sends C s (snd (f h st s)))) \<and>
     (\<forall>f. loc_get_multiflow L = Some f \<longrightarrow> (\<forall>k i s. sends C s (snd (f k i s)))) \<and>
     (\<forall>f. loc_put_multiflow L = Some f \<longrightarrow> (\<forall>h k st s. sends C s (snd (f h k st s)))) \<and>
     (\<forall>f. loc_delete_multiflow L = Some f \<longrightarrow> (\<forall>k i d s. sends C s (snd (f k i d s)))) \<and>
     (\<forall>f. loc_delete_perflow L = Some f \<longrightarrow> (\<forall>k i s. sends C s (snd (f k i s)))) \<and>
     (\<forall>f. loc_get_config L = Some f \<longrightarrow> (\<forall>i s. sends C s (snd (f i s)))) \<and>
     (\<forall>f. loc_put_config L = Some f \<longrightarrow> (\<forall>h st s. sends C s (snd (f h st s)))) \<and>
     (\<forall>f. loc_process_packet L = Some f \<longrightarrow> (\<forall>h p s. sends C s (snd (f h p s))))"

lemma callback_sends:
  assumes "callbacks_send C L"
  shows "loc_get_perflow L = Some f1 \<Longrightarrow> f1 k i r e s = (v, s') \<Longrightarrow> sends C s s'"
    and "loc_put_perflow L = Some f2 \<Longrightarrow> f2 h k st s = (v, s') \<Longrightarrow> sends C s s'"
    and "loc_get_allflows L = Some f3 \<Longrightarrow> f3 i s = (v, s') \<Longrightarrow> sends C s s'"
    and "loc_put_allflows L = Some f4 \<Longrightarrow> f4 h st s = (v, s') \<Longrightarrow> sends C s s'"
    and "loc_get_multiflow L = Some f5 \<Longrightarrow> f5 ko i s = (v, s') \<Longrightarrow> sends C s s'"
    and "loc_put_multiflow L = Some f6 \<Longrightarrow> f6 h k st s = (v, s') \<Longrightarrow> sends C s s'"
    and "loc_delete_multiflow L = Some f7 \<Longrightarrow> f7 ko i d s = (v, s') \<Longrightarrow> sends C s s'"
    and "loc_delete_perflow L = Some f8 \<Longrightarrow> f8 ko i s = (v, s') \<Longrightarrow> sends C s s'"
    and "loc_get_config L = Some f9 \<Longrightarrow> f9 i s = (v, s') \<Longrightarrow> sends C s s'"
    and "loc_put_config L = Some f10 \<Longrightarrow> f10 h st s = (v, s') \<Longrightarrow> sends C s s'"
    and "loc_process_packet L = Some f11 \<Longrightarrow> f11 hdr pkt s = (v, s') \<Longrightarrow> sends C s s'"
  using assms unfolding callbacks_send_def by (metis snd_conv)+

text \<open>A reply: after messages of \<open>C\<close>, one message with the id and the type.\<close>

definition replied ::
  "'j json_c \<Rightarrow> (c_int \<times> 'j) set \<Rightarrow> c_int \<Rightarrow> string \<Rightarrow> ('nf, 'j) sdmbn \<Rightarrow> ('nf, 'j) sdmbn \<Rightarrow> bool" where
  "replied J C i typ s s' \<longleftrightarrow>
     (\<exists>ch c m. s_sent s' = s_sent s @ ch @ [(c, m)] \<and> set ch \<subseteq> C
        \<and> (c = s_conn_state s \<or> c = s_conn_event s)
        \<and> map_option (json_object_get_int J) (json_object_object_get J m FIELD_ID) = Some i
        \<and> map_option (json_object_get_string J) (json_object_object_get J m FIELD_TYPE) = Some typ)"

lemma replied_cong: "s_sent s'' = s_sent s' \<Longrightarrow> replied J C i typ s s'' = replied J C i typ s s'"
  by (simp add: replied_def)

lemma replied_after:
  assumes "sends C s s'"
    and "map_option (json_object_get_int J) (json_object_object_get J m FIELD_ID) = Some i"
    and "map_option (json_object_get_string J) (json_object_object_get J m FIELD_TYPE) = Some typ"
  shows "replied J C i typ s (reply_state m s')" "replied J C i typ s (reply_event m s')"
  using assms by (fastforce simp: replied_def sends_def reply_state_def reply_event_def json_send_sent)+

lemma event_replies:
  "event_send_error J i h cause s = reply_event (json_compose_error J i h cause) s"
  "send_events_ack J i s = reply_state (json_compose_events_ack J i) s"
  by (simp_all add: event_send_error_def send_events_ack_def reply_state_def reply_event_def)

definition ack_name :: "string \<Rightarrow> string" where
  "ack_name typ =
     (if typ = COMMAND_ENABLE_EVENTS \<or> typ = COMMAND_DISABLE_EVENTS then ''events-ack''
      else typ @ ''-ack'')"

lemma not_sneg_1 [simp]: "\<not> sneg (1 :: c_int)" "sneg (- 1 :: c_int)"
  by (simp_all add: sneg_def)

context json_c_laws
begin

lemmas member_simps = get_json_members json_laws

lemma replied_error:
  assumes "sends C s s'"
  shows "replied J C i ''error'' s (send_error J i h cause s')"
    and "replied J C i ''error'' s (event_send_error J i h cause s')"
  unfolding ack_defs event_replies
  by (rule replied_after [OF assms]; simp add: json_compose_error_def member_simps)+

lemmas ack_compose_defs =
  json_compose_get_perflow_ack_def json_compose_put_perflow_ack_def
  json_compose_get_multiflow_ack_def json_compose_put_multiflow_ack_def
  json_compose_get_allflows_ack_def json_compose_put_allflows_ack_def
  json_compose_get_config_ack_def json_compose_put_config_ack_def
  json_compose_delete_perflow_ack_def json_compose_delete_multiflow_ack_def
  json_compose_events_ack_def

lemma replied_ack:
  assumes "sends C s s'"
  shows "replied J C i ''get-perflow-ack'' s (send_get_perflow_ack J i n s')"
    and "replied J C i ''put-perflow-ack'' s (send_put_perflow_ack J i n s')"
    and "replied J C i ''get-multiflow-ack'' s (send_get_multiflow_ack J i n s')"
    and "replied J C i ''put-multiflow-ack'' s (send_put_multiflow_ack J i n s')"
    and "replied J C i ''get-allflows-ack'' s (send_get_allflows_ack J i n s')"
    and "replied J C i ''put-allflows-ack'' s (send_put_allflows_ack J i n s')"
    and "replied J C i ''get-config-ack'' s (send_get_config_ack J i n s')"
    and "replied J C i ''put-config-ack'' s (send_put_config_ack J i n s')"
    and "replied J C i ''delete-perflow-ack'' s (send_delete_perflow_ack J i n s')"
    and "replied J C i ''delete-multiflow-ack'' s (send_delete_multiflow_ack J i n s')"
    and "replied J C i ''events-ack'' s (send_events_ack J i s')"
  unfolding ack_defs event_replies
  by (rule replied_after [OF assms]; simp add: ack_compose_defs member_simps)+

end

section \<open>Every command is answered\<close>

lemma release_packet_sends:
  assumes "callbacks_send C L"
  shows "sends C s (release_packet L addr e s)"
proof (cases "loc_process_packet L")
  case None
  then show ?thesis by (simp add: release_packet_def upd_buffer_def sends_def)
next
  case (Some pp)
  obtain v s' where pp: "pp (b_hdr e) (b_pkt e) s = (v, s')" by fastforce
  from callback_sends(11) [OF assms Some pp] show ?thesis
    by (simp add: release_packet_def Some pp upd_buffer_def sends_def)
qed

lemma release_loop_sends:
  fixes L :: "('nf, 'j) sdmbn SDMBNLocals"
  assumes "callbacks_send C L" "release_loop L addr s = Some (Ret s')"
  shows "sends C s s'"
proof -
  let ?P = "\<lambda>L addr s r. callbacks_send C L \<longrightarrow> (\<forall>s'. r = Ret s' \<longrightarrow> sends C s s')"
  have "?P L addr s (Ret s')"
  proof (rule release_loop.raw_induct [where P = ?P, OF _ assms(2)], intro impI allI)
    fix rel and L :: "('nf, 'j) sdmbn SDMBNLocals" and addr s r s'
    assume IH: "\<And>L addr s r. rel L addr s = Some r \<Longrightarrow> ?P L addr s r"
      and body: "(case filter_at addr s of None \<Rightarrow> Some Undef
        | Some f \<Rightarrow> (case f_buffer f of [] \<Rightarrow> Some (Ret s)
            | entry # _ \<Rightarrow> rel L addr (release_packet L addr entry s))) = Some r"
      and L: "callbacks_send C L" and r: "r = Ret s'"
    show "sends C s s'"
    proof (cases "\<exists>e. rel L addr (release_packet L addr e s) = Some r")
      case True
      then obtain e where "rel L addr (release_packet L addr e s) = Some r" ..
      with IH L r have "sends C (release_packet L addr e s) s'" by blast
      with release_packet_sends [OF L] show ?thesis by (rule sends_trans)
    next
      case False
      with body r have "s' = s" by (auto split: option.splits list.splits)
      then show ?thesis by simp
    qed
  qed
  with assms(1) show ?thesis by blast
qed

context json_c_laws
begin

lemma replied_unless_stats [simp]:
  "replied J C i typ s (upd_stats g s') = replied J C i typ s s'"
  "replied J C i typ s (s'\<lparr>s_lock_get := b\<rparr>) = replied J C i typ s s'"
  by (simp_all add: replied_def)

lemma sends_stats [simp]:
  "sends C s (upd_stats g s') = sends C s s'"
  "sends C s (s'\<lparr>s_lock_get := b\<rparr>) = sends C s s'" "sends C (s\<lparr>s_lock_get := b\<rparr>) s' = sends C s s'"
  "sends C s (s'\<lparr>s_filters := fs\<rparr>) = sends C s s'"
  by (simp_all add: sends_def)

lemma get_perflow_replied:
  assumes "callbacks_send C L" "handle_get_perflow J P L t msg i s = Ret (r, s')"
  shows "replied J C i (if sneg r then ''error'' else ''get-perflow-ack'') s s'"
  using assms(2) callback_sends(1) [OF assms(1), where s = "s\<lparr>s_lock_get := True\<rparr>"]
  by (auto simp: handle_get_perflow_def lock_get_def unlock_get_def run_bind_eq_Ret
      intro!: replied_error replied_ack split: option.splits if_splits prod.splits)

lemma put_perflow_replied:
  assumes "callbacks_send C L" "handle_put_perflow J P L t msg i s = (r, s')"
  shows "replied J C i (if sneg r then ''error'' else ''put-perflow-ack'') s s'"
  using assms(2) callback_sends(2) [OF assms(1), where s = s]
  by (auto simp: handle_put_perflow_def Let_def
      intro!: replied_error replied_ack split: option.splits if_splits prod.splits)

lemma get_multiflow_replied:
  assumes "callbacks_send C L" "handle_get_multiflow J P L t msg i s = (r, s')"
  shows "replied J C i (if sneg r then ''error'' else ''get-multiflow-ack'') s s'"
  using assms(2) callback_sends(5) [OF assms(1), where s = s]
  by (auto simp: handle_get_multiflow_def
      intro!: replied_error replied_ack split: option.splits if_splits prod.splits)

lemma put_multiflow_replied:
  assumes "callbacks_send C L" "handle_put_multiflow J P L t msg i s = (r, s')"
  shows "replied J C i (if sneg r then ''error'' else ''put-multiflow-ack'') s s'"
  using assms(2) callback_sends(6) [OF assms(1), where s = s]
  by (auto simp: handle_put_multiflow_def Let_def
      intro!: replied_error replied_ack split: option.splits if_splits prod.splits)

lemma get_allflows_replied:
  assumes "callbacks_send C L" "handle_get_allflows J L i s = (r, s')"
  shows "replied J C i (if sneg r then ''error'' else ''get-allflows-ack'') s s'"
  using assms(2) callback_sends(3) [OF assms(1), where s = s]
  by (auto simp: handle_get_allflows_def
      intro!: replied_error replied_ack split: option.splits if_splits prod.splits)

lemma put_allflows_replied:
  assumes "callbacks_send C L" "handle_put_allflows J L msg i s = (r, s')"
  shows "replied J C i (if sneg r then ''error'' else ''put-allflows-ack'') s s'"
  using assms(2) callback_sends(4) [OF assms(1), where s = s]
  by (auto simp: handle_put_allflows_def Let_def
      intro!: replied_error replied_ack split: option.splits if_splits prod.splits)

lemma get_config_replied:
  assumes "callbacks_send C L" "handle_get_config J L i s = (r, s')"
  shows "replied J C i (if sneg r then ''error'' else ''get-config-ack'') s s'"
  using assms(2) callback_sends(9) [OF assms(1), where s = s]
  by (auto simp: handle_get_config_def
      intro!: replied_error replied_ack split: option.splits if_splits prod.splits)

lemma put_config_replied:
  assumes "callbacks_send C L" "handle_put_config J L msg i s = (r, s')"
  shows "replied J C i (if sneg r then ''error'' else ''put-config-ack'') s s'"
  using assms(2) callback_sends(10) [OF assms(1), where s = s]
  by (auto simp: handle_put_config_def Let_def
      intro!: replied_error replied_ack split: option.splits if_splits prod.splits)

lemma delete_perflow_replied:
  assumes "callbacks_send C L" "handle_delete_perflow J P L msg i s = (r, s')"
  shows "replied J C i (if sneg r then ''error'' else ''delete-perflow-ack'') s s'"
  using assms(2) callback_sends(8) [OF assms(1), where s = s]
  by (auto simp: handle_delete_perflow_def
      intro!: replied_error replied_ack split: option.splits if_splits prod.splits)

lemma delete_multiflow_replied:
  assumes "callbacks_send C L" "handle_delete_multiflow J P L msg i s = (r, s')"
  shows "replied J C i (if sneg r then ''error'' else ''delete-multiflow-ack'') s s'"
  using assms(2) callback_sends(7) [OF assms(1), where s = s]
  by (auto simp: handle_delete_multiflow_def
      intro!: replied_error replied_ack split: option.splits if_splits prod.splits)

lemma enable_events_replied:
  assumes "handle_enable_events J P addr garbage rc msg i s = (r, s')"
  shows "replied J C i (if sneg r then ''error'' else ''events-ack'') s s'"
  using assms
  by (auto simp: handle_enable_events_def events_add_filter_def Let_def
      intro!: replied_error replied_ack split: option.splits if_splits)

lemma disable_events_replied:
  assumes "callbacks_send C L" "handle_disable_events J P L msg i s = Some (Ret (r, s'))"
  shows "replied J C i (if sneg r then ''error'' else ''events-ack'') s s'"
  using assms(2) release_loop_sends [OF assms(1)]
  by (auto simp: handle_disable_events_def events_remove_filter_def run_bind_eq_Ret
      intro!: replied_error replied_ack split: option.splits if_splits)

lemma dispatch_replied:
  assumes "callbacks_send C L" "dispatch J P L addr garbage rc t typ msg i s = Some (Ret (r, s'))"
  shows "replied J C i (if sneg r then ''error'' else ack_name typ) s s'"
  using assms(2) unfolding dispatch_def
  by (auto simp: ack_name_def simp del: not_sneg_1 split del: if_split split: if_split_asm
      dest!: get_perflow_replied [OF assms(1)] put_perflow_replied [OF assms(1)]
        get_multiflow_replied [OF assms(1)] put_multiflow_replied [OF assms(1)]
        get_allflows_replied [OF assms(1)] put_allflows_replied [OF assms(1)]
        get_config_replied [OF assms(1)] put_config_replied [OF assms(1)]
        delete_perflow_replied [OF assms(1)] delete_multiflow_replied [OF assms(1)]
        enable_events_replied disable_events_replied [OF assms(1)])
    (simp add: replied_error)

end



section \<open>The get lock\<close>

text \<open>After a get of per-flow state that was acknowledged the get lock is free again, but a get
  whose callback reports a failure leaves it held, so that every later well-formed get blocks
  for ever.\<close>

theorem get_lock_kept_after_failure:
  assumes "loc_get_perflow L = Some f" "\<And>k i r e s. s_lock_get (snd (f k i r e s)) = s_lock_get s"
    and "handle_get_perflow J P L t msg i s = Ret (r, s')" "\<not> s_lock_get s"
    and "json_object_object_get J msg FIELD_KEY = Some kf" "json_object_object_get J msg FIELD_RAISEEVENTS = Some rf"
  shows "(s_lock_get s' \<longleftrightarrow> sneg r) \<and> (sneg r \<longrightarrow> handle_get_perflow J P L t' msg i' s' = Blocked)"
proof -
  obtain count s1 where f: "f (json_parse_perflow_key J P kf) i (json_object_get_int J rf)
      (get_perflow_exts (s_config s)) (s\<lparr>s_lock_get := True\<rparr>) = (count, s1)" by fastforce
  with assms(2) [of "json_parse_perflow_key J P kf" i "json_object_get_int J rf"
      "get_perflow_exts (s_config s)" "s\<lparr>s_lock_get := True\<rparr>"] have held: "s_lock_get s1" by simp
  have res: "(r, s') = (if sneg count then (-1, send_error J i (-1) ERROR_INTERNAL s1)
      else (1, upd_stats (\<lambda>st. st\<lparr>gets_per_time := gets_per_time st + t,
                 gets_per_count := gets_per_count st + 1\<rparr>)
               ((send_get_perflow_ack J i count s1)\<lparr>s_lock_get := False\<rparr>)))"
    using assms(1,3-) f held
    by (auto simp: handle_get_perflow_def lock_get_def unlock_get_def run_bind_eq_Ret ack_defs
        reply_state_def json_send_def split: if_splits)
  then have lock: "s_lock_get s' \<longleftrightarrow> sneg r"
    using held by (auto simp: ack_defs reply_state_def json_send_def split: if_splits)
  then show ?thesis using assms(1,5,6) by (simp add: handle_get_perflow_def lock_get_def)
qed

theorem get_lock_kept_after_failure_witness:
  "let L = no_callbacks\<lparr>loc_get_perflow := Some (\<lambda>k i r e s. (- 1, s))\<rparr>;
       P = \<lparr>big_endian = False, char_signed = True\<rparr>;
       msg = JObj [(FIELD_KEY, JObj []), (FIELD_RAISEEVENTS, JInt 0)];
       s = zero_sdmbn () :: (unit, json_value) sdmbn
   in \<exists>s'. handle_get_perflow json_tree P L 0 msg 9 s = Ret (- 1, s')
        \<and> handle_get_perflow json_tree P L 0 msg 10 s' = Blocked"
proof -
  define L :: "(unit, json_value) sdmbn SDMBNLocals" where
    "L = no_callbacks\<lparr>loc_get_perflow := Some (\<lambda>k i r e s. (- 1, s))\<rparr>"
  define P where "P = \<lparr>big_endian = False, char_signed = True\<rparr>"
  define msg where "msg = JObj [(FIELD_KEY, JObj []), (FIELD_RAISEEVENTS, JInt 0)]"
  have L: "loc_get_perflow L = Some (\<lambda>k i r e s. (- 1, s))" by (simp add: L_def)
  have m: "json_object_object_get json_tree msg FIELD_KEY = Some (JObj [])"
    "json_object_object_get json_tree msg FIELD_RAISEEVENTS = Some (JInt 0)"
    by (simp_all add: msg_def json_tree_def)
  obtain s' where s': "handle_get_perflow json_tree P L 0 msg 9 (zero_sdmbn ()) = Ret (- 1, s')"
    by (simp add: handle_get_perflow_def L m lock_get_def zero_sdmbn_def)
  from get_lock_kept_after_failure [OF L _ s' _ m, of 0 10] s' show ?thesis
    unfolding Let_def L_def [symmetric] P_def [symmetric] msg_def [symmetric]
    by (auto simp: zero_sdmbn_def)
qed

text \<open>The message for one exported state.\<close>

definition state_msg :: "'j json_c \<Rightarrow> platform \<Rightarrow> c_int \<Rightarrow> PerflowKey \<Rightarrow> string \<Rightarrow> c_int \<Rightarrow> c_int \<Rightarrow> 'j" where
  "state_msg J P i key state hashkey seq = the (json_compose_perflow_state J P i (Some key) (Some state) hashkey seq)"

lemma send_perflow_sent:
  assumes "\<not> sneg seq"
  shows "sdmbn_send_perflow J P i (Some key) (Some state) hashkey seq s
    = (1, s\<lparr>s_sent := s_sent s @ [(s_conn_state s, state_msg J P i key state hashkey seq)]\<rparr>)"
  using assms by (simp add: sdmbn_send_perflow_def json_send_def json_compose_perflow_state_def state_msg_def)

section \<open>Moving per-flow state\<close>

text \<open>C6. Exported per-flow state survives the move: the message that \<^verbatim>\<open>sdmbn_send_perflow\<close> puts
  on the state connection has members which, copied into a put command, make the put callback of
  the receiving instance see the same hash key, the same state text, and the flow key up to the
  fields its wildcards switch off.\<close>

theorem perflow_state_moves:
  assumes "json_c_laws J" "\<not> sneg seq" "loc_put_perflow L = Some put"
    and "sdmbn_send_perflow J P i (Some key) (Some state) hashkey seq s = (r, s')"
  shows "\<exists>m. s_sent s' = s_sent s @ [(s_conn_state s, m)] \<and>
    (\<forall>cmd j t.
       (\<forall>k \<in> {FIELD_KEY, FIELD_STATE, FIELD_HASHKEY}. json_object_object_get J cmd k = json_object_object_get J m k) \<longrightarrow>
       (\<forall>res t'. put hashkey (key_norm key) state t = (res, t') \<longrightarrow> \<not> sneg res \<longrightarrow>
          handle_put_perflow J P L el cmd j t = (res,
            upd_stats (\<lambda>st. st\<lparr>puts_per_time := puts_per_time st + el, puts_per_count := puts_per_count st + 1\<rparr>)
              (send_put_perflow_ack J j hashkey
                (upd_stats (\<lambda>st. st\<lparr>flows_active := flows_active st + 1\<rparr>) t')))))"
proof -
  let ?m = "json_members J
     [(FIELD_ID, json_object_new_int J i), (FIELD_TYPE, json_object_new_string J ''state-perflow''),
      (FIELD_KEY, json_compose_perflow_key J P key), (FIELD_HASHKEY, json_object_new_int J hashkey),
      (FIELD_STATE, json_object_new_string J state), (FIELD_SEQ, json_object_new_int J seq)]"
  have m: "s_sent s' = s_sent s @ [(s_conn_state s, ?m)]"
    using assms(2,4)
    by (auto simp: sdmbn_send_perflow_def json_compose_perflow_state_def json_send_def)
  note laws = json_c_laws.json_laws [OF assms(1)] json_c_laws.get_json_members [OF assms(1)]
    json_c_laws.perflow_key_roundtrip [OF assms(1)]
  show ?thesis
    by (rule exI [of _ ?m]) (simp add: m handle_put_perflow_def assms(3) laws Let_def)
qed

theorem perflow_state_moves_witness:
  "let P = \<lparr>big_endian = False, char_signed = True\<rparr>;
       put = (\<lambda>h k st s. (1, s\<lparr>s_nf := s_nf s @ [(h, k, st)]\<rparr>));
       key = zero_key\<lparr>nw_src := 0x0A000133, tp_src := 80, wildcards := 0xEC\<rparr>
   in \<exists>m s'. sdmbn_send_perflow json_tree P 3 (Some key) (Some ''st'') 11 0 (zero_sdmbn ()) = (1, s')
        \<and> s_sent s' = [(0, m)]
        \<and> s_nf (snd (handle_put_perflow json_tree P (no_callbacks\<lparr>loc_put_perflow := Some put\<rparr>) 0 m 4
              (zero_sdmbn []))) = [(11, key_norm key, ''st'')]"
proof -
  define P where "P = \<lparr>big_endian = False, char_signed = True\<rparr>"
  define key where "key = zero_key\<lparr>nw_src := 0x0A000133, tp_src := 80, wildcards := 0xEC\<rparr>"
  define put :: "c_int \<Rightarrow> PerflowKey \<Rightarrow> string \<Rightarrow> ((c_int \<times> PerflowKey \<times> string) list, json_value) sdmbn \<Rightarrow> _"
    where "put = (\<lambda>h k st s. (1 :: c_int, s\<lparr>s_nf := s_nf s @ [(h, k, st)]\<rparr>))"
  obtain s' :: "(unit, json_value) sdmbn" where
    s': "sdmbn_send_perflow json_tree P 3 (Some key) (Some ''st'') 11 0 (zero_sdmbn ()) = (1, s')"
    by (simp add: sdmbn_send_perflow_def json_compose_perflow_state_def json_send_def sneg_def)
  have seq: "\<not> sneg (0 :: c_int)" by (simp add: sneg_def)
  have L: "loc_put_perflow (no_callbacks\<lparr>loc_put_perflow := Some put\<rparr>) = Some put" by simp
  from perflow_state_moves [OF jt.json_c_laws_axioms seq L s', of 0] obtain m where
    m: "s_sent s' = s_sent (zero_sdmbn () :: (unit, json_value) sdmbn) @
      [(s_conn_state (zero_sdmbn () :: (unit, json_value) sdmbn), m)]"
    "\<And>res t'. put 11 (key_norm key) ''st'' (zero_sdmbn []) = (res, t') \<Longrightarrow> \<not> sneg res \<Longrightarrow>
       handle_put_perflow json_tree P (no_callbacks\<lparr>loc_put_perflow := Some put\<rparr>) 0 m 4 (zero_sdmbn []) = (res,
         upd_stats (\<lambda>st. st\<lparr>puts_per_time := puts_per_time st + 0, puts_per_count := puts_per_count st + 1\<rparr>)
           (send_put_perflow_ack json_tree 4 11
             (upd_stats (\<lambda>st. st\<lparr>flows_active := flows_active st + 1\<rparr>) t')))" by blast
  have "s_nf (snd (handle_put_perflow json_tree P (no_callbacks\<lparr>loc_put_perflow := Some put\<rparr>) 0 m 4
      (zero_sdmbn []))) = [(11, key_norm key, ''st'')]"
    using m(2) by (simp add: put_def ack_defs reply_event_def json_send_def zero_sdmbn_def)
  with s' m(1) show ?thesis
    unfolding Let_def P_def [symmetric] key_def [symmetric] put_def [symmetric]
    by (auto simp: zero_sdmbn_def)
qed

end
