(* ===== verification/Sdmbn_Core.thy ===== *)
theory Sdmbn_Core
  imports Sdmbn_State
begin

text \<open>
  Start-up, shutdown and the notifications of a network function: \<^verbatim>\<open>shared/SDMBNConfig.c\<close>,
  \<^verbatim>\<open>shared/SDMBNCore.c\<close> and the initialisation parts of \<^verbatim>\<open>shared/state.c\<close> and
  \<^verbatim>\<open>shared/event.c\<close>.  What the system calls return is the record \<open>init_env\<close>; the configuration
  file is its text.

  The results: the configuration that a well-formed file denotes is the one that is read; a
  packet threshold keeps the get lock until exactly that packet arrives.
\<close>

section \<open>The configuration file\<close>

abbreviation CONF_KEY_LEN :: nat where "CONF_KEY_LEN \<equiv> 32"
abbreviation CONF_VALUE_LEN :: nat where "CONF_VALUE_LEN \<equiv> 32"
abbreviation CONF_CTRL_IP_LEN :: nat where "CONF_CTRL_IP_LEN \<equiv> 16"

definition config_defaults :: SDMBNConfig where
  "config_defaults = \<lparr>ctrl_ip = ''127.0.0.1'', ctrl_port_state = 7790, ctrl_port_event = 7791,
     release_get_pkts = -1, release_get_flows = -1, max_get_flows = -1\<rparr>"

text \<open>\<^verbatim>\<open>fscanf(file, "%s = %s\n", key, value)\<close>: the two tokens and the rest of the text, when both
  conversions succeed.\<close>

definition scan_token :: "string \<Rightarrow> string \<times> string" where
  "scan_token inp = (let t = dropWhile is_space inp
     in (takeWhile (\<lambda>c. \<not> is_space c) t, dropWhile (\<lambda>c. \<not> is_space c) t))"

definition scan_pair :: "string \<Rightarrow> (string \<times> string \<times> string) option" where
  "scan_pair inp =
     (let (k, r) = scan_token inp in
      if k = [] then None else
      (case dropWhile is_space r of
         [] \<Rightarrow> None
       | c # r' \<Rightarrow>
           if c \<noteq> CHR ''='' then None else
           (let (v, r'') = scan_token r' in
            if v = [] then None else Some (k, v, dropWhile is_space r''))))"

text \<open>\<^verbatim>\<open>atoi\<close>; a value that does not fit an \<open>int\<close> is undefined.\<close>

definition atoi :: "string \<Rightarrow> c_int option" where
  "atoi str =
     (let t = dropWhile is_space str;
          (neg, ds) = (case t of
              [] \<Rightarrow> (False, [])
            | c # cs \<Rightarrow> if c = CHR ''-'' then (True, cs) else if c = CHR ''+'' then (False, cs) else (False, t));
          n = foldl (\<lambda>acc c. acc * 10 + int (digit_val c)) 0 (takeWhile (\<lambda>c. digit_val c < 10) ds);
          v = (if neg then - n else n)
      in if - (2 ^ 31) \<le> v \<and> v < 2 ^ 31 then Some (word_of_int v) else None)"

definition strncmp_eq :: "string \<Rightarrow> string \<Rightarrow> nat \<Rightarrow> bool" where
  "strncmp_eq a b n \<longleftrightarrow> take n a = take n b"

text \<open>One round of the loop; an oversized token overruns its array.\<close>

definition config_entry :: "string \<Rightarrow> string \<Rightarrow> SDMBNConfig \<Rightarrow> SDMBNConfig run" where
  "config_entry key value cfg =
     (if length key \<ge> CONF_KEY_LEN \<or> length value \<ge> CONF_VALUE_LEN then Undef
      else if strncmp_eq key ''ctrl_ip'' 7 then Ret (cfg\<lparr>ctrl_ip := take CONF_CTRL_IP_LEN value\<rparr>)
      else if strncmp_eq key ''ctrl_port_state'' 15 then
        run_bind (run_of_option (atoi value)) (\<lambda>n. Ret (cfg\<lparr>ctrl_port_state := ucast n\<rparr>))
      else if strncmp_eq key ''ctrl_port_event'' 15 then
        run_bind (run_of_option (atoi value)) (\<lambda>n. Ret (cfg\<lparr>ctrl_port_event := ucast n\<rparr>))
      else if strncmp_eq key ''release_get_pkts'' 16 then
        run_bind (run_of_option (atoi value)) (\<lambda>n. Ret (cfg\<lparr>release_get_pkts := n\<rparr>))
      else if strncmp_eq key ''release_get_flows'' 17 then
        run_bind (run_of_option (atoi value)) (\<lambda>n. Ret (cfg\<lparr>release_get_flows := n\<rparr>))
      else if strncmp_eq key ''max_get_flows'' 13 then
        run_bind (run_of_option (atoi value)) (\<lambda>n. Ret (cfg\<lparr>max_get_flows := n\<rparr>))
      else Ret cfg)"

lemma length_dropWhile_less: "x \<in> set xs \<Longrightarrow> P x \<Longrightarrow> P (hd xs) \<Longrightarrow> length (dropWhile P xs) < length xs"
  by (cases xs) (auto simp: le_imp_less_Suc length_dropWhile_le)

lemma scan_pair_shrinks: "scan_pair inp = Some (k, v, rest) \<Longrightarrow> length rest < length inp"
proof -
  assume *: "scan_pair inp = Some (k, v, rest)"
  define r where "r = snd (scan_token inp)"
  from * obtain r' where r': "dropWhile is_space r = CHR ''='' # r'"
    "rest = dropWhile is_space (snd (scan_token r'))"
    by (auto simp: scan_pair_def r_def Let_def split: prod.splits list.splits if_splits)
  have short: "length (snd (scan_token t)) \<le> length t" for t
    unfolding scan_token_def Let_def by (simp, meson length_dropWhile_le order_trans)
  have "length rest \<le> length r'"
    unfolding r'(2) using short [of r'] length_dropWhile_le order_trans by blast
  also have "length r' < length (dropWhile is_space r)" by (simp add: r'(1))
  also have "\<dots> \<le> length inp" using short [of inp] length_dropWhile_le order_trans unfolding r_def by blast
  finally show ?thesis .
qed

function config_loop :: "string \<Rightarrow> SDMBNConfig \<Rightarrow> SDMBNConfig run" where
  "config_loop inp cfg =
     (case scan_pair inp of
        None \<Rightarrow> Ret cfg
      | Some (key, value, rest) \<Rightarrow> run_bind (config_entry key value cfg) (config_loop rest))"
  by pat_completeness auto
termination
  by (relation "measure (length \<circ> fst)") (auto dest: scan_pair_shrinks)

declare config_loop.simps [simp del]

section \<open>Start-up and shutdown\<close>

text \<open>What the environment answers: the text of the configuration file (\<open>None\<close> when it cannot be
  opened), the sockets, and the results of creating mutexes and threads.\<close>

record init_env =
  env_file :: "string option"
  env_close :: c_int
  env_sock_state :: c_int
  env_sock_event :: c_int
  env_mutex_conn :: c_int
  env_mutex_get :: c_int
  env_mutex_processing :: c_int
  env_event_thread :: c_int
  env_hostname :: string
  env_pid :: c_int

definition sdmbn_parse_config :: "init_env \<Rightarrow> (c_int \<times> SDMBNConfig) run" where
  "sdmbn_parse_config env =
     (case env_file env of
        None \<Rightarrow> Ret (-1, config_defaults)
      | Some inp \<Rightarrow> run_bind (config_loop inp config_defaults) (\<lambda>cfg.
          Ret (if env_close env \<noteq> 0 then -1 else 0, cfg)))"

definition state_init :: "'j json_c \<Rightarrow> init_env \<Rightarrow> ('nf, 'j) sdmbn \<Rightarrow> c_int \<times> ('nf, 'j) sdmbn" where
  "state_init J env s =
     (let s = s\<lparr>s_conn_state := env_sock_state env\<rparr> in
      if sneg (s_conn_state s) then (s_conn_state s, s)
      else (1, snd (json_send (Some (json_compose_syn J (env_hostname env) (env_pid env))) (s_conn_state s) s)))"

definition state_cleanup :: "(c_int \<Rightarrow> c_int) \<Rightarrow> ('nf, 'j) sdmbn \<Rightarrow> c_int \<times> ('nf, 'j) sdmbn" where
  "state_cleanup close s =
     (1, if \<not> sneg (close (s_conn_state s)) then s\<lparr>s_conn_state := -1\<rparr> else s)"

definition events_init ::
  "'j json_c \<Rightarrow> init_env \<Rightarrow> ('nf, 'j) sdmbn SDMBNLocals \<Rightarrow> ('nf, 'j) sdmbn \<Rightarrow> c_int \<times> ('nf, 'j) sdmbn" where
  "events_init J env L s =
     (let s = s\<lparr>s_conn_event := env_sock_event env\<rparr> in
      if sneg (s_conn_event s) then (s_conn_event s, s)
      else
        let s = snd (json_send (Some (json_compose_syn J (env_hostname env) (env_pid env))) (s_conn_event s) s)
        in if env_mutex_processing env \<noteq> 0 then (env_mutex_processing env, s)
           else
             let s = s\<lparr>s_lock_processing := False\<rparr>
             in if env_event_thread env \<noteq> 0 then (env_event_thread env, s)
                else (1, case loc_init L of None \<Rightarrow> s | Some init \<Rightarrow> snd (init s)))"

definition events_cleanup :: "(c_int \<Rightarrow> c_int) \<Rightarrow> ('nf, 'j) sdmbn \<Rightarrow> c_int \<times> ('nf, 'j) sdmbn" where
  "events_cleanup close s =
     (1, if \<not> sneg (close (s_conn_event s)) then s\<lparr>s_conn_event := -1\<rparr> else s)"

text \<open>Starting the discovery thread has no effect on the state; a failed \<^verbatim>\<open>assert\<close> aborts.\<close>

definition sdmbn_init ::
  "'j json_c \<Rightarrow> init_env \<Rightarrow> ('nf, 'j) sdmbn SDMBNLocals option \<Rightarrow> ('nf, 'j) sdmbn
   \<Rightarrow> (c_int \<times> ('nf, 'j) sdmbn) run" where
  "sdmbn_init J env locals s =
     (case locals of
        None \<Rightarrow> Ret (-1, s)
      | Some L \<Rightarrow>
          run_bind (sdmbn_parse_config env) (\<lambda>(_, cfg).
          let s = s\<lparr>s_stats := zero_stats, s_config := cfg\<rparr> in
          if env_mutex_conn env \<noteq> 0 then Aborted else
          let (res, s) = state_init J env s in
          if sneg res then Ret (-1, s) else
          let (res, s) = events_init J env L s in
          if sneg res then Ret (-1, s) else
          if env_mutex_get env \<noteq> 0 then Aborted else
          Ret (1, s\<lparr>s_lock_get := (sint (release_get_pkts cfg) > 0 \<or> sint (release_get_flows cfg) > 0)\<rparr>)))"

definition sdmbn_cleanup ::
  "(c_int \<Rightarrow> c_int) \<Rightarrow> ('nf, 'j) sdmbn SDMBNLocals \<Rightarrow> ('nf, 'j) sdmbn \<Rightarrow> c_int \<times> ('nf, 'j) sdmbn" where
  "sdmbn_cleanup close L s =
     (let (_, s) = state_cleanup close s;
          (_, s) = events_cleanup close s;
          s = (case loc_cleanup L of None \<Rightarrow> s | Some cleanup \<Rightarrow> snd (cleanup s))
      in (1, s))"

section \<open>Notifications\<close>

definition sdmbn_notify_packet_received :: "('nf, 'j) sdmbn \<Rightarrow> ('nf, 'j) sdmbn run" where
  "sdmbn_notify_packet_received s =
     (let s = upd_stats (\<lambda>st. st\<lparr>pkts_received := pkts_received st + 1\<rparr>) s; cfg = s_config s in
      if sint (release_get_pkts cfg) > 0 \<or> sint (release_get_flows cfg) > 0 then
        if release_get_pkts cfg = pkts_received (s_stats s) then unlock_get s
        else if release_get_flows cfg = flows_active (s_stats s) then unlock_get s
        else Ret s
      else Ret s)"

definition sdmbn_notify_flow_created :: "('nf, 'j) sdmbn \<Rightarrow> ('nf, 'j) sdmbn" where
  "sdmbn_notify_flow_created = upd_stats (\<lambda>st. st\<lparr>flows_active := flows_active st + 1\<rparr>)"

definition sdmbn_notify_flow_destroyed :: "('nf, 'j) sdmbn \<Rightarrow> ('nf, 'j) sdmbn" where
  "sdmbn_notify_flow_destroyed = upd_stats (\<lambda>st. st\<lparr>flows_active := flows_active st - 1\<rparr>)"

section \<open>Reading a well-formed file\<close>

definition config_token :: "string \<Rightarrow> bool" where
  "config_token t \<longleftrightarrow> t \<noteq> [] \<and> (\<forall>c \<in> set t. \<not> is_space c)"

definition config_text :: "(string \<times> string) list \<Rightarrow> string" where
  "config_text kvs = concat (map (\<lambda>(k, v). k @ '' = '' @ v @ [CHR 0x0A]) kvs)"

fun config_apply :: "(string \<times> string) list \<Rightarrow> SDMBNConfig \<Rightarrow> SDMBNConfig run" where
  "config_apply [] cfg = Ret cfg"
| "config_apply ((k, v) # kvs) cfg = run_bind (config_entry k v cfg) (config_apply kvs)"

lemma takeWhile_token:
  "config_token t \<Longrightarrow> is_space c \<Longrightarrow> takeWhile (\<lambda>c. \<not> is_space c) (t @ c # r) = t"
  "config_token t \<Longrightarrow> is_space c \<Longrightarrow> dropWhile (\<lambda>c. \<not> is_space c) (t @ c # r) = c # r"
  by (auto simp: config_token_def takeWhile_append2 dropWhile_append2)

lemma dropWhile_token: "config_token t \<Longrightarrow> dropWhile is_space (t @ r) = t @ r"
  by (cases t) (auto simp: config_token_def)

lemma spaces [simp]: "is_space CHR '' ''" "is_space (CHR 0x0A)" "\<not> is_space CHR ''=''"
  by (simp_all add: is_space_def)

lemma scan_pair_line:
  assumes "config_token k" "config_token v" "dropWhile is_space r = r"
  shows "scan_pair (k @ '' = '' @ v @ CHR 0x0A # r) = Some (k, v, r)"
proof -
  have "k \<noteq> []" "v \<noteq> []" using assms by (auto simp: config_token_def)
  with assms show ?thesis
    by (simp add: scan_pair_def scan_token_def dropWhile_token takeWhile_token)
qed

lemma config_text_no_space:
  assumes "\<forall>(k, v) \<in> set kvs. config_token k \<and> config_token v"
  shows "dropWhile is_space (config_text kvs) = config_text kvs"
proof (cases kvs)
  case (Cons kv rest)
  obtain k v where "kv = (k, v)" by fastforce
  with Cons assms show ?thesis by (simp add: config_text_def dropWhile_token)
qed (simp add: config_text_def)

text \<open>Reading the text of a list of settings, one \<open>key = value\<close> line each, applies exactly
  these settings in order to the defaults; the loop reads every line.\<close>

theorem config_reads_settings:
  assumes "\<forall>(k, v) \<in> set kvs. config_token k \<and> config_token v"
  shows "config_loop (config_text kvs) cfg = config_apply kvs cfg"
  using assms
proof (induction kvs arbitrary: cfg)
  case Nil
  then show ?case
    by (subst config_loop.simps) (simp add: config_text_def scan_pair_def scan_token_def)
next
  case (Cons kv kvs)
  obtain k v where kv: "kv = (k, v)" by fastforce
  have "config_text (kv # kvs) = k @ '' = '' @ v @ CHR 0x0A # config_text kvs"
    by (simp add: config_text_def kv)
  moreover have "scan_pair \<dots> = Some (k, v, config_text kvs)"
    using Cons.prems config_text_no_space [of kvs] by (intro scan_pair_line) (auto simp: kv)
  ultimately have "config_loop (config_text (kv # kvs)) cfg =
      run_bind (config_entry k v cfg) (config_loop (config_text kvs))"
    by (subst config_loop.simps) simp
  also have "\<dots> = run_bind (config_entry k v cfg) (config_apply kvs)"
    using Cons by (cases "config_entry k v cfg") auto
  finally show ?case by (simp add: kv)
qed

theorem config_reads_settings_witness:
  "config_loop (config_text [(''ctrl_ip'', ''10.0.0.9''), (''max_get_flows'', ''50'')]) config_defaults
   = Ret (config_defaults\<lparr>ctrl_ip := ''10.0.0.9'', max_get_flows := 50\<rparr>)"
proof -
  have "\<forall>(k, v) \<in> set [(''ctrl_ip'', ''10.0.0.9''), (''max_get_flows'', ''50'')].
      config_token k \<and> config_token v" by code_simp
  from config_reads_settings [OF this, of config_defaults] show ?thesis
    by (simp add: config_entry_def strncmp_eq_def atoi_def is_space_def digit_val_def)
qed

section \<open>The thresholds that release the get lock\<close>

fun notify_packets :: "nat \<Rightarrow> ('nf, 'j) sdmbn \<Rightarrow> ('nf, 'j) sdmbn run" where
  "notify_packets 0 s = Ret s"
| "notify_packets (Suc k) s = run_bind (notify_packets k s) sdmbn_notify_packet_received"

lemma sint_word_of_nat_31: "n < 2 ^ 31 \<Longrightarrow> sint (word_of_nat n :: c_int) = int n"
  by (simp add: signed_of_nat signed_take_bit_int_eq_self)

lemma notify_packets_state:
  assumes "release_get_pkts (s_config s) = word_of_nat n" "0 < n" "n < 2 ^ 31" "k < 2 ^ 31"
    and "s_lock_get s" "pkts_received (s_stats s) = 0"
    and "release_get_flows (s_config s) \<noteq> flows_active (s_stats s)"
  shows "notify_packets k s = Ret (s\<lparr>s_stats := (s_stats s)\<lparr>pkts_received := word_of_nat k\<rparr>,
    s_lock_get := k < n\<rparr>)"
  using assms(4)
proof (induction k)
  case 0
  then show ?case using assms by simp
next
  case (Suc k)
  let ?s = "s\<lparr>s_stats := (s_stats s)\<lparr>pkts_received := word_of_nat k\<rparr>, s_lock_get := k < n\<rparr>"
  have eq: "(word_of_nat n = (word_of_nat (Suc k) :: c_int)) \<longleftrightarrow> n = Suc k"
    using sint_word_of_nat_31 [OF assms(3)] sint_word_of_nat_31 [OF Suc.prems] by (metis of_nat_eq_iff)
  define t where "t = s\<lparr>s_stats := (s_stats s)\<lparr>pkts_received := word_of_nat (Suc k)\<rparr>, s_lock_get := k < n\<rparr>"
  have "sint (release_get_pkts (s_config s)) > 0"
    using assms(1,2) sint_word_of_nat_31 [OF assms(3)] by simp
  with eq assms(1,7) have "sdmbn_notify_packet_received ?s = (if n = Suc k then unlock_get t else Ret t)"
    by (cases s) (simp add: sdmbn_notify_packet_received_def Let_def upd_stats_def add.commute t_def)
  moreover have "k < n \<longleftrightarrow> n = Suc k \<or> Suc k < n" by auto
  ultimately show ?case using Suc by (auto simp: unlock_get_def t_def)
qed

text \<open>A packet threshold works as meant: the library starts with the get lock held, keeps it
  for the first \<open>n - 1\<close> packets and releases it on the \<open>n\<close>-th, exactly once.\<close>

theorem get_lock_released_at_threshold:
  assumes "sdmbn_init J env (Some L) s0 = Ret (1, s)" "loc_init L = None"
    and "release_get_pkts (s_config s) = word_of_nat n" "0 < n" "n < 2 ^ 31"
    and "release_get_flows (s_config s) \<noteq> 0" "k < 2 ^ 31"
  shows "\<exists>s'. notify_packets k s = Ret s' \<and> (s_lock_get s' \<longleftrightarrow> k < n)"
proof -
  have pos: "sint (release_get_pkts (s_config s)) > 0"
    using assms(3,4) sint_word_of_nat_31 [OF assms(5)] by simp
  from assms(1,2) have "s_stats s = zero_stats"
    "s_lock_get s \<longleftrightarrow> sint (release_get_pkts (s_config s)) > 0 \<or> sint (release_get_flows (s_config s)) > 0"
    by (auto simp: sdmbn_init_def state_init_def events_init_def run_bind_eq_Ret Let_def json_send_def
        split: if_splits)
  with pos assms show ?thesis
    using notify_packets_state [of s n k] by (simp add: zero_stats_def)
qed

theorem get_lock_released_at_threshold_witness:
  "let env = \<lparr>env_file = Some ''release_get_pkts = 3'', env_close = 0, env_sock_state = 5, env_sock_event = 6,
         env_mutex_conn = 0, env_mutex_get = 0, env_mutex_processing = 0, env_event_thread = 0,
         env_hostname = ''h'', env_pid = 1\<rparr>
   in \<exists>s s2 s3. sdmbn_init json_tree env (Some no_callbacks) (zero_sdmbn ()) = Ret (1, s)
        \<and> notify_packets 2 s = Ret s2 \<and> s_lock_get s2 \<and> notify_packets 3 s = Ret s3 \<and> \<not> s_lock_get s3"
proof -
  define env where "env = \<lparr>env_file = Some ''release_get_pkts = 3'', env_close = 0, env_sock_state = 5,
    env_sock_event = 6, env_mutex_conn = 0, env_mutex_get = 0, env_mutex_processing = 0,
    env_event_thread = 0, env_hostname = ''h'', env_pid = 1\<rparr>"
  have rest: "scan_pair [] = None" by (simp add: scan_pair_def scan_token_def)
  have scan: "scan_pair ''release_get_pkts = 3'' = Some (''release_get_pkts'', ''3'', [])" by code_simp
  have "config_loop ''release_get_pkts = 3'' config_defaults = Ret (config_defaults\<lparr>release_get_pkts := 3\<rparr>)"
    by (simp add: config_loop.simps [of "''release_get_pkts = 3''"] config_loop.simps [of "[]"] rest scan
        config_entry_def strncmp_eq_def atoi_def is_space_def digit_val_def)
  then obtain s :: "(unit, json_value) sdmbn" where
    s: "sdmbn_init json_tree env (Some no_callbacks) (zero_sdmbn ()) = Ret (1, s)"
    "release_get_pkts (s_config s) = word_of_nat 3" "release_get_flows (s_config s) \<noteq> 0"
    by (simp add: sdmbn_init_def sdmbn_parse_config_def env_def state_init_def events_init_def sneg_def
        json_send_def no_callbacks_def config_defaults_def Let_def)
  have no: "loc_init (no_callbacks :: (unit, json_value) sdmbn SDMBNLocals) = None" by (simp add: no_callbacks_def)
  show ?thesis
    using get_lock_released_at_threshold [OF s(1) no s(2) _ _ s(3), of 2]
      get_lock_released_at_threshold [OF s(1) no s(2) _ _ s(3), of 3] s(1)
    unfolding Let_def env_def [symmetric] by auto
qed

text \<open>The flow threshold does not work as meant: while the number of active flows stays at the
  threshold, the second packet releases the lock again although it is free, which is undefined
  behaviour.\<close>

theorem flow_threshold_unlocks_twice:
  assumes "sint (release_get_flows (s_config s)) > 0" "sint (release_get_pkts (s_config s)) < 0"
    and "flows_active (s_stats s) = release_get_flows (s_config s)" "s_lock_get s"
    and "pkts_received (s_stats s) = word_of_nat k" "k + 2 < 2 ^ 31"
  shows "notify_packets 1 s \<noteq> Undef \<and> notify_packets 2 s = Undef"
proof -
  have ne: "release_get_pkts (s_config s) \<noteq> word_of_nat k + 1" "release_get_pkts (s_config s) \<noteq> word_of_nat k + 2"
    using assms(2,6) sint_word_of_nat_31 [of "k + 1"] sint_word_of_nat_31 [of "k + 2"]
    by (auto simp: add.commute)
  let ?t = "s\<lparr>s_stats := (s_stats s)\<lparr>pkts_received := word_of_nat k + 1\<rparr>, s_lock_get := False\<rparr>"
  have 1: "notify_packets 1 s = Ret ?t"
    using assms ne by (simp add: sdmbn_notify_packet_received_def Let_def upd_stats_def unlock_get_def)
  have "notify_packets 2 s = run_bind (notify_packets 1 s) sdmbn_notify_packet_received"
    by (simp add: numeral_2_eq_2)
  also have "\<dots> = Undef"
    using assms ne unfolding 1
    by (simp add: sdmbn_notify_packet_received_def Let_def upd_stats_def unlock_get_def add.assoc)
  finally show ?thesis using 1 by simp
qed

theorem flow_threshold_unlocks_twice_witness:
  "let s = (zero_sdmbn ())\<lparr>s_config := config_defaults\<lparr>release_get_flows := 2\<rparr>,
         s_stats := zero_stats\<lparr>flows_active := 2\<rparr>, s_lock_get := True\<rparr> :: (unit, json_value) sdmbn
   in notify_packets 1 s \<noteq> Undef \<and> notify_packets 2 s = Undef"
proof -
  define s :: "(unit, json_value) sdmbn" where "s = (zero_sdmbn ())\<lparr>s_config := config_defaults\<lparr>release_get_flows := 2\<rparr>,
     s_stats := zero_stats\<lparr>flows_active := 2\<rparr>, s_lock_get := True\<rparr>"
  have "sint (release_get_flows (s_config s)) > 0" "sint (release_get_pkts (s_config s)) < 0"
    "flows_active (s_stats s) = release_get_flows (s_config s)" "s_lock_get s"
    "pkts_received (s_stats s) = word_of_nat 0"
    by (simp_all add: s_def config_defaults_def zero_stats_def)
  from flow_threshold_unlocks_twice [OF this] show ?thesis
    unfolding Let_def s_def [symmetric] by simp
qed

end
