(* ===== verification/Bro_Queue.thy ===== *)
theory Bro_Queue
  imports OFM_Prelude
begin

text \<open>
  The double-ended queue of Bro, \<^verbatim>\<open>bro-2.1/src/Queue.cc\<close> and \<^verbatim>\<open>Queue.h\<close>: a ring buffer of
  \<open>max_entries + 1\<close> cells that grows by doubling chunks.  Sizes and indices are natural numbers
  (the queue holds fewer than \<open>2 ^ 31\<close> entries); the requested initial size is an integer because
  the constructor tests its sign.  \<^verbatim>\<open>operator new\<close> throws instead of returning null, so the
  branches for a null result are dead and left out.

  The locale \<open>deque\<close> states what a double-ended queue promises its clients; the client lemma shows
  that any sequence of operations is observably the same as on a list.  The ring buffer is an
  instance.
\<close>

section \<open>The ring buffer\<close>

record 'a BaseQueue =
  entry :: "'a option list"
  chunk_size :: nat
  max_entries :: nat
  num_entries :: nat
  head :: nat
  tail :: nat



definition queue_resize :: "nat \<Rightarrow> 'a BaseQueue \<Rightarrow> (nat \<times> 'a BaseQueue) run" where
  "queue_resize new_size q =
     (let n = num_entries q; new_size = (if new_size < n then n else new_size) in
      if new_size \<noteq> max_entries q then
        run_bind
          (if head q \<le> tail q then arr_copy (entry q) (head q) n
           else run_bind (arr_copy (entry q) (head q) (n - tail q)) (\<lambda>a.
                run_bind (arr_copy (entry q) 0 (tail q)) (\<lambda>b. Ret (a @ b))))
          (\<lambda>cells.
            Ret (new_size, q\<lparr>entry := cells @ replicate (new_size + 1 - length cells) None,
                             max_entries := new_size, head := 0, tail := n\<rparr>))
      else Ret (max_entries q, q))"

text \<open>The growth step that both push operations start with.\<close>

definition make_room :: "'a BaseQueue \<Rightarrow> 'a BaseQueue run" where
  "make_room q =
     (if num_entries q = max_entries q then
        run_bind (queue_resize (max_entries q + chunk_size q) q) (\<lambda>(_, q).
          Ret (q\<lparr>chunk_size := chunk_size q * 2\<rparr>))
      else Ret q)"

definition queue_push_front :: "'a \<Rightarrow> 'a BaseQueue \<Rightarrow> 'a BaseQueue run" where
  "queue_push_front a q =
     run_bind (make_room q) (\<lambda>q.
       let q = q\<lparr>num_entries := num_entries q + 1\<rparr> in
       if head q \<noteq> 0 then
         run_bind (arr_set (entry q) (head q - 1) a) (\<lambda>e. Ret (q\<lparr>head := head q - 1, entry := e\<rparr>))
       else
         run_bind (arr_set (entry q) (max_entries q) a) (\<lambda>e. Ret (q\<lparr>head := max_entries q, entry := e\<rparr>)))"

definition queue_push_back :: "'a \<Rightarrow> 'a BaseQueue \<Rightarrow> 'a BaseQueue run" where
  "queue_push_back a q =
     run_bind (make_room q) (\<lambda>q.
       let q = q\<lparr>num_entries := num_entries q + 1\<rparr> in
       run_bind (arr_set (entry q) (tail q) a) (\<lambda>e.
         Ret (q\<lparr>entry := e, tail := (if tail q < max_entries q then tail q + 1 else 0)\<rparr>)))"

text \<open>\<open>None\<close> is the null entry that popping an empty queue returns.\<close>

definition queue_pop_front :: "'a BaseQueue \<Rightarrow> ('a option \<times> 'a BaseQueue) run" where
  "queue_pop_front q =
     (if num_entries q = 0 then Ret (None, q)
      else
        let q = q\<lparr>num_entries := num_entries q - 1\<rparr> in
        if head q < max_entries q then
          run_bind (arr_get (entry q) (head q)) (\<lambda>a. Ret (Some a, q\<lparr>head := head q + 1\<rparr>))
        else
          run_bind (arr_get (entry q) (max_entries q)) (\<lambda>a. Ret (Some a, q\<lparr>head := 0\<rparr>)))"

definition queue_pop_back :: "'a BaseQueue \<Rightarrow> ('a option \<times> 'a BaseQueue) run" where
  "queue_pop_back q =
     (if num_entries q = 0 then Ret (None, q)
      else
        let q = q\<lparr>num_entries := num_entries q - 1\<rparr> in
        if tail q \<noteq> 0 then
          run_bind (arr_get (entry q) (tail q - 1)) (\<lambda>a. Ret (Some a, q\<lparr>tail := tail q - 1\<rparr>))
        else
          run_bind (arr_get (entry q) (max_entries q)) (\<lambda>a. Ret (Some a, q\<lparr>tail := max_entries q\<rparr>)))"

definition queue_clear :: "'a BaseQueue \<Rightarrow> 'a BaseQueue" where
  "queue_clear q = q\<lparr>head := 0, tail := 0, num_entries := 0\<rparr>"

text \<open>The iteration of \<^verbatim>\<open>loop_over_queue\<close>: from \<open>front()\<close> to \<open>back()\<close> by \<open>incr\<close>.\<close>

definition queue_incr :: "'a BaseQueue \<Rightarrow> nat \<Rightarrow> nat" where
  "queue_incr q i = (if i < max_entries q then i + 1 else 0)"

section \<open>The contract of a double-ended queue\<close>

locale deque =
  fixes inv :: "'q \<Rightarrow> bool" and elems :: "'q \<Rightarrow> 'a list"
    and push_front push_back :: "'a \<Rightarrow> 'q \<Rightarrow> 'q run"
    and pop_front pop_back :: "'q \<Rightarrow> ('a option \<times> 'q) run"
    and resize :: "nat \<Rightarrow> 'q \<Rightarrow> (nat \<times> 'q) run"
  assumes push_front_law:
      "inv q \<Longrightarrow> \<exists>q'. push_front a q = Ret q' \<and> inv q' \<and> elems q' = a # elems q"
    and push_back_law:
      "inv q \<Longrightarrow> \<exists>q'. push_back a q = Ret q' \<and> inv q' \<and> elems q' = elems q @ [a]"
    and pop_front_law:
      "inv q \<Longrightarrow> \<exists>q'. pop_front q = Ret (case elems q of [] \<Rightarrow> None | a # _ \<Rightarrow> Some a, q') \<and> inv q'
         \<and> elems q' = tl (elems q)"
    and pop_back_law:
      "inv q \<Longrightarrow> \<exists>q'. pop_back q = Ret (if elems q = [] then None else Some (last (elems q)), q') \<and> inv q'
         \<and> elems q' = butlast (elems q)"
    and resize_law:
      "inv q \<Longrightarrow> \<exists>n' q'. resize n q = Ret (n', q') \<and> inv q' \<and> elems q' = elems q"

datatype 'a queue_op = PushFront 'a | PushBack 'a | PopFront | PopBack | Resize nat

text \<open>The specification on lists: the results of the pops, and the final contents.\<close>

fun list_ops :: "'a queue_op list \<Rightarrow> 'a list \<Rightarrow> 'a option list \<times> 'a list" where
  "list_ops [] xs = ([], xs)"
| "list_ops (PushFront a # ops) xs = list_ops ops (a # xs)"
| "list_ops (PushBack a # ops) xs = list_ops ops (xs @ [a])"
| "list_ops (PopFront # ops) xs =
     (let (out, ys) = list_ops ops (tl xs) in ((case xs of [] \<Rightarrow> None | a # _ \<Rightarrow> Some a) # out, ys))"
| "list_ops (PopBack # ops) xs =
     (let (out, ys) = list_ops ops (butlast xs) in ((if xs = [] then None else Some (last xs)) # out, ys))"
| "list_ops (Resize n # ops) xs = list_ops ops xs"

text \<open>The same sequence on an implementation.\<close>

fun impl_ops ::
  "('a \<Rightarrow> 'q \<Rightarrow> 'q run) \<Rightarrow> ('a \<Rightarrow> 'q \<Rightarrow> 'q run) \<Rightarrow> ('q \<Rightarrow> ('a option \<times> 'q) run) \<Rightarrow> ('q \<Rightarrow> ('a option \<times> 'q) run)
   \<Rightarrow> (nat \<Rightarrow> 'q \<Rightarrow> (nat \<times> 'q) run) \<Rightarrow> 'a queue_op list \<Rightarrow> 'q \<Rightarrow> ('a option list \<times> 'q) run" where
  "impl_ops puf pub pof pob rs [] q = Ret ([], q)"
| "impl_ops puf pub pof pob rs (PushFront a # ops) q = run_bind (puf a q) (impl_ops puf pub pof pob rs ops)"
| "impl_ops puf pub pof pob rs (PushBack a # ops) q = run_bind (pub a q) (impl_ops puf pub pof pob rs ops)"
| "impl_ops puf pub pof pob rs (PopFront # ops) q = run_bind (pof q) (\<lambda>(a, q).
     run_bind (impl_ops puf pub pof pob rs ops q) (\<lambda>(out, q). Ret (a # out, q)))"
| "impl_ops puf pub pof pob rs (PopBack # ops) q = run_bind (pob q) (\<lambda>(a, q).
     run_bind (impl_ops puf pub pof pob rs ops q) (\<lambda>(out, q). Ret (a # out, q)))"
| "impl_ops puf pub pof pob rs (Resize n # ops) q = run_bind (rs n q) (\<lambda>(_, q). impl_ops puf pub pof pob rs ops q)"

context deque
begin

lemma ops_simulated:
  "inv q \<Longrightarrow> \<exists>q'. impl_ops push_front push_back pop_front pop_back resize ops q
      = Ret (fst (list_ops ops (elems q)), q') \<and> inv q' \<and> elems q' = snd (list_ops ops (elems q))"
proof (induction ops arbitrary: q)
  case Nil
  then show ?case by simp
next
  case (Cons op ops)
  show ?case
  proof (cases op)
    case (PushFront a)
    from push_front_law [OF Cons.prems, of a] obtain q' where
      "push_front a q = Ret q'" "inv q'" "elems q' = a # elems q" by blast
    with Cons.IH [of q'] PushFront show ?thesis by auto
  next
    case (PushBack a)
    from push_back_law [OF Cons.prems, of a] obtain q' where
      "push_back a q = Ret q'" "inv q'" "elems q' = elems q @ [a]" by blast
    with Cons.IH [of q'] PushBack show ?thesis by auto
  next
    case PopFront
    from pop_front_law [OF Cons.prems] obtain q' where
      "pop_front q = Ret (case elems q of [] \<Rightarrow> None | a # _ \<Rightarrow> Some a, q')" "inv q'"
      "elems q' = tl (elems q)" by blast
    with Cons.IH [of q'] PopFront show ?thesis by (auto split: prod.splits)
  next
    case PopBack
    from pop_back_law [OF Cons.prems] obtain q' where
      "pop_back q = Ret (if elems q = [] then None else Some (last (elems q)), q')" "inv q'"
      "elems q' = butlast (elems q)" by blast
    with Cons.IH [of q'] PopBack show ?thesis by (auto split: prod.splits)
  next
    case (Resize n)
    from resize_law [OF Cons.prems, of n] obtain n' q' where
      "resize n q = Ret (n', q')" "inv q'" "elems q' = elems q" by blast
    with Cons.IH [of q'] Resize show ?thesis by auto
  qed
qed

end

section \<open>The ring buffer as a double-ended queue\<close>

definition ring_index :: "'a BaseQueue \<Rightarrow> nat \<Rightarrow> nat" where
  "ring_index q i = (head q + i) mod (max_entries q + 1)"

definition queue_inv :: "'a BaseQueue \<Rightarrow> bool" where
  "queue_inv q \<longleftrightarrow>
     length (entry q) = max_entries q + 1 \<and> num_entries q \<le> max_entries q \<and> head q \<le> max_entries q
     \<and> tail q = ring_index q (num_entries q) \<and> 0 < chunk_size q
     \<and> (\<forall>i < num_entries q. entry q ! ring_index q i \<noteq> None)"

definition queue_elems :: "'a BaseQueue \<Rightarrow> 'a list" where
  "queue_elems q = map (\<lambda>i. the (entry q ! ring_index q i)) [0..<num_entries q]"

lemma ring_mod: "(h :: nat) \<le> m \<Longrightarrow> i \<le> m + 1 \<Longrightarrow> (h + i) mod (m + 1) = (if h + i \<le> m then h + i else h + i - (m + 1))"
  by (cases "h + i \<le> m") (simp_all add: le_mod_geq)


lemma ring_index_eq:
  "queue_inv q \<Longrightarrow> i \<le> max_entries q + 1 \<Longrightarrow>
   ring_index q i = (if head q + i \<le> max_entries q then head q + i else head q + i - (max_entries q + 1))"
  unfolding ring_index_def by (rule ring_mod) (simp_all add: queue_inv_def)

lemma tail_eq:
  "queue_inv q \<Longrightarrow> tail q = (if head q + num_entries q \<le> max_entries q then head q + num_entries q
     else head q + num_entries q - (max_entries q + 1))"
  using ring_index_eq [of q "num_entries q"] by (simp add: queue_inv_def)

lemma queue_elems_length [simp]: "length (queue_elems q) = num_entries q"
  by (simp add: queue_elems_def)

text \<open>Two queues with the same counters and the same cells in the ring hold the same elements.\<close>

lemma queue_elemsI:
  assumes "length xs = num_entries q" "\<And>i. i < length xs \<Longrightarrow> entry q ! ring_index q i = Some (xs ! i)"
  shows "queue_elems q = xs"
  using assms by (intro nth_equalityI) (simp_all add: queue_elems_def)

lemma cell_at:
  "queue_inv q \<Longrightarrow> i < num_entries q \<Longrightarrow> entry q ! ring_index q i = Some (queue_elems q ! i)"
  by (auto simp: queue_inv_def queue_elems_def)

lemma queue_invI:
  assumes "length (entry q) = max_entries q + 1" "num_entries q \<le> max_entries q" "head q \<le> max_entries q"
    and "tail q = ring_index q (num_entries q)" "0 < chunk_size q"
    and "length xs = num_entries q" "\<And>i. i < length xs \<Longrightarrow> entry q ! ring_index q i = Some (xs ! i)"
  shows "queue_inv q \<and> queue_elems q = xs"
  using assms queue_elemsI [of xs q] by (auto simp: queue_inv_def)

lemma resize_copy:
  assumes "queue_inv q"
  shows "(if head q \<le> tail q then arr_copy (entry q) (head q) (num_entries q)
      else run_bind (arr_copy (entry q) (head q) (num_entries q - tail q)) (\<lambda>a.
           run_bind (arr_copy (entry q) 0 (tail q)) (\<lambda>b. Ret (a @ b)))) = Ret (map Some (queue_elems q))"
proof -
  note facts = assms [unfolded queue_inv_def]
  have nth: "entry q ! (if head q + i \<le> max_entries q then head q + i else head q + i - (max_entries q + 1))
      = Some (queue_elems q ! i)" if "i < num_entries q" for i
    using cell_at [OF assms that] ring_index_eq [OF assms, of i] that facts by simp
  show ?thesis
  proof (cases "head q + num_entries q \<le> max_entries q")
    case True
    have "take (num_entries q) (drop (head q) (entry q)) = map Some (queue_elems q)"
      using facts True by (intro nth_equalityI) (auto simp flip: nth)
    then show ?thesis using facts True tail_eq [OF assms] by simp
  next
    case False
    then have t: "tail q = head q + num_entries q - (max_entries q + 1)" "\<not> head q \<le> tail q"
      using tail_eq [OF assms] facts by auto
    have "take (num_entries q - tail q) (drop (head q) (entry q)) @ take (tail q) (entry q) = map Some (queue_elems q)"
      using facts False t by (intro nth_equalityI) (auto simp: nth_append add.commute simp flip: nth)
    moreover have "head q + (num_entries q - tail q) \<le> length (entry q)" "tail q \<le> length (entry q)"
      using facts False t(1) by linarith+
    ultimately show ?thesis using t(2) by simp
  qed
qed

lemma queue_resize_ok:
  assumes "queue_inv q"
  shows "\<exists>q'. queue_resize n q = Ret (max_entries q', q') \<and> queue_inv q' \<and> queue_elems q' = queue_elems q
    \<and> num_entries q' = num_entries q \<and> max_entries q' = max n (num_entries q)"
proof (cases "max n (num_entries q) = max_entries q")
  case True
  then show ?thesis using assms by (auto simp: queue_resize_def Let_def max_def split: if_splits)
next
  case False
  let ?n = "max n (num_entries q)"
  let ?q = "q\<lparr>entry := map Some (queue_elems q) @ replicate (?n + 1 - num_entries q) None,
    max_entries := ?n, head := 0, tail := num_entries q\<rparr>"
  have "queue_inv ?q \<and> queue_elems ?q = queue_elems q"
    using assms by (intro queue_invI) (auto simp: queue_inv_def ring_index_def nth_append)
  moreover have "queue_resize n q = Ret (?n, ?q)"
    using False resize_copy [OF assms] by (auto simp: queue_resize_def Let_def max_def not_less)
  ultimately show ?thesis by auto
qed

lemma make_room_ok:
  assumes "queue_inv q"
  shows "\<exists>q'. make_room q = Ret q' \<and> queue_inv q' \<and> queue_elems q' = queue_elems q
    \<and> num_entries q' < max_entries q'"
proof (cases "num_entries q = max_entries q")
  case True
  from queue_resize_ok [OF assms, of "max_entries q + chunk_size q"] obtain q' where
    q': "queue_resize (max_entries q + chunk_size q) q = Ret (max_entries q', q')" "queue_inv q'"
    "queue_elems q' = queue_elems q" "num_entries q' = num_entries q"
    "max_entries q' = max (max_entries q + chunk_size q) (num_entries q)" by blast
  have "0 < chunk_size q" using assms by (simp add: queue_inv_def)
  then have "num_entries q' < max_entries q'" using q' True by simp
  moreover have "queue_inv (q'\<lparr>chunk_size := chunk_size q' * 2\<rparr>)"
    "queue_elems (q'\<lparr>chunk_size := chunk_size q' * 2\<rparr>) = queue_elems q'"
    using q'(2) by (auto simp: queue_inv_def queue_elems_def ring_index_def)
  ultimately show ?thesis using q' True by (simp add: make_room_def)
next
  case False
  then show ?thesis using assms by (auto simp: make_room_def queue_inv_def)
qed

lemma queue_push_back_ok:
  assumes "queue_inv q"
  shows "\<exists>q'. queue_push_back a q = Ret q' \<and> queue_inv q' \<and> queue_elems q' = queue_elems q @ [a]"
proof -
  from make_room_ok [OF assms] obtain r where r: "make_room q = Ret r" "queue_inv r"
    "queue_elems r = queue_elems q" "num_entries r < max_entries r" by blast
  note facts = r(2) [unfolded queue_inv_def] and ring = ring_index_eq [OF r(2)]
  define q' where "q' = r\<lparr>num_entries := num_entries r + 1, entry := (entry r)[tail r := Some a],
    tail := (if tail r < max_entries r then tail r + 1 else 0)\<rparr>"
  have tail: "tail r < length (entry r)" using facts by (simp add: ring_index_def)
  have "queue_inv q' \<and> queue_elems q' = queue_elems r @ [a]"
  proof (rule queue_invI)
    fix i assume i: "i < length (queue_elems r @ [a])"
    have "ring_index r i = tail r \<longleftrightarrow> i = num_entries r"
      using ring [of i] ring [of "num_entries r"] i r(4) facts by (auto split: if_splits)
    with i tail cell_at [OF r(2), of i] show "entry q' ! ring_index q' i = Some ((queue_elems r @ [a]) ! i)"
      by (auto simp: q'_def ring_index_def nth_append nth_list_update)
  next
    show "tail q' = ring_index q' (num_entries q')"
      using ring [of "num_entries r"] ring [of "num_entries r + 1"] facts r(4)
      by (auto simp: q'_def ring_index_def split: if_splits)
  qed (use facts r(4) in \<open>auto simp: q'_def\<close>)
  moreover have "queue_push_back a q = Ret q'"
    using tail by (simp add: queue_push_back_def r(1) q'_def Let_def)
  ultimately show ?thesis using r(3) by auto
qed

lemma queue_push_front_ok:
  assumes "queue_inv q"
  shows "\<exists>q'. queue_push_front a q = Ret q' \<and> queue_inv q' \<and> queue_elems q' = a # queue_elems q"
proof -
  from make_room_ok [OF assms] obtain r where r: "make_room q = Ret r" "queue_inv r"
    "queue_elems r = queue_elems q" "num_entries r < max_entries r" by blast
  note facts = r(2) [unfolded queue_inv_def] and ring = ring_index_eq [OF r(2)]
  define h where "h = (if head r \<noteq> 0 then head r - 1 else max_entries r)"
  define q' where "q' = r\<lparr>num_entries := num_entries r + 1, head := h, entry := (entry r)[h := Some a]\<rparr>"
  have h: "h \<le> max_entries r" "h < length (entry r)" using facts by (auto simp: h_def)
  have h0: "ring_index q' 0 = h" using h by (simp add: q'_def ring_index_def)
  have shift: "ring_index q' (Suc i) = ring_index r i \<and> ring_index r i \<noteq> h" if "i < num_entries r" for i
    using ring_mod [OF h(1), of "Suc i"] ring [of i] that r(4) facts
    by (auto simp: q'_def ring_index_def h_def split: if_splits)
  have "queue_inv q' \<and> queue_elems q' = a # queue_elems r"
  proof (rule queue_invI)
    fix i assume i: "i < length (a # queue_elems r)"
    show "entry q' ! ring_index q' i = Some ((a # queue_elems r) ! i)"
    proof (cases i)
      case 0
      then show ?thesis using h by (simp add: h0) (simp add: q'_def)
    next
      case (Suc j)
      then have "j < num_entries r" using i by simp
      with shift [OF this] cell_at [OF r(2) this] Suc show ?thesis by (simp add: q'_def)
    qed
  next
    show "tail q' = ring_index q' (num_entries q')"
      using ring_mod [OF h(1), of "Suc (num_entries r)"] tail_eq [OF r(2)] r(4) facts
      by (auto simp: q'_def ring_index_def h_def split: if_splits)
  qed (use facts r(4) h in \<open>auto simp: q'_def\<close>)
  moreover have "queue_push_front a q = Ret q'"
    using h by (auto simp: queue_push_front_def r(1) q'_def h_def Let_def)
  ultimately show ?thesis using r(3) by auto
qed

lemma queue_pop_front_ok:
  assumes "queue_inv q"
  shows "\<exists>q'. queue_pop_front q = Ret (case queue_elems q of [] \<Rightarrow> None | a # _ \<Rightarrow> Some a, q')
    \<and> queue_inv q' \<and> queue_elems q' = tl (queue_elems q)"
proof (cases "num_entries q = 0")
  case True
  then show ?thesis using assms by (simp add: queue_pop_front_def queue_elems_def)
next
  case False
  note facts = assms [unfolded queue_inv_def] and ring = ring_index_eq [OF assms]
  define h where "h = (if head q < max_entries q then head q + 1 else 0)"
  define q' where "q' = q\<lparr>num_entries := num_entries q - 1, head := h\<rparr>"
  have h: "h \<le> max_entries q" using facts by (auto simp: h_def)
  have shift: "ring_index q' i = ring_index q (Suc i)" if "i < num_entries q" for i
    using ring_mod [OF h, of i] ring [of "Suc i"] that facts
    by (auto simp: q'_def ring_index_def h_def split: if_splits)
  have "queue_inv q' \<and> queue_elems q' = tl (queue_elems q)"
  proof (rule queue_invI)
    fix i assume i: "i < length (tl (queue_elems q))"
    then show "entry q' ! ring_index q' i = Some (tl (queue_elems q) ! i)"
      using shift [of i] cell_at [OF assms, of "Suc i"] by (simp add: q'_def nth_tl)
  next
    show "tail q' = ring_index q' (num_entries q')"
      using shift [of "num_entries q - 1"] False facts by (simp add: q'_def)
  qed (use facts h in \<open>auto simp: q'_def\<close>)
  moreover have "queue_elems q \<noteq> []" using False by (simp flip: length_greater_0_conv)
  moreover have "ring_index q 0 = head q" using ring [of 0] facts by simp
  then have "queue_pop_front q = Ret (Some (queue_elems q ! 0), q')"
    using False cell_at [OF assms, of 0] facts
    by (cases "head q < max_entries q") (auto simp: queue_pop_front_def q'_def h_def Let_def)
  ultimately show ?thesis by (cases "queue_elems q") auto
qed

lemma queue_pop_back_ok:
  assumes "queue_inv q"
  shows "\<exists>q'. queue_pop_back q = Ret (if queue_elems q = [] then None else Some (last (queue_elems q)), q')
    \<and> queue_inv q' \<and> queue_elems q' = butlast (queue_elems q)"
proof (cases "num_entries q = 0")
  case True
  then show ?thesis using assms by (simp add: queue_pop_back_def queue_elems_def)
next
  case False
  note facts = assms [unfolded queue_inv_def] and ring = ring_index_eq [OF assms]
  define t where "t = (if tail q \<noteq> 0 then tail q - 1 else max_entries q)"
  define q' where "q' = q\<lparr>num_entries := num_entries q - 1, tail := t\<rparr>"
  have t: "t = ring_index q (num_entries q - 1)"
    using tail_eq [OF assms] ring [of "num_entries q - 1"] False facts
    by (auto simp: t_def split: if_splits)
  have "queue_inv q' \<and> queue_elems q' = butlast (queue_elems q)"
  proof (rule queue_invI)
    fix i assume i: "i < length (butlast (queue_elems q))"
    then show "entry q' ! ring_index q' i = Some (butlast (queue_elems q) ! i)"
      using cell_at [OF assms, of i] by (simp add: q'_def ring_index_def nth_butlast)
  qed (use facts t in \<open>auto simp: q'_def ring_index_def\<close>)
  moreover have ne: "queue_elems q \<noteq> []" using False by (simp flip: length_greater_0_conv)
  moreover have "t < length (entry q)" using facts by (simp add: t ring_index_def)
  then have "queue_pop_back q = Ret (Some (queue_elems q ! (num_entries q - 1)), q')"
    using False cell_at [OF assms, of "num_entries q - 1"] unfolding t [symmetric]
    by (cases "tail q = 0") (auto simp: queue_pop_back_def q'_def t_def Let_def)
  ultimately show ?thesis by (simp add: last_conv_nth)
qed

text \<open>Iterating from \<open>front()\<close> with \<open>incr\<close> visits the cells in queue order and ends at \<open>back()\<close>.\<close>

lemma queue_incr_ring:
  assumes "queue_inv q" "i < num_entries q"
  shows "queue_incr q (ring_index q i) = ring_index q (i + 1)"
  using ring_index_eq [OF assms(1), of i] ring_index_eq [OF assms(1), of "i + 1"] assms
  by (auto simp: queue_incr_def queue_inv_def)

lemma queue_clear_ok: "queue_inv q \<Longrightarrow> queue_inv (queue_clear q) \<and> queue_elems (queue_clear q) = []"
  by (simp add: queue_clear_def queue_inv_def queue_elems_def ring_index_def)

interpretation ring: deque queue_inv queue_elems queue_push_front queue_push_back queue_pop_front
    queue_pop_back queue_resize
proof
  fix q :: "'a BaseQueue" and n
  assume "queue_inv q"
  from queue_resize_ok [OF this] show "\<exists>n' q'. queue_resize n q = Ret (n', q') \<and> queue_inv q'
    \<and> queue_elems q' = queue_elems q" by blast
qed (simp_all only: queue_push_front_ok queue_push_back_ok queue_pop_front_ok queue_pop_back_ok)


end
