(* ===== verification/Bro_PriorityQueue.thy ===== *)
theory Bro_PriorityQueue
  imports OFM_Prelude "HOL-Library.Multiset"
begin

text \<open>
  The priority queue under Bro's timers, \<^verbatim>\<open>bro-2.1/src/PriorityQueue.cc\<close> and
  \<^verbatim>\<open>PriorityQueue.h\<close>: a binary heap in an array in which cell 0 has the single child 1 and cell
  \<open>n > 0\<close> has the children \<open>2n\<close> and \<open>2n + 1\<close>.  Elements are pointers \<open>'e\<close>; their time and offset
  fields are maps of the state, so that an element may be changed through the queue.  Times are
  any linear order with a least element (a \<open>double\<close> that is not a NaN, with \<open>-HUGE_VAL\<close> as the least).

  The locale \<open>priority_queue\<close> states the contract; its client lemma is that draining a queue
  yields its elements in the order of their times.  The heap is an instance.
\<close>

section \<open>The heap\<close>

record ('e, 't) PriorityQueue =
  heap :: "'e option list"
  heap_size :: nat
  peak_heap_size :: nat
  max_heap_size :: nat
  pq_time :: "'e \<Rightarrow> 't"
  pq_offset :: "'e \<Rightarrow> int"

definition new_PriorityQueue :: "nat \<Rightarrow> ('e \<Rightarrow> 't) \<Rightarrow> ('e \<Rightarrow> int) \<Rightarrow> ('e, 't) PriorityQueue" where
  "new_PriorityQueue initial_size tm off =
     \<lparr>heap = replicate initial_size None, heap_size = 0, peak_heap_size = 0, max_heap_size = initial_size,
      pq_time = tm, pq_offset = off\<rparr>"

definition Parent :: "nat \<Rightarrow> nat" where "Parent bin = bin div 2"
definition LeftChild :: "nat \<Rightarrow> nat" where "LeftChild bin = bin * 2"
definition RightChild :: "nat \<Rightarrow> nat" where "RightChild bin = LeftChild bin + 1"

definition SetElement :: "nat \<Rightarrow> 'e \<Rightarrow> ('e, 't) PriorityQueue \<Rightarrow> ('e, 't) PriorityQueue run" where
  "SetElement bin e q = run_bind (arr_set (heap q) bin e) (\<lambda>h.
     Ret (q\<lparr>heap := h, pq_offset := (pq_offset q)(e := int bin)\<rparr>))"

definition Swap :: "nat \<Rightarrow> nat \<Rightarrow> ('e, 't) PriorityQueue \<Rightarrow> ('e, 't) PriorityQueue run" where
  "Swap bin1 bin2 q =
     run_bind (arr_get (heap q) bin1) (\<lambda>t.
     run_bind (arr_get (heap q) bin2) (\<lambda>e2.
     run_bind (SetElement bin1 e2 q) (\<lambda>q.
     SetElement bin2 t q)))"

function BubbleUp :: "nat \<Rightarrow> ('e, 't::linorder) PriorityQueue \<Rightarrow> ('e, 't) PriorityQueue run" where
  "BubbleUp bin q =
     (if bin = 0 then Ret q
      else
        run_bind (arr_get (heap q) (Parent bin)) (\<lambda>ep.
        run_bind (arr_get (heap q) bin) (\<lambda>eb.
        if pq_time q ep > pq_time q eb then run_bind (Swap (Parent bin) bin q) (BubbleUp (Parent bin))
        else Ret q)))"
  by pat_completeness auto
termination
  by (relation "measure fst") (auto simp: Parent_def)

declare BubbleUp.simps [simp del]

lemma SetElement_heap_size:
  "SetElement bin e q = Ret q' \<Longrightarrow> heap_size q' = heap_size q"
  by (auto simp: SetElement_def run_bind_eq_Ret)

lemma Swap_heap_size: "Swap i j q = Ret q' \<Longrightarrow> heap_size q' = heap_size q"
  by (auto simp: Swap_def run_bind_eq_Ret dest!: SetElement_heap_size)

function BubbleDown :: "nat \<Rightarrow> ('e, 't::linorder) PriorityQueue \<Rightarrow> ('e, 't) PriorityQueue run" where
  "BubbleDown bin q =
     run_bind (arr_get (heap q) bin) (\<lambda>eb.
       let v = pq_time q eb; l = LeftChild bin; r = RightChild bin in
       if l \<ge> heap_size q then Ret q
       else if r \<ge> heap_size q then
         run_bind (arr_get (heap q) l) (\<lambda>el. if pq_time q el < v then Swap l bin q else Ret q)
       else
         run_bind (arr_get (heap q) l) (\<lambda>el.
         run_bind (arr_get (heap q) r) (\<lambda>er.
         if pq_time q el < pq_time q er then
           if pq_time q el < v then run_bind (Swap l bin q) (BubbleDown l) else Ret q
         else if pq_time q er < v then run_bind (Swap r bin q) (BubbleDown r)
         else Ret q)))"
  by pat_completeness auto
termination
proof (relation "measure (\<lambda>(bin, q). heap_size q - bin)", simp, goal_cases)
  case (1 bin q eb v l r el er q')
  have "bin \<noteq> 0"
  proof
    assume "bin = 0"
    with 1 have "el = eb" by (auto simp: LeftChild_def)
    with 1 show False by simp
  qed
  with 1 show ?case by (auto simp: LeftChild_def RightChild_def dest!: Swap_heap_size)
next
  case (2 bin q eb v l r el er q')
  then show ?case by (auto simp: LeftChild_def RightChild_def dest!: Swap_heap_size)
qed

declare BubbleDown.simps [simp del]

section \<open>Operations\<close>

definition Top :: "('e, 't) PriorityQueue \<Rightarrow> 'e option run" where
  "Top q = (if heap_size q = 0 then Ret None else run_bind (arr_get (heap q) 0) (\<lambda>e. Ret (Some e)))"

definition Remove :: "('e, 't::linorder) PriorityQueue \<Rightarrow> ('e option \<times> ('e, 't) PriorityQueue) run" where
  "Remove q =
     (if heap_size q = 0 then Ret (None, q)
      else
        run_bind (arr_get (heap q) 0) (\<lambda>top.
        let q = q\<lparr>heap_size := heap_size q - 1\<rparr> in
        run_bind (arr_get (heap q) (heap_size q)) (\<lambda>e.
        run_bind (SetElement 0 e q) (\<lambda>q.
        run_bind (BubbleDown 0 q) (\<lambda>q.
        Ret (Some top, q\<lparr>pq_offset := (pq_offset q)(top := -1)\<rparr>))))))"

text \<open>Removing a given element; the internal error is the fatal path of the reporter.\<close>

definition Remove_element ::
  "'e \<Rightarrow> ('e, 't::{linorder,order_bot}) PriorityQueue \<Rightarrow> ('e option \<times> ('e, 't) PriorityQueue) run" where
  "Remove_element e q =
     (if pq_offset q e < 0 \<or> pq_offset q e \<ge> int (heap_size q) then Ret (None, q)
      else
        run_bind (arr_get (heap q) (nat (pq_offset q e))) (\<lambda>e'.
        if e' \<noteq> e then Ret (None, q)
        else
          let q = q\<lparr>pq_time := (pq_time q)(e := bot)\<rparr> in
          run_bind (BubbleUp (nat (pq_offset q e)) q) (\<lambda>q.
          run_bind (Remove q) (\<lambda>(e2, q).
          if e2 \<noteq> Some e then Aborted else Ret (e2, q)))))"

definition pq_Resize :: "nat \<Rightarrow> ('e, 't) PriorityQueue \<Rightarrow> (nat \<times> ('e, 't) PriorityQueue) run" where
  "pq_Resize new_size q =
     run_bind (arr_copy (heap q) 0 (max_heap_size q)) (\<lambda>cells.
       if length cells > new_size then Undef
       else Ret (1, q\<lparr>heap := cells @ replicate (new_size - length cells) None, max_heap_size := new_size\<rparr>))"

definition Add :: "'e \<Rightarrow> ('e, 't::linorder) PriorityQueue \<Rightarrow> (nat \<times> ('e, 't) PriorityQueue) run" where
  "Add e q =
     run_bind (SetElement (heap_size q) e q) (\<lambda>q.
     run_bind (BubbleUp (heap_size q) q) (\<lambda>q.
     let q = q\<lparr>heap_size := heap_size q + 1\<rparr>;
         q = (if heap_size q > peak_heap_size q then q\<lparr>peak_heap_size := heap_size q\<rparr> else q)
     in if heap_size q \<ge> max_heap_size q then pq_Resize (max_heap_size q * 2) q
        else Ret (1, q)))"

section \<open>Well-formed cells and swaps\<close>

text \<open>The first \<open>n\<close> cells hold elements that know their place.\<close>

definition cells_ok :: "nat \<Rightarrow> ('e, 't) PriorityQueue \<Rightarrow> bool" where
  "cells_ok n q \<longleftrightarrow> n \<le> length (heap q) \<and> (\<forall>i < n. \<exists>e. heap q ! i = Some e \<and> pq_offset q e = int i)"

definition elem_at :: "('e, 't) PriorityQueue \<Rightarrow> nat \<Rightarrow> 'e" where
  "elem_at q i = the (heap q ! i)"

definition time_at :: "('e, 't) PriorityQueue \<Rightarrow> nat \<Rightarrow> 't" where
  "time_at q i = pq_time q (elem_at q i)"

definition heap_elems :: "nat \<Rightarrow> ('e, 't) PriorityQueue \<Rightarrow> 'e list" where
  "heap_elems n q = map (elem_at q) [0..<n]"

definition same_frame :: "('e, 't) PriorityQueue \<Rightarrow> ('e, 't) PriorityQueue \<Rightarrow> bool" where
  "same_frame q q' \<longleftrightarrow> pq_time q' = pq_time q \<and> heap_size q' = heap_size q \<and> max_heap_size q' = max_heap_size q
     \<and> peak_heap_size q' = peak_heap_size q \<and> length (heap q') = length (heap q)"

lemma same_frame_refl [simp]: "same_frame q q"
  by (simp add: same_frame_def)

lemma same_frame_trans: "same_frame q q' \<Longrightarrow> same_frame q' q'' \<Longrightarrow> same_frame q q''"
  by (simp add: same_frame_def)

lemma cells_okD:
  assumes "cells_ok n q" "i < n"
  shows "i < length (heap q)" "heap q ! i = Some (elem_at q i)" "pq_offset q (elem_at q i) = int i"
  using assms by (auto simp: cells_ok_def elem_at_def)

lemma elem_at_inj: "cells_ok n q \<Longrightarrow> i < n \<Longrightarrow> j < n \<Longrightarrow> elem_at q i = elem_at q j \<longleftrightarrow> i = j"
  by (metis cells_okD(3) of_nat_eq_iff)

lemma arr_get_cell: "cells_ok n q \<Longrightarrow> i < n \<Longrightarrow> arr_get (heap q) i = Ret (elem_at q i)"
  using cells_okD by (metis arr_get_Some)

lemma distinct_heap_elems: "cells_ok n q \<Longrightarrow> distinct (heap_elems n q)"
  by (auto simp: heap_elems_def distinct_map inj_on_def elem_at_inj)

lemma heap_elems_nth [simp]: "i < n \<Longrightarrow> heap_elems n q ! i = elem_at q i" "length (heap_elems n q) = n"
  by (simp_all add: heap_elems_def)

lemma Swap_ok:
  assumes "cells_ok n q" "i < n" "j < n"
  shows "\<exists>q'. Swap i j q = Ret q' \<and> cells_ok n q' \<and> same_frame q q'
    \<and> (\<forall>k < n. elem_at q' k = elem_at q (if k = i then j else if k = j then i else k))
    \<and> mset (heap_elems n q') = mset (heap_elems n q)"
proof -
  note ci = cells_okD [OF assms(1,2)] and cj = cells_okD [OF assms(1,3)]
  define q' where "q' = q\<lparr>heap := (heap q)[i := Some (elem_at q j), j := Some (elem_at q i)],
    pq_offset := (pq_offset q)(elem_at q j := int i, elem_at q i := int j)\<rparr>"
  have run: "Swap i j q = Ret q'"
    using ci cj by (simp add: Swap_def SetElement_def q'_def)
  have cell: "heap q' ! k = Some (elem_at q (if k = i then j else if k = j then i else k))" if "k < n" for k
    using ci(1) cj(1) cells_okD(2) [OF assms(1) that] by (auto simp: q'_def nth_list_update)
  then have el: "elem_at q' k = elem_at q (if k = i then j else if k = j then i else k)" if "k < n" for k
    using that by (simp add: elem_at_def [of q'])
  have off: "pq_offset q' (elem_at q (if k = i then j else if k = j then i else k)) = int k" if "k < n" for k
    using elem_at_inj [OF assms(1) that assms(2)] elem_at_inj [OF assms(1) that assms(3)]
      elem_at_inj [OF assms] cells_okD(3) [OF assms(1) that]
    by (cases "k = i"; cases "k = j") (simp_all add: q'_def)
  have "cells_ok n q'"
    using assms(1) cell off by (auto simp: cells_ok_def q'_def)
  moreover have "heap_elems n q' = (heap_elems n q)[i := heap_elems n q ! j, j := heap_elems n q ! i]"
    using assms el by (intro nth_equalityI) (auto simp: nth_list_update)
  then have "mset (heap_elems n q') = mset (heap_elems n q)"
    using assms mset_swap [of j "heap_elems n q" i] by simp
  moreover have "same_frame q q'" by (simp add: same_frame_def q'_def)
  ultimately show ?thesis using run el by blast
qed

section \<open>Restoring the heap order\<close>

definition heap_ok :: "nat \<Rightarrow> ('e, 't::linorder) PriorityQueue \<Rightarrow> bool" where
  "heap_ok n q \<longleftrightarrow> (\<forall>j. 0 < j \<and> j < n \<longrightarrow> time_at q (j div 2) \<le> time_at q j)"

text \<open>Heap order with an exception: the edge above cell \<open>i\<close>, or those below it.\<close>

definition up_ok :: "nat \<Rightarrow> nat \<Rightarrow> ('e, 't::linorder) PriorityQueue \<Rightarrow> bool" where
  "up_ok n i q \<longleftrightarrow>
     (\<forall>j. 0 < j \<and> j < n \<and> j \<noteq> i \<longrightarrow> time_at q (j div 2) \<le> time_at q j)
     \<and> (\<forall>j. 0 < i \<and> 0 < j \<and> j < n \<and> j div 2 = i \<longrightarrow> time_at q (i div 2) \<le> time_at q j)"

definition down_ok :: "nat \<Rightarrow> nat \<Rightarrow> ('e, 't::linorder) PriorityQueue \<Rightarrow> bool" where
  "down_ok n i q \<longleftrightarrow>
     (\<forall>j. 0 < j \<and> j < n \<and> j div 2 \<noteq> i \<longrightarrow> time_at q (j div 2) \<le> time_at q j)
     \<and> (\<forall>j. 0 < i \<and> 0 < j \<and> j < n \<and> j div 2 = i \<longrightarrow> time_at q (i div 2) \<le> time_at q j)"

lemma heap_root_least: "heap_ok n q \<Longrightarrow> i < n \<Longrightarrow> time_at q 0 \<le> time_at q i"
proof (induction i rule: less_induct)
  case (less i)
  show ?case
  proof (cases "i = 0")
    case False
    then have "time_at q 0 \<le> time_at q (i div 2)" using less by simp
    also have "\<dots> \<le> time_at q i" using less False by (simp add: heap_ok_def)
    finally show ?thesis .
  qed simp
qed

lemma swap_times:
  assumes "\<forall>k < n. elem_at q' k = elem_at q (if k = i then j else if k = j then i else k)" "same_frame q q'"
  shows "k < n \<Longrightarrow> time_at q' k = time_at q (if k = i then j else if k = j then i else k)"
  using assms by (simp add: time_at_def same_frame_def)

lemma up_step:
  assumes "up_ok n i q" "0 < i" "i < n" "time_at q (i div 2) > time_at q i"
    and t: "\<And>k. k < n \<Longrightarrow> time_at q' k = time_at q (if k = i div 2 then i else if k = i then i div 2 else k)"
  shows "up_ok n (i div 2) q'"
proof -
  have edge: "time_at q (j div 2) \<le> time_at q j" if "0 < j" "j < n" "j \<noteq> i" for j
    using assms(1) that by (simp add: up_ok_def)
  have below: "time_at q (i div 2) \<le> time_at q j" if "0 < j" "j < n" "j div 2 = i" for j
    using assms(1,2) that by (simp add: up_ok_def)
  have p: "i div 2 < i" using assms(2) by simp
  have tp: "time_at q' (i div 2) = time_at q i" "time_at q' i = time_at q (i div 2)"
    using t [of "i div 2"] t [of i] p assms(3) by auto
  have "time_at q' (j div 2) \<le> time_at q' j" if j: "0 < j" "j < n" "j \<noteq> i div 2" for j
  proof -
    have half: "j div 2 < n" using j by simp
    consider "j = i" | "j \<noteq> i" "j div 2 = i" | "j \<noteq> i" "j div 2 = i div 2"
      | "j \<noteq> i" "j div 2 \<noteq> i" "j div 2 \<noteq> i div 2" by blast
    then show ?thesis
    proof cases
      case 1
      then show ?thesis using assms(4) tp by simp
    next
      case 2
      then show ?thesis using below [of j] j tp t [of j] by simp
    next
      case 3
      then have "time_at q (i div 2) \<le> time_at q j" using edge [of j] j by simp
      then show ?thesis using 3 tp t [of j] j assms(4) by simp
    next
      case 4
      then show ?thesis using edge [of j] t [of j] t [of "j div 2"] j half by simp
    qed
  qed
  moreover have "time_at q' (i div 2 div 2) \<le> time_at q' j"
    if j: "0 < i div 2" "0 < j" "j < n" "j div 2 = i div 2" for j
  proof -
    have up: "time_at q (i div 2 div 2) \<le> time_at q (i div 2)"
      using edge [of "i div 2"] j p assms(3) by simp
    have "i div 2 div 2 \<noteq> i" "i div 2 div 2 \<noteq> i div 2" "i div 2 div 2 < n" using j p assms(3) by auto
    then have "time_at q' (i div 2 div 2) = time_at q (i div 2 div 2)" using t by simp
    moreover have "time_at q (i div 2) \<le> time_at q' j"
    proof (cases "j = i")
      case False
      moreover from False have "time_at q (i div 2) \<le> time_at q j" using edge [of j] j by simp
      moreover have "j \<noteq> i div 2" using j by auto
      ultimately show ?thesis using t [of j] j by simp
    qed (simp add: tp)
    ultimately show ?thesis using up by simp
  qed
  ultimately show ?thesis by (simp add: up_ok_def)
qed

lemma up_ok_heap_ok:
  "up_ok n i q \<Longrightarrow> i = 0 \<or> time_at q (i div 2) \<le> time_at q i \<Longrightarrow> heap_ok n q"
  by (auto simp: up_ok_def heap_ok_def)

lemma BubbleUp_ok:
  assumes "cells_ok n q" "i < n" "up_ok n i q"
  shows "\<exists>q'. BubbleUp i q = Ret q' \<and> cells_ok n q' \<and> same_frame q q' \<and> heap_ok n q'
    \<and> mset (heap_elems n q') = mset (heap_elems n q)"
  using assms
proof (induction i arbitrary: q rule: less_induct)
  case (less i)
  show ?case
  proof (cases "i = 0 \<or> time_at q (i div 2) \<le> time_at q i")
    case True
    then have "BubbleUp i q = Ret q"
      using less.prems arr_get_cell [OF less.prems(1)]
      by (subst BubbleUp.simps) (auto simp: Parent_def time_at_def)
    then show ?thesis using up_ok_heap_ok [OF less.prems(3) True] less.prems by simp
  next
    case False
    then have i: "0 < i" "i div 2 < i" "i div 2 < n" using less.prems by auto
    from Swap_ok [OF less.prems(1) i(3) less.prems(2)] obtain q1 where
      q1: "Swap (i div 2) i q = Ret q1" "cells_ok n q1" "same_frame q q1"
      "\<forall>k < n. elem_at q1 k = elem_at q (if k = i div 2 then i else if k = i then i div 2 else k)"
      "mset (heap_elems n q1) = mset (heap_elems n q)" by blast
    have "up_ok n (i div 2) q1"
      by (rule up_step [OF less.prems(3) i(1) less.prems(2) _ swap_times [OF q1(4,3)]]) (use False in auto)
    from less.IH [OF i(2) q1(2) i(3) this] obtain q' where
      q': "BubbleUp (i div 2) q1 = Ret q'" "cells_ok n q'" "same_frame q1 q'" "heap_ok n q'"
      "mset (heap_elems n q') = mset (heap_elems n q1)" by blast
    have "BubbleUp i q = BubbleUp (i div 2) q1"
      using False i q1(1) arr_get_cell [OF less.prems(1)] less.prems
      by (subst BubbleUp.simps) (auto simp: Parent_def time_at_def)
    then show ?thesis using q' q1 same_frame_trans by fastforce
  qed
qed

lemma down_step:
  assumes "down_ok n i q" "i < n" "c < n" "0 < c" "c div 2 = i" "time_at q c < time_at q i"
    and least: "\<And>j. 0 < j \<Longrightarrow> j < n \<Longrightarrow> j div 2 = i \<Longrightarrow> time_at q c \<le> time_at q j"
    and t: "\<And>k. k < n \<Longrightarrow> time_at q' k = time_at q (if k = c then i else if k = i then c else k)"
  shows "down_ok n c q'"
proof -
  have edge: "time_at q (j div 2) \<le> time_at q j" if "0 < j" "j < n" "j div 2 \<noteq> i" for j
    using assms(1) that by (simp add: down_ok_def)
  have below: "time_at q (i div 2) \<le> time_at q j" if "0 < i" "0 < j" "j < n" "j div 2 = i" for j
    using assms(1) that by (simp add: down_ok_def)
  have ic: "i < c" "i \<noteq> c" using assms(4,5) by auto
  have ti: "time_at q' i = time_at q c" "time_at q' c = time_at q i"
    using t [of i] t [of c] assms(2,3) ic by auto
  have "time_at q' (j div 2) \<le> time_at q' j" if j: "0 < j" "j < n" "j div 2 \<noteq> c" for j
  proof -
    have half: "j div 2 < n" using j by simp
    consider "j = c" | "j \<noteq> c" "j div 2 = i" | "j = i" "j div 2 \<noteq> i" | "j \<noteq> c" "j \<noteq> i" "j div 2 \<noteq> i"
      by blast
    then show ?thesis
    proof cases
      case 1
      then show ?thesis using ti assms(5,6) by simp
    next
      case 2
      moreover from 2 have "j \<noteq> i" using j by auto
      ultimately show ?thesis using least [of j] ti t [of j] j by simp
    next
      case 3
      then have "time_at q (i div 2) \<le> time_at q c" using below [of c] j assms(3-5) by simp
      moreover have "i div 2 \<noteq> c" "i div 2 \<noteq> i" using 3 j ic by auto
      ultimately show ?thesis using 3 ti t [of "i div 2"] half by simp
    next
      case 4
      then show ?thesis using edge [of j] t [of j] t [of "j div 2"] j half by simp
    qed
  qed
  moreover have "time_at q' (c div 2) \<le> time_at q' j" if j: "0 < j" "j < n" "j div 2 = c" for j
  proof -
    have "time_at q c \<le> time_at q j" using edge [of j] j ic by simp
    moreover have "j \<noteq> c" "j \<noteq> i" using j ic assms(5) by auto
    ultimately show ?thesis using t [of j] j ti assms(5) by simp
  qed
  ultimately show ?thesis by (simp add: down_ok_def)
qed

lemma down_ok_heap_ok:
  "down_ok n i q \<Longrightarrow> (\<And>j. 0 < j \<Longrightarrow> j < n \<Longrightarrow> j div 2 = i \<Longrightarrow> time_at q i \<le> time_at q j) \<Longrightarrow> heap_ok n q"
  by (auto simp: down_ok_def heap_ok_def)

lemma half_eq: "j div 2 = i \<longleftrightarrow> j = i * 2 \<or> j = i * 2 + (1 :: nat)"
  by presburger

text \<open>What a bubbling step has to deliver.\<close>

definition restores :: "nat \<Rightarrow> ('e, 't::linorder) PriorityQueue \<Rightarrow> ('e, 't) PriorityQueue run \<Rightarrow> bool" where
  "restores n q r \<longleftrightarrow> (\<exists>q'. r = Ret q' \<and> cells_ok n q' \<and> same_frame q q' \<and> heap_ok n q'
     \<and> mset (heap_elems n q') = mset (heap_elems n q))"

lemma restores_self: "cells_ok n q \<Longrightarrow> heap_ok n q \<Longrightarrow> restores n q (Ret q)"
  by (simp add: restores_def)

lemma restores_swap:
  assumes "cells_ok n q" "i < n" "c < n" "0 < c" "c div 2 = i" "time_at q c < time_at q i" "down_ok n i q"
    and least: "\<And>j. 0 < j \<Longrightarrow> j < n \<Longrightarrow> j div 2 = i \<Longrightarrow> time_at q c \<le> time_at q j"
    and rest: "\<And>q'. cells_ok n q' \<Longrightarrow> same_frame q q' \<Longrightarrow> down_ok n c q' \<Longrightarrow> restores n q' (k q')"
  shows "restores n q (run_bind (Swap c i q) k)"
proof -
  from Swap_ok [OF assms(1,3,2)] obtain q1 where
    q1: "Swap c i q = Ret q1" "cells_ok n q1" "same_frame q q1"
    "\<forall>k < n. elem_at q1 k = elem_at q (if k = c then i else if k = i then c else k)"
    "mset (heap_elems n q1) = mset (heap_elems n q)" by blast
  have "down_ok n c q1"
    by (rule down_step [OF assms(7,2-6) least swap_times [OF q1(4,3)]])
  from rest [OF q1(2,3) this] q1 show ?thesis
    unfolding restores_def by (auto intro: same_frame_trans)
qed

lemma BubbleDown_ok:
  assumes "cells_ok n q" "heap_size q = n" "i < n" "down_ok n i q"
  shows "restores n q (BubbleDown i q)"
  using assms
proof (induction "n - i" arbitrary: i q rule: less_induct)
  case less
  let ?l = "i * 2" and ?r = "i * 2 + 1"
  note cell = arr_get_cell [OF less.prems(1)]
  have next_down: "restores n q' (BubbleDown c q')"
    if "cells_ok n q'" "same_frame q q'" "down_ok n c q'" "i < c" "c < n" for c q'
    using less.hyps [of c q'] that less.prems by (auto simp: same_frame_def)
  have stay: "restores n q (Ret q)" if "\<And>j. 0 < j \<Longrightarrow> j < n \<Longrightarrow> j div 2 = i \<Longrightarrow> time_at q i \<le> time_at q j"
    using down_ok_heap_ok [OF less.prems(4) that] less.prems(1) by (rule restores_self [rotated])
  have unfold: "BubbleDown i q =
      (if ?l \<ge> n then Ret q
       else if ?r \<ge> n then (if time_at q ?l < time_at q i then Swap ?l i q else Ret q)
       else if time_at q ?l < time_at q ?r then
         (if time_at q ?l < time_at q i then run_bind (Swap ?l i q) (BubbleDown ?l) else Ret q)
       else if time_at q ?r < time_at q i then run_bind (Swap ?r i q) (BubbleDown ?r)
       else Ret q)"
    using cell [OF less.prems(3)] cell [of ?l] cell [of ?r] less.prems(2)
    by (subst BubbleDown.simps) (auto simp: LeftChild_def RightChild_def time_at_def Let_def)
  consider (leaf) "?l \<ge> n" | (single) "?l < n" "?r \<ge> n" | (both) "?r < n" by linarith
  then show ?case
  proof cases
    case leaf
    then show ?thesis using stay by (simp add: unfold half_eq)
  next
    case single
    show ?thesis
    proof (cases "time_at q ?l < time_at q i")
      case True
      then have "0 < i" by (cases i) auto
      have "restores n q (run_bind (Swap ?l i q) Ret)"
      proof (rule restores_swap [OF less.prems(1,3) single(1) _ _ True less.prems(4)])
        fix q' assume q': "cells_ok n q'" "down_ok n ?l q'"
        have "heap_ok n q'"
          by (rule down_ok_heap_ok [OF q'(2)]) (use single \<open>0 < i\<close> in \<open>auto simp: half_eq\<close>)
        with q'(1) show "restores n q' (Ret q')" by (rule restores_self)
      qed (use single \<open>0 < i\<close> in \<open>auto simp: half_eq\<close>)
      then show ?thesis using single True by (cases "Swap ?l i q") (simp_all add: unfold)
    next
      case False
      then show ?thesis using single stay by (simp add: unfold half_eq)
    qed
  next
    case both
    consider (left) "time_at q ?l < time_at q ?r" "time_at q ?l < time_at q i"
      | (right) "\<not> time_at q ?l < time_at q ?r" "time_at q ?r < time_at q i"
      | (none) "time_at q i \<le> time_at q ?l" "time_at q i \<le> time_at q ?r" by fastforce
    then show ?thesis
    proof cases
      case left
      then have "0 < i" by (cases i) auto
      have "restores n q (run_bind (Swap ?l i q) (BubbleDown ?l))"
        by (rule restores_swap [OF less.prems(1,3) _ _ _ left(2) less.prems(4)])
          (use left both \<open>0 < i\<close> in \<open>auto simp: half_eq intro!: next_down\<close>)
      then show ?thesis using left both by (simp add: unfold)
    next
      case right
      have "restores n q (run_bind (Swap ?r i q) (BubbleDown ?r))"
        by (rule restores_swap [OF less.prems(1,3) _ _ _ right(2) less.prems(4)])
          (use right both in \<open>auto simp: half_eq intro!: next_down\<close>)
      then show ?thesis using right both by (simp add: unfold)
    next
      case none
      then show ?thesis using both stay by (auto simp: unfold half_eq)
    qed
  qed
qed

section \<open>The contract of a priority queue\<close>

locale priority_queue =
  fixes inv :: "'q \<Rightarrow> bool" and elems :: "'q \<Rightarrow> 'e multiset" and prio :: "'q \<Rightarrow> 'e \<Rightarrow> 't::linorder"
    and add :: "'e \<Rightarrow> 'q \<Rightarrow> (nat \<times> 'q) run" and remove :: "'q \<Rightarrow> ('e option \<times> 'q) run"
  assumes add_law: "inv q \<Longrightarrow> e \<notin># elems q \<Longrightarrow>
      \<exists>q'. add e q = Ret (1, q') \<and> inv q' \<and> elems q' = add_mset e (elems q) \<and> prio q' = prio q"
    and remove_empty: "inv q \<Longrightarrow> elems q = {#} \<Longrightarrow> remove q = Ret (None, q)"
    and remove_law: "inv q \<Longrightarrow> elems q \<noteq> {#} \<Longrightarrow>
      \<exists>e q'. remove q = Ret (Some e, q') \<and> inv q' \<and> e \<in># elems q \<and> (\<forall>x \<in># elems q. prio q e \<le> prio q x)
        \<and> elems q' = elems q - {#e#} \<and> prio q' = prio q"

text \<open>Adding the elements of a list, and removing until the queue is empty.\<close>

fun add_all :: "('e \<Rightarrow> 'q \<Rightarrow> (nat \<times> 'q) run) \<Rightarrow> 'e list \<Rightarrow> 'q \<Rightarrow> 'q run" where
  "add_all add [] q = Ret q"
| "add_all add (e # es) q = run_bind (add e q) (\<lambda>(_, q). add_all add es q)"

fun remove_n :: "('q \<Rightarrow> ('e option \<times> 'q) run) \<Rightarrow> nat \<Rightarrow> 'q \<Rightarrow> 'e option list run" where
  "remove_n remove 0 q = Ret []"
| "remove_n remove (Suc n) q = run_bind (remove q) (\<lambda>(e, q).
     run_bind (remove_n remove n q) (\<lambda>es. Ret (e # es)))"

context priority_queue
begin

lemma add_all_ok:
  "inv q \<Longrightarrow> distinct es \<Longrightarrow> (\<forall>e \<in> set es. e \<notin># elems q) \<Longrightarrow>
   \<exists>q'. add_all add es q = Ret q' \<and> inv q' \<and> elems q' = mset es + elems q \<and> prio q' = prio q"
proof (induction es arbitrary: q)
  case Nil
  then show ?case by simp
next
  case (Cons e es)
  from Cons.prems add_law [of q e] obtain q1 where
    "add e q = Ret (1, q1)" "inv q1" "elems q1 = add_mset e (elems q)" "prio q1 = prio q" by auto
  moreover from this Cons.IH [of q1] Cons.prems obtain q' where
    "add_all add es q1 = Ret q'" "inv q'" "elems q' = mset es + elems q1" "prio q' = prio q1" by auto
  ultimately show ?case by auto
qed

lemma remove_n_sorted:
  "inv q \<Longrightarrow> \<exists>es. remove_n remove (size (elems q)) q = Ret (map Some es) \<and> mset es = elems q
     \<and> sorted (map (prio q) es)"
proof (induction "size (elems q)" arbitrary: q)
  case 0
  then show ?case by (intro exI [of _ "[]"]) simp
next
  case (Suc n)
  then have "elems q \<noteq> {#}" by auto
  from remove_law [OF Suc.prems this] obtain e q1 where
    q1: "remove q = Ret (Some e, q1)" "inv q1" "e \<in># elems q" "\<forall>x \<in># elems q. prio q e \<le> prio q x"
    "elems q1 = elems q - {#e#}" "prio q1 = prio q" by blast
  then have n: "n = size (elems q1)" using Suc.hyps(2) by (simp add: size_Diff_singleton)
  from Suc.hyps(1) [OF n q1(2)] obtain es where
    es: "remove_n remove (size (elems q1)) q1 = Ret (map Some es)" "mset es = elems q1"
    "sorted (map (prio q1) es)" by blast
  have "\<forall>x \<in> set es. prio q e \<le> prio q x"
    using q1(4,5) es(2) by (metis in_diffD set_mset_mset)
  with es q1 have "sorted (map (prio q) (e # es))" by simp
  moreover have "remove_n remove (size (elems q)) q = Ret (map Some (e # es))"
    using es(1) q1(1) n by (simp flip: Suc.hyps(2))
  moreover have "mset (e # es) = elems q" using es(2) q1(3,5) by simp
  ultimately show ?case by blast
qed

lemma add_all_remove_sorted:
  assumes "inv q" "elems q = {#}" "distinct es"
  shows "\<exists>q' out. add_all add es q = Ret q' \<and> remove_n remove (length es) q' = Ret (map Some out)
    \<and> mset out = mset es \<and> sorted (map (prio q) out)"
proof -
  from add_all_ok [OF assms(1,3)] assms(2) obtain q' where
    q': "add_all add es q = Ret q'" "inv q'" "elems q' = mset es" "prio q' = prio q" by auto
  from remove_n_sorted [OF q'(2)] show ?thesis unfolding q'(3,4) using q'(1) by auto
qed

end

section \<open>The heap as a priority queue\<close>

definition pq_inv :: "('e, 't::linorder) PriorityQueue \<Rightarrow> bool" where
  "pq_inv q \<longleftrightarrow> cells_ok (heap_size q) q \<and> heap_ok (heap_size q) q \<and> length (heap q) = max_heap_size q
     \<and> heap_size q < max_heap_size q"

definition pq_elems :: "('e, 't) PriorityQueue \<Rightarrow> 'e multiset" where
  "pq_elems q = mset (heap_elems (heap_size q) q)"

lemma new_pq_inv: "0 < n \<Longrightarrow> pq_inv (new_PriorityQueue n tm off)" "pq_elems (new_PriorityQueue n tm off) = {#}"
  by (simp_all add: pq_inv_def pq_elems_def new_PriorityQueue_def cells_ok_def heap_ok_def heap_elems_def)

lemma heap_ok_cong:
  assumes "heap_ok n q" "\<And>k. k < n \<Longrightarrow> time_at q' k = time_at q k"
  shows "heap_ok n q'"
  unfolding heap_ok_def
proof (intro allI impI)
  fix j assume j: "0 < j \<and> j < n"
  then have "j div 2 < n" by linarith
  with j assms show "time_at q' (j div 2) \<le> time_at q' j" by (simp add: heap_ok_def)
qed

lemma Resize_ok:
  assumes "cells_ok n q" "heap_ok n q" "length (heap q) = max_heap_size q" "max_heap_size q \<le> m"
  shows "\<exists>q'. pq_Resize m q = Ret (1, q') \<and> cells_ok n q' \<and> heap_ok n q' \<and> length (heap q') = max_heap_size q'
    \<and> max_heap_size q' = m \<and> heap_elems n q' = heap_elems n q \<and> pq_time q' = pq_time q \<and> heap_size q' = heap_size q"
proof -
  define q' where "q' = q\<lparr>heap := heap q @ replicate (m - max_heap_size q) None, max_heap_size := m\<rparr>"
  have run: "pq_Resize m q = Ret (1, q')"
    using assms(3,4) by (simp add: pq_Resize_def q'_def)
  have el: "elem_at q' k = elem_at q k" if "k < n" for k
    using that assms(1) by (simp add: elem_at_def q'_def nth_append cells_ok_def)
  have "cells_ok n q'" using assms(1) by (auto simp: cells_ok_def q'_def nth_append)
  moreover have "heap_ok n q'"
    by (rule heap_ok_cong [OF assms(2)]) (simp add: time_at_def el, simp add: q'_def)
  moreover have "heap_elems n q' = heap_elems n q" using el by (simp add: heap_elems_def)
  ultimately show ?thesis using run assms(3,4) by (simp add: q'_def)
qed

lemma Add_ok:
  assumes "pq_inv q" "e \<notin># pq_elems q"
  shows "\<exists>q'. Add e q = Ret (1, q') \<and> pq_inv q' \<and> pq_elems q' = add_mset e (pq_elems q) \<and> pq_time q' = pq_time q"
proof -
  define n where "n = heap_size q"
  note inv = assms(1) [unfolded pq_inv_def, folded n_def]
  define q1 where "q1 = q\<lparr>heap := (heap q)[n := Some e], pq_offset := (pq_offset q)(e := int n)\<rparr>"
  have set1: "SetElement n e q = Ret q1" using inv by (simp add: SetElement_def q1_def)
  have fresh: "elem_at q k \<noteq> e" if "k < n" for k
    using assms(2) that by (auto simp: pq_elems_def heap_elems_def n_def)
  have el: "elem_at q1 k = (if k = n then e else elem_at q k)" if "k \<le> n" for k
    using that inv by (auto simp: elem_at_def q1_def nth_list_update)
  have cells1: "cells_ok (Suc n) q1"
    unfolding cells_ok_def
  proof (intro conjI allI impI)
    fix k assume "k < Suc n"
    then consider "k = n" | "k < n" by linarith
    then show "\<exists>e'. heap q1 ! k = Some e' \<and> pq_offset q1 e' = int k"
    proof cases
      case 2
      then show ?thesis using cells_okD [of n q k] inv fresh [of k] by (simp add: q1_def)
    qed (use inv in \<open>simp add: q1_def\<close>)
  qed (use inv in \<open>simp add: q1_def\<close>)
  have time1: "time_at q1 k = time_at q k" if "k < n" for k
    using el [of k] that by (simp add: time_at_def q1_def)
  have "up_ok (Suc n) n q1"
    unfolding up_ok_def
  proof (intro conjI allI impI)
    fix j assume j: "0 < j \<and> j < Suc n \<and> j \<noteq> n"
    then have "j < n" "j div 2 < n" by auto
    with j inv show "time_at q1 (j div 2) \<le> time_at q1 j" by (simp add: time1 heap_ok_def)
  qed (auto simp: half_eq)
  with BubbleUp_ok [OF cells1] obtain q2 where
    q2: "BubbleUp n q1 = Ret q2" "cells_ok (Suc n) q2" "same_frame q1 q2" "heap_ok (Suc n) q2"
    "mset (heap_elems (Suc n) q2) = mset (heap_elems (Suc n) q1)" by blast
  have els: "mset (heap_elems (Suc n) q1) = add_mset e (pq_elems q)"
  proof -
    have "heap_elems (Suc n) q1 = heap_elems n q @ [e]"
      by (rule nth_equalityI) (simp_all add: el nth_append)
    then show ?thesis by (simp add: pq_elems_def n_def)
  qed
  define q3 where "q3 = (let q = q2\<lparr>heap_size := heap_size q2 + 1\<rparr> in
    if heap_size q > peak_heap_size q then q\<lparr>peak_heap_size := heap_size q\<rparr> else q)"
  have frame3: "heap q3 = heap q2" "pq_offset q3 = pq_offset q2" "pq_time q3 = pq_time q"
    "max_heap_size q3 = max_heap_size q" "heap_size q3 = Suc n" "length (heap q2) = max_heap_size q"
    using q2(3) inv by (auto simp: q3_def Let_def same_frame_def q1_def n_def)
  have same3: "cells_ok (Suc n) q3" "heap_ok (Suc n) q3" "heap_elems (Suc n) q3 = heap_elems (Suc n) q2"
    using q2(2-4) frame3
    by (simp_all add: cells_ok_def heap_ok_def time_at_def elem_at_def heap_elems_def same_frame_def q1_def)
  have run: "Add e q = (if heap_size q3 \<ge> max_heap_size q3 then pq_Resize (max_heap_size q3 * 2) q3 else Ret (1, q3))"
    using q2(1) by (simp add: Add_def set1 n_def [symmetric] q3_def Let_def)
      (simp add: q1_def n_def [symmetric])
  show ?thesis
  proof (cases "heap_size q3 \<ge> max_heap_size q3")
    case True
    from Resize_ok [OF same3(1,2), of "max_heap_size q3 * 2"] frame3 obtain q4 where
      "pq_Resize (max_heap_size q3 * 2) q3 = Ret (1, q4)" "cells_ok (Suc n) q4" "heap_ok (Suc n) q4"
      "length (heap q4) = max_heap_size q4" "max_heap_size q4 = max_heap_size q3 * 2"
      "heap_elems (Suc n) q4 = heap_elems (Suc n) q3" "pq_time q4 = pq_time q3" "heap_size q4 = heap_size q3"
      by auto
    with True run frame3 same3 q2(5) els inv show ?thesis
      by (simp add: pq_inv_def pq_elems_def)
  next
    case False
    with run frame3 same3 q2(5) els show ?thesis by (simp add: pq_inv_def pq_elems_def)
  qed
qed

lemma Remove_ok:
  assumes "pq_inv q" "heap_size q \<noteq> 0"
  shows "\<exists>q'. Remove q = Ret (Some (elem_at q 0), q') \<and> pq_inv q'
    \<and> pq_elems q' = pq_elems q - {#elem_at q 0#} \<and> pq_time q' = pq_time q"
proof -
  obtain m where m: "heap_size q = Suc m" using assms(2) by (cases "heap_size q") auto
  note inv = assms(1) [unfolded pq_inv_def m]
  let ?top = "elem_at q 0" and ?lst = "elem_at q m"
  define q2 where "q2 = q\<lparr>heap_size := m, heap := (heap q)[0 := Some ?lst], pq_offset := (pq_offset q)(?lst := 0)\<rparr>"
  have frame2: "heap_size q2 = m" "pq_time q2 = pq_time q" "length (heap q2) = max_heap_size q2"
    "max_heap_size q2 = max_heap_size q" using inv by (simp_all add: q2_def)
  have el: "elem_at q2 k = (if k = 0 then ?lst else elem_at q k)" if "k < Suc m" for k
    using inv by (auto simp: elem_at_def q2_def nth_list_update)
  have cells: "cells_ok m q2"
    unfolding cells_ok_def
  proof (intro conjI allI impI)
    show "m \<le> length (heap q2)" using inv by (simp add: q2_def)
    fix k assume k: "k < m"
    show "\<exists>e. heap q2 ! k = Some e \<and> pq_offset q2 e = int k"
    proof (cases "k = 0")
      case False
      then show ?thesis
        using cells_okD [of "Suc m" q k] elem_at_inj [of "Suc m" q k m] inv k by (simp add: q2_def)
    qed (use inv in \<open>simp add: q2_def\<close>)
  qed
  have mset2: "mset (heap_elems m q2) = pq_elems q - {#?top#}"
  proof (cases m)
    case 0
    then show ?thesis by (simp add: pq_elems_def m heap_elems_def)
  next
    case (Suc j)
    have "[0..<m] = 0 # [1..<m]" using Suc by (simp add: upt_rec)
    then have "heap_elems m q2 = ?lst # map (elem_at q) [1..<m]"
      using el [of 0] el by (auto simp: heap_elems_def intro!: map_cong)
    moreover have "[0..<Suc m] = 0 # [1..<m] @ [m]" using Suc by (simp add: upt_rec [of 0])
    then have "heap_elems (Suc m) q = ?top # map (elem_at q) [1..<m] @ [?lst]"
      by (simp add: heap_elems_def)
    ultimately show ?thesis by (simp add: pq_elems_def m)
  qed
  have "restores m q2 (BubbleDown 0 q2)"
  proof (cases "m = 0")
    case True
    have "BubbleDown 0 q2 = Ret q2"
      using True inv by (subst BubbleDown.simps) (simp add: LeftChild_def frame2 q2_def arr_get_def)
    then show ?thesis using True cells by (auto intro!: restores_self simp: heap_ok_def)
  next
    case False
    have "time_at q2 (j div 2) \<le> time_at q2 j" if "0 < j" "j < m" "j div 2 \<noteq> 0" for j
      using inv that el [of j] el [of "j div 2"] by (auto simp: time_at_def heap_ok_def frame2)
    then show ?thesis using False cells frame2 by (intro BubbleDown_ok) (auto simp: down_ok_def)
  qed
  then obtain q3 where q3: "BubbleDown 0 q2 = Ret q3" "cells_ok m q3" "same_frame q2 q3" "heap_ok m q3"
    "mset (heap_elems m q3) = mset (heap_elems m q2)" unfolding restores_def by blast
  define q' where "q' = q3\<lparr>pq_offset := (pq_offset q3)(?top := -1)\<rparr>"
  have gone: "elem_at q3 k \<noteq> ?top" if "k < m" for k
  proof -
    have "?top \<notin># pq_elems q - {#?top#}"
      using distinct_heap_elems [of "Suc m" q] inv
      by (auto simp: pq_elems_def m distinct_count_atmost_1 simp flip: count_greater_zero_iff
          split: if_splits)
    moreover have "elem_at q3 k \<in># mset (heap_elems m q3)" using that by (simp add: heap_elems_def)
    ultimately show ?thesis using q3(5) mset2 by auto
  qed
  have sel: "heap q' = heap q3" "pq_time q' = pq_time q3" by (simp_all add: q'_def)
  have "cells_ok m q'"
    unfolding cells_ok_def
  proof (intro conjI allI impI)
    fix k assume k: "k < m"
    then show "\<exists>e. heap q' ! k = Some e \<and> pq_offset q' e = int k"
      using cells_okD [OF q3(2) k] gone [OF k] by (simp add: q'_def)
  qed (use q3(2) in \<open>simp add: cells_ok_def q'_def\<close>)
  moreover have "heap_ok m q'" "heap_elems m q' = heap_elems m q3"
    using q3(4) sel by (simp_all add: heap_ok_def time_at_def elem_at_def heap_elems_def)
  moreover have "Remove q = Ret (Some ?top, q')"
    using q3(1) inv arr_get_cell [of "Suc m" q 0] arr_get_cell [of "Suc m" q m]
    by (simp add: Remove_def m SetElement_def q2_def q'_def)
  ultimately show ?thesis
    using q3(3,5) mset2 frame2 inv by (auto simp: pq_inv_def pq_elems_def same_frame_def q'_def)
qed

lemma top_least: "pq_inv q \<Longrightarrow> x \<in># pq_elems q \<Longrightarrow> pq_time q (elem_at q 0) \<le> pq_time q x"
  using heap_root_least [of "heap_size q" q]
  by (auto simp: pq_elems_def pq_inv_def heap_elems_def time_at_def)

interpretation heap: priority_queue pq_inv pq_elems pq_time Add Remove
proof
  fix q :: "('a, 'b::linorder) PriorityQueue" and e :: 'a
  show "\<exists>q'. Add e q = Ret (1, q') \<and> pq_inv q' \<and> pq_elems q' = add_mset e (pq_elems q) \<and> pq_time q' = pq_time q"
    if "pq_inv q" "e \<notin># pq_elems q" using that by (rule Add_ok)
  show "Remove q = Ret (None, q)" if "pq_elems q = {#}"
    using that by (auto simp: Remove_def pq_elems_def heap_elems_def mset_set_empty_iff)
  assume q: "pq_inv q" "pq_elems q \<noteq> {#}"
  then have ne: "heap_size q \<noteq> 0" by (auto simp: pq_elems_def heap_elems_def)
  moreover have "elem_at q 0 \<in># pq_elems q" using ne by (simp add: pq_elems_def heap_elems_def)
  ultimately show "\<exists>e q'. Remove q = Ret (Some e, q') \<and> pq_inv q' \<and> e \<in># pq_elems q
    \<and> (\<forall>x \<in># pq_elems q. pq_time q e \<le> pq_time q x) \<and> pq_elems q' = pq_elems q - {#e#} \<and> pq_time q' = pq_time q"
    using Remove_ok [OF q(1) ne] top_least [OF q(1)] by blast
qed

text \<open>C27. The timer queue sorts: adding distinct elements in any order to a new queue and removing
  them again returns exactly these elements in the order of their times, for every initial
  size of at least one cell, without any access outside the array.\<close>

theorem priority_queue_sorts:
  assumes "0 < n" "distinct es"
  shows "\<exists>q out. add_all Add es (new_PriorityQueue n tm off) = Ret q
    \<and> remove_n Remove (length es) q = Ret (map Some out) \<and> mset out = mset es \<and> sorted (map tm out)"
proof -
  have "pq_time (new_PriorityQueue n tm off) = tm" by (simp add: new_PriorityQueue_def)
  with heap.add_all_remove_sorted [OF new_pq_inv(1) new_pq_inv(2) assms(2), OF assms(1), of tm off]
  show ?thesis by auto
qed

lemma length_4: "length [a, b, c, d] = 4"
  by simp

theorem priority_queue_sorts_witness:
  "\<exists>q out. add_all Add [5, 3, 9, 1] (new_PriorityQueue 1 (\<lambda>e :: nat. 10 - e) (\<lambda>_. -1)) = Ret q
    \<and> remove_n Remove 4 q = Ret (map Some out) \<and> mset out = mset [5, 3, 9, 1]
    \<and> sorted (map (\<lambda>e. 10 - e) out)"
  using priority_queue_sorts [of 1 "[5, 3, 9, 1]" "\<lambda>e :: nat. 10 - e" "\<lambda>_. -1"]
  by (simp only: length_4) simp

lemma Remove_element_ok:
  fixes q :: "('e, 't::{linorder,order_bot}) PriorityQueue"
  assumes "pq_inv q" "\<forall>x \<in># pq_elems q. x \<noteq> e \<longrightarrow> pq_time q x \<noteq> bot"
  shows "if e \<in># pq_elems q
    then \<exists>q'. Remove_element e q = Ret (Some e, q') \<and> pq_inv q' \<and> pq_elems q' = pq_elems q - {#e#}
           \<and> pq_time q' = (pq_time q)(e := bot)
    else Remove_element e q = Ret (None, q)"
proof (cases "e \<in># pq_elems q")
  case False
  have "Remove_element e q = Ret (None, q)"
  proof (cases "pq_offset q e < 0 \<or> pq_offset q e \<ge> int (heap_size q)")
    case off: False
    then have lt: "nat (pq_offset q e) < heap_size q" by linarith
    with False have "elem_at q (nat (pq_offset q e)) \<noteq> e"
      by (simp add: pq_elems_def heap_elems_def image_iff) (metis atLeastLessThan_iff zero_le)
    with off arr_get_cell [of "heap_size q" q, OF _ lt] assms(1) show ?thesis
      by (simp add: Remove_element_def pq_inv_def)
  qed (simp add: Remove_element_def)
  with False show ?thesis by simp
next
  case True
  define n where "n = heap_size q"
  note inv = assms(1) [unfolded pq_inv_def, folded n_def]
  from True obtain i where i: "i < n" "elem_at q i = e" by (auto simp: pq_elems_def heap_elems_def n_def)
  then have off: "pq_offset q e = int i" using cells_okD(3) inv by blast
  define q1 where "q1 = q\<lparr>pq_time := (pq_time q)(e := bot)\<rparr>"
  have el1: "elem_at q1 k = elem_at q k" for k by (simp add: q1_def elem_at_def)
  have cells1: "cells_ok n q1" using inv by (simp add: cells_ok_def q1_def)
  have t1: "time_at q1 k = (if k = i then bot else time_at q k)" if "k < n" for k
    using elem_at_inj [of n q k i] inv i that by (simp add: time_at_def el1) (simp add: q1_def)
  have "up_ok n i q1"
    unfolding up_ok_def
  proof (intro conjI allI impI)
    fix j assume j: "0 < j \<and> j < n \<and> j \<noteq> i"
    then have "j div 2 < n" by linarith
    with j inv show "time_at q1 (j div 2) \<le> time_at q1 j" by (simp add: t1 heap_ok_def)
  next
    fix j assume j: "0 < i \<and> 0 < j \<and> j < n \<and> j div 2 = i"
    then have "time_at q (i div 2) \<le> time_at q i" "time_at q i \<le> time_at q j" "i div 2 \<noteq> i" "j \<noteq> i" "i div 2 < n"
      using inv i by (auto simp: heap_ok_def)
    with j show "time_at q1 (i div 2) \<le> time_at q1 j" by (simp add: t1)
  qed
  with BubbleUp_ok [OF cells1 i(1)] obtain q2 where
    q2: "BubbleUp i q1 = Ret q2" "cells_ok n q2" "same_frame q1 q2" "heap_ok n q2"
    "mset (heap_elems n q2) = mset (heap_elems n q1)" by blast
  have frame2: "heap_size q2 = n" "pq_time q2 = (pq_time q)(e := bot)" "max_heap_size q2 = max_heap_size q"
    "length (heap q2) = length (heap q)"
    using q2(3) by (simp_all add: same_frame_def q1_def n_def)
  have els2: "pq_elems q2 = pq_elems q"
  proof -
    have "heap_elems n q1 = heap_elems n q" by (simp add: heap_elems_def el1)
    then show ?thesis using q2(5) frame2 by (simp only: pq_elems_def n_def [symmetric])
  qed
  have inv2: "pq_inv q2" using q2 frame2 inv by (simp add: pq_inv_def)
  have "pq_time q2 (elem_at q2 0) \<le> bot" using top_least [OF inv2, of e] True els2 frame2 by simp
  moreover have "elem_at q2 0 \<in># pq_elems q2" using i frame2 by (simp add: pq_elems_def heap_elems_def)
  ultimately have top: "elem_at q2 0 = e"
    using assms(2) frame2(2) els2 by (auto simp: bot_unique split: if_splits)
  have "heap_size q2 \<noteq> 0" using i frame2 by simp
  from Remove_ok [OF inv2 this] top obtain q' where
    q': "Remove q2 = Ret (Some e, q')" "pq_inv q'" "pq_elems q' = pq_elems q2 - {#e#}" "pq_time q' = pq_time q2"
    by auto
  have "Remove_element e q = Ret (Some e, q')"
    using off i q2(1) q'(1) arr_get_cell [of n q i] inv
    by (simp add: Remove_element_def n_def [symmetric] q1_def)
  with True q' els2 frame2 show ?thesis by simp
qed

text \<open>Removing a given element that is in the queue returns it and takes exactly it out, keeping
  the heap in order, provided no other element has the least time; an element that is not in
  the queue is refused and the queue does not change.  The internal-error path is unreachable.\<close>

theorem remove_element_exact:
  fixes q :: "('e, 't::{linorder,order_bot}) PriorityQueue"
  assumes "pq_inv q" "\<forall>x \<in># pq_elems q. x \<noteq> e \<longrightarrow> pq_time q x \<noteq> bot"
  shows "if e \<in># pq_elems q
    then \<exists>q'. Remove_element e q = Ret (Some e, q') \<and> pq_inv q' \<and> pq_elems q' = pq_elems q - {#e#}
           \<and> pq_time q' = (pq_time q)(e := bot)
    else Remove_element e q = Ret (None, q)"
  using Remove_element_ok [OF assms] .

theorem remove_element_exact_witness:
  "\<exists>q q'. add_all Add [5, 3, 9] (new_PriorityQueue 4 (\<lambda>e :: nat. e) (\<lambda>_. -1)) = Ret q
     \<and> Remove_element 9 q = Ret (Some 9, q') \<and> pq_elems q' = {#5, 3#}"
proof -
  from heap.add_all_ok [OF new_pq_inv(1), of 4 "[5, 3, 9]" "\<lambda>e :: nat. e" "\<lambda>_. -1"] obtain q where
    q: "add_all Add [5, 3, 9] (new_PriorityQueue 4 (\<lambda>e :: nat. e) (\<lambda>_. -1)) = Ret q" "pq_inv q"
    "pq_elems q = mset [5, 3, 9]" "pq_time q = (\<lambda>e. e)"
    by (auto simp: new_pq_inv(2)) (simp add: new_PriorityQueue_def)
  have "\<forall>x \<in># pq_elems q. x \<noteq> 9 \<longrightarrow> pq_time q x \<noteq> bot" using q(3,4) by (simp add: bot_nat_def)
  from remove_element_exact [OF q(2) this] q(1,3) show ?thesis by auto
qed

end
