(* ===== verification/Bro_Timer.thy ===== *)
theory Bro_Timer
  imports Bro_PriorityQueue
begin

text \<open>
  The timer manager, \<^verbatim>\<open>bro-2.1/src/Timer.cc\<close> and \<^verbatim>\<open>Timer.h\<close>: a priority queue of timers, the
  clock and the number of timers of each type.  Dispatching a timer is a virtual function; it is the
  parameter \<open>dispatch\<close>, which may add and cancel timers, with what the rest of Bro keeps in the field
  \<open>tm_ext\<close>.  Advancing the clock runs until no timer is due, which need not happen when a dispatched
  timer adds another one that is due, so the loops are partial: \<open>None\<close> is a loop that does not end.

  The main results: a bounded advance always ends and leaves no due timer unless it reached its
  bound, the counters stay exact, and timers are dispatched in the order of their times.
\<close>

section \<open>Timers\<close>

datatype TimerType =
    TIMER_BACKDOOR | TIMER_BREAKPOINT | TIMER_CONN_DELETE | TIMER_CONN_EXPIRE | TIMER_CONN_INACTIVITY
  | TIMER_CONN_STATUS_UPDATE | TIMER_DNS_EXPIRE | TIMER_FRAG | TIMER_INCREMENTAL_SEND | TIMER_INCREMENTAL_WRITE
  | TIMER_INTERCONN | TIMER_IP_TUNNEL_INACTIVITY | TIMER_NB_EXPIRE | TIMER_NETWORK | TIMER_NTP_EXPIRE
  | TIMER_PROFILE | TIMER_ROTATE | TIMER_REMOVE_CONNECTION | TIMER_RPC_EXPIRE | TIMER_SCHEDULE | TIMER_TABLE_VAL
  | TIMER_TCP_ATTEMPT | TIMER_TCP_DELETE | TIMER_TCP_EXPIRE | TIMER_TCP_PARTIAL_CLOSE | TIMER_TCP_RESET
  | TIMER_TRIGGER | TIMER_TIMERMGR_EXPIRE

record ('e, 't, 'w) TimerMgr =
  tm_q :: "('e, 't) PriorityQueue"
  tm_now :: 't
  last_timestamp :: 't
  last_advance :: 't
  num_expired :: int
  current_timers :: "TimerType \<Rightarrow> u32"
  timer_type :: "'e \<Rightarrow> TimerType"
  freed :: "'e list"
  tm_ext :: 'w

type_synonym ('e, 't, 'w) dispatch = "'e \<Rightarrow> 't \<Rightarrow> int \<Rightarrow> ('e, 't, 'w) TimerMgr \<Rightarrow> ('e, 't, 'w) TimerMgr run"

definition count_timer :: "(u32 \<Rightarrow> u32) \<Rightarrow> 'e \<Rightarrow> ('e, 't, 'w) TimerMgr \<Rightarrow> ('e, 't, 'w) TimerMgr" where
  "count_timer f timer m =
     m\<lparr>current_timers := (current_timers m)(timer_type m timer := f (current_timers m (timer_type m timer)))\<rparr>"

definition delete_timer :: "'e \<Rightarrow> ('e, 't, 'w) TimerMgr \<Rightarrow> ('e, 't, 'w) TimerMgr" where
  "delete_timer timer m = m\<lparr>freed := freed m @ [timer]\<rparr>"

section \<open>Operations\<close>

definition new_PQ_TimerMgr ::
  "('e \<Rightarrow> 't) \<Rightarrow> ('e \<Rightarrow> int) \<Rightarrow> ('e \<Rightarrow> TimerType) \<Rightarrow> 'w \<Rightarrow> ('e, 't::zero, 'w) TimerMgr" where
  "new_PQ_TimerMgr tm off ty x =
     \<lparr>tm_q = new_PriorityQueue 16 tm off, tm_now = 0, last_timestamp = 0, last_advance = 0, num_expired = 0,
      current_timers = (\<lambda>_. 0), timer_type = ty, freed = [], tm_ext = x\<rparr>"

definition Time :: "('e, 't::zero_neq_one, 'w) TimerMgr \<Rightarrow> 't" where
  "Time m = (if tm_now m \<noteq> 0 then tm_now m else 1)"

definition tm_Add :: "'e \<Rightarrow> ('e, 't::linorder, 'w) TimerMgr \<Rightarrow> ('e, 't, 'w) TimerMgr run" where
  "tm_Add timer m =
     run_bind (Add timer (tm_q m)) (\<lambda>(ok, q).
       if ok = 0 then Aborted else Ret (count_timer (\<lambda>n. n + 1) timer (m\<lparr>tm_q := q\<rparr>)))"

text \<open>Cancelling a timer.\<close>

definition tm_Remove :: "'e \<Rightarrow> ('e, 't::{linorder,order_bot}, 'w) TimerMgr \<Rightarrow> ('e, 't, 'w) TimerMgr run" where
  "tm_Remove timer m =
     run_bind (Remove_element timer (tm_q m)) (\<lambda>(e, q).
       if e = None then Aborted
       else Ret (delete_timer timer (count_timer (\<lambda>n. n - 1) timer (m\<lparr>tm_q := q\<rparr>))))"

definition expire_step ::
  "('e, 't, 'w) dispatch \<Rightarrow> 'e \<Rightarrow> ('e, 't, 'w) TimerMgr \<Rightarrow> ('e, 't, 'w) TimerMgr run" where
  "expire_step dispatch timer m =
     run_bind (dispatch timer (tm_now m) 1 m) (\<lambda>m. Ret (delete_timer timer (count_timer (\<lambda>n. n - 1) timer m)))"

partial_function (option) tm_Expire ::
  "('e, 't::linorder, 'w) dispatch \<Rightarrow> ('e, 't, 'w) TimerMgr \<Rightarrow> ('e, 't, 'w) TimerMgr run option" where
  "tm_Expire dispatch m =
     (case Remove (tm_q m) of
        Ret (None, q) \<Rightarrow> Some (Ret (m\<lparr>tm_q := q\<rparr>))
      | Ret (Some timer, q) \<Rightarrow>
          (case expire_step dispatch timer (m\<lparr>tm_q := q\<rparr>) of
             Ret m \<Rightarrow> tm_Expire dispatch m
           | Blocked \<Rightarrow> Some Blocked | Undef \<Rightarrow> Some Undef | Aborted \<Rightarrow> Some Aborted)
      | Blocked \<Rightarrow> Some Blocked | Undef \<Rightarrow> Some Undef | Aborted \<Rightarrow> Some Aborted)"

definition advance_step ::
  "('e, 't::linorder, 'w) dispatch \<Rightarrow> 't \<Rightarrow> 'e \<Rightarrow> ('e, 't, 'w) TimerMgr \<Rightarrow> ('e, 't, 'w) TimerMgr run" where
  "advance_step dispatch new_t timer m =
     (let m = count_timer (\<lambda>n. n - 1) timer (m\<lparr>last_timestamp := pq_time (tm_q m) timer\<rparr>) in
      run_bind (Remove (tm_q m)) (\<lambda>(_, q).
      run_bind (dispatch timer new_t 0 (m\<lparr>tm_q := q\<rparr>)) (\<lambda>m.
        Ret (delete_timer timer m))))"

partial_function (option) advance_loop ::
  "('e, 't::linorder, 'w) dispatch \<Rightarrow> 't \<Rightarrow> int \<Rightarrow> ('e, 't, 'w) TimerMgr \<Rightarrow> ('e, 't, 'w) TimerMgr run option" where
  "advance_loop dispatch new_t max_expire m =
     (case Top (tm_q m) of
        Ret None \<Rightarrow> Some (Ret m)
      | Ret (Some timer) \<Rightarrow>
          if (num_expired m < max_expire \<or> max_expire = 0) \<and> pq_time (tm_q m) timer \<le> new_t then
            (case advance_step dispatch new_t timer m of
               Ret m \<Rightarrow> advance_loop dispatch new_t max_expire (m\<lparr>num_expired := num_expired m + 1\<rparr>)
             | Blocked \<Rightarrow> Some Blocked | Undef \<Rightarrow> Some Undef | Aborted \<Rightarrow> Some Aborted)
          else Some (Ret m)
      | Blocked \<Rightarrow> Some Blocked | Undef \<Rightarrow> Some Undef | Aborted \<Rightarrow> Some Aborted)"

definition DoAdvance ::
  "('e, 't::linorder, 'w) dispatch \<Rightarrow> 't \<Rightarrow> int \<Rightarrow> ('e, 't, 'w) TimerMgr \<Rightarrow> (int \<times> ('e, 't, 'w) TimerMgr) run option" where
  "DoAdvance dispatch new_t max_expire m =
     map_option (\<lambda>r. run_bind r (\<lambda>m. Ret (num_expired m, m)))
       (advance_loop dispatch new_t max_expire (m\<lparr>num_expired := 0\<rparr>))"

text \<open>\<open>global_time\<close> reads the clock of the global manager, which may be this one.\<close>

definition Advance ::
  "(('e, 't, 'w) TimerMgr \<Rightarrow> 't) \<Rightarrow> ('e, 't::{linorder,zero}, 'w) dispatch \<Rightarrow> 't \<Rightarrow> int \<Rightarrow> ('e, 't, 'w) TimerMgr
   \<Rightarrow> (int \<times> ('e, 't, 'w) TimerMgr) run option" where
  "Advance global_time dispatch arg_t max_expire m =
     (let m = m\<lparr>tm_now := arg_t, last_timestamp := 0, num_expired := 0\<rparr>;
          m = m\<lparr>last_advance := global_time m\<rparr>
      in DoAdvance dispatch (tm_now m) max_expire m)"

section \<open>The contract of the queue under the timers\<close>

locale timer_queue = priority_queue inv elems prio add remove
  for inv :: "'q \<Rightarrow> bool" and elems :: "'q \<Rightarrow> 'e multiset" and prio :: "'q \<Rightarrow> 'e \<Rightarrow> 't::linorder"
    and add :: "'e \<Rightarrow> 'q \<Rightarrow> (nat \<times> 'q) run" and remove :: "'q \<Rightarrow> ('e option \<times> 'q) run" +
  fixes top :: "'q \<Rightarrow> 'e option run"
  assumes top_law: "inv q \<Longrightarrow> top q = run_bind (remove q) (\<lambda>(e, _). Ret e)"
begin

lemma next_due:
  assumes "inv q"
  shows "(elems q = {#} \<and> top q = Ret None \<and> remove q = Ret (None, q))
    \<or> (\<exists>e q'. top q = Ret (Some e) \<and> remove q = Ret (Some e, q') \<and> inv q' \<and> elems q = add_mset e (elems q')
         \<and> (\<forall>x \<in># elems q. prio q e \<le> prio q x) \<and> prio q' = prio q)"
proof (cases "elems q = {#}")
  case True
  then show ?thesis using remove_empty [OF assms] top_law [OF assms] by simp
next
  case False
  from remove_law [OF assms this] top_law [OF assms] show ?thesis by fastforce
qed

end

interpretation timers: timer_queue pq_inv pq_elems pq_time Add Remove Top
proof
  fix q :: "('a, 'b::linorder) PriorityQueue"
  assume q: "pq_inv q"
  show "Top q = run_bind (Remove q) (\<lambda>(e, _). Ret e)"
  proof (cases "heap_size q = 0")
    case False
    from Remove_ok [OF q False] arr_get_cell [of "heap_size q" q 0] q False show ?thesis
      by (auto simp: Top_def pq_inv_def)
  qed (simp add: Top_def Remove_def)
qed

section \<open>Counters\<close>

text \<open>The counters count the queued timers of each type; \<open>X\<close> holds timers that are being dispatched and
  are still counted.\<close>

definition counters_ok :: "'e multiset \<Rightarrow> ('e, 't, 'w) TimerMgr \<Rightarrow> bool" where
  "counters_ok X m \<longleftrightarrow>
     (\<forall>ty. current_timers m ty = word_of_nat (count (image_mset (timer_type m) (pq_elems (tm_q m) + X)) ty))"

definition tm_inv :: "'e multiset \<Rightarrow> ('e, 't::linorder, 'w) TimerMgr \<Rightarrow> bool" where
  "tm_inv X m \<longleftrightarrow> pq_inv (tm_q m) \<and> counters_ok X m"

text \<open>What the loops rely on: dispatching a timer returns, keeps the queue and its counters right, and
  does not change the type of a timer.\<close>

definition dispatch_ok :: "('e, 't::linorder, 'w) dispatch \<Rightarrow> bool" where
  "dispatch_ok dispatch \<longleftrightarrow>
     (\<forall>e t x X m. tm_inv X m \<longrightarrow>
        (\<exists>m'. dispatch e t x m = Ret m' \<and> tm_inv X m' \<and> timer_type m' = timer_type m \<and> num_expired m' = num_expired m))"

lemma count_timer_simps [simp]:
  "tm_q (count_timer f e m) = tm_q m" "timer_type (count_timer f e m) = timer_type m"
  "num_expired (count_timer f e m) = num_expired m" "tm_ext (count_timer f e m) = tm_ext m"
  "freed (count_timer f e m) = freed m" "tm_now (count_timer f e m) = tm_now m"
  by (simp_all add: count_timer_def)

lemma delete_timer_simps [simp]:
  "tm_q (delete_timer e m) = tm_q m" "timer_type (delete_timer e m) = timer_type m"
  "num_expired (delete_timer e m) = num_expired m" "tm_ext (delete_timer e m) = tm_ext m"
  "current_timers (delete_timer e m) = current_timers m" "tm_now (delete_timer e m) = tm_now m"
  "freed (delete_timer e m) = freed m @ [e]"
  by (simp_all add: delete_timer_def)

lemma tm_inv_delete [simp]: "tm_inv X (delete_timer e m) \<longleftrightarrow> tm_inv X m"
  by (simp add: tm_inv_def counters_ok_def)

lemma tm_inv_fields [simp]:
  "tm_inv X (m\<lparr>num_expired := n\<rparr>) \<longleftrightarrow> tm_inv X m" "tm_inv X (m\<lparr>last_timestamp := t\<rparr>) \<longleftrightarrow> tm_inv X m"
  "tm_inv X (m\<lparr>tm_ext := x\<rparr>) \<longleftrightarrow> tm_inv X m" "tm_inv X (m\<lparr>tm_now := t\<rparr>) \<longleftrightarrow> tm_inv X m"
  "tm_inv X (m\<lparr>last_advance := t\<rparr>) \<longleftrightarrow> tm_inv X m"
  by (simp_all add: tm_inv_def counters_ok_def)

text \<open>Moving a timer out of the queue: its count is taken back before or after the dispatch.\<close>

lemma counters_move:
  assumes "counters_ok X m" "pq_elems (tm_q m) = add_mset e (pq_elems q)"
  shows "counters_ok (add_mset e X) (m\<lparr>tm_q := q\<rparr>)"
  using assms by (simp add: counters_ok_def)

lemma counters_dec:
  assumes "counters_ok (add_mset e X) m"
  shows "counters_ok X (count_timer (\<lambda>n. n - 1) e m)"
  using assms by (auto simp: counters_ok_def count_timer_def)

lemma counters_dec_first:
  "counters_ok X (count_timer f e (m\<lparr>tm_q := q\<rparr>)) \<longleftrightarrow> counters_ok X ((count_timer f e m)\<lparr>tm_q := q\<rparr>)"
  by (simp add: counters_ok_def count_timer_def)

lemma counters_add:
  assumes "counters_ok X m" "pq_elems q = add_mset e (pq_elems (tm_q m))"
  shows "counters_ok X (count_timer (\<lambda>n. n + 1) e (m\<lparr>tm_q := q\<rparr>))"
  using assms by (auto simp: counters_ok_def count_timer_def)

section \<open>Adding and cancelling\<close>

lemma tm_Add_ok:
  assumes "tm_inv X m" "e \<notin># pq_elems (tm_q m)"
  shows "\<exists>m'. tm_Add e m = Ret m' \<and> tm_inv X m' \<and> pq_elems (tm_q m') = add_mset e (pq_elems (tm_q m))
    \<and> pq_time (tm_q m') = pq_time (tm_q m) \<and> timer_type m' = timer_type m \<and> num_expired m' = num_expired m"
proof -
  from heap.add_law [of "tm_q m" e] assms obtain q where
    q: "Add e (tm_q m) = Ret (1, q)" "pq_inv q" "pq_elems q = add_mset e (pq_elems (tm_q m))"
    "pq_time q = pq_time (tm_q m)" by (auto simp: tm_inv_def)
  then show ?thesis
    using counters_add [of X m q e] assms(1) by (simp add: tm_Add_def tm_inv_def)
qed

lemma tm_Remove_ok:
  fixes m :: "('e, 't::{linorder,order_bot}, 'w) TimerMgr"
  assumes "tm_inv X m" "e \<in># pq_elems (tm_q m)" "\<forall>x \<in># pq_elems (tm_q m). x \<noteq> e \<longrightarrow> pq_time (tm_q m) x \<noteq> bot"
  shows "\<exists>m'. tm_Remove e m = Ret m' \<and> tm_inv X m' \<and> pq_elems (tm_q m) = add_mset e (pq_elems (tm_q m'))
    \<and> timer_type m' = timer_type m \<and> num_expired m' = num_expired m"
proof -
  from Remove_element_ok [OF _ assms(3)] assms(1,2) obtain q where
    q: "Remove_element e (tm_q m) = Ret (Some e, q)" "pq_inv q" "pq_elems q = pq_elems (tm_q m) - {#e#}"
    by (auto simp: tm_inv_def)
  have els: "pq_elems (tm_q m) = add_mset e (pq_elems q)" using q(3) assms(2) by simp
  have "counters_ok X (count_timer (\<lambda>n. n - 1) e (m\<lparr>tm_q := q\<rparr>))"
    using assms(1) els by (intro counters_dec counters_move) (simp_all add: tm_inv_def)
  then show ?thesis using q(1,2) els
    by (simp add: tm_Remove_def tm_inv_def) (simp add: counters_ok_def)
qed

section \<open>Advancing the clock\<close>

lemma advance_step_ok:
  assumes "tm_inv X m" "dispatch_ok dispatch" "Top (tm_q m) = Ret (Some e)"
  shows "\<exists>m'. advance_step dispatch new_t e m = Ret m' \<and> tm_inv X m' \<and> timer_type m' = timer_type m
    \<and> num_expired m' = num_expired m"
proof -
  from timers.next_due [of "tm_q m"] assms(1,3) obtain q where
    q: "Remove (tm_q m) = Ret (Some e, q)" "pq_inv q" "pq_elems (tm_q m) = add_mset e (pq_elems q)"
    by (auto simp: tm_inv_def)
  define m1 where "m1 = (count_timer (\<lambda>n. n - 1) e (m\<lparr>last_timestamp := pq_time (tm_q m) e\<rparr>))\<lparr>tm_q := q\<rparr>"
  have "counters_ok X (m\<lparr>last_timestamp := pq_time (tm_q m) e\<rparr>)"
    using assms(1) by (simp add: tm_inv_def counters_ok_def)
  then have "counters_ok X m1"
    unfolding m1_def counters_dec_first [symmetric] using q(3) by (intro counters_dec counters_move) simp_all
  then have "tm_inv X m1" using q(2) by (simp add: tm_inv_def m1_def)
  with assms(2) obtain m' where "dispatch e new_t 0 m1 = Ret m'" "tm_inv X m'" "timer_type m' = timer_type m1"
    "num_expired m' = num_expired m1" unfolding dispatch_ok_def by blast
  then show ?thesis using q(1) by (simp add: advance_step_def Let_def m1_def)
qed

lemma advance_loop_bounded:
  assumes "tm_inv X m" "dispatch_ok dispatch" "0 < k" "0 \<le> num_expired m" "num_expired m \<le> k"
  shows "\<exists>m'. advance_loop dispatch new_t k m = Some (Ret m') \<and> tm_inv X m' \<and> timer_type m' = timer_type m
    \<and> num_expired m \<le> num_expired m' \<and> num_expired m' \<le> k
    \<and> (num_expired m' < k \<longrightarrow> (\<forall>x \<in># pq_elems (tm_q m'). new_t < pq_time (tm_q m') x))"
  using assms
proof (induction "nat (k - num_expired m)" arbitrary: m rule: less_induct)
  case less
  have inv: "pq_inv (tm_q m)" using less.prems(1) by (simp add: tm_inv_def)
  from timers.next_due [OF inv] consider
      (empty) "pq_elems (tm_q m) = {#}" "Top (tm_q m) = Ret None"
    | (due) e where "Top (tm_q m) = Ret (Some e)" "\<forall>x \<in># pq_elems (tm_q m). pq_time (tm_q m) e \<le> pq_time (tm_q m) x" by blast
  then show ?case
  proof cases
    case empty
    then show ?thesis using less.prems by (subst advance_loop.simps) simp
  next
    case due
    show ?thesis
    proof (cases "num_expired m < k \<and> pq_time (tm_q m) e \<le> new_t")
      case True
      from advance_step_ok [OF less.prems(1,2) due(1)] obtain m1 where
        m1: "advance_step dispatch new_t e m = Ret m1" "tm_inv X m1" "timer_type m1 = timer_type m"
        "num_expired m1 = num_expired m" by blast
      let ?m = "m1\<lparr>num_expired := num_expired m1 + 1\<rparr>"
      have "advance_loop dispatch new_t k m = advance_loop dispatch new_t k ?m"
        using True due(1) m1(1) by (subst advance_loop.simps) simp
      moreover have "\<exists>m'. advance_loop dispatch new_t k ?m = Some (Ret m') \<and> tm_inv X m' \<and> timer_type m' = timer_type ?m
        \<and> num_expired ?m \<le> num_expired m' \<and> num_expired m' \<le> k
        \<and> (num_expired m' < k \<longrightarrow> (\<forall>x \<in># pq_elems (tm_q m'). new_t < pq_time (tm_q m') x))"
        using True m1 less.prems by (intro less.hyps) auto
      ultimately show ?thesis using m1 by force
    next
      case False
      then have "advance_loop dispatch new_t k m = Some (Ret m)"
        using due(1) less.prems(3) by (subst advance_loop.simps) auto
      then show ?thesis using False less.prems due(2) by (auto simp: not_le)
    qed
  qed
qed

text \<open>Advancing the clock with a bound on the number of timers always ends, whatever the dispatched
  timers do to the queue, provided each dispatch returns and keeps the queue right: at most the bound is
  dispatched, the counters stay exact, and unless the bound was reached no timer that is due is left.\<close>

theorem bounded_advance_ends:
  assumes "tm_inv {#} m" "dispatch_ok dispatch" "0 < max_expire"
  shows "\<exists>n m'. DoAdvance dispatch new_t max_expire m = Some (Ret (n, m')) \<and> 0 \<le> n \<and> n \<le> max_expire \<and> tm_inv {#} m'
    \<and> (n < max_expire \<longrightarrow> (\<forall>x \<in># pq_elems (tm_q m'). new_t < pq_time (tm_q m') x))"
proof -
  from advance_loop_bounded [of "{#}" "m\<lparr>num_expired := 0\<rparr>" dispatch max_expire new_t] assms
  show ?thesis by (auto simp: DoAdvance_def)
qed

text \<open>A dispatch that records its timer.\<close>

definition log_dispatch :: "('e, 't, 'e list) dispatch" where
  "log_dispatch e t x m = Ret (m\<lparr>tm_ext := tm_ext m @ [e]\<rparr>)"

lemma log_dispatch_ok: "dispatch_ok log_dispatch"
  by (simp add: dispatch_ok_def log_dispatch_def)

lemma new_tm_inv: "tm_inv {#} (new_PQ_TimerMgr tm off ty x)"
  by (simp add: tm_inv_def counters_ok_def new_PQ_TimerMgr_def new_pq_inv)

theorem bounded_advance_ends_witness:
  "let m = new_PQ_TimerMgr (\<lambda>e :: nat. e) (\<lambda>_. -1) (\<lambda>_. TIMER_FRAG) [] in
   \<exists>m1. tm_Add 3 m = Ret m1 \<and>
   (\<exists>n m'. DoAdvance log_dispatch 5 2 m1 = Some (Ret (n, m')) \<and> 0 \<le> n \<and> n \<le> 2 \<and> tm_inv {#} m'
    \<and> (n < 2 \<longrightarrow> (\<forall>x \<in># pq_elems (tm_q m'). 5 < pq_time (tm_q m') x)))"
proof -
  let ?m = "new_PQ_TimerMgr (\<lambda>e :: nat. e) (\<lambda>_. -1) (\<lambda>_. TIMER_FRAG) ([] :: nat list)"
  have "3 \<notin># pq_elems (tm_q ?m)" by (simp add: new_PQ_TimerMgr_def new_pq_inv)
  from tm_Add_ok [OF new_tm_inv this] obtain m1 where m1: "tm_Add 3 ?m = Ret m1" "tm_inv {#} m1" by blast
  from bounded_advance_ends [OF m1(2) log_dispatch_ok, of 2 5] m1(1) show ?thesis unfolding Let_def by simp
qed

section \<open>Timers fire in order\<close>

text \<open>The timers in the queue split into those that are dispatched and those that stay.\<close>

definition fired :: "'e list \<Rightarrow> ('e, 't::linorder, 'e list) TimerMgr \<Rightarrow> ('e, 't, 'e list) TimerMgr \<Rightarrow> bool" where
  "fired es m m' \<longleftrightarrow> tm_ext m' = tm_ext m @ es \<and> freed m' = freed m @ es
     \<and> pq_elems (tm_q m) = mset es + pq_elems (tm_q m') \<and> pq_time (tm_q m') = pq_time (tm_q m)
     \<and> sorted (map (pq_time (tm_q m)) es)
     \<and> (\<forall>e \<in> set es. \<forall>x \<in># pq_elems (tm_q m'). pq_time (tm_q m) e \<le> pq_time (tm_q m) x)"

lemma fired_Nil: "fired [] m m' \<longleftrightarrow> tm_ext m' = tm_ext m \<and> freed m' = freed m \<and> pq_elems (tm_q m') = pq_elems (tm_q m)
    \<and> pq_time (tm_q m') = pq_time (tm_q m)"
  by (auto simp: fired_def)

lemma fired_Cons:
  assumes "fired es m1 m'" "tm_ext m1 = tm_ext m @ [e]" "freed m1 = freed m @ [e]"
    "pq_elems (tm_q m) = add_mset e (pq_elems (tm_q m1))" "pq_time (tm_q m1) = pq_time (tm_q m)"
    "\<forall>x \<in># pq_elems (tm_q m). pq_time (tm_q m) e \<le> pq_time (tm_q m) x"
  shows "fired (e # es) m m'"
  using assms by (auto simp: fired_def)





section \<open>Expiring everything\<close>

lemma expire_log_step:
  assumes "tm_inv X m" "Remove (tm_q m) = Ret (Some e, q)" "pq_inv q" "pq_elems (tm_q m) = add_mset e (pq_elems q)"
  shows "\<exists>m1. expire_step log_dispatch e (m\<lparr>tm_q := q\<rparr>) = Ret m1 \<and> tm_inv X m1 \<and> tm_q m1 = q
    \<and> tm_ext m1 = tm_ext m @ [e] \<and> freed m1 = freed m @ [e]"
proof -
  define m2 where "m2 = m\<lparr>tm_q := q, tm_ext := tm_ext m @ [e]\<rparr>"
  have "counters_ok (add_mset e X) (m\<lparr>tm_q := q\<rparr>)" using assms(1,4) by (intro counters_move) (simp_all add: tm_inv_def)
  then have "counters_ok (add_mset e X) m2" by (simp add: counters_ok_def m2_def)
  then have "tm_inv X (count_timer (\<lambda>n. n - 1) e m2)" using assms(3) counters_dec by (auto simp: tm_inv_def m2_def)
  then show ?thesis by (simp add: expire_step_def log_dispatch_def m2_def)
qed

lemma expire_fires:
  assumes "tm_inv X m"
  shows "\<exists>es m'. tm_Expire log_dispatch m = Some (Ret m') \<and> tm_inv X m' \<and> fired es m m' \<and> pq_elems (tm_q m') = {#}"
  using assms
proof (induction "size (pq_elems (tm_q m))" arbitrary: m rule: less_induct)
  case less
  have inv: "pq_inv (tm_q m)" using less.prems by (simp add: tm_inv_def)
  from timers.next_due [OF inv] consider
      (empty) "pq_elems (tm_q m) = {#}" "Remove (tm_q m) = Ret (None, tm_q m)"
    | (due) e q where "Remove (tm_q m) = Ret (Some e, q)" "pq_inv q" "pq_elems (tm_q m) = add_mset e (pq_elems q)"
        "\<forall>x \<in># pq_elems (tm_q m). pq_time (tm_q m) e \<le> pq_time (tm_q m) x" "pq_time q = pq_time (tm_q m)" by blast
  then show ?case
  proof cases
    case empty
    then have "tm_Expire log_dispatch m = Some (Ret m)" by (subst tm_Expire.simps) (cases m, simp)
    then show ?thesis using empty less.prems by (intro exI [of _ "[]"] exI [of _ m]) (simp add: fired_Nil)
  next
    case due
    from expire_log_step [OF less.prems due(1-3)] obtain m1 where
      m1: "expire_step log_dispatch e (m\<lparr>tm_q := q\<rparr>) = Ret m1" "tm_inv X m1" "tm_q m1 = q"
      "tm_ext m1 = tm_ext m @ [e]" "freed m1 = freed m @ [e]" by blast
    then have loop: "tm_Expire log_dispatch m = tm_Expire log_dispatch m1"
      using due(1) by (subst tm_Expire.simps) simp
    have "size (pq_elems (tm_q m1)) < size (pq_elems (tm_q m))" using due(3) m1(3) by simp
    from less.hyps [OF this m1(2)] obtain es m' where
      "tm_Expire log_dispatch m1 = Some (Ret m')" "tm_inv X m'" "fired es m1 m'" "pq_elems (tm_q m') = {#}" by blast
    moreover from this have "fired (e # es) m m'" using fired_Cons [of es m1 m' m e] m1 due by simp
    ultimately show ?thesis using loop by (intro exI [of _ "e # es"] exI [of _ m']) simp
  qed
qed

text \<open>Expiring all timers ends, dispatches and frees each of them once in the order of their times,
  and leaves an empty queue with all counters at zero.\<close>

theorem expire_drains_all:
  assumes "tm_inv {#} m"
  shows "\<exists>es m'. tm_Expire log_dispatch m = Some (Ret m') \<and> fired es m m' \<and> mset es = pq_elems (tm_q m)
    \<and> pq_elems (tm_q m') = {#} \<and> (\<forall>ty. current_timers m' ty = 0)"
proof -
  from expire_fires [OF assms] obtain es m' where
    r: "tm_Expire log_dispatch m = Some (Ret m')" "tm_inv {#} m'" "fired es m m'" "pq_elems (tm_q m') = {#}" by blast
  moreover have "mset es = pq_elems (tm_q m)" using r(3,4) by (simp add: fired_def)
  moreover have "\<forall>ty. current_timers m' ty = 0" using r(2,4) by (simp add: tm_inv_def counters_ok_def)
  ultimately show ?thesis by blast
qed

theorem expire_drains_all_witness:
  "let m = new_PQ_TimerMgr (\<lambda>e :: nat. e) (\<lambda>_. -1) (\<lambda>_. TIMER_FRAG) [] in
   \<exists>m1. tm_Add 3 m = Ret m1 \<and>
   (\<exists>es m'. tm_Expire log_dispatch m1 = Some (Ret m') \<and> fired es m1 m' \<and> mset es = {#3#}
    \<and> pq_elems (tm_q m') = {#} \<and> (\<forall>ty. current_timers m' ty = 0))"
proof -
  let ?m = "new_PQ_TimerMgr (\<lambda>e :: nat. e) (\<lambda>_. -1) (\<lambda>_. TIMER_FRAG) ([] :: nat list)"
  have none: "pq_elems (tm_q ?m) = {#}" by (simp add: new_PQ_TimerMgr_def new_pq_inv)
  then have "3 \<notin># pq_elems (tm_q ?m)" by simp
  from tm_Add_ok [OF new_tm_inv this] none obtain m1 where
    m1: "tm_Add 3 ?m = Ret m1" "tm_inv {#} m1" "pq_elems (tm_q m1) = {#3#}" by auto
  from expire_drains_all [OF m1(2)] m1(1,3) show ?thesis unfolding Let_def by simp
qed

end
