(* ===== verification/Bro_Reassem_Add.thy ===== *)
theory Bro_Reassem_Add
  imports Bro_Reassem
begin

text \<open>
  Adding data to the chain of a reassembler: the chain as a partial map from positions to bytes, its invariant, and
  that \<open>AddAndCheck\<close> adds exactly the bytes that are not held yet.
\<close>

section \<open>Offsets\<close>

definition seq_off :: "u32 \<Rightarrow> u32 \<Rightarrow> nat" where
  "seq_off base x = unat (x - base)"

abbreviation half_space :: nat where "half_space \<equiv> 2147483648"

lemma sint_diff:
  assumes "unat x < half_space" "unat y < half_space"
  shows "sint ((x :: u32) - y) = int (unat x) - int (unat y)"
proof -
  define d where "d = int (unat x) - int (unat y)"
  have "- 2147483648 \<le> d" "d < 2147483648" using assms unfolding d_def by linarith+
  then have "signed_take_bit 31 d = d" by (intro signed_take_bit_int_eq_self) simp_all
  moreover have "sint (word_of_int d :: u32) = signed_take_bit 31 d" by (simp add: signed_of_int)
  moreover have "x - y = word_of_int d" by (simp add: d_def)
  ultimately show ?thesis by (simp only: d_def)
qed

lemma seq_delta_off:
  assumes "seq_off base a < half_space" "seq_off base b < half_space"
  shows "seq_delta a b = int (seq_off base a) - int (seq_off base b)"
proof -
  have "a - b = (a - base) - (b - base)" by simp
  then show ?thesis using sint_diff [of "a - base" "b - base"] assms by (simp add: seq_delta_def seq_off_def)
qed

lemma seq_off_add:
  assumes "seq_off base x + k < half_space"
  shows "seq_off base (x + word_of_nat k) = seq_off base x + k"
proof -
  have "x + word_of_nat k - base = (x - base) + word_of_nat k" by simp
  moreover have "unat (word_of_nat k :: u32) = k"
    using assms by (simp add: unat_of_nat take_bit_nat_eq_self)
  ultimately show ?thesis
    using assms unat_add_lem [of "x - base" "word_of_nat k"]
    by (simp only: seq_off_def) simp
qed

lemma seq_off_inj: "seq_off base x = seq_off base y \<longleftrightarrow> x = y"
  by (simp add: seq_off_def flip: word_unat_eq_iff)

section \<open>What a chain holds\<close>

definition data_map :: "u32 \<Rightarrow> u32 \<Rightarrow> bytes \<Rightarrow> nat \<rightharpoonup> u8" where
  "data_map base sq data p =
     (if seq_off base sq \<le> p \<and> p < seq_off base sq + length data then Some (data ! (p - seq_off base sq)) else None)"

fun content :: "u32 \<Rightarrow> DataBlock list \<Rightarrow> nat \<rightharpoonup> u8" where
  "content base [] = Map.empty"
| "content base (b # bs) = content base bs ++ data_map base (seq b) (block b)"

definition block_ok :: "u32 \<Rightarrow> DataBlock \<Rightarrow> bool" where
  "block_ok base b \<longleftrightarrow> block b \<noteq> [] \<and> seq_off base (seq b) + length (block b) < half_space
     \<and> upper b = seq b + word_of_nat (length (block b))"

definition before :: "u32 \<Rightarrow> DataBlock \<Rightarrow> DataBlock \<Rightarrow> bool" where
  "before base b c \<longleftrightarrow> seq_off base (upper b) \<le> seq_off base (seq c)"

definition chain_ok :: "u32 \<Rightarrow> DataBlock list \<Rightarrow> bool" where
  "chain_ok base bs \<longleftrightarrow> (\<forall>b \<in> set bs. block_ok base b) \<and> sorted_wrt (before base) bs \<and> distinct (map db_addr bs)"

text \<open>The memory that the blocks take.\<close>

definition accounted :: "'x Reassembler \<Rightarrow> bool" where
  "accounted R \<longleftrightarrow> total_size R = word_of_nat (\<Sum>b \<leftarrow> blocks R. pad_size (length (block b)) + block_overhead R)"

definition reasm_ok :: "u32 \<Rightarrow> 'x Reassembler \<Rightarrow> bool" where
  "reasm_ok base R \<longleftrightarrow> chain_ok base (blocks R)
     \<and> last_block R = (if blocks R = [] then None else Some (db_addr (last (blocks R))))
     \<and> (\<forall>b \<in> set (blocks R). db_addr b < next_addr R) \<and> accounted R"

lemma block_upper: "block_ok base b \<Longrightarrow> seq_off base (upper b) = seq_off base (seq b) + length (block b)"
  by (simp add: block_ok_def seq_off_add)

lemma block_bounds:
  assumes "block_ok base b"
  shows "seq_off base (seq b) < seq_off base (upper b)" "seq_off base (upper b) < half_space"
  using assms block_upper [OF assms] by (auto simp: block_ok_def)

lemma content_append: "content base (xs @ ys) = content base ys ++ content base xs"
  by (induction xs) simp_all

lemma data_map_dom: "dom (data_map base sq data) = {seq_off base sq ..< seq_off base sq + length data}"
  by (auto simp: data_map_def dom_def split: if_splits)

lemma content_dom: "dom (content base bs) = (\<Union>b \<in> set bs. dom (data_map base (seq b) (block b)))"
  by (induction bs) auto

text \<open>Data split in two, the second part directly after the first.\<close>

lemma data_map_split:
  assumes "seq_off base sq + length data < half_space" "k \<le> length data"
  shows "data_map base sq data = data_map base (sq + word_of_nat k) (drop k data) ++ data_map base sq (take k data)"
proof
  fix p
  have "seq_off base (sq + word_of_nat k) = seq_off base sq + k"
    using assms by (intro seq_off_add) simp
  then show "data_map base sq data p =
      (data_map base (sq + word_of_nat k) (drop k data) ++ data_map base sq (take k data)) p"
    using assms(2) by (auto simp: data_map_def map_add_def)
qed

text \<open>Data that lies inside a block adds nothing.\<close>

lemma map_add_covered: "dom m \<subseteq> dom m' \<Longrightarrow> m ++ m' = m'"
  by (auto simp: map_add_def fun_eq_iff dom_def split: option.splits)

section \<open>Inserting a block\<close>

lemma chain_ok_insert:
  assumes "chain_ok base (xs @ ys)" "block_ok base b" "db_addr b \<notin> db_addr ` set (xs @ ys)"
    and "\<forall>c \<in> set xs. before base c b" "\<forall>c \<in> set ys. before base b c"
  shows "chain_ok base (xs @ b # ys)"
  using assms by (auto simp: chain_ok_def sorted_wrt_append)

text \<open>A block between two parts of a chain touches neither.\<close>

lemma content_insert:
  assumes "\<forall>c \<in> set xs. block_ok base c \<and> before base c b" "\<forall>c \<in> set ys. block_ok base c \<and> before base b c"
    and "block_ok base b"
  shows "content base (xs @ b # ys) = data_map base (seq b) (block b) ++ content base (xs @ ys)"
proof -
  let ?d = "data_map base (seq b) (block b)"
  have sep: "seq_off base (seq b) + length (block b) \<le> seq_off base (seq c)" if "c \<in> set ys" for c
    using assms(2) that block_upper [OF assms(3)] by (auto simp: before_def)
  have "p \<notin> dom ?d" if p: "p \<in> dom (content base ys)" for p
  proof -
    from p obtain c where "c \<in> set ys" "p \<in> dom (data_map base (seq c) (block c))"
      unfolding content_dom by blast
    with sep [of c] show ?thesis unfolding data_map_dom by auto
  qed
  then have "dom ?d \<inter> dom (content base ys) = {}" by blast
  then have "content base ys ++ ?d = ?d ++ content base ys" by (rule map_add_comm [symmetric])
  then show ?thesis by (simp add: content_append)
qed

definition new_block_at :: "nat \<Rightarrow> 'x Reassembler \<Rightarrow> u32 \<Rightarrow> bytes \<Rightarrow> 'x Reassembler" where
  "new_block_at n R sq data =
     R\<lparr>blocks := insert_at n \<lparr>db_addr = next_addr R, seq = sq, upper = sq + word_of_nat (length data), block = data\<rparr>
         (blocks R),
       next_addr := next_addr R + 1,
       total_size := total_size R + word_of_nat (pad_size (length data) + block_overhead R)\<rparr>"

lemma new_block_at_simps [simp]:
  "next_addr (new_block_at n R sq data) = next_addr R + 1" "last_block (new_block_at n R sq data) = last_block R"
  "trim_seq (new_block_at n R sq data) = trim_seq R" "block_overhead (new_block_at n R sq data) = block_overhead R"
  "last_reassem_seq (new_block_at n R sq data) = last_reassem_seq R" "r_ext (new_block_at n R sq data) = r_ext R"
  by (simp_all add: new_block_at_def)

lemma new_DataBlock_Ret:
  "0 \<le> sz \<Longrightarrow> sz \<le> int (length data) \<Longrightarrow>
   new_DataBlock data sz sq R = Ret (\<lparr>db_addr = next_addr R, seq = sq, upper = sq + word_of_nat (nat sz),
       block = take (nat sz) data\<rparr>,
     R\<lparr>next_addr := next_addr R + 1,
       total_size := total_size R + word_of_nat (pad_size (nat sz) + block_overhead R)\<rparr>)"
  by (simp add: new_DataBlock_def)

lemma insert_at_length [simp]: "n = length xs \<Longrightarrow> insert_at n x xs = xs @ [x]"
  by (simp add: insert_at_def)

lemma insert_before_eq:
  assumes "k \<le> length data"
  shows "insert_before n data (int k) sq R = Ret (next_addr R, new_block_at n R sq (take k data))"
  using assms by (simp add: insert_before_def new_DataBlock_Ret new_block_at_def)

lemma append_after_eq:
  assumes "n + 1 = length (blocks R)" "sint (up - sq) = int (length data)"
  shows "append_after n data sq up R =
    Ret (next_addr R, (new_block_at (length (blocks R)) R sq data)\<lparr>last_block := Some (next_addr R)\<rparr>)"
  using assms by (simp add: append_after_def new_DataBlock_Ret new_block_at_def)

lemma new_block_at_content:
  assumes "reasm_ok base R" "n \<le> length (blocks R)" "data \<noteq> []" "seq_off base sq + length data < half_space"
    and "\<forall>c \<in> set (take n (blocks R)). seq_off base (upper c) \<le> seq_off base sq"
    and "\<forall>c \<in> set (drop n (blocks R)). seq_off base sq + length data \<le> seq_off base (seq c)"
  shows "chain_ok base (blocks (new_block_at n R sq data))"
    and "content base (blocks (new_block_at n R sq data)) = data_map base sq data ++ content base (blocks R)"
    and "accounted (new_block_at n R sq data)"
    and "\<forall>b \<in> set (blocks (new_block_at n R sq data)). db_addr b < next_addr R + 1"
    and "next_addr R \<in> db_addr ` set (blocks (new_block_at n R sq data))"
proof -
  let ?xs = "take n (blocks R)" and ?ys = "drop n (blocks R)"
  define b where "b = \<lparr>db_addr = next_addr R, seq = sq, upper = sq + word_of_nat (length data), block = data\<rparr>"
  have ok: "block_ok base b" using assms(3,4) by (simp add: block_ok_def b_def)
  have up: "seq_off base (upper b) = seq_off base sq + length data"
    using block_upper [OF ok] by (simp add: b_def)
  have split: "blocks R = ?xs @ ?ys" by simp
  have chain: "chain_ok base (?xs @ ?ys)" using assms(1) by (simp add: reasm_ok_def)
  have fresh: "db_addr b \<notin> db_addr ` set (?xs @ ?ys)" using assms(1) by (auto simp: reasm_ok_def b_def)
  have xs: "\<forall>c \<in> set ?xs. before base c b" and ys: "\<forall>c \<in> set ?ys. before base b c"
    using assms(5,6) up by (auto simp: before_def b_def)
  have bl: "blocks (new_block_at n R sq data) = ?xs @ b # ?ys"
    by (simp add: new_block_at_def insert_at_def b_def)
  show "chain_ok base (blocks (new_block_at n R sq data))"
    unfolding bl using chain ok fresh xs ys by (rule chain_ok_insert)
  have "\<forall>c \<in> set ?xs \<union> set ?ys. block_ok base c"
    using chain unfolding chain_ok_def by (metis set_append)
  with content_insert [of ?xs base b ?ys] ok xs ys
  show "content base (blocks (new_block_at n R sq data)) = data_map base sq data ++ content base (blocks R)"
    unfolding bl by (simp add: b_def)
  have "(\<Sum>c \<leftarrow> blocks R. f c) = (\<Sum>c \<leftarrow> ?xs. f c) + (\<Sum>c \<leftarrow> ?ys. f c)" for f :: "DataBlock \<Rightarrow> nat"
    by (metis append_take_drop_id map_append sum_list_append)
  then show "accounted (new_block_at n R sq data)"
    using assms(1) unfolding accounted_def bl by (simp add: reasm_ok_def accounted_def b_def new_block_at_def)
  show "\<forall>b \<in> set (blocks (new_block_at n R sq data)). db_addr b < next_addr R + 1"
    using assms(1) unfolding bl by (auto simp: reasm_ok_def b_def less_Suc_eq dest: in_set_takeD in_set_dropD)
  show "next_addr R \<in> db_addr ` set (blocks (new_block_at n R sq data))"
    unfolding bl by (simp add: b_def)
qed

section \<open>The search\<close>

lemma block_pos_nth:
  "distinct (map db_addr bs) \<Longrightarrow> i < length bs \<Longrightarrow> block_pos (db_addr (bs ! i)) bs = Some i"
proof (induction bs arbitrary: i)
  case (Cons b bs)
  then show ?case by (cases i) (auto simp: image_iff)
qed simp

lemma block_pos_in: "a \<in> db_addr ` set bs \<Longrightarrow> \<exists>i < length bs. block_pos a bs = Some i \<and> db_addr (bs ! i) = a"
proof (induction bs)
  case (Cons b bs)
  show ?case
  proof (cases "db_addr b = a")
    case False
    with Cons obtain i where "i < length bs" "block_pos a bs = Some i" "db_addr (bs ! i) = a" by auto
    then show ?thesis using False by (intro exI [of _ "Suc i"]) simp
  qed (auto intro: exI [of _ 0])
qed simp

lemma fix_last_same:
  assumes "reasm_ok base R" "a \<in> db_addr ` set (blocks R)"
  shows "fix_last a R = Ret (a, R)"
proof -
  have dist: "distinct (map db_addr (blocks R))" using assms(1) by (simp add: reasm_ok_def chain_ok_def)
  from block_pos_in [OF assms(2)] obtain i where
    i: "i < length (blocks R)" "block_pos a (blocks R) = Some i" by blast
  have last: "last_block R = Some (db_addr (blocks R ! (length (blocks R) - 1)))"
    using assms(1) i(1) by (auto simp: reasm_ok_def last_conv_nth split: if_splits)
  show ?thesis
  proof (cases i)
    case 0
    then show ?thesis using i last by (simp add: fix_last_def prev_addr_def)
  next
    case (Suc j)
    have "db_addr (blocks R ! j) \<noteq> db_addr (blocks R ! (length (blocks R) - 1))"
      using nth_eq_iff_index_eq [OF dist, of j "length (blocks R) - 1"] i Suc by auto
    then show ?thesis using i Suc last by (simp add: fix_last_def prev_addr_def)
  qed
qed

lemma skip_before_ok:
  assumes "chain_ok base bs" "n < length bs" "seq_off base sq < half_space"
    and "\<forall>c \<in> set (take n bs). seq_off base (upper c) \<le> seq_off base sq"
  shows "let k = skip_before sq bs n in k < length bs
    \<and> (\<forall>c \<in> set (take k bs). seq_off base (upper c) \<le> seq_off base sq)
    \<and> (seq_off base (upper (bs ! k)) \<le> seq_off base sq \<longrightarrow> k + 1 = length bs)"
  using assms(2,4)
proof (induction "length bs - n" arbitrary: n)
  case 0
  then show ?case by simp
next
  case (Suc m)
  have "block_ok base (bs ! n)" using assms(1) Suc.prems(1) by (simp add: chain_ok_def)
  then have d: "seq_delta (upper (bs ! n)) sq = int (seq_off base (upper (bs ! n))) - int (seq_off base sq)"
    using block_bounds(2) assms(3) by (intro seq_delta_off) auto
  show ?case
  proof (cases "n + 1 < length bs \<and> seq_delta (upper (bs ! n)) sq \<le> 0")
    case True
    then have "\<forall>c \<in> set (take (n + 1) bs). seq_off base (upper c) \<le> seq_off base sq"
      using Suc.prems d by (auto simp: take_Suc_conv_app_nth)
    then have "let k = skip_before sq bs (n + 1) in k < length bs
      \<and> (\<forall>c \<in> set (take k bs). seq_off base (upper c) \<le> seq_off base sq)
      \<and> (seq_off base (upper (bs ! k)) \<le> seq_off base sq \<longrightarrow> k + 1 = length bs)"
      using True Suc.hyps by (intro Suc.hyps(1)) auto
    moreover have "skip_before sq bs n = skip_before sq bs (n + 1)"
      using True by (subst skip_before.simps) simp
    ultimately show ?thesis by simp
  next
    case False
    then have "skip_before sq bs n = n" by (subst skip_before.simps) auto
    then show ?thesis using Suc.prems False d by (auto simp: Let_def)
  qed
qed

section \<open>Adding data\<close>

text \<open>What adding \<open>data\<close> at \<open>sq\<close> has to achieve: the bytes already held win.\<close>

definition add_post :: "u32 \<Rightarrow> 'x Reassembler \<Rightarrow> u32 \<Rightarrow> bytes \<Rightarrow> nat \<Rightarrow> 'x Reassembler \<Rightarrow> bool" where
  "add_post base R sq data a R' \<longleftrightarrow> reasm_ok base R'
     \<and> content base (blocks R') = data_map base sq data ++ content base (blocks R)
     \<and> a \<in> db_addr ` set (blocks R') \<and> db_addr ` set (blocks R) \<subseteq> db_addr ` set (blocks R')
     \<and> trim_seq R' = trim_seq R \<and> last_reassem_seq R' = last_reassem_seq R"

lemma addrs_new_block: "db_addr ` set (blocks R) \<subseteq> db_addr ` set (blocks (new_block_at n R sq data))"
proof -
  have "set (blocks R) = set (take n (blocks R)) \<union> set (drop n (blocks R))"
    by (metis append_take_drop_id set_append)
  then show ?thesis by (auto simp: new_block_at_def insert_at_def)
qed

lemma insert_ok:
  assumes "reasm_ok base R" "n < length (blocks R)" "data \<noteq> []" "seq_off base sq + length data < half_space"
    and "\<forall>c \<in> set (take n (blocks R)). seq_off base (upper c) \<le> seq_off base sq"
    and "seq_off base sq + length data \<le> seq_off base (seq (blocks R ! n))"
  shows "add_post base R sq data (next_addr R) (new_block_at n R sq data)"
proof -
  have chain: "chain_ok base (blocks R)" using assms(1) by (simp add: reasm_ok_def)
  have "seq_off base sq + length data \<le> seq_off base (seq c)" if "c \<in> set (drop n (blocks R))" for c
  proof -
    from that obtain j where j: "n \<le> j" "j < length (blocks R)" "c = blocks R ! j"
      by (auto simp: in_set_conv_nth) (metis add.commute le_add2 less_diff_conv)
    show ?thesis
    proof (cases "j = n")
      case False
      with j have "before base (blocks R ! n) c"
        using chain sorted_wrt_nth_less [of "before base" "blocks R" n j] by (simp add: chain_ok_def)
      moreover have "block_ok base (blocks R ! n)" using chain assms(2) by (simp add: chain_ok_def)
      ultimately show ?thesis using assms(6) block_bounds(1) [of base "blocks R ! n"] by (simp add: before_def)
    qed (use assms(6) j in simp)
  qed
  then have rest: "\<forall>c \<in> set (drop n (blocks R)). seq_off base sq + length data \<le> seq_off base (seq c)" by blast
  note new = new_block_at_content [OF assms(1) _ assms(3-5) rest]
  have "last (blocks (new_block_at n R sq data)) = last (blocks R)" "blocks (new_block_at n R sq data) \<noteq> []"
    using assms(2) by (simp_all add: new_block_at_def insert_at_def)
  moreover have "blocks R \<noteq> []" using assms(2) by auto
  ultimately show ?thesis
    using new assms(1,2) addrs_new_block [of R n sq data] unfolding add_post_def reasm_ok_def by simp
qed

lemma append_ok:
  assumes "reasm_ok base R" "data \<noteq> []" "seq_off base sq + length data < half_space"
    and "\<forall>c \<in> set (blocks R). seq_off base (upper c) \<le> seq_off base sq"
  shows "add_post base R sq data (next_addr R)
    ((new_block_at (length (blocks R)) R sq data)\<lparr>last_block := Some (next_addr R)\<rparr>)"
proof -
  have all: "\<forall>c \<in> set (take (length (blocks R)) (blocks R)). seq_off base (upper c) \<le> seq_off base sq"
    "\<forall>c \<in> set (drop (length (blocks R)) (blocks R)). seq_off base sq + length data \<le> seq_off base (seq c)"
    using assms(4) by simp_all
  note new = new_block_at_content [OF assms(1) _ assms(2,3) all]
  have "blocks (new_block_at (length (blocks R)) R sq data) \<noteq> []"
    "db_addr (last (blocks (new_block_at (length (blocks R)) R sq data))) = next_addr R"
    by (simp_all add: new_block_at_def)
  then show ?thesis
    using new addrs_new_block [of R "length (blocks R)" sq data]
    unfolding add_post_def reasm_ok_def by (simp add: accounted_def)
qed

lemma reasm_ok_ext [simp]: "reasm_ok base (R\<lparr>r_ext := x\<rparr>) = reasm_ok base R"
  by (simp add: reasm_ok_def accounted_def)

lemma add_post_ext: "add_post base (R\<lparr>r_ext := x\<rparr>) sq data a R' \<longleftrightarrow> add_post base R sq data a R'"
  by (simp add: add_post_def)

lemma data_map_inside:
  assumes "chain_ok base bs" "n < length bs" "seq_off base (seq (bs ! n)) \<le> seq_off base sq"
    and "seq_off base sq + length data \<le> seq_off base (upper (bs ! n))"
  shows "data_map base sq data ++ content base bs = content base bs"
proof (rule map_add_covered)
  have ok: "block_ok base (bs ! n)" using assms(1,2) by (simp add: chain_ok_def)
  have "dom (data_map base sq data) \<subseteq> dom (data_map base (seq (bs ! n)) (block (bs ! n)))"
    using assms(3,4) block_upper [OF ok] by (auto simp: data_map_dom)
  also have "\<dots> \<subseteq> dom (content base bs)" unfolding content_dom using nth_mem [OF assms(2)] by blast
  finally show "dom (data_map base sq data) \<subseteq> dom (content base bs)" .
qed

text \<open>The overlap with one block: the overlapping bytes are dropped, the others remain to be added.\<close>

lemma handle_overlap_ok:
  assumes "reasm_ok base R" "n < length (blocks R)" "data \<noteq> []" "seq_off base sq + length data < half_space"
    and "up = sq + word_of_nat (length data)"
    and "seq_off base (seq (blocks R ! n)) \<le> seq_off base sq" "seq_off base sq < seq_off base (upper (blocks R ! n))"
    and "\<And>a. new_b = Some a \<Longrightarrow> a \<in> db_addr ` set (blocks R)"
  defines "k \<equiv> min (length data) (seq_off base (upper (blocks R ! n)) - seq_off base sq)"
  shows "\<exists>x. handle_overlap overlap n new_b sq up data R = Ret
    (if k < length data then Remainder new_b n (sq + word_of_nat k) (drop k data) (R\<lparr>r_ext := x\<rparr>)
     else Added (case new_b of None \<Rightarrow> db_addr (blocks R ! n) | Some a \<Rightarrow> a) (R\<lparr>r_ext := x\<rparr>))"
proof -
  let ?b = "blocks R ! n"
  have ok: "block_ok base ?b" using assms(1,2) by (simp add: reasm_ok_def chain_ok_def)
  note up = block_upper [OF ok] and bd = block_bounds [OF ok]
  have sq: "seq_off base sq < half_space" using assms(4) by simp
  have upo: "seq_off base up = seq_off base sq + length data" unfolding assms(5) using assms(4) by (rule seq_off_add)
  have d: "seq_delta sq (seq ?b) = int (seq_off base sq - seq_off base (seq ?b))"
    "seq_delta up sq = int (length data)"
    "seq_delta (upper ?b) sq = int (seq_off base (upper ?b) - seq_off base sq)"
    using assms(4,6,7) bd sq upo by (simp_all add: seq_delta_off [of base] of_nat_diff)
  have mn: "min (seq_delta up sq) (seq_delta (upper ?b) sq) = int k"
    by (simp add: d k_def)
  have lim: "seq_off base sq - seq_off base (seq ?b) + k \<le> length (block ?b)" "k \<le> length data"
    using assms(6,7) up by (auto simp: k_def)
  have lim': "\<not> int (seq_off base sq - seq_off base (seq ?b)) + int k > int (length (block ?b))"
    "\<not> int k > int (length data)" using lim by linarith+
  have fix_last: "fix_last (case new_b of None \<Rightarrow> db_addr ?b | Some a \<Rightarrow> a) (R\<lparr>r_ext := x\<rparr>)
      = Ret (case new_b of None \<Rightarrow> db_addr ?b | Some a \<Rightarrow> a, R\<lparr>r_ext := x\<rparr>)" for x
    by (rule fix_last_same [of base]) (use assms(1,2,8) in \<open>auto split: option.splits\<close>)
  show ?thesis
    unfolding handle_overlap_def Let_def mn
    using lim' by (simp add: d fix_last) blast
qed

text \<open>One activation: it either adds all the data, or adds a part and passes on a shorter remainder
  with the same purpose.\<close>

lemma split_rest:
  assumes "seq_off base sq + length data < half_space" "k \<le> length data"
    and "data_map base sq (take k data) ++ content base bs = content base bs'"
  shows "data_map base sq data ++ content base bs = data_map base (sq + word_of_nat k) (drop k data) ++ content base bs'"
  unfolding assms(3) [symmetric] using data_map_split [OF assms(1,2)] by simp

definition remainder_ok ::
  "u32 \<Rightarrow> 'x Reassembler \<Rightarrow> u32 \<Rightarrow> u32 \<Rightarrow> bytes \<Rightarrow> nat option \<Rightarrow> nat \<Rightarrow> u32 \<Rightarrow> bytes \<Rightarrow> 'x Reassembler \<Rightarrow> bool" where
  "remainder_ok base R sq up data new_b n' sq' data' R' \<longleftrightarrow>
     reasm_ok base R' \<and> n' < length (blocks R') \<and> data' \<noteq> [] \<and> length data' < length data
     \<and> seq_off base sq' + length data' < half_space \<and> up = sq' + word_of_nat (length data')
     \<and> (\<forall>c \<in> set (take n' (blocks R')). seq_off base (upper c) \<le> seq_off base sq')
     \<and> data_map base sq data ++ content base (blocks R) = data_map base sq' data' ++ content base (blocks R')
     \<and> (\<forall>a. new_b = Some a \<longrightarrow> a \<in> db_addr ` set (blocks R'))
     \<and> db_addr ` set (blocks R) \<subseteq> db_addr ` set (blocks R')
     \<and> trim_seq R' = trim_seq R \<and> last_reassem_seq R' = last_reassem_seq R"

lemma drop_up: "k \<le> length data \<Longrightarrow>
  (sq :: u32) + word_of_nat (length data) = sq + word_of_nat k + word_of_nat (length (drop k data))"
  by (simp flip: of_nat_add add.assoc)

lemma take_blocks_before:
  assumes "chain_ok base bs" "n < length bs" "seq_off base (seq (bs ! n)) \<le> p" "c \<in> set (take n bs)"
  shows "seq_off base (upper c) \<le> p"
proof -
  from assms(4) obtain j where "j < n" "c = bs ! j" by (auto simp: in_set_conv_nth)
  with assms(1,2) have "before base c (bs ! n)"
    using sorted_wrt_nth_less [of "before base" bs j n] by (simp add: chain_ok_def)
  with assms(3) show ?thesis by (simp add: before_def)
qed

definition step_ok :: "u32 \<Rightarrow> 'x Reassembler \<Rightarrow> u32 \<Rightarrow> u32 \<Rightarrow> bytes \<Rightarrow> 'x add_result run \<Rightarrow> bool" where
  "step_ok base R sq up data r \<longleftrightarrow>
     (case r of
        Ret (Added a R') \<Rightarrow> add_post base R sq data a R'
      | Ret (Remainder nb n' sq' data' R') \<Rightarrow> remainder_ok base R sq up data nb n' sq' data' R'
      | _ \<Rightarrow> False)"

lemma overlap_step_ok:
  assumes "reasm_ok base R" "n < length (blocks R)" "data \<noteq> []" "seq_off base sq + length data < half_space"
    and "up = sq + word_of_nat (length data)"
    and "seq_off base (seq (blocks R ! n)) \<le> seq_off base sq" "seq_off base sq < seq_off base (upper (blocks R ! n))"
    and "\<And>a. new_b = Some a \<Longrightarrow> a \<in> db_addr ` set (blocks R)"
  shows "step_ok base R sq up data (handle_overlap overlap n new_b sq up data R)"
proof -
  let ?b = "blocks R ! n"
  define k where "k = min (length data) (seq_off base (upper ?b) - seq_off base sq)"
  have chain: "chain_ok base (blocks R)" using assms(1) by (simp add: reasm_ok_def)
  have k: "k \<le> length data" "0 < k" "seq_off base sq + k \<le> seq_off base (upper ?b)"
    using assms(3,7) by (auto simp: k_def)
  have inside: "data_map base sq (take k data) ++ content base (blocks R) = content base (blocks R)"
    using k by (intro data_map_inside [OF chain assms(2,6)]) simp
  from handle_overlap_ok [OF assms, folded k_def] obtain x where
    x: "handle_overlap overlap n new_b sq up data R = Ret
      (if k < length data then Remainder new_b n (sq + word_of_nat k) (drop k data) (R\<lparr>r_ext := x\<rparr>)
       else Added (case new_b of None \<Rightarrow> db_addr ?b | Some a \<Rightarrow> a) (R\<lparr>r_ext := x\<rparr>))" by blast
  show ?thesis
  proof (cases "k < length data")
    case True
    have off: "seq_off base (sq + word_of_nat k) = seq_off base sq + k"
      using assms(4) True by (intro seq_off_add) simp
    have "seq_off base (upper c) \<le> seq_off base sq + k" if "c \<in> set (take n (blocks R))" for c
      using take_blocks_before [OF chain assms(2,6) that] by simp
    moreover have "up = sq + word_of_nat k + word_of_nat (length (drop k data))"
      unfolding assms(5) using k(1) by (rule drop_up)
    ultimately have "remainder_ok base R sq up data new_b n (sq + word_of_nat k) (drop k data) (R\<lparr>r_ext := x\<rparr>)"
      using assms(1,2,4,8) True k off split_rest [OF assms(4) k(1) inside]
      by (simp add: remainder_ok_def)
    then show ?thesis using x True by (simp add: step_ok_def)
  next
    case False
    then have "data_map base sq data ++ content base (blocks R) = content base (blocks R)"
      using inside k by simp
    then have "add_post base R sq data (case new_b of None \<Rightarrow> db_addr ?b | Some a \<Rightarrow> a) (R\<lparr>r_ext := x\<rparr>)"
      using assms(1,2,8) by (auto simp: add_post_def split: option.splits)
    then show ?thesis using x False by (simp add: step_ok_def)
  qed
qed

text \<open>Putting a prefix in front first does not change what remains to be achieved.\<close>

lemma step_ok_after_prefix:
  assumes "add_post base R sq (take p data) a R1" "seq_off base sq + length data < half_space" "p \<le> length data"
    and "step_ok base R1 (sq + word_of_nat p) up (drop p data) r"
  shows "step_ok base R sq up data r"
proof -
  have eq: "data_map base sq data ++ content base (blocks R)
      = data_map base (sq + word_of_nat p) (drop p data) ++ content base (blocks R1)"
    using assms(1) by (intro split_rest [OF assms(2,3)]) (simp add: add_post_def)
  show ?thesis
    using assms(1,4) eq
    by (auto simp: step_ok_def add_post_def remainder_ok_def split: run.splits add_result.splits) blast+
qed

lemma search_place_ok:
  assumes "reasm_ok base R" "n < length (blocks R)" "data \<noteq> []" "seq_off base sq + length data < half_space"
    and "up = sq + word_of_nat (length data)"
    and "\<forall>c \<in> set (take n (blocks R)). seq_off base (upper c) \<le> seq_off base sq"
  shows "step_ok base R sq up data (search_place overlap n sq up data R)"
proof -
  define m where "m = skip_before sq (blocks R) n"
  have chain: "chain_ok base (blocks R)" using assms(1) by (simp add: reasm_ok_def)
  have sq: "seq_off base sq < half_space" using assms(4) by simp
  have m: "m < length (blocks R)" "\<forall>c \<in> set (take m (blocks R)). seq_off base (upper c) \<le> seq_off base sq"
    "seq_off base (upper (blocks R ! m)) \<le> seq_off base sq \<longrightarrow> m + 1 = length (blocks R)"
    using skip_before_ok [OF chain assms(2) sq assms(6)] by (simp_all add: m_def Let_def)
  let ?b = "blocks R ! m"
  have ok: "block_ok base ?b" using chain m(1) by (simp add: chain_ok_def)
  note bd = block_bounds [OF ok]
  have upo: "seq_off base up = seq_off base sq + length data" unfolding assms(5) using assms(4) by (rule seq_off_add)
  have d: "seq_delta (upper ?b) sq = int (seq_off base (upper ?b)) - int (seq_off base sq)"
    "seq_delta up (seq ?b) = int (seq_off base up) - int (seq_off base (seq ?b))"
    "seq_delta sq (seq ?b) = int (seq_off base sq) - int (seq_off base (seq ?b))"
    "seq_delta up sq = int (length data)"
    "seq_delta (seq ?b) sq = int (seq_off base (seq ?b)) - int (seq_off base sq)"
    using assms(4) bd sq upo by (simp_all add: seq_delta_off [of base])
  consider (after) "seq_off base (upper ?b) \<le> seq_off base sq"
    | (front) "seq_off base sq < seq_off base (upper ?b)" "seq_off base up \<le> seq_off base (seq ?b)"
    | (prefix) "seq_off base sq < seq_off base (upper ?b)" "seq_off base (seq ?b) < seq_off base up"
        "seq_off base sq < seq_off base (seq ?b)"
    | (inside) "seq_off base sq < seq_off base (upper ?b)" "seq_off base (seq ?b) < seq_off base up"
        "seq_off base (seq ?b) \<le> seq_off base sq" by linarith
  then show ?thesis
  proof cases
    case after
    have all: "\<forall>c \<in> set (blocks R). seq_off base (upper c) \<le> seq_off base sq"
      using m after by (metis Un_iff add.commute append_take_drop_id less_add_one plus_1_eq_Suc
          self_append_conv set_append take_Suc_conv_app_nth take_all_iff empty_iff empty_set
          insert_iff le_refl list.simps(15))
    have "sint (up - sq) = int (length data)" using d(4) by (simp add: seq_delta_def)
    with m after append_after_eq [of m R up sq data] append_ok [OF assms(1,3,4) all] show ?thesis
      by (simp add: search_place_def m_def [symmetric] Let_def d step_ok_def)
  next
    case front
    have "insert_before m data (int (length data)) sq R = Ret (next_addr R, new_block_at m R sq data)"
      using insert_before_eq [of "length data" data m sq R] by simp
    with m front insert_ok [OF assms(1) m(1) assms(3,4) m(2)] upo show ?thesis
      by (simp add: search_place_def m_def [symmetric] Let_def d step_ok_def)
  next
    case prefix
    define p where "p = seq_off base (seq ?b) - seq_off base sq"
    have p: "seq_delta (seq ?b) sq = int p" "0 < p" "p < length data" "seq_off base sq + p = seq_off base (seq ?b)"
      using prefix d(5) upo by (simp_all add: p_def)
    define R1 where "R1 = new_block_at m R sq (take p data)"
    have ins: "insert_before m data (int p) sq R = Ret (next_addr R, R1)"
      using insert_before_eq [of p data m sq R] p by (simp add: R1_def)
    have post: "add_post base R sq (take p data) (next_addr R) R1"
      unfolding R1_def using p assms(3,4) by (intro insert_ok [OF assms(1) m(1) _ _ m(2)]) auto
    have b1: "blocks R1 ! (m + 1) = ?b" "m + 1 < length (blocks R1)"
      using m(1) by (simp_all add: R1_def new_block_at_def insert_at_def nth_append)
    have off: "seq_off base (sq + word_of_nat p) = seq_off base (seq ?b)"
      using p assms(4) by (subst seq_off_add) auto
    have "step_ok base R1 (sq + word_of_nat p) up (drop p data)
        (handle_overlap overlap (m + 1) (Some (next_addr R)) (sq + word_of_nat p) up (drop p data) R1)"
    proof (rule overlap_step_ok)
      show "up = sq + word_of_nat p + word_of_nat (length (drop p data))"
        unfolding assms(5) using p by (intro drop_up) simp
    qed (use post p off b1 bd assms(4) in \<open>auto simp: add_post_def\<close>)
    then have "step_ok base R sq up data
        (handle_overlap overlap (m + 1) (Some (next_addr R)) (sq + word_of_nat p) up (drop p data) R1)"
      using step_ok_after_prefix [OF post assms(4)] p by simp
    then show ?thesis
      using m(1) prefix by (simp add: search_place_def m_def [symmetric] Let_def d(1-3) p(1) ins)
  next
    case inside
    then show ?thesis
      using m(1) overlap_step_ok [OF assms(1) m(1) assms(3-5) inside(3,1), of None overlap]
      by (simp add: search_place_def m_def [symmetric] Let_def d)
  qed
qed

lemma last_upper:
  assumes "chain_ok base bs" "c \<in> set bs"
  shows "seq_off base (upper c) \<le> seq_off base (upper (last bs))"
proof -
  from assms(2) obtain j where j: "j < length bs" "c = bs ! j" by (auto simp: in_set_conv_nth)
  have ne: "bs \<noteq> []" using j by auto
  show ?thesis
  proof (cases "j = length bs - 1")
    case False
    with j have "before base c (last bs)"
      using assms(1) sorted_wrt_nth_less [of "before base" bs j "length bs - 1"] ne
      by (simp add: chain_ok_def last_conv_nth)
    moreover have "block_ok base (last bs)" using assms(1) ne by (simp add: chain_ok_def)
    ultimately show ?thesis using block_bounds(1) [of base "last bs"] by (simp add: before_def)
  qed (use j ne in \<open>simp add: last_conv_nth\<close>)
qed

lemma add_step_ok:
  assumes "reasm_ok base R" "n < length (blocks R)" "data \<noteq> []" "seq_off base sq + length data < half_space"
    and "up = sq + word_of_nat (length data)"
    and "\<forall>c \<in> set (take n (blocks R)). seq_off base (upper c) \<le> seq_off base sq"
  shows "step_ok base R sq up data (add_step overlap n sq up data R)"
proof -
  have chain: "chain_ok base (blocks R)" using assms(1) by (simp add: reasm_ok_def)
  have ne: "blocks R \<noteq> []" using assms(2) by auto
  define l where "l = length (blocks R) - 1"
  have l: "blocks R ! l = last (blocks R)" "l + 1 = length (blocks R)" "l < length (blocks R)"
    using ne by (simp_all add: l_def last_conv_nth)
  have last: "last_block R = Some (db_addr (last (blocks R)))" using assms(1) ne by (simp add: reasm_ok_def)
  have pos: "block_pos (db_addr (last (blocks R))) (blocks R) = Some l"
    using block_pos_nth [of "blocks R" l] chain l by (simp add: chain_ok_def)
  show ?thesis
  proof (cases "sq = upper (last (blocks R))")
    case True
    have "seq_delta up sq = int (length data)"
      using assms(4) seq_off_add [OF assms(4)] by (simp add: assms(5) seq_delta_off [of base])
    then have "sint (up - sq) = int (length data)" by (simp add: seq_delta_def)
    moreover have "\<forall>c \<in> set (blocks R). seq_off base (upper c) \<le> seq_off base sq"
      using last_upper [OF chain] True by simp
    ultimately show ?thesis
      using True l last pos append_after_eq [of l R up sq data] append_ok [OF assms(1,3,4)]
      by (simp add: add_step_def step_ok_def)
  next
    case False
    then have "add_step overlap n sq up data R = search_place overlap n sq up data R"
      using last pos l by (simp add: add_step_def)
    then show ?thesis using search_place_ok [OF assms] by simp
  qed
qed

text \<open>The whole recursive function.\<close>

lemma AddAndCheck_ok:
  assumes "reasm_ok base R" "n < length (blocks R)" "data \<noteq> []" "seq_off base sq + length data < half_space"
    and "up = sq + word_of_nat (length data)"
    and "\<forall>c \<in> set (take n (blocks R)). seq_off base (upper c) \<le> seq_off base sq"
  shows "\<exists>a R'. AddAndCheck overlap n sq up data R = Ret (a, R') \<and> add_post base R sq data a R'"
  using assms
proof (induction "length data" arbitrary: data n sq R rule: less_induct)
  case less
  from add_step_ok [OF less.prems, of overlap] consider
      (added) a R' where "add_step overlap n sq up data R = Ret (Added a R')" "add_post base R sq data a R'"
    | (rest) nb n' sq' data' R' where "add_step overlap n sq up data R = Ret (Remainder nb n' sq' data' R')"
        "remainder_ok base R sq up data nb n' sq' data' R'"
    by (auto simp: step_ok_def split: run.splits add_result.splits)
  then show ?case
  proof cases
    case added
    then show ?thesis by (subst AddAndCheck.simps) simp
  next
    case rest
    note ok = rest(2) [unfolded remainder_ok_def]
    from ok less.hyps [of data' R' n' sq'] obtain a R'' where
      rec: "AddAndCheck overlap n' sq' up data' R' = Ret (a, R'')" "add_post base R' sq' data' a R''" by blast
    let ?a = "case nb of None \<Rightarrow> a | Some a' \<Rightarrow> a'"
    have a: "?a \<in> db_addr ` set (blocks R'')"
    proof (cases nb)
      case (Some a')
      with ok have "a' \<in> db_addr ` set (blocks R')" by simp
      moreover have "db_addr ` set (blocks R') \<subseteq> db_addr ` set (blocks R'')" using rec(2) by (simp add: add_post_def)
      ultimately show ?thesis using Some by (simp only: option.case) (rule subsetD)
    qed (use rec(2) in \<open>simp add: add_post_def\<close>)
    moreover have "reasm_ok base R''" using rec(2) by (simp add: add_post_def)
    ultimately have "fix_last ?a R'' = Ret (?a, R'')" by (intro fix_last_same)
    then have "AddAndCheck overlap n sq up data R = Ret (?a, R'')"
      by (subst AddAndCheck.simps) (simp add: rest(1) rec(1))
    moreover have "db_addr ` set (blocks R) \<subseteq> db_addr ` set (blocks R'')"
      by (rule subset_trans [of _ "db_addr ` set (blocks R')"]) (use rec(2) ok in \<open>simp_all add: add_post_def\<close>)
    with rec(2) ok a have "add_post base R sq data ?a R''" by (simp add: add_post_def)
    ultimately show ?thesis by blast
  qed
qed

end
