(* ===== verification/Bro_Reassem_Start.thy ===== *)
theory Bro_Reassem_Start
  imports Bro_Reassem_Add
begin

text \<open>
  Which block \<open>AddAndCheck\<close> returns: the first of the blocks it creates, which starts at the first position of the
  data that was not held before.  Blocks are never changed.
\<close>

definition first_new :: "(nat \<rightharpoonup> u8) \<Rightarrow> (nat \<rightharpoonup> u8) \<Rightarrow> nat \<Rightarrow> bool" where
  "first_new d m p \<longleftrightarrow> p \<in> dom d \<and> p \<notin> dom m \<and> (\<forall>q \<in> dom d. q < p \<longrightarrow> q \<in> dom m)"

definition starts_at :: "u32 \<Rightarrow> 'x Reassembler \<Rightarrow> nat \<Rightarrow> nat \<Rightarrow> bool" where
  "starts_at base R a p \<longleftrightarrow> (\<exists>b \<in> set (blocks R). db_addr b = a \<and> seq_off base (seq b) = p)"

definition start_step :: "u32 \<Rightarrow> 'x Reassembler \<Rightarrow> u32 \<Rightarrow> bytes \<Rightarrow> 'x add_result \<Rightarrow> bool" where
  "start_step base R sq data res \<longleftrightarrow>
     (case res of
        Added a R' \<Rightarrow> set (blocks R) \<subseteq> set (blocks R')
          \<and> (\<forall>p. first_new (data_map base sq data) (content base (blocks R)) p \<longrightarrow> starts_at base R' a p)
      | Remainder nb n sq' data' R' \<Rightarrow> set (blocks R) \<subseteq> set (blocks R')
          \<and> (\<forall>p. first_new (data_map base sq data) (content base (blocks R)) p \<longrightarrow>
               (case nb of
                  None \<Rightarrow> first_new (data_map base sq' data') (content base (blocks R')) p
                | Some a \<Rightarrow> starts_at base R' a p)))"

lemma starts_at_ext [simp]: "starts_at base (R\<lparr>r_ext := x\<rparr>) a p = starts_at base R a p"
  "starts_at base (R\<lparr>last_block := l\<rparr>) a p = starts_at base R a p"
  by (simp_all add: starts_at_def)

lemma starts_at_mono: "set (blocks R) \<subseteq> set (blocks R') \<Longrightarrow> starts_at base R a p \<Longrightarrow> starts_at base R' a p"
  by (auto simp: starts_at_def)

lemma new_block_at_set: "set (blocks R) \<subseteq> set (blocks (new_block_at n R sq data))"
  and new_block_at_starts: "starts_at base (new_block_at n R sq data) (next_addr R) (seq_off base sq)"
proof -
  have "set (blocks R) = set (take n (blocks R)) \<union> set (drop n (blocks R))"
    by (metis append_take_drop_id set_append)
  then show "set (blocks R) \<subseteq> set (blocks (new_block_at n R sq data))" by (auto simp: new_block_at_def insert_at_def)
qed (simp add: starts_at_def new_block_at_def insert_at_def)

lemma content_None:
  assumes "\<forall>b \<in> set bs. block_ok base b" "\<forall>b \<in> set bs. seq_off base (upper b) \<le> p \<or> p < seq_off base (seq b)"
  shows "p \<notin> dom (content base bs)"
proof -
  have "p \<notin> dom (data_map base (seq b) (block b))" if "b \<in> set bs" for b
    using block_upper [of base b] assms that unfolding data_map_dom by fastforce
  then show ?thesis by (simp add: content_dom)
qed

text \<open>A block put where nothing of its first position is held.\<close>

lemma first_new_at:
  assumes "first_new (data_map base sq data) m p" "seq_off base sq \<notin> dom m" "data \<noteq> []"
  shows "p = seq_off base sq"
  using assms unfolding first_new_def data_map_dom by (metis atLeastLessThan_iff le_eq_less_or_eq length_greater_0_conv
      less_add_same_cancel1)

lemma between_None:
  assumes "chain_ok base bs" "n \<le> length bs" "\<forall>c \<in> set (take n bs). seq_off base (upper c) \<le> p"
    and "n < length bs \<Longrightarrow> p < seq_off base (seq (bs ! n))"
  shows "p \<notin> dom (content base bs)"
proof (rule content_None)
  show "\<forall>b \<in> set bs. block_ok base b" using assms(1) by (simp add: chain_ok_def)
  show "\<forall>b \<in> set bs. seq_off base (upper b) \<le> p \<or> p < seq_off base (seq b)"
  proof
    fix b assume "b \<in> set bs"
    then obtain i where i: "i < length bs" "b = bs ! i" by (auto simp: in_set_conv_nth)
    show "seq_off base (upper b) \<le> p \<or> p < seq_off base (seq b)"
    proof (cases "i < n")
      case True
      then have "b \<in> set (take n bs)" using i by (auto simp: in_set_conv_nth)
      then show ?thesis using assms(3) by blast
    next
      case False
      with i have n: "n < length bs" by simp
      show ?thesis
      proof (cases "i = n")
        case False
        with \<open>\<not> i < n\<close> i have "before base (bs ! n) b"
          using assms(1) sorted_wrt_nth_less [of "before base" bs n i] by (simp add: chain_ok_def)
        moreover have "block_ok base (bs ! n)" using assms(1) n by (simp add: chain_ok_def)
        ultimately show ?thesis using assms(4) [OF n] block_bounds(1) [of base "bs ! n"] by (simp add: before_def)
      qed (use assms(4) n i in simp)
    qed
  qed
qed

text \<open>The part of the data that is passed over is held already.\<close>

lemma first_new_rest:
  assumes "first_new (data_map base sq data) m p" "seq_off base sq + length data < half_space" "k \<le> length data"
    and "\<forall>q. seq_off base sq \<le> q \<and> q < seq_off base sq + k \<longrightarrow> q \<in> dom m"
  shows "first_new (data_map base (sq + word_of_nat k) (drop k data)) m p"
proof -
  have "seq_off base (sq + word_of_nat k) = seq_off base sq + k" using assms(2,3) by (intro seq_off_add) simp
  then have "dom (data_map base (sq + word_of_nat k) (drop k data)) = dom (data_map base sq data) \<inter> {seq_off base sq + k..}"
    using assms(3) unfolding data_map_dom by auto
  with assms(1,4) show ?thesis unfolding first_new_def data_map_dom by auto
qed

lemma block_covers:
  assumes "chain_ok base bs" "n < length bs" "seq_off base (seq (bs ! n)) \<le> q" "q < seq_off base (upper (bs ! n))"
  shows "q \<in> dom (content base bs)"
proof -
  have "block_ok base (bs ! n)" using assms(1,2) by (simp add: chain_ok_def)
  then have "q \<in> dom (data_map base (seq (bs ! n)) (block (bs ! n)))"
    using assms(3,4) block_upper unfolding data_map_dom by fastforce
  then show ?thesis using assms(2) by (auto simp: content_dom)
qed

lemma handle_overlap_start:
  assumes "reasm_ok base R" "n < length (blocks R)" "data \<noteq> []" "seq_off base sq + length data < half_space"
    and "up = sq + word_of_nat (length data)"
    and "seq_off base (seq (blocks R ! n)) \<le> seq_off base sq" "seq_off base sq < seq_off base (upper (blocks R ! n))"
    and "\<And>a. new_b = Some a \<Longrightarrow> a \<in> db_addr ` set (blocks R)"
    and "handle_overlap overlap n new_b sq up data R = Ret res"
  shows "case new_b of
      None \<Rightarrow> start_step base R sq data res
    | Some a \<Rightarrow> (\<exists>x. res = Added a (R\<lparr>r_ext := x\<rparr>)) \<or> (\<exists>n' sq' d' x. res = Remainder (Some a) n' sq' d' (R\<lparr>r_ext := x\<rparr>))"
proof -
  define k where "k = min (length data) (seq_off base (upper (blocks R ! n)) - seq_off base sq)"
  obtain x where res: "res = (if k < length data then Remainder new_b n (sq + word_of_nat k) (drop k data) (R\<lparr>r_ext := x\<rparr>)
     else Added (case new_b of None \<Rightarrow> db_addr (blocks R ! n) | Some a \<Rightarrow> a) (R\<lparr>r_ext := x\<rparr>))"
    using handle_overlap_ok [OF assms(1-7), of new_b overlap] assms(8,9) unfolding k_def by auto
  have chain: "chain_ok base (blocks R)" using assms(1) by (simp add: reasm_ok_def)
  have held: "\<forall>q. seq_off base sq \<le> q \<and> q < seq_off base sq + k \<longrightarrow> q \<in> dom (content base (blocks R))"
  proof (intro allI impI)
    fix q assume "seq_off base sq \<le> q \<and> q < seq_off base sq + k"
    with assms(6,7) show "q \<in> dom (content base (blocks R))"
      unfolding k_def by (intro block_covers [OF chain assms(2)]) linarith+
  qed
  have k: "k \<le> length data" by (simp add: k_def)
  have "False" if "first_new (data_map base sq data) (content base (blocks R)) p" "k = length data" for p
    using that held unfolding first_new_def data_map_dom by auto
  then show ?thesis
    using res k first_new_rest [OF _ assms(4) k held] by (cases new_b) (auto simp: start_step_def)
qed

lemma search_place_start:
  assumes "reasm_ok base R" "n < length (blocks R)" "data \<noteq> []" "seq_off base sq + length data < half_space"
    and "up = sq + word_of_nat (length data)"
    and "\<forall>c \<in> set (take n (blocks R)). seq_off base (upper c) \<le> seq_off base sq"
    and "search_place overlap n sq up data R = Ret res"
  shows "start_step base R sq data res"
proof -
  define m where "m = skip_before sq (blocks R) n"
  have chain: "chain_ok base (blocks R)" using assms(1) by (simp add: reasm_ok_def)
  have sq: "seq_off base sq < half_space" using assms(4) by simp
  have m: "m < length (blocks R)" "\<forall>c \<in> set (take m (blocks R)). seq_off base (upper c) \<le> seq_off base sq"
    "seq_off base (upper (blocks R ! m)) \<le> seq_off base sq \<longrightarrow> m + 1 = length (blocks R)"
    using skip_before_ok [OF chain assms(2) sq assms(6)] by (simp_all add: m_def Let_def)
  let ?b = "blocks R ! m"
  have ok: "block_ok base ?b" using chain m(1) by (simp add: chain_ok_def)
  note bd = block_bounds [OF ok]
  have upo: "seq_off base up = seq_off base sq + length data" unfolding assms(5) using assms(4) by (rule seq_off_add)
  have d: "seq_delta (upper ?b) sq = int (seq_off base (upper ?b)) - int (seq_off base sq)"
    "seq_delta up (seq ?b) = int (seq_off base up) - int (seq_off base (seq ?b))"
    "seq_delta sq (seq ?b) = int (seq_off base sq) - int (seq_off base (seq ?b))"
    "seq_delta up sq = int (length data)"
    "seq_delta (seq ?b) sq = int (seq_off base (seq ?b)) - int (seq_off base sq)"
    using assms(4) bd sq upo by (simp_all add: seq_delta_off [of base])
  have fresh: "start_step base R sq data (Added (next_addr R) R')"
    if "seq_off base sq \<notin> dom (content base (blocks R))" "blocks R' = blocks (new_block_at k R sq data)" for k R'
    using that new_block_at_set [of R k sq data] new_block_at_starts [of base k R sq data] first_new_at [OF _ that(1) assms(3)]
    by (auto simp: start_step_def starts_at_def)
  have unf: "search_place overlap n sq up data R =
      (if seq_off base (upper ?b) \<le> seq_off base sq then run_bind (append_after m data sq up R) (\<lambda>(a, R). Ret (Added a R))
       else if seq_off base up \<le> seq_off base (seq ?b)
       then run_bind (insert_before m data (int (length data)) sq R) (\<lambda>(a, R). Ret (Added a R))
       else if seq_off base sq < seq_off base (seq ?b)
       then run_bind (insert_before m data (seq_delta (seq ?b) sq) sq R) (\<lambda>(new_b, R).
             handle_overlap overlap (m + 1) (Some new_b) (sq + word_of_int (seq_delta (seq ?b) sq)) up
               (drop (nat (seq_delta (seq ?b) sq)) data) R)
       else handle_overlap overlap m None sq up data R)"
    unfolding search_place_def m_def [symmetric] Let_def using m(1) d by simp
  consider (after) "seq_off base (upper ?b) \<le> seq_off base sq"
    | (front) "seq_off base sq < seq_off base (upper ?b)" "seq_off base up \<le> seq_off base (seq ?b)"
    | (prefix) "seq_off base sq < seq_off base (upper ?b)" "seq_off base (seq ?b) < seq_off base up"
        "seq_off base sq < seq_off base (seq ?b)"
    | (inside) "seq_off base sq < seq_off base (upper ?b)" "seq_off base (seq ?b) < seq_off base up"
        "seq_off base (seq ?b) \<le> seq_off base sq" by linarith
  then show ?thesis
  proof cases
    case after
    have all: "\<forall>c \<in> set (take (length (blocks R)) (blocks R)). seq_off base (upper c) \<le> seq_off base sq"
      using last_upper [OF chain] m(3) after by (metis Suc_eq_plus1 diff_Suc_1 last_conv_nth le_trans length_0_conv not_less0
          m(1) take_all_iff order_refl)
    have "sint (up - sq) = int (length data)" using d(4) by (simp add: seq_delta_def)
    with m after append_after_eq [of m R up sq data] assms(7) unf
    have "res = Added (next_addr R) ((new_block_at (length (blocks R)) R sq data)\<lparr>last_block := Some (next_addr R)\<rparr>)" by simp
    moreover have "seq_off base sq \<notin> dom (content base (blocks R))" by (rule between_None [OF chain _ all]) simp_all
    ultimately show ?thesis using fresh by simp
  next
    case front
    have "insert_before m data (int (length data)) sq R = Ret (next_addr R, new_block_at m R sq data)"
      using insert_before_eq [of "length data" data m sq R] by simp
    with m front assms(7) unf have "res = Added (next_addr R) (new_block_at m R sq data)" by simp
    moreover have "seq_off base sq \<notin> dom (content base (blocks R))"
      using front(2) upo assms(3) m(1) by (intro between_None [OF chain _ m(2)]) (cases data; simp)+
    ultimately show ?thesis using fresh by simp
  next
    case prefix
    define p where "p = seq_off base (seq ?b) - seq_off base sq"
    have p: "seq_delta (seq ?b) sq = int p" "0 < p" "p < length data" "seq_off base sq + p = seq_off base (seq ?b)"
      using prefix d(5) upo by (simp_all add: p_def)
    define R1 where "R1 = new_block_at m R sq (take p data)"
    have ins: "insert_before m data (int p) sq R = Ret (next_addr R, R1)"
      using insert_before_eq [of p data m sq R] p by (simp add: R1_def)
    have post: "add_post base R sq (take p data) (next_addr R) R1"
      unfolding R1_def using p assms(3,4) by (intro insert_ok [OF assms(1) m(1) _ _ m(2)]) auto
    have b1: "blocks R1 ! (m + 1) = ?b" "m + 1 < length (blocks R1)"
      using m(1) by (simp_all add: R1_def new_block_at_def insert_at_def nth_append)
    have off: "seq_off base (sq + word_of_nat p) = seq_off base (seq ?b)"
      using p assms(4) by (subst seq_off_add) auto
    have up': "up = sq + word_of_nat p + word_of_nat (length (drop p data))"
      unfolding assms(5) using p by (intro drop_up) simp
    have run: "handle_overlap overlap (m + 1) (Some (next_addr R)) (sq + word_of_nat p) up (drop p data) R1 = Ret res"
      using assms(7) unf prefix p(1) ins by simp
    have "case Some (next_addr R) of None \<Rightarrow> start_step base R1 (sq + word_of_nat p) (drop p data) res
      | Some a \<Rightarrow> (\<exists>x. res = Added a (R1\<lparr>r_ext := x\<rparr>)) \<or> (\<exists>n' sq' d' x. res = Remainder (Some a) n' sq' d' (R1\<lparr>r_ext := x\<rparr>))"
      by (rule handle_overlap_start [OF _ b1(2) _ _ up' _ _ _ run]) (use post p off b1 bd assms(4) in \<open>auto simp: add_post_def\<close>)
    moreover have "seq_off base sq \<notin> dom (content base (blocks R))"
      using prefix(3) m(1) by (intro between_None [OF chain _ m(2)]) simp_all
    then have "first_new (data_map base sq data) (content base (blocks R)) q \<Longrightarrow> q = seq_off base sq" for q
      using first_new_at [OF _ _ assms(3)] by blast
    ultimately show ?thesis
      using new_block_at_set [of R m sq "take p data"] new_block_at_starts [of base m R sq "take p data"]
      by (fastforce simp: start_step_def R1_def)
  next
    case inside
    then have "handle_overlap overlap m None sq up data R = Ret res" using assms(7) unf by simp
    from handle_overlap_start [OF assms(1) m(1) assms(3-5) inside(3,1) _ this] show ?thesis by simp
  qed
qed

lemma add_step_start:
  assumes "reasm_ok base R" "n < length (blocks R)" "data \<noteq> []" "seq_off base sq + length data < half_space"
    and "up = sq + word_of_nat (length data)"
    and "\<forall>c \<in> set (take n (blocks R)). seq_off base (upper c) \<le> seq_off base sq"
    and "add_step overlap n sq up data R = Ret res"
  shows "start_step base R sq data res"
proof -
  have chain: "chain_ok base (blocks R)" using assms(1) by (simp add: reasm_ok_def)
  have ne: "blocks R \<noteq> []" using assms(2) by auto
  define l where "l = length (blocks R) - 1"
  have l: "blocks R ! l = last (blocks R)" "l + 1 = length (blocks R)" "l < length (blocks R)"
    using ne by (simp_all add: l_def last_conv_nth)
  have last: "last_block R = Some (db_addr (last (blocks R)))" using assms(1) ne by (simp add: reasm_ok_def)
  have pos: "block_pos (db_addr (last (blocks R))) (blocks R) = Some l"
    using block_pos_nth [of "blocks R" l] chain l by (simp add: chain_ok_def)
  show ?thesis
  proof (cases "sq = upper (last (blocks R))")
    case True
    have "seq_delta up sq = int (length data)"
      using assms(4) seq_off_add [OF assms(4)] by (simp add: assms(5) seq_delta_off [of base])
    then have "sint (up - sq) = int (length data)" by (simp add: seq_delta_def)
    then have res: "res = Added (next_addr R) ((new_block_at (length (blocks R)) R sq data)\<lparr>last_block := Some (next_addr R)\<rparr>)"
      using True l last pos append_after_eq [of l R up sq data] assms(7) by (simp add: add_step_def)
    have "\<forall>c \<in> set (take (length (blocks R)) (blocks R)). seq_off base (upper c) \<le> seq_off base sq"
      using last_upper [OF chain] True by simp
    from between_None [OF chain _ this] have "seq_off base sq \<notin> dom (content base (blocks R))" by simp
    with res new_block_at_set [of R _ sq data] new_block_at_starts [of base _ R sq data] first_new_at [OF _ _ assms(3)]
    show ?thesis by (fastforce simp: start_step_def starts_at_def)
  next
    case False
    then have "search_place overlap n sq up data R = Ret res" using last pos l assms(7) by (simp add: add_step_def)
    then show ?thesis by (rule search_place_start [OF assms(1-6)])
  qed
qed

lemma AddAndCheck_start:
  assumes "reasm_ok base R" "n < length (blocks R)" "data \<noteq> []" "seq_off base sq + length data < half_space"
    and "up = sq + word_of_nat (length data)"
    and "\<forall>c \<in> set (take n (blocks R)). seq_off base (upper c) \<le> seq_off base sq"
    and "AddAndCheck overlap n sq up data R = Ret (a, R')"
  shows "start_step base R sq data (Added a R')"
  using assms
proof (induction "length data" arbitrary: data n sq R a R' rule: less_induct)
  case less
  from less.prems(7) obtain res where res: "add_step overlap n sq up data R = Ret res"
    by (subst (asm) AddAndCheck.simps) (auto simp: run_bind_eq_Ret)
  have start: "start_step base R sq data res" by (rule add_step_start [OF less.prems(1-6) res])
  show ?case
  proof (cases res)
    case (Added a1 R1)
    with less.prems(7) res have "a1 = a \<and> R1 = R'" by (subst (asm) AddAndCheck.simps) simp
    with start Added show ?thesis by simp
  next
    case (Remainder nb n' sq' data' R1)
    from add_step_ok [OF less.prems(1-6), of overlap] res Remainder
    have ok: "remainder_ok base R sq up data nb n' sq' data' R1" by (simp add: step_ok_def)
    note ok = ok [unfolded remainder_ok_def]
    obtain a2 R2 where rec: "AddAndCheck overlap n' sq' up data' R1 = Ret (a2, R2)"
      and fl: "fix_last (case nb of None \<Rightarrow> a2 | Some a \<Rightarrow> a) R2 = Ret (a, R')"
      using less.prems(7) res Remainder by (subst (asm) AddAndCheck.simps) (auto simp: run_bind_eq_Ret)
    from less.hyps [of data' R1 n' sq' a2 R2] ok rec have IH: "start_step base R1 sq' data' (Added a2 R2)" by blast
    have "a = (case nb of None \<Rightarrow> a2 | Some a \<Rightarrow> a)" "blocks R' = blocks R2"
      using fl by (auto simp: fix_last_def run_bind_eq_Ret)
    with IH start Remainder starts_at_mono [of R1 R2 base] show ?thesis
      by (auto simp: start_step_def starts_at_def split: option.splits)
  qed
qed

end
