(* ===== verification/Bro_Reassem_Props.thy ===== *)
theory Bro_Reassem_Props
  imports Bro_Reassem_Start
begin

text \<open>
  Correctness of the reassembler: what a subclass keeps in its extension, \<open>NewBlock\<close> as a whole, trimming and
  clearing, and the runs that mix them.  The abstraction is the partial map from positions to bytes of
  \<open>Bro_Reassem_Add\<close>, whose invariant keeps all blocks within \<open>2 ^ 31\<close> of a base, where the signed comparison
  of sequence numbers is the order of the offsets.
\<close>

section \<open>What the subclass keeps\<close>

text \<open>What the subclass keeps changes through its overlap callback only.\<close>

definition kept_by :: "(bytes \<Rightarrow> bytes \<Rightarrow> 'x \<Rightarrow> 'x) \<Rightarrow> 'x \<Rightarrow> 'x \<Rightarrow> bool" where
  "kept_by overlap x x' \<longleftrightarrow> (\<forall>Q. (\<forall>b c y. Q y \<longrightarrow> Q (overlap b c y)) \<longrightarrow> Q x \<longrightarrow> Q x')"

lemma kept_refl [simp]: "kept_by overlap x x" "kept_by overlap x (overlap b c x)"
  by (simp_all add: kept_by_def)

lemma kept_trans: "kept_by overlap x y \<Longrightarrow> kept_by overlap y z \<Longrightarrow> kept_by overlap x z"
  unfolding kept_by_def by blast

lemma new_DataBlock_ext: "new_DataBlock data sz sq R = Ret (b, R') \<Longrightarrow> r_ext R' = r_ext R"
  by (auto simp: new_DataBlock_def split: if_splits)

lemma fix_last_ext: "fix_last a R = Ret (b, R') \<Longrightarrow> r_ext R' = r_ext R"
  by (auto simp: fix_last_def run_bind_eq_Ret split: if_splits)

definition result_ext :: "'x add_result \<Rightarrow> 'x" where
  "result_ext res = (case res of Added a R \<Rightarrow> r_ext R | Remainder nb n sq data R \<Rightarrow> r_ext R)"

lemma handle_overlap_ext:
  "handle_overlap overlap n nb sq up data R = Ret res \<Longrightarrow> kept_by overlap (r_ext R) (result_ext res)"
  by (auto simp: handle_overlap_def Let_def result_ext_def run_bind_eq_Ret dest!: fix_last_ext split: if_splits)

lemma add_step_ext:
  assumes "add_step overlap n sq up data R = Ret res"
  shows "kept_by overlap (r_ext R) (result_ext res)"
proof -
  have app: "kept_by overlap (r_ext R) (result_ext res)"
    if "run_bind (append_after k data sq up R) (\<lambda>(a, R). Ret (Added a R)) = Ret res" for k
    using that by (auto simp: append_after_def run_bind_eq_Ret result_ext_def dest!: new_DataBlock_ext)
  have ins: "kept_by overlap (r_ext R) (result_ext res)"
    if "run_bind (insert_before k data sz sq R) (\<lambda>(a, R). Ret (Added a R)) = Ret res" for k sz
    using that by (auto simp: insert_before_def run_bind_eq_Ret result_ext_def dest!: new_DataBlock_ext)
  have pre: "kept_by overlap (r_ext R) (result_ext res)"
    if i: "insert_before k data sz sq R = Ret (nb, R1)" and h: "handle_overlap overlap m (Some nb) q up d R1 = Ret res"
    for k sz nb R1 m q d
  proof -
    have "r_ext R1 = r_ext R" using i by (auto simp: insert_before_def run_bind_eq_Ret dest!: new_DataBlock_ext)
    with handle_overlap_ext [OF h] show ?thesis by simp
  qed
  have "kept_by overlap (r_ext R) (result_ext res)" if "search_place overlap n sq up data R = Ret res"
    using that app ins by (auto simp: search_place_def Let_def run_bind_eq_Ret [of "insert_before _ _ _ _ _"]
        dest: handle_overlap_ext pre split: if_splits)
  with assms app show ?thesis by (auto simp: add_step_def split: option.splits if_splits)
qed

lemma AddAndCheck_ext:
  "AddAndCheck overlap n sq up data R = Ret (a, R') \<Longrightarrow> kept_by overlap (r_ext R) (r_ext R')"
proof (induction overlap n sq up data R arbitrary: a R' rule: AddAndCheck.induct)
  case (1 overlap n sq up data R)
  from "1.prems" obtain res where res: "add_step overlap n sq up data R = Ret res"
    by (subst (asm) AddAndCheck.simps) (auto simp: run_bind_eq_Ret)
  note kept = add_step_ext [OF res]
  show ?case
  proof (cases res)
    case (Added b S)
    with "1.prems" res kept show ?thesis by (subst (asm) AddAndCheck.simps) (simp add: result_ext_def)
  next
    case (Remainder nb n' sq' data' S)
    with "1.prems" res obtain b S' where "AddAndCheck overlap n' sq' up data' S = Ret (b, S')"
      "fix_last (case nb of None \<Rightarrow> b | Some a \<Rightarrow> a) S' = Ret (a, R')"
      by (subst (asm) AddAndCheck.simps) (auto simp: run_bind_eq_Ret)
    with "1.IH" [OF res Remainder] fix_last_ext show ?thesis
      using kept Remainder kept_trans by (fastforce simp: result_ext_def)
  qed
qed

text \<open>Bytes behind the segment in its buffer are never looked at.\<close>

lemma new_DataBlock_pad: "new_DataBlock data sz sq R = Ret x \<Longrightarrow> new_DataBlock (data @ pad) sz sq R = Ret x"
  by (auto simp: new_DataBlock_def split: if_splits)

fun pad_result :: "bytes \<Rightarrow> 'x add_result \<Rightarrow> 'x add_result" where
  "pad_result pad (Added a R) = Added a R"
| "pad_result pad (Remainder nb n sq data R) = Remainder nb n sq (data @ pad) R"

lemma handle_overlap_pad:
  assumes "handle_overlap overlap n nb sq up data R = Ret res"
  shows "handle_overlap overlap n nb sq up (data @ pad) R = Ret (pad_result pad res)"
proof -
  define ol where "ol = min (seq_delta up sq) (seq_delta (upper (blocks R ! n)) sq)"
  have "0 \<le> ol" "ol \<le> int (length data)"
    using assms by (auto simp: handle_overlap_def Let_def ol_def split: if_splits)
  then have "take (nat ol) (data @ pad) = take (nat ol) data" "drop (nat ol) (data @ pad) = drop (nat ol) data @ pad"
    by (simp_all add: nat_le_iff)
  with assms show ?thesis
    unfolding handle_overlap_def Let_def ol_def [symmetric]
    by (auto simp: run_bind_eq_Ret split: if_splits prod.splits)
qed

lemma append_after_pad: "append_after n data sq up R = Ret x \<Longrightarrow> append_after n (data @ pad) sq up R = Ret x"
  unfolding append_after_def run_bind_eq_Ret using new_DataBlock_pad by blast

lemma insert_before_pad: "insert_before n data sz sq R = Ret x \<Longrightarrow> insert_before n (data @ pad) sz sq R = Ret x"
  unfolding insert_before_def run_bind_eq_Ret using new_DataBlock_pad by blast

lemma insert_before_len: "insert_before n data sz sq R = Ret x \<Longrightarrow> nat sz \<le> length data"
  by (auto simp: insert_before_def run_bind_eq_Ret new_DataBlock_def split: if_splits)

lemma search_place_pad:
  assumes "search_place overlap n sq up data R = Ret res"
  shows "search_place overlap n sq up (data @ pad) R = Ret (pad_result pad res)"
proof -
  define m where "m = skip_before sq (blocks R) n"
  let ?b = "blocks R ! m"
  have m: "m < length (blocks R)" using assms by (auto simp: search_place_def Let_def m_def split: if_splits)
  note unf = search_place_def Let_def m_def [symmetric]
  consider "seq_delta (upper ?b) sq \<le> 0" | "\<not> seq_delta (upper ?b) sq \<le> 0" "seq_delta up (seq ?b) \<le> 0"
    | "\<not> seq_delta (upper ?b) sq \<le> 0" "\<not> seq_delta up (seq ?b) \<le> 0" "seq_delta sq (seq ?b) < 0"
    | "\<not> seq_delta (upper ?b) sq \<le> 0" "\<not> seq_delta up (seq ?b) \<le> 0" "\<not> seq_delta sq (seq ?b) < 0" by blast
  then show ?thesis
  proof cases
    case 1
    with assms m obtain a S where "append_after m data sq up R = Ret (a, S)" "res = Added a S"
      by (auto simp: unf run_bind_eq_Ret)
    with append_after_pad [of m data sq up R _ pad] 1 m show ?thesis by (simp add: unf)
  next
    case 2
    with assms m obtain a S where "insert_before m data (seq_delta up sq) sq R = Ret (a, S)" "res = Added a S"
      by (auto simp: unf run_bind_eq_Ret)
    with insert_before_pad [of m data "seq_delta up sq" sq R _ pad] 2 m show ?thesis by (simp add: unf)
  next
    case 3
    let ?p = "seq_delta (seq ?b) sq"
    from 3 assms m obtain nb R1 where i: "insert_before m data ?p sq R = Ret (nb, R1)"
      "handle_overlap overlap (m + 1) (Some nb) (sq + word_of_int ?p) up (drop (nat ?p) data) R1 = Ret res"
      by (auto simp: unf run_bind_eq_Ret)
    have "drop (nat ?p) (data @ pad) = drop (nat ?p) data @ pad" using insert_before_len [OF i(1)] by simp
    with 3 m insert_before_pad [OF i(1), of pad] handle_overlap_pad [OF i(2), of pad] show ?thesis by (simp add: unf)
  next
    case 4
    with assms m have "handle_overlap overlap m None sq up data R = Ret res" by (simp add: unf)
    from handle_overlap_pad [OF this, of pad] 4 m show ?thesis by (simp add: unf)
  qed
qed

lemma add_step_pad:
  assumes "add_step overlap n sq up data R = Ret res"
  shows "add_step overlap n sq up (data @ pad) R = Ret (pad_result pad res)"
proof -
  consider l where "\<exists>a. last_block R = Some a \<and> block_pos a (blocks R) = Some l" "sq = upper (blocks R ! l)"
      "run_bind (append_after l data sq up R) (\<lambda>(a, R). Ret (Added a R)) = Ret res"
    | "search_place overlap n sq up data R = Ret res"
        "\<And>d. add_step overlap n sq up d R = search_place overlap n sq up d R"
    using assms by (auto simp: add_step_def split: option.splits if_splits)
  then show ?thesis
  proof cases
    case 1
    then obtain a S where "append_after l data sq up R = Ret (a, S)" "res = Added a S" by (auto simp: run_bind_eq_Ret)
    with append_after_pad [of l data sq up R _ pad] 1(1,2) show ?thesis by (auto simp: add_step_def)
  next
    case 2
    then show ?thesis using search_place_pad by simp
  qed
qed

lemma AddAndCheck_pad:
  "AddAndCheck overlap n sq up data R = Ret x \<Longrightarrow> AddAndCheck overlap n sq up (data @ pad) R = Ret x"
proof (induction overlap n sq up data R arbitrary: x rule: AddAndCheck.induct)
  case (1 overlap n sq up data R)
  from "1.prems" obtain res where res: "add_step overlap n sq up data R = Ret res"
    by (subst (asm) AddAndCheck.simps) (auto simp: run_bind_eq_Ret)
  note padded = add_step_pad [OF res, of pad]
  show ?case
  proof (cases res)
    case (Added b S)
    with "1.prems" res padded show ?thesis
      by (subst AddAndCheck.simps, subst (asm) AddAndCheck.simps) simp
  next
    case (Remainder nb n' sq' data' S)
    with "1.prems" res obtain b S' where
      "AddAndCheck overlap n' sq' up data' S = Ret (b, S')" "fix_last (case nb of None \<Rightarrow> b | Some a \<Rightarrow> a) S' = Ret x"
      by (subst (asm) AddAndCheck.simps) (auto simp: run_bind_eq_Ret)
    with "1.IH" [OF res Remainder] Remainder padded show ?thesis by (subst AddAndCheck.simps) simp
  qed
qed

section \<open>New segments\<close>

lemma new_block_empty:
  assumes "reasm_ok base R" "blocks R = []" "data \<noteq> []" "seq_off base sq + length data < half_space"
  shows "\<exists>a R'. run_bind (new_DataBlock data (int (length data)) sq R) (\<lambda>(b, R).
      Ret (db_addr b, R\<lparr>blocks := [b], last_block := Some (db_addr b)\<rparr>)) = Ret (a, R') \<and> add_post base R sq data a R'
      \<and> start_step base R sq data (Added a R')"
proof -
  have "add_post base R sq data (next_addr R)
      ((new_block_at (length (blocks R)) R sq data)\<lparr>last_block := Some (next_addr R)\<rparr>)"
    using assms by (intro append_ok) simp_all
  moreover have "start_step base R sq data (Added (next_addr R)
      ((new_block_at (length (blocks R)) R sq data)\<lparr>last_block := Some (next_addr R)\<rparr>))"
    using assms(2) new_block_at_starts [of base _ R sq data] first_new_at [OF _ _ assms(3), of base sq Map.empty]
    by (fastforce simp: start_step_def)
  ultimately show ?thesis using assms(2) by (cases R) (simp add: new_DataBlock_Ret new_block_at_def)
qed

lemma data_map_restrict:
  assumes "seq_off base sq + length data < half_space" "seq_off base sq + k = t" "k \<le> length data"
  shows "data_map base (sq + word_of_nat k) (drop k data) = data_map base sq data |` {t..}"
proof
  fix p
  have off: "seq_off base (sq + word_of_nat k) = t"
    unfolding assms(2) [symmetric] using assms(1,3) by (intro seq_off_add) simp
  have "k + (p - t) = p - seq_off base sq" if "t \<le> p" using that assms(2) by simp
  then show "data_map base (sq + word_of_nat k) (drop k data) p = (data_map base sq data |` {t..}) p"
    using assms(2,3) unfolding data_map_def restrict_map_def off by auto
qed

lemma NewBlock_ok:
  assumes "reasm_ok base R" "data \<noteq> []" "seq_off base sq + length data < half_space"
    and "seq_off base (trim_seq R) < half_space"
  shows "if seq_off base sq + length data \<le> seq_off base (trim_seq R)
    then NewBlock inserted overlap sq (int (length data)) (data @ pad) R = Ret R
    else \<exists>a R'. NewBlock inserted overlap sq (int (length data)) (data @ pad) R = inserted a R' \<and> reasm_ok base R'
      \<and> content base (blocks R') = (data_map base sq data |` {seq_off base (trim_seq R)..}) ++ content base (blocks R)
      \<and> a \<in> db_addr ` set (blocks R') \<and> trim_seq R' = trim_seq R \<and> last_reassem_seq R' = last_reassem_seq R
      \<and> kept_by overlap (r_ext R) (r_ext R')
      \<and> (\<forall>p. first_new (data_map base sq data |` {seq_off base (trim_seq R)..}) (content base (blocks R)) p
            \<longrightarrow> starts_at base R' a p)
      \<and> set (blocks R) \<subseteq> set (blocks R')"
proof -
  let ?t = "seq_off base (trim_seq R)"
  have sq: "seq_off base sq < half_space" using assms(3) by simp
  have up: "seq_off base (sq + word_of_nat (length data)) = seq_off base sq + length data"
    using assms(3) by (rule seq_off_add)
  have d: "seq_delta (sq + word_of_nat (length data)) (trim_seq R) = int (seq_off base sq + length data) - int ?t"
    "seq_delta sq (trim_seq R) = int (seq_off base sq) - int ?t"
    "seq_delta (trim_seq R) sq = int ?t - int (seq_off base sq)"
    using assms(3,4) sq up by (simp_all add: seq_delta_off [of base])
  show ?thesis
  proof (cases "seq_off base sq + length data \<le> ?t")
    case True
    then have "NewBlock inserted overlap sq (int (length data)) (data @ pad) R = Ret R"
      using assms(2) d by (simp add: NewBlock_def Let_def)
    then show ?thesis using True by simp
  next
    case False
    define k where "k = ?t - seq_off base sq"
    define data' where "data' = drop k data"
    define sq' where "sq' = sq + word_of_nat k"
    have "0 < length data" using assms(2) by simp
    then have k: "k < length data" using False unfolding k_def by linarith
    have win: "seq_off base sq' + length data' < half_space"
      using seq_off_add [of base sq k] assms(3) k by (simp add: sq'_def data'_def)
    have ne: "data' \<noteq> []" using k by (simp add: data'_def)
    have upper: "sq + word_of_nat (length data) = sq' + word_of_nat (length data')"
      unfolding sq'_def data'_def using k by (intro drop_up) simp
    have post: "\<exists>a R'. (if blocks R = [] then
          run_bind (new_DataBlock data' (int (length data')) sq' R) (\<lambda>(b, R).
            Ret (db_addr b, R\<lparr>blocks := [b], last_block := Some (db_addr b)\<rparr>))
        else AddAndCheck overlap 0 sq' (sq + word_of_nat (length data)) data' R) = Ret (a, R')
        \<and> add_post base R sq' data' a R' \<and> start_step base R sq' data' (Added a R')"
      using new_block_empty [OF assms(1) _ ne win] AddAndCheck_ok [OF assms(1) _ ne win upper, of 0 overlap]
        AddAndCheck_start [OF assms(1) _ ne win upper, of 0 overlap] by auto
    have args: "(if seq_delta sq (trim_seq R) < 0
        then (drop (nat (seq_delta (trim_seq R) sq)) (data @ pad), sq + word_of_int (seq_delta (trim_seq R) sq),
              int (length data) - seq_delta (trim_seq R) sq)
        else (data @ pad, sq, int (length data))) = (data' @ pad, sq', int (length data'))"
    proof (cases "seq_off base sq < ?t")
      case True
      then have "seq_delta (trim_seq R) sq = int k" "seq_delta sq (trim_seq R) < 0" using d by (simp_all add: k_def)
      then show ?thesis using k by (simp add: data'_def sq'_def of_nat_diff)
    next
      case False
      then have "k = 0" "\<not> seq_delta sq (trim_seq R) < 0" using d by (simp_all add: k_def)
      then show ?thesis by (simp add: data'_def sq'_def)
    qed
    from post obtain a R' where R': "(if blocks R = [] then
          run_bind (new_DataBlock data' (int (length data')) sq' R) (\<lambda>(b, R).
            Ret (db_addr b, R\<lparr>blocks := [b], last_block := Some (db_addr b)\<rparr>))
        else AddAndCheck overlap 0 sq' (sq + word_of_nat (length data)) data' R) = Ret (a, R')"
      "add_post base R sq' data' a R'" "start_step base R sq' data' (Added a R')" by blast
    have "(if blocks R = [] then
          run_bind (new_DataBlock (data' @ pad) (int (length data')) sq' R) (\<lambda>(b, R).
            Ret (db_addr b, R\<lparr>blocks := [b], last_block := Some (db_addr b)\<rparr>))
        else AddAndCheck overlap 0 sq' (sq + word_of_nat (length data)) (data' @ pad) R) = Ret (a, R')"
      using R'(1) new_DataBlock_pad [of data' _ sq' R _ pad] AddAndCheck_pad [of overlap 0 sq' _ data' R _ pad]
      by (fastforce simp: run_bind_eq_Ret split: if_splits)
    note padded = this
    have "NewBlock inserted overlap sq (int (length data)) (data @ pad) R = inserted a R'"
    proof -
      have "seq_delta (sq + word_of_int (int (length data))) (trim_seq R) > 0" using False d(1) by simp
      moreover have "int (length data) \<noteq> 0" using assms(2) by simp
      ultimately show ?thesis
        unfolding NewBlock_def Let_def args by (simp only: prod.case of_int_of_nat_eq padded run_bind.simps if_False) simp
    qed
    moreover have "data_map base sq' data' = data_map base sq data |` {?t..}"
    proof (cases "seq_off base sq \<le> ?t")
      case True
      then show ?thesis unfolding sq'_def data'_def
        using k by (intro data_map_restrict [OF assms(3)]) (simp_all add: k_def)
    next
      case False
      then show ?thesis by (auto simp: sq'_def data'_def k_def data_map_def restrict_map_def)
    qed
    moreover have "kept_by overlap (r_ext R) (r_ext R')"
      using R'(1) by (auto simp: run_bind_eq_Ret dest!: new_DataBlock_ext AddAndCheck_ext split: if_splits)
    ultimately show ?thesis using False R'(2,3) by (auto simp: add_post_def start_step_def)
  qed
qed

section \<open>Sequences of segments\<close>

text \<open>Feeding segments in arrival order, with a subclass that does not deliver anything, and the
  bytes they carry, where the earliest segment that has a position decides.\<close>

fun new_blocks ::
  "(bytes \<Rightarrow> bytes \<Rightarrow> 'x \<Rightarrow> 'x) \<Rightarrow> (u32 \<times> bytes) list \<Rightarrow> 'x Reassembler \<Rightarrow> 'x Reassembler run" where
  "new_blocks overlap [] R = Ret R"
| "new_blocks overlap ((sq, data) # segs) R =
     run_bind (NewBlock (\<lambda>_. Ret) overlap sq (int (length data)) data R) (new_blocks overlap segs)"

fun first_copy :: "u32 \<Rightarrow> (u32 \<times> bytes) list \<Rightarrow> nat \<rightharpoonup> u8" where
  "first_copy base [] = Map.empty"
| "first_copy base ((sq, data) # segs) = first_copy base segs ++ data_map base sq data"

lemma NewBlock_step:
  assumes "reasm_ok base R" "seq_off base sq + length data < half_space" "seq_off base (trim_seq R) < half_space"
  shows "\<exists>R'. NewBlock (\<lambda>_. Ret) overlap sq (int (length data)) data R = Ret R' \<and> reasm_ok base R'
    \<and> content base (blocks R') = (data_map base sq data |` {seq_off base (trim_seq R)..}) ++ content base (blocks R)
    \<and> trim_seq R' = trim_seq R"
proof (cases "data = [] \<or> seq_off base sq + length data \<le> seq_off base (trim_seq R)")
  case True
  then have "data_map base sq data |` {seq_off base (trim_seq R)..} = Map.empty"
    by (auto simp: data_map_def restrict_map_def)
  moreover have "NewBlock (\<lambda>_. Ret) overlap sq (int (length data)) data R = Ret R"
    using True NewBlock_ok [OF assms(1) _ assms(2,3), of "\<lambda>_. Ret" overlap "[]"] by (cases "data = []") (auto simp: NewBlock_def)
  ultimately show ?thesis using assms(1) by simp
next
  case False
  then show ?thesis using NewBlock_ok [OF assms(1) _ assms(2,3), of "\<lambda>_. Ret" overlap "[]"] by auto
qed

lemma new_blocks_ok:
  assumes "reasm_ok base R" "\<forall>(sq, data) \<in> set segs. seq_off base sq + length data < half_space"
    and "seq_off base (trim_seq R) < half_space"
  shows "\<exists>R'. new_blocks overlap segs R = Ret R' \<and> reasm_ok base R'
    \<and> content base (blocks R') = (first_copy base segs |` {seq_off base (trim_seq R)..}) ++ content base (blocks R)"
  using assms
proof (induction segs arbitrary: R)
  case (Cons seg segs)
  obtain sq data where seg: "seg = (sq, data)" by (cases seg)
  let ?t = "{seq_off base (trim_seq R)..}"
  from Cons.prems seg NewBlock_step [of base R sq data overlap] obtain R1 where
    R1: "NewBlock (\<lambda>_. Ret) overlap sq (int (length data)) data R = Ret R1" "reasm_ok base R1"
    "content base (blocks R1) = (data_map base sq data |` ?t) ++ content base (blocks R)" "trim_seq R1 = trim_seq R"
    by auto
  moreover from Cons.IH [of R1] R1 Cons.prems obtain R2 where
    "new_blocks overlap segs R1 = Ret R2" "reasm_ok base R2"
    "content base (blocks R2) = (first_copy base segs |` ?t) ++ content base (blocks R1)" by auto
  moreover have "(first_copy base segs ++ data_map base sq data) |` ?t
      = (first_copy base segs |` ?t) ++ (data_map base sq data |` ?t)"
    by (auto simp: restrict_map_def map_add_def split: option.splits)
  ultimately show ?case using seg by simp
qed simp

lemma new_Reassembler_ok: "reasm_ok base (new_Reassembler init_seq overhead x)"
  by (simp add: reasm_ok_def new_Reassembler_def chain_ok_def accounted_def)

text \<open>C10. Whatever order segments arrive in, however they overlap and repeat, the reassembler never
  touches memory outside a block and never fails, its blocks stay in order, disjoint and non-empty,
  its memory accounting is exact, and every position from the initial sequence number on holds the
  byte of the first segment that carried it.  The segments lie within half of the sequence space of
  \<open>base\<close>, and may begin before the initial sequence number.\<close>

theorem reassembly_first_copy:
  assumes "\<forall>(sq, data) \<in> set segs. seq_off base sq + length data < half_space"
    and "seq_off base init_seq < half_space"
  shows "\<exists>R. new_blocks overlap segs (new_Reassembler init_seq overhead x) = Ret R
    \<and> content base (blocks R) = first_copy base segs |` {seq_off base init_seq..}
    \<and> chain_ok base (blocks R) \<and> accounted R"
  using new_blocks_ok [OF new_Reassembler_ok assms(1), of init_seq overhead x overlap] assms(2)
  by (auto simp: new_Reassembler_def reasm_ok_def)

theorem reassembly_first_copy_witness:
  "let segs = [(0xFFFFFFFE, [1, 2, 3]), (4, [9]), (1, [4, 5, 6, 7, 8])] in
   \<exists>R. new_blocks (\<lambda>_ _ x. x) segs (new_Reassembler 0xFFFFFFFF 48 ()) = Ret R
    \<and> content 0xFFFFFFF0 (blocks R) = first_copy 0xFFFFFFF0 segs |` {15..}
    \<and> chain_ok 0xFFFFFFF0 (blocks R) \<and> accounted R"
  using reassembly_first_copy [of "[(0xFFFFFFFE, [1, 2, 3]), (4, [9]), (1, [4, 5, 6, 7, 8])]" "0xFFFFFFF0" "0xFFFFFFFF"
      "\<lambda>_ _ x. x" 48 "()"]
  by (simp add: seq_off_def)

section \<open>Trimming\<close>

lemma delete_accounted:
  assumes "block_ok base b" "total_size R = word_of_nat (pad_size (length (block b)) + block_overhead R + k)"
  shows "total_size (delete_DataBlock b R) = word_of_nat k"
proof -
  have "unat (upper b - seq b) = length (block b)"
    using assms(1) by (simp add: block_ok_def unat_of_nat take_bit_nat_eq_self)
  then show ?thesis using assms(2) by (simp add: delete_DataBlock_def)
qed

lemma delete_simps [simp]:
  "blocks (delete_DataBlock b R) = blocks R" "last_block (delete_DataBlock b R) = last_block R"
  "trim_seq (delete_DataBlock b R) = trim_seq R" "block_overhead (delete_DataBlock b R) = block_overhead R"
  "last_reassem_seq (delete_DataBlock b R) = last_reassem_seq R" "r_ext (delete_DataBlock b R) = r_ext R"
  "next_addr (delete_DataBlock b R) = next_addr R"
  by (simp_all add: delete_DataBlock_def)

abbreviation trimmed :: "u32 \<Rightarrow> u32 \<Rightarrow> DataBlock list \<Rightarrow> DataBlock list" where
  "trimmed base sq \<equiv> dropWhile (\<lambda>b. seq_off base (upper b) \<le> seq_off base sq)"

lemma trim_loop_ok:
  assumes "\<forall>b \<in> set bs. block_ok base b" "seq_off base sq < half_space"
    and "total_size R = word_of_nat (\<Sum>b \<leftarrow> bs. pad_size (length (block b)) + block_overhead R)"
  shows "\<exists>m' sz. trim_loop sq bs m R = (trimmed base sq bs, m', R\<lparr>total_size := sz\<rparr>)
    \<and> sz = word_of_nat (\<Sum>b \<leftarrow> trimmed base sq bs. pad_size (length (block b)) + block_overhead R)"
  using assms
proof (induction bs arbitrary: m R)
  case (Cons b bs)
  have ok: "block_ok base b" using Cons.prems(1) by simp
  have d: "seq_delta (upper b) sq \<le> 0 \<longleftrightarrow> seq_off base (upper b) \<le> seq_off base sq"
    using seq_delta_off [of base "upper b" sq] block_bounds [OF ok] Cons.prems(2) by simp
  show ?case
  proof (cases "seq_delta (upper b) sq \<le> 0")
    case True
    have "total_size (delete_DataBlock b R) = word_of_nat (\<Sum>b \<leftarrow> bs. pad_size (length (block b)) + block_overhead R)"
      using Cons.prems(3) by (intro delete_accounted [OF ok]) simp
    with Cons.IH [of "delete_DataBlock b R"] Cons.prems(1,2) True d show ?thesis
      by (fastforce simp: delete_DataBlock_def)
  next
    case False
    with d Cons.prems(3) show ?thesis by (cases R) simp
  qed
qed (cases R, auto)

lemma trimmed_suffix: "\<exists>xs. bs = xs @ trimmed base sq bs \<and> (\<forall>b \<in> set xs. seq_off base (upper b) \<le> seq_off base sq)"
  by (metis (mono_tags, lifting) set_takeWhileD takeWhile_dropWhile_id)

lemma trimmed_chain: "chain_ok base bs \<Longrightarrow> chain_ok base (trimmed base sq bs)"
proof -
  assume ok: "chain_ok base bs"
  obtain xs where "bs = xs @ trimmed base sq bs" using trimmed_suffix by blast
  moreover have "chain_ok base (xs @ ys) \<Longrightarrow> chain_ok base ys" for ys by (simp add: chain_ok_def sorted_wrt_append)
  ultimately show ?thesis using ok by metis
qed

lemma trimmed_last: "trimmed base sq bs \<noteq> [] \<Longrightarrow> last (trimmed base sq bs) = last bs"
  by (metis last_appendR trimmed_suffix)

lemma trimmed_content:
  assumes "\<forall>b \<in> set bs. block_ok base b" "seq_off base sq \<le> p"
  shows "content base (trimmed base sq bs) p = content base bs p"
proof -
  obtain xs where xs: "bs = xs @ trimmed base sq bs" "\<forall>b \<in> set xs. seq_off base (upper b) \<le> seq_off base sq"
    using trimmed_suffix by blast
  have "p \<notin> dom (data_map base (seq b) (block b))" if "b \<in> set xs" for b
  proof -
    have "block_ok base b" using assms(1) xs(1) that by (metis Un_iff set_append)
    from block_upper [OF this] show ?thesis using xs(2) that assms(2) unfolding data_map_dom by fastforce
  qed
  then have "p \<notin> dom (content base xs)" by (simp add: content_dom)
  then have "content base (xs @ trimmed base sq bs) p = content base (trimmed base sq bs) p"
    by (simp add: content_append map_add_dom_app_simps(3))
  then show ?thesis using xs(1) by simp
qed

text \<open>What \<open>TrimToSeq\<close> does between its two callbacks.\<close>

lemma TrimToSeq_parts:
  assumes "reasm_ok base R" "seq_off base sq < half_space"
    and "(if seq_delta sq (last_reassem_seq R) > 0 then undelivered sq R else Ret R) = Ret (R\<lparr>last_reassem_seq := l, r_ext := x\<rparr>)"
  shows "\<exists>m R2. TrimToSeq inserted undelivered sq R =
      run_bind (if blocks R2 \<noteq> [] \<and> seq (hd (blocks R2)) = l then inserted (db_addr (hd (blocks R2))) R2 else Ret R2)
        (\<lambda>R. Ret (m, if seq_delta sq (trim_seq R) > 0 then R\<lparr>trim_seq := sq\<rparr> else R))
    \<and> reasm_ok base R2 \<and> blocks R2 = trimmed base sq (blocks R) \<and> last_reassem_seq R2 = l \<and> r_ext R2 = x
    \<and> trim_seq R2 = trim_seq R"
proof -
  define R1 where "R1 = R\<lparr>last_reassem_seq := l, r_ext := x\<rparr>"
  have R1: "blocks R1 = blocks R" "total_size R1 = total_size R" "block_overhead R1 = block_overhead R"
    "last_block R1 = last_block R" "next_addr R1 = next_addr R" "trim_seq R1 = trim_seq R" "last_reassem_seq R1 = l" "r_ext R1 = x"
    by (simp_all add: R1_def)
  let ?bs = "trimmed base sq (blocks R)"
  have ok: "\<forall>b \<in> set (blocks R). block_ok base b" using assms(1) by (simp add: reasm_ok_def chain_ok_def)
  have tot: "total_size R1 = word_of_nat (\<Sum>b \<leftarrow> blocks R. pad_size (length (block b)) + block_overhead R1)"
    using assms(1) R1 by (simp add: reasm_ok_def accounted_def)
  define k where "k = (if blocks R \<noteq> [] then max 0 (seq_delta (seq (hd (blocks R))) (last_reassem_seq R))
      else max 0 (seq_delta sq (last_reassem_seq R)))"
  obtain m sz where loop: "trim_loop sq (blocks R) k R1 = (?bs, m, R1\<lparr>total_size := sz\<rparr>)"
    and sz: "sz = word_of_nat (\<Sum>b \<leftarrow> ?bs. pad_size (length (block b)) + block_overhead R)"
    using trim_loop_ok [OF ok assms(2) tot, of k] R1(3) by auto
  define R2 where "R2 = R1\<lparr>total_size := sz, blocks := ?bs, last_block := (if ?bs = [] then None else last_block R)\<rparr>"
  have R2: "blocks R2 = ?bs" "last_block R2 = (if ?bs = [] then None else last_block R)" "next_addr R2 = next_addr R"
      "total_size R2 = sz" "block_overhead R2 = block_overhead R" "trim_seq R2 = trim_seq R" "last_reassem_seq R2 = l" "r_ext R2 = x"
    using R1 by (simp_all add: R2_def)
  have "TrimToSeq inserted undelivered sq R =
      run_bind (if blocks R2 \<noteq> [] \<and> seq (hd (blocks R2)) = l then inserted (db_addr (hd (blocks R2))) R2 else Ret R2)
        (\<lambda>R. Ret (m, if seq_delta sq (trim_seq R) > 0 then R\<lparr>trim_seq := sq\<rparr> else R))"
  proof -
    obtain tb where tb: "?bs = tb" by blast
    have "R1\<lparr>total_size := sz, blocks := tb\<rparr> = R2" if "tb \<noteq> []"
      using that R1(4) tb unfolding R2_def by (cases R1) simp
    moreover have "R1\<lparr>total_size := sz, blocks := tb, last_block := None\<rparr> = R2" if "tb = []"
      unfolding R2_def tb using that by simp
    ultimately show ?thesis
      unfolding TrimToSeq_def Let_def assms(3) R1_def [symmetric] run_bind.simps k_def [symmetric] R1(1) loop prod.case tb R2(1)
      using R2(7) by (cases tb) simp_all
  qed
  moreover have "reasm_ok base R2"
    using assms(1) R2 trimmed_chain [of base "blocks R" sq] trimmed_last [of base sq "blocks R"] sz
    by (auto simp: reasm_ok_def accounted_def dest: set_dropWhileD split: if_splits)
  ultimately show ?thesis using R2 by blast
qed

lemma TrimToSeq_run:
  assumes "reasm_ok base R" "seq_off base sq < half_space"
  shows "\<exists>m R'. TrimToSeq (\<lambda>_. Ret) Undelivered sq R = Ret (m, R') \<and> reasm_ok base R'
    \<and> blocks R' = trimmed base sq (blocks R) \<and> trim_seq R' = (if seq_delta sq (trim_seq R) > 0 then sq else trim_seq R)"
proof -
  define l where "l = (if seq_delta sq (last_reassem_seq R) > 0 then sq else last_reassem_seq R)"
  have "(if seq_delta sq (last_reassem_seq R) > 0 then Undelivered sq R else Ret R) = Ret (R\<lparr>last_reassem_seq := l, r_ext := r_ext R\<rparr>)"
    by (simp add: Undelivered_def l_def)
  from TrimToSeq_parts [where undelivered = Undelivered, OF assms this, of "\<lambda>_. Ret"] obtain m R2 where
    R2: "TrimToSeq (\<lambda>_. Ret) Undelivered sq R = Ret (m, if seq_delta sq (trim_seq R2) > 0 then R2\<lparr>trim_seq := sq\<rparr> else R2)"
      "reasm_ok base R2" "blocks R2 = trimmed base sq (blocks R)" "trim_seq R2 = trim_seq R" by auto
  have "reasm_ok base (R2\<lparr>trim_seq := sq\<rparr>)" using R2(2) by (simp add: reasm_ok_def accounted_def)
  with R2 show ?thesis by auto
qed

lemma old_segment_ignored:
  assumes "reasm_ok base R" "seq_off base (trim_seq R) < half_space" "seq_off base q + length data \<le> seq_off base (trim_seq R)"
  shows "NewBlock (\<lambda>_. Ret) overlap q (int (length data)) data R = Ret R"
proof (cases "data = []")
  case False
  then show ?thesis using NewBlock_ok [OF assms(1), of data q "\<lambda>_. Ret" overlap "[]"] assms(2,3) by simp
qed (simp add: NewBlock_def)

text \<open>C30. Trimming to a sequence number frees exactly the blocks that end at or before it, keeps
  every byte from that number on, keeps the chain and the memory
  accounting exact, and moves the trim mark forward only; a segment that ends at or before the mark is
  ignored from then on.\<close>

theorem trim_to_seq_exact:
  assumes "reasm_ok base R" "seq_off base sq < half_space" "seq_off base (trim_seq R) < half_space"
  shows "\<exists>m R'. TrimToSeq (\<lambda>_. Ret) Undelivered sq R = Ret (m, R')
    \<and> reasm_ok base R' \<and> blocks R' = trimmed base sq (blocks R)
    \<and> (\<forall>p. seq_off base sq \<le> p \<longrightarrow> content base (blocks R') p = content base (blocks R) p)
    \<and> seq_off base (trim_seq R') = max (seq_off base sq) (seq_off base (trim_seq R))
    \<and> (\<forall>q data. seq_off base q + length data \<le> seq_off base (trim_seq R')
         \<longrightarrow> NewBlock (\<lambda>_. Ret) overlap q (int (length data)) data R' = Ret R')"
proof -
  have ok: "\<forall>b \<in> set (blocks R). block_ok base b" using assms(1) by (simp add: reasm_ok_def chain_ok_def)
  obtain m R' where R': "TrimToSeq (\<lambda>_. Ret) Undelivered sq R = Ret (m, R')" "reasm_ok base R'"
    "blocks R' = trimmed base sq (blocks R)" "trim_seq R' = (if seq_delta sq (trim_seq R) > 0 then sq else trim_seq R)"
    using TrimToSeq_run [OF assms(1,2)] by blast
  have mark: "seq_off base (trim_seq R') = max (seq_off base sq) (seq_off base (trim_seq R))"
    using R'(4) seq_delta_off [OF assms(2,3)] by simp
  then have "seq_off base (trim_seq R') < half_space" using assms(2,3) by simp
  from old_segment_ignored [OF R'(2) this] show ?thesis using R' mark trimmed_content [OF ok] by auto
qed

theorem trim_to_seq_exact_witness:
  "let b = \<lparr>db_addr = 1, seq = 0, upper = 2, block = [1, 2]\<rparr>; c = \<lparr>db_addr = 2, seq = 5, upper = 6, block = [7]\<rparr>;
       R = \<lparr>blocks = [b, c], last_block = Some 2, last_reassem_seq = 2, trim_seq = 0, total_size = 128, next_addr = 3,
            block_overhead = 48, r_ext = ()\<rparr> in
   \<exists>m R'. TrimToSeq (\<lambda>_. Ret) Undelivered 3 R = Ret (m, R')
    \<and> reasm_ok 0 R' \<and> blocks R' = [c]
    \<and> (\<forall>p. seq_off 0 3 \<le> p \<longrightarrow> content 0 (blocks R') p = content 0 (blocks R) p)
    \<and> seq_off 0 (trim_seq R') = max (seq_off 0 3) (seq_off 0 (trim_seq R))
    \<and> (\<forall>q data. seq_off 0 q + length data \<le> seq_off 0 (trim_seq R')
         \<longrightarrow> NewBlock (\<lambda>_. Ret) (\<lambda>_ _ x. x) q (int (length data)) data R' = Ret R')"
proof -
  let ?b = "\<lparr>db_addr = 1, seq = 0, upper = 2, block = [1, 2]\<rparr> :: DataBlock"
  let ?c = "\<lparr>db_addr = 2, seq = 5, upper = 6, block = [7]\<rparr> :: DataBlock"
  let ?R = "\<lparr>blocks = [?b, ?c], last_block = Some 2, last_reassem_seq = 2, trim_seq = 0, total_size = 128,
      next_addr = 3, block_overhead = 48, r_ext = ()\<rparr>"
  have "reasm_ok 0 ?R"
    by (simp add: reasm_ok_def chain_ok_def block_ok_def before_def accounted_def pad_size_def seq_off_def)
  from trim_to_seq_exact [OF this, of 3 "\<lambda>_ _ x. x"]
  show ?thesis unfolding Let_def by (simp add: seq_off_def)
qed

text \<open>Releasing everything leaves no memory accounted for.\<close>

lemma clear_loop:
  assumes "\<forall>b \<in> set bs. block_ok base b"
    and "total_size R = word_of_nat (\<Sum>b \<leftarrow> bs. pad_size (length (block b)) + block_overhead R)"
  shows "total_size (foldl (\<lambda>R b. delete_DataBlock b R) R bs) = 0"
  using assms
proof (induction bs arbitrary: R)
  case (Cons b bs)
  then have "total_size (delete_DataBlock b R) = word_of_nat (\<Sum>b \<leftarrow> bs. pad_size (length (block b)) + block_overhead R)"
    by (intro delete_accounted [of base]) simp_all
  with Cons show ?case by simp
qed simp

lemma ClearBlocks_ok: "reasm_ok base R \<Longrightarrow> total_size (ClearBlocks R) = 0 \<and> blocks (ClearBlocks R) = [] \<and> last_block (ClearBlocks R) = None"
  using clear_loop [of "blocks R" base R] by (simp add: ClearBlocks_def reasm_ok_def chain_ok_def accounted_def)

text \<open>The number of missing bytes that \<open>TrimToSeq\<close> reports counts the whole hole in front of the first
  block, also the part after the trim point: the ten bytes missing before a block at 10 are reported as
  fifteen when the trimming stops once at 5.\<close>

lemma trim_counts_hole_twice:
  "\<exists>R1 R2 R3. new_blocks (\<lambda>_ _ x. x) [(10, [1, 2])] (new_Reassembler 0 48 ()) = Ret R1
     \<and> TrimToSeq (\<lambda>_. Ret) Undelivered 5 R1 = Ret (10, R2)
     \<and> TrimToSeq (\<lambda>_. Ret) Undelivered 12 R2 = Ret (5, R3)"
  by (simp add: new_Reassembler_def NewBlock_def new_DataBlock_def seq_delta_def Let_def TrimToSeq_def Undelivered_def
      delete_DataBlock_def)

end
