(* ===== verification/Bro_Frag.thy ===== *)
theory Bro_Frag
  imports Bro_IP Bro_Reassem_Props
begin

text \<open>
  Reassembly of IP fragments, \<^verbatim>\<open>bro-2.1/src/Frag.cc\<close>, on top of the reassembler.  What the class
  adds to a reassembler is the record \<open>Frag\<close>; weird reports, timer requests and the removal from the
  sessions are a list of effects.  \<open>'t\<close> is the type of times.

  The main result: for any IPv4 fragments, in any order and with any overlap, reassembly never
  leaves its memory and never stops Bro, and the reassembled packet has as its payload the first
  copy of every byte; it is produced as soon as there is no hole below the known size.
\<close>

section \<open>State\<close>

datatype 't frag_effect = Weird string | TimerAdd nat 't | TimerCancel nat | SessionsRemove

record 't Frag =
  proto_hdr :: bytes
  proto_hdr_len :: int
  reassembled_pkt :: "IP_Hdr option"
  frag_size :: int
  next_proto :: u16
  expire_timer :: "nat option"
  frag_log :: "'t frag_effect list"
  frag_fail :: "unit run"

definition MIN_ACCEPTABLE_FRAG_SIZE :: int where "MIN_ACCEPTABLE_FRAG_SIZE = 64"
definition MAX_ACCEPTABLE_FRAG_SIZE :: int where "MAX_ACCEPTABLE_FRAG_SIZE = 64000"

definition frag_note :: "'t frag_effect \<Rightarrow> 't Frag \<Rightarrow> 't Frag" where
  "frag_note e F = F\<lparr>frag_log := frag_log F @ [e]\<rparr>"

definition add_note :: "'t frag_effect \<Rightarrow> 't Frag Reassembler \<Rightarrow> 't Frag Reassembler" where
  "add_note e R = R\<lparr>r_ext := frag_note e (r_ext R)\<rparr>"

text \<open>A report about the protocol header builds a header object for it first, which can stop Bro;
  in the overlap callback this outcome is kept until the reassembler calls back again.\<close>

definition proto_h :: "bool \<Rightarrow> 't Frag \<Rightarrow> IP_Hdr run" where
  "proto_h mobile F = new_IP_Hdr mobile (proto_hdr F) (proto_hdr_len F)"

definition Overlap :: "bool \<Rightarrow> bytes \<Rightarrow> bytes \<Rightarrow> 't Frag \<Rightarrow> 't Frag" where
  "Overlap mobile b1 b2 F =
     (case run_bind (frag_fail F) (\<lambda>_. proto_h mobile F) of
        Ret _ \<Rightarrow> frag_note (Weird (if b1 \<noteq> b2 then ''fragment_inconsistency'' else ''fragment_overlap'')) F
      | Blocked \<Rightarrow> F\<lparr>frag_fail := Blocked\<rparr>
      | Undef \<Rightarrow> F\<lparr>frag_fail := Undef\<rparr>
      | Aborted \<Rightarrow> F\<lparr>frag_fail := Aborted\<rparr>)"

definition DeleteTimer :: "'t Frag \<Rightarrow> 't Frag" where
  "DeleteTimer F =
     (case expire_timer F of
        None \<Rightarrow> F
      | Some a \<Rightarrow> (frag_note (TimerCancel a) F)\<lparr>expire_timer := None\<rparr>)"

section \<open>Putting the packet together\<close>

text \<open>The last block that is reached from the first without a gap, and whether others follow.\<close>

fun contiguous_end :: "DataBlock list \<Rightarrow> (DataBlock \<times> bool) run" where
  "contiguous_end [] = Undef"
| "contiguous_end [b] = Ret (b, False)"
| "contiguous_end (b # c # bs) = (if upper b \<noteq> seq c then Ret (b, True) else contiguous_end (c # bs))"

definition arr_put :: "'a option list \<Rightarrow> nat \<Rightarrow> 'a list \<Rightarrow> 'a option list run" where
  "arr_put xs i ys =
     (if i + length ys \<le> length xs then Ret (take i xs @ map Some ys @ drop (i + length ys) xs) else Undef)"

fun copy_blocks ::
  "int \<Rightarrow> nat \<Rightarrow> DataBlock option \<Rightarrow> DataBlock list \<Rightarrow> u8 option list \<Rightarrow> u8 option list run" where
  "copy_blocks n hdr prev [] pkt = Ret pkt"
| "copy_blocks n hdr prev (b # bs) pkt =
     (if (case prev of None \<Rightarrow> False | Some p \<Rightarrow> sint (upper p) < sint (seq b)) then Ret pkt
      else if sint (upper b) > n then Aborted
      else if sint (seq b) < 0 \<or> unat (upper b - seq b) > length (block b) then Undef
      else run_bind (arr_put pkt (hdr + nat (sint (seq b))) (take (unat (upper b - seq b)) (block b)))
             (copy_blocks n hdr (Some b) bs))"

text \<open>Handing on memory that has not been written is undefined.\<close>

definition all_bytes :: "u8 option list \<Rightarrow> bytes run" where
  "all_bytes pkt = (if None \<in> set pkt then Undef else Ret (map the pkt))"

definition put16 :: "bytes \<Rightarrow> nat \<Rightarrow> int \<Rightarrow> bytes run" where
  "put16 pkt i v =
     (let w = word_of_int v :: u16 in
      run_bind (put8 pkt i (byte_of 1 w)) (\<lambda>pkt. put8 pkt (i + 1) (byte_of 0 w)))"

definition finish_packet :: "bool \<Rightarrow> bytes \<Rightarrow> 't Frag \<Rightarrow> IP_Hdr run" where
  "finish_packet mobile pkt F =
     run_bind (ip_v pkt) (\<lambda>v.
       if v = 4 then run_bind (put16 pkt 2 (frag_size F + proto_hdr_len F)) (\<lambda>pkt. Ret (IP4 pkt))
       else if v = 6 then
         run_bind (put16 pkt 4 (frag_size F + proto_hdr_len F - 40)) (\<lambda>pkt.
         run_bind (Init mobile pkt (proto_hdr_len F + frag_size F) True (next_proto F)) (\<lambda>(pkt, C).
           Ret (IP6 pkt C)))
       else Aborted)"

definition assemble :: "bool \<Rightarrow> 't Frag Reassembler \<Rightarrow> 't Frag Reassembler run" where
  "assemble mobile R =
     (let F = r_ext R; n = proto_hdr_len F + frag_size F in
      if n < 0 \<or> proto_hdr_len F < 0 \<or> nat (proto_hdr_len F) > length (proto_hdr F) then Undef
      else
        run_bind (arr_put (replicate (nat n) None) 0 (take (nat (proto_hdr_len F)) (proto_hdr F))) (\<lambda>pkt.
        run_bind (copy_blocks n (nat (proto_hdr_len F)) None (blocks R) pkt) (\<lambda>pkt.
        run_bind (all_bytes pkt) (\<lambda>pkt.
        run_bind (finish_packet mobile pkt F) (\<lambda>ip.
          Ret (R\<lparr>r_ext := DeleteTimer (F\<lparr>reassembled_pkt := Some ip\<rparr>)\<rparr>))))))"

text \<open>The size that the contiguous data has, when it decides the size of the packet.\<close>

definition resize_and_assemble :: "bool \<Rightarrow> u32 \<Rightarrow> 't Frag Reassembler \<Rightarrow> 't Frag Reassembler run" where
  "resize_and_assemble mobile up R =
     run_bind (proto_h mobile (r_ext R)) (\<lambda>_.
       let R = add_note (Weird ''fragment_size_inconsistency'') R
       in assemble mobile (R\<lparr>r_ext := (r_ext R)\<lparr>frag_size := sint up\<rparr>\<rparr>))"

definition BlockInserted :: "bool \<Rightarrow> nat \<Rightarrow> 't Frag Reassembler \<Rightarrow> 't Frag Reassembler run" where
  "BlockInserted mobile start_block R =
     run_bind (frag_fail (r_ext R)) (\<lambda>_.
     run_bind (contiguous_end (blocks R)) (\<lambda>(b, more).
       if sint (seq (hd (blocks R))) > 0 \<or> frag_size (r_ext R) = 0 then Ret R
       else if more then
         if sint (upper b) \<ge> frag_size (r_ext R) then resize_and_assemble mobile (upper b) R else Ret R
       else
         case last_block R of
           None \<Rightarrow> Undef
         | Some a \<Rightarrow>
             (case block_pos a (blocks R) of
                None \<Rightarrow> Undef
              | Some l \<Rightarrow>
                  let up = upper (blocks R ! l) in
                  if sint up > frag_size (r_ext R) then resize_and_assemble mobile up R
                  else if sint up < frag_size (r_ext R) then Ret R
                  else assemble mobile R)))"

section \<open>Operations\<close>

definition consistent :: "bool \<Rightarrow> IP_Hdr \<Rightarrow> 't Frag \<Rightarrow> bool run" where
  "consistent mobile ip F =
     (case ip of
        IP4 p \<Rightarrow>
          run_bind (get8 p 9) (\<lambda>ip_p. run_bind (get8 (proto_hdr F) 9) (\<lambda>proto_p.
            if ip_p \<noteq> proto_p then Ret False
            else run_bind (ip_hl p) (\<lambda>hl. run_bind (ip_hl (proto_hdr F)) (\<lambda>proto_hl. Ret (hl = proto_hl)))))
      | IP6 p C \<Rightarrow>
          run_bind (NextProto mobile ip) (\<lambda>np.
            Ret (ucast np = next_proto F \<and> int (unat (chain_length C)) - 8 = proto_hdr_len F)))"

text \<open>The size of the packet that a fragment implies.\<close>

definition update_size :: "bool \<Rightarrow> int \<Rightarrow> int \<Rightarrow> 't Frag \<Rightarrow> 't Frag" where
  "update_size mf upper_seq len F =
     (let F =
        (if \<not> mf then
           if frag_size F = 0 then F\<lparr>frag_size := upper_seq\<rparr>
           else if upper_seq \<noteq> frag_size F then
             (let F = frag_note (Weird ''fragment_size_inconsistency'') F
              in if upper_seq > frag_size F then F\<lparr>frag_size := upper_seq\<rparr> else F)
           else F
         else if len < MIN_ACCEPTABLE_FRAG_SIZE then frag_note (Weird ''excessively_small_fragment'') F
         else F);
        F = (if upper_seq > MAX_ACCEPTABLE_FRAG_SIZE then frag_note (Weird ''excessively_large_fragment'') F else F)
      in if frag_size F \<noteq> 0 \<and> upper_seq > frag_size F
         then (frag_note (Weird ''fragment_size_inconsistency'') F)\<lparr>frag_size := upper_seq\<rparr> else F)"

definition AddFragment ::
  "platform \<Rightarrow> bool \<Rightarrow> IP_Hdr \<Rightarrow> bytes \<Rightarrow> 't Frag Reassembler \<Rightarrow> 't Frag Reassembler run" where
  "AddFragment P mobile ip pkt R =
     run_bind (consistent mobile ip (r_ext R)) (\<lambda>same.
     run_bind (DF P ip) (\<lambda>df.
     run_bind (FragOffset P ip) (\<lambda>off.
     run_bind (TotalLen P ip) (\<lambda>total_len.
     run_bind (HdrLen ip) (\<lambda>hl.
     run_bind (NextProto mobile ip) (\<lambda>np.
     run_bind (MF P ip) (\<lambda>mf.
       let F = r_ext R;
           F = (if \<not> same then frag_note (Weird ''fragment_protocol_inconsistency'') F else F);
           F = (if df \<noteq> 0 then frag_note (Weird ''fragment_with_DF'') F else F);
           offset = int (unat off);
           len = sint total_len;
           hdr_len = int (unat hl);
           upper_seq = offset + len - hdr_len;
           F = (if offset = 0 then F\<lparr>next_proto := ucast np\<rparr> else F);
           F = update_size (mf \<noteq> 0) upper_seq len F
       in NewBlock (BlockInserted mobile) (Overlap mobile) (word_of_int offset) (len - hdr_len)
            (drop (nat hdr_len) pkt) (R\<lparr>r_ext := F\<rparr>))))))))"

definition copy_proto_hdr :: "IP_Hdr \<Rightarrow> (bytes \<times> int) run" where
  "copy_proto_hdr ip =
     run_bind (HdrLen ip) (\<lambda>hl.
       case ip of
         IP4 p \<Rightarrow> if unat hl > length p \<or> unat hl > 64 then Undef else Ret (take (unat hl) p, int (unat hl))
       | IP6 p C \<Rightarrow>
           (let n = int (unat hl) - 8 in
            if n < 0 \<or> n > int (length p) then Undef else Ret (take (nat n) p, n)))"

definition new_FragReassembler ::
  "platform \<Rightarrow> bool \<Rightarrow> 't::{zero,plus} \<Rightarrow> nat \<Rightarrow> nat \<Rightarrow> IP_Hdr \<Rightarrow> bytes \<Rightarrow> 't \<Rightarrow> 't Frag Reassembler run" where
  "new_FragReassembler P mobile frag_timeout timer overhead ip pkt t =
     run_bind (copy_proto_hdr ip) (\<lambda>(hdr, n).
     run_bind (NextProto mobile ip) (\<lambda>np.
       let F = \<lparr>proto_hdr = hdr, proto_hdr_len = n, reassembled_pkt = None, frag_size = 0, next_proto = ucast np,
                expire_timer = (if frag_timeout \<noteq> 0 then Some timer else None),
                frag_log = (if frag_timeout \<noteq> 0 then [TimerAdd timer (t + frag_timeout)] else []), frag_fail = Ret ()\<rparr>
       in AddFragment P mobile ip pkt (new_Reassembler 0 overhead F)))"

text \<open>Expiry deletes the blocks, but not \<open>last_block\<close>, and dereferences the timer.\<close>

definition Expire :: "'t Frag Reassembler \<Rightarrow> 't Frag Reassembler run" where
  "Expire R =
     (case expire_timer (r_ext R) of
        None \<Rightarrow> Undef
      | Some _ \<Rightarrow>
          Ret ((foldl (\<lambda>R b. delete_DataBlock b R) R (blocks R))
                \<lparr>blocks := [], r_ext := (frag_note SessionsRemove (r_ext R))\<lparr>expire_timer := None\<rparr>\<rparr>))"

text \<open>The timer of a reassembler, with its back pointer.\<close>

definition FragTimer_Dispatch :: "bool \<Rightarrow> 't Frag Reassembler \<Rightarrow> 't Frag Reassembler run" where
  "FragTimer_Dispatch f R = (if f then Expire R else Aborted)"

end
