(* ===== verification/Bro_Frag_Props.thy ===== *)
theory Bro_Frag_Props
  imports Bro_Frag
begin

text \<open>
  Correctness of fragment reassembly for IPv4: the invariant of a fragment reassembler, that putting
  the packet together never leaves its buffer, and what the reassembled packet holds.
\<close>

section \<open>Contiguous blocks\<close>







section \<open>Copying the blocks\<close>




section \<open>The reassembled packet\<close>

definition hdr4_ok :: "bytes \<Rightarrow> bool" where
  "hdr4_ok hdr \<longleftrightarrow> 20 \<le> length hdr \<and> drop_bit 4 (hdr ! 0) = 4"

text \<open>The header with its length field set for the payload, which wraps at \<open>2 ^ 16\<close>, and the payload.\<close>

definition packet4 :: "bytes \<Rightarrow> bytes \<Rightarrow> bytes" where
  "packet4 hdr payload =
     (let w = word_of_nat (length hdr + length payload) :: u16
      in (hdr @ payload)[2 := byte_of 1 w, 3 := byte_of 0 w])"

definition frag_core :: "bytes \<Rightarrow> 't Frag \<Rightarrow> bool" where
  "frag_core hdr F \<longleftrightarrow> hdr4_ok hdr \<and> proto_hdr F = hdr \<and> proto_hdr_len F = int (length hdr) \<and> frag_fail F = Ret ()
     \<and> 0 \<le> frag_size F"

lemma frag_note_simps [simp]:
  "proto_hdr (frag_note e F) = proto_hdr F" "proto_hdr_len (frag_note e F) = proto_hdr_len F"
  "reassembled_pkt (frag_note e F) = reassembled_pkt F" "frag_size (frag_note e F) = frag_size F"
  "frag_fail (frag_note e F) = frag_fail F" "expire_timer (frag_note e F) = expire_timer F"
  "next_proto (frag_note e F) = next_proto F"
  by (simp_all add: frag_note_def)

lemma DeleteTimer_simps [simp]:
  "proto_hdr (DeleteTimer F) = proto_hdr F" "proto_hdr_len (DeleteTimer F) = proto_hdr_len F"
  "reassembled_pkt (DeleteTimer F) = reassembled_pkt F" "frag_size (DeleteTimer F) = frag_size F"
  "frag_fail (DeleteTimer F) = frag_fail F"
  by (auto simp: DeleteTimer_def split: option.splits)


lemma put16_Ret:
  "i + 1 < length pkt \<Longrightarrow> put16 pkt i v = Ret (pkt[i := byte_of 1 (word_of_int v :: u16), i + 1 := byte_of 0 (word_of_int v :: u16)])"
  by (simp add: put16_def Let_def put8_def)

lemma finish_packet_4:
  assumes "frag_core hdr F" "frag_size F = int (length payload)"
  shows "finish_packet mobile (hdr @ payload) F = Ret (IP4 (packet4 hdr payload))"
proof -
  have "ip_v (hdr @ payload) = Ret 4"
    using assms(1) by (auto simp: ip_v_def rd8_def nth_append frag_core_def hdr4_ok_def)
  moreover have "put16 (hdr @ payload) 2 (frag_size F + proto_hdr_len F) = Ret (packet4 hdr payload)"
    using assms by (subst put16_Ret) (auto simp: packet4_def Let_def frag_core_def hdr4_ok_def add.commute eval_nat_numeral simp flip: of_nat_add)
  ultimately show ?thesis by (simp add: finish_packet_def)
qed










section \<open>IPv4 fragments\<close>













section \<open>The invariant\<close>













text \<open>The length field of a reassembled packet holds the length modulo \<open>2 ^ 16\<close>, so a packet whose
  fragments reach beyond 65535 bytes announces fewer bytes than it has.\<close>

theorem reassembled_length_wraps:
  assumes "frag_core hdr F" "frag_size F = int (length payload)"
  shows "\<exists>ip l. finish_packet mobile (hdr @ payload) F = Ret ip \<and> TotalLen P ip = Ret l
    \<and> unat l = (length hdr + length payload) mod 65536"
proof -
  let ?w = "word_of_nat (length hdr + length payload) :: u16" and ?p = "packet4 hdr payload"
  have len: "20 \<le> length hdr" using assms(1) by (simp add: frag_core_def hdr4_ok_def)
  then have "?p ! 2 = byte_of 1 ?w" "?p ! 3 = byte_of 0 ?w" "3 < length ?p"
    by (simp_all add: packet4_def Let_def)
  then have "net16 P ?p 2 = Ret ?w" by (simp add: net16_def rd16_def del: One_nat_def of_nat_add)
  then have "TotalLen P (IP4 ?p) = Ret (ucast ?w)" by simp
  moreover have "unat (ucast ?w :: u32) = (length hdr + length payload) mod 65536"
    by (simp add: unsigned_ucast_eq unat_of_nat take_bit_eq_mod del: of_nat_add)
  ultimately show ?thesis using finish_packet_4 [OF assms, of mobile] by blast
qed

theorem reassembled_length_wraps_witness:
  "let hdr = 0x45 # replicate 19 0; payload = replicate 65536 7;
       F = \<lparr>proto_hdr = hdr, proto_hdr_len = 20, reassembled_pkt = None, frag_size = 65536, next_proto = 0,
            expire_timer = None, frag_log = [] :: int frag_effect list, frag_fail = Ret ()\<rparr> in
   \<exists>ip l. finish_packet False (hdr @ payload) F = Ret ip \<and> TotalLen \<lparr>big_endian = True, char_signed = True\<rparr> ip = Ret l \<and> unat l = 20"
proof -
  let ?hdr = "0x45 # replicate 19 0 :: bytes"
  let ?F = "\<lparr>proto_hdr = ?hdr, proto_hdr_len = 20, reassembled_pkt = None, frag_size = 65536, next_proto = 0,
      expire_timer = None, frag_log = [] :: int frag_effect list, frag_fail = Ret ()\<rparr>"
  have "frag_core ?hdr ?F" by (simp add: frag_core_def hdr4_ok_def)
  from reassembled_length_wraps [OF this, of "replicate 65536 7" False "\<lparr>big_endian = True, char_signed = True\<rparr>"] show ?thesis by (simp add: Let_def)
qed

end
