(* ===== verification/Bro_Sdmbn.thy ===== *)
theory Bro_Sdmbn
  imports Sdmbn_Core
begin

text \<open>
  Bro as a network function: the callbacks in \<^verbatim>\<open>bro-2.1/src/main.cc\<close> that export and import
  connections, the dictionaries of connections they work on, and the part of
  \<^verbatim>\<open>NetSessions::DoNextPacket\<close> in \<^verbatim>\<open>Sessions.cc\<close> that finds the connection of a packet and hands
  the packet to it.

  A dictionary is the list of its entries in the order of iteration.  A connection carries its mutex
  as a boolean; what its analyzers hold is the field \<open>c_state\<close>.  The boost archives, the analyzers and
  the reuse test are parameters, in the record \<open>bro_env\<close>.
\<close>

section \<open>Connections\<close>

datatype TransportProto = TRANSPORT_UNKNOWN | TRANSPORT_TCP | TRANSPORT_UDP | TRANSPORT_ICMP

text \<open>Ports are kept in network order, addresses as the sixteen bytes of \<open>in6\<close>.\<close>

record 'a Connection =
  c_key :: "bytes option"
  c_orig_addr :: bytes
  c_resp_addr :: bytes
  c_orig_port :: u32
  c_resp_port :: u32
  c_proto :: TransportProto
  c_moved :: bool
  c_getOpId :: c_int
  c_lock :: bool
  c_state :: 'a

type_synonym 'a dict = "(bytes \<times> 'a Connection) list"

record 'a NetSessions =
  tcp_conns :: "'a dict"
  udp_conns :: "'a dict"
  icmp_conns :: "'a dict"
  drop_counter :: c_int

type_synonym ('a, 'j) bro = "('a NetSessions, 'j) sdmbn"

text \<open>A pointer to a connection: null, never set, or to an object.\<close>

datatype 'a conn_ptr = NullPtr | WildPtr | ConnPtr "'a Connection"

text \<open>\<open>archive_out\<close> and \<open>archive_in\<close> are the boost archives (\<open>Aborted\<close> for an exception that nobody
  catches), \<open>root_moved\<close> is what \<open>Moved\<close> does to the analyzers; the files of the exchange open
  or not, and an allocation succeeds or not.\<close>

record 'a bro_env =
  env_hash :: "bytes \<Rightarrow> u64"
  archive_out :: "'a Connection \<Rightarrow> string run"
  archive_in :: "string \<Rightarrow> 'a conn_ptr run"
  root_moved :: "'a \<Rightarrow> 'a"
  out_opens :: bool
  in_opens :: bool
  in_written :: bool
  alloc_ok :: "int \<Rightarrow> bool"
  new_conn :: "bytes \<Rightarrow> bytes \<Rightarrow> 'a Connection option"
  check_tag :: "'a Connection \<Rightarrow> bytes \<Rightarrow> int"
  is_reuse :: "'a Connection \<Rightarrow> bytes \<Rightarrow> bool"
  next_packet :: "bytes \<Rightarrow> 'a Connection \<Rightarrow> 'a"

fun get_dict :: "TransportProto \<Rightarrow> 'a NetSessions \<Rightarrow> 'a dict" where
  "get_dict TRANSPORT_TCP n = tcp_conns n"
| "get_dict TRANSPORT_UDP n = udp_conns n"
| "get_dict TRANSPORT_ICMP n = icmp_conns n"
| "get_dict TRANSPORT_UNKNOWN n = []"

fun set_dict :: "TransportProto \<Rightarrow> 'a dict \<Rightarrow> 'a NetSessions \<Rightarrow> 'a NetSessions" where
  "set_dict TRANSPORT_TCP d n = n\<lparr>tcp_conns := d\<rparr>"
| "set_dict TRANSPORT_UDP d n = n\<lparr>udp_conns := d\<rparr>"
| "set_dict TRANSPORT_ICMP d n = n\<lparr>icmp_conns := d\<rparr>"
| "set_dict TRANSPORT_UNKNOWN d n = n"

definition upd_dict :: "TransportProto \<Rightarrow> 'a dict \<Rightarrow> ('a, 'j) bro \<Rightarrow> ('a, 'j) bro" where
  "upd_dict p d s = s\<lparr>s_nf := set_dict p d (s_nf s)\<rparr>"

definition Moved :: "'a bro_env \<Rightarrow> 'a Connection \<Rightarrow> 'a Connection" where
  "Moved B c = c\<lparr>c_moved := True, c_state := root_moved B (c_state c)\<rparr>"

definition dict_remove :: "bytes \<Rightarrow> 'a dict \<Rightarrow> 'a dict" where
  "dict_remove k d = List.filter (\<lambda>e. fst e \<noteq> k) d"

definition dict_insert :: "bytes \<Rightarrow> 'a Connection \<Rightarrow> 'a dict \<Rightarrow> 'a dict" where
  "dict_insert k c d = (if k \<in> fst ` set d then List.map (\<lambda>e. if fst e = k then (k, c) else e) d else d @ [(k, c)])"

text \<open>\<open>NetSessions::Insert\<close>: the old entry goes first, so that the dictionary takes the new key.\<close>

definition sess_Insert :: "'a Connection \<Rightarrow> ('a, 'j) bro \<Rightarrow> ('a, 'j) bro run" where
  "sess_Insert c s =
     (case c_key c of
        None \<Rightarrow> Aborted
      | Some k \<Rightarrow>
          if c_proto c = TRANSPORT_UNKNOWN then Aborted
          else Ret (upd_dict (c_proto c) (dict_insert k c (dict_remove k (get_dict (c_proto c) (s_nf s)))) s))"

text \<open>\<open>NetSessions::Remove\<close> of a connection; a missing entry is an internal error unless the connection
  has moved.\<close>

definition sess_Remove :: "'a Connection \<Rightarrow> ('a, 'j) bro \<Rightarrow> ('a, 'j) bro run" where
  "sess_Remove c s =
     (case c_key c of
        None \<Rightarrow> Ret s
      | Some k \<Rightarrow>
          if c_proto c = TRANSPORT_UNKNOWN then Aborted
          else let d = get_dict (c_proto c) (s_nf s) in
            if k \<notin> fst ` set d \<and> \<not> c_moved c then Aborted
            else Ret (sdmbn_notify_flow_destroyed (upd_dict (c_proto c) (dict_remove k d) s)))"

section \<open>Import\<close>

text \<open>Writing a state of length zero counts as a failed write.\<close>

definition sdmbn_boost_decode :: "'a bro_env \<Rightarrow> string \<Rightarrow> 'a conn_ptr run" where
  "sdmbn_boost_decode B state =
     (if \<not> in_opens B then Ret NullPtr
      else if state = [] \<or> \<not> in_written B then Ret NullPtr
      else archive_in B state)"

definition local_put_perflow_bro ::
  "'a bro_env \<Rightarrow> c_int \<Rightarrow> PerflowKey option \<Rightarrow> string option \<Rightarrow> ('a, 'j) bro \<Rightarrow> (c_int \<times> ('a, 'j) bro) run" where
  "local_put_perflow_bro B hashkey key_ptr state_ptr s =
     (if key_ptr = None \<or> state_ptr = None then Ret (-1, s)
      else run_bind (sdmbn_boost_decode B (the state_ptr)) (\<lambda>conn.
        case conn of
          ConnPtr c \<Rightarrow> run_bind (sess_Insert (c\<lparr>c_getOpId := 0\<rparr>) s) (\<lambda>s. Ret (1, s))
        | _ \<Rightarrow> Undef))"

section \<open>Export\<close>

definition sdmbn_boost_encode :: "'a bro_env \<Rightarrow> 'a Connection \<Rightarrow> string option run" where
  "sdmbn_boost_encode B c =
     run_bind (archive_out B c) (\<lambda>text.
       if \<not> out_opens B then Ret None
       else if \<not> alloc_ok B (int (length text) + 1) then Ret None
       else if text = [] then Ret None
       else Ret (Some text))"

definition addr_word :: "platform \<Rightarrow> bytes \<Rightarrow> nat \<Rightarrow> u32" where
  "addr_word P a i = native32 P (a ! i) (a ! (i + 1)) (a ! (i + 2)) (a ! (i + 3))"

text \<open>A shift by 32 or more is undefined; the shift happens whether or not the address is compared.\<close>

definition prefix_mask :: "bool \<Rightarrow> u32 \<Rightarrow> u32 run" where
  "prefix_mask wild m =
     (if wild then Ret 0xFFFFFFFF
      else if 32 - m < 32 then Ret (push_bit (unat (32 - m)) 0xFFFFFFFF) else Undef)"

definition conn_wanted :: "platform \<Rightarrow> PerflowKey \<Rightarrow> 'a Connection \<Rightarrow> bool run" where
  "conn_wanted P key c =
     (let w = flag_set (wildcards key); flip = tp_flip key \<noteq> 0 in
      if c_moved c then Ret False
      else if \<not> w WILDCARD_TP_SRC \<and>
        \<not> (c_orig_port c = ucast (tp_src key) \<or> flip \<and> c_resp_port c = ucast (tp_src key)) then Ret False
      else if \<not> w WILDCARD_TP_DST \<and>
        \<not> (c_resp_port c = ucast (tp_dst key) \<or> flip \<and> c_orig_port c = ucast (tp_dst key)) then Ret False
      else run_bind (prefix_mask (w WILDCARD_NW_SRC_MASK) (nw_src_mask key)) (\<lambda>src_mask.
        if \<not> w WILDCARD_NW_SRC \<and> src_mask AND addr_word P (c_orig_addr c) 0 \<noteq> nw_src key then Ret False
        else run_bind (prefix_mask (w WILDCARD_NW_DST_MASK) (nw_dst_mask key)) (\<lambda>dst_mask.
          Ret (\<not> (\<not> w WILDCARD_NW_DST \<and> dst_mask AND addr_word P (c_resp_addr c) 0 \<noteq> nw_dst key)))))"

text \<open>The key that is sent, over the uninitialised one on the stack: the two masks are not set, and not
  switched off.\<close>

definition bro_export_key :: "platform \<Rightarrow> PerflowKey \<Rightarrow> 'a Connection \<Rightarrow> PerflowKey" where
  "bro_export_key P stack c =
     (let k = stack\<lparr>wildcards := WILDCARD_DL_TYPE, nw_src := addr_word P (c_orig_addr c) 12, nw_dst := addr_word P (c_resp_addr c) 12,
                tp_src := ucast (c_orig_port c), tp_dst := ucast (c_resp_port c)\<rparr>
      in case c_proto c of
           TRANSPORT_TCP \<Rightarrow> k\<lparr>nw_proto := 6\<rparr>
         | TRANSPORT_UDP \<Rightarrow> k\<lparr>nw_proto := 17\<rparr>
         | TRANSPORT_ICMP \<Rightarrow> k\<lparr>nw_proto := 1\<rparr>
         | TRANSPORT_UNKNOWN \<Rightarrow> k\<lparr>wildcards := wildcards k OR WILDCARD_NW_PROTO\<rparr>)"

text \<open>The loop over the dictionary; a connection that cannot be serialised is left with its lock held.\<close>

fun get_loop ::
  "'j json_c \<Rightarrow> platform \<Rightarrow> 'a bro_env \<Rightarrow> PerflowKey \<Rightarrow> PerflowKey \<Rightarrow> c_int \<Rightarrow> c_int \<Rightarrow> 'a dict \<Rightarrow> c_int \<Rightarrow> ('a, 'j) bro
   \<Rightarrow> ('a dict \<times> c_int \<times> ('a, 'j) bro) run" where
  "get_loop J P B stack key i raiseEvents [] count s = Ret ([], count, s)"
| "get_loop J P B stack key i raiseEvents ((k, c) # d) count s =
     run_bind (conn_wanted P key c) (\<lambda>wanted.
       if \<not> wanted then
         run_bind (get_loop J P B stack key i raiseEvents d count s) (\<lambda>(d, r). Ret ((k, c) # d, r))
       else if c_lock c then Blocked
       else run_bind (sdmbn_boost_encode B (c\<lparr>c_lock := True\<rparr>)) (\<lambda>state.
         let c = c\<lparr>c_lock := True, c_getOpId := i\<rparr>; c = (if raiseEvents \<noteq> 0 then Moved B c else c) in
         case state of
           None \<Rightarrow> run_bind (get_loop J P B stack key i raiseEvents d count s) (\<lambda>(d, r). Ret ((k, c) # d, r))
         | Some text \<Rightarrow>
             run_bind (run_of_option (c_key c)) (\<lambda>h.
             let hash = ucast (env_hash B h); connkey = bro_export_key P stack c; c = c\<lparr>c_lock := False\<rparr>;
                 (result, s) = sdmbn_send_perflow J P i (Some connkey) (Some text) hash count s in
             run_bind (get_loop J P B stack key i raiseEvents d (count + 1) s) (\<lambda>(d, r). Ret ((k, c) # d, r)))))"

definition proto_dict :: "c_int \<Rightarrow> TransportProto" where
  "proto_dict proto =
     (if proto = 6 then TRANSPORT_TCP else if proto = 17 then TRANSPORT_UDP
      else if proto = 1 \<or> proto = 58 then TRANSPORT_ICMP else TRANSPORT_UNKNOWN)"

definition handle_get_proto ::
  "'j json_c \<Rightarrow> platform \<Rightarrow> 'a bro_env \<Rightarrow> PerflowKey \<Rightarrow> PerflowKey \<Rightarrow> c_int \<Rightarrow> c_int \<Rightarrow> c_int \<Rightarrow> ('a, 'j) bro
   \<Rightarrow> (c_int \<times> ('a, 'j) bro) run" where
  "handle_get_proto J P B stack key proto i raiseEvents s =
     (if proto_dict proto = TRANSPORT_UNKNOWN then Ret (0, s)
      else run_bind (get_loop J P B stack key i raiseEvents (get_dict (proto_dict proto) (s_nf s)) 0 s)
             (\<lambda>(d, count, s). Ret (count, upd_dict (proto_dict proto) d s)))"

text \<open>What the registered callback sends instead: 69 messages with a made-up connection.\<close>

definition made_up_key :: "PerflowKey \<Rightarrow> PerflowKey" where
  "made_up_key stack = stack\<lparr>wildcards := WILDCARD_ALL AND NOT WILDCARD_TP_SRC AND NOT WILDCARD_NW_SRC AND NOT WILDCARD_NW_SRC_MASK
       AND NOT WILDCARD_NW_DST AND NOT WILDCARD_NW_DST_MASK AND NOT WILDCARD_DL_TYPE AND NOT WILDCARD_NW_PROTO
       AND NOT WILDCARD_DL_TYPE,
     tp_src := 1111, nw_src := 123456, nw_src_mask := 32, nw_dst := 875897, nw_dst_mask := 32, dl_type := 0x0800, nw_proto := 6\<rparr>"

fun made_up_loop :: "'j json_c \<Rightarrow> platform \<Rightarrow> PerflowKey \<Rightarrow> nat \<Rightarrow> c_int \<Rightarrow> ('a, 'j) bro \<Rightarrow> c_int \<times> ('a, 'j) bro" where
  "made_up_loop J P connkey 0 get_count s = (get_count, s)"
| "made_up_loop J P connkey (Suc rounds) get_count s =
     (let (result, s) = sdmbn_send_perflow J P 1 (Some connkey) (Some ''lalala'') 666 get_count s
      in made_up_loop J P connkey rounds (get_count + 1) s)"

definition send_state_bro :: "'j json_c \<Rightarrow> platform \<Rightarrow> PerflowKey \<Rightarrow> ('a, 'j) bro \<Rightarrow> c_int \<times> ('a, 'j) bro" where
  "send_state_bro J P stack s = made_up_loop J P (made_up_key stack) 69 1 s"

definition local_get_perflow_bro ::
  "'j json_c \<Rightarrow> platform \<Rightarrow> PerflowKey \<Rightarrow> PerflowKey option \<Rightarrow> c_int \<Rightarrow> c_int \<Rightarrow> exts \<Rightarrow> ('a, 'j) bro \<Rightarrow> c_int \<times> ('a, 'j) bro" where
  "local_get_perflow_bro J P stack key_ptr i raiseEvents unused s = send_state_bro J P stack s"

section \<open>Packets\<close>

text \<open>Handing a packet to its connection.  A packet of a moved connection is not processed; the call
  that would send it to the controller is commented out.\<close>

definition deliver :: "'a bro_env \<Rightarrow> TransportProto \<Rightarrow> bytes \<Rightarrow> 'a Connection \<Rightarrow> bytes \<Rightarrow> ('a, 'j) bro \<Rightarrow> ('a, 'j) bro run" where
  "deliver B p h c pkt s =
     (if c_lock c then Blocked
      else if c_moved c then Ret s
      else Ret (upd_dict p (dict_insert h (c\<lparr>c_state := next_packet B pkt c\<rparr>) (get_dict p (s_nf s))) s))"

text \<open>Creating the connection of a packet; the caller hands over the key \<open>h\<close>.\<close>

definition create_conn :: "'a bro_env \<Rightarrow> TransportProto \<Rightarrow> bytes \<Rightarrow> bytes \<Rightarrow> ('a, 'j) bro \<Rightarrow> ('a, 'j) bro run" where
  "create_conn B p h pkt s =
     (case new_conn B h pkt of
        None \<Rightarrow> Ret s
      | Some c \<Rightarrow>
          let c = c\<lparr>c_lock := False\<rparr>; s = upd_dict p (dict_insert h c (get_dict p (s_nf s))) s
          in deliver B p h c pkt s)"

definition DoNextPacket_conn ::
  "'a bro_env \<Rightarrow> TransportProto \<Rightarrow> bytes \<Rightarrow> bytes \<Rightarrow> ('a, 'j) bro \<Rightarrow> ('a, 'j) bro run" where
  "DoNextPacket_conn B p h pkt s =
     run_bind (sdmbn_notify_packet_received s) (\<lambda>s.
     case map_of (get_dict p (s_nf s)) h of
       None \<Rightarrow> create_conn B p h pkt (sdmbn_notify_flow_created s)
     | Some c \<Rightarrow>
         let s = (if c_moved c then s\<lparr>s_nf := (s_nf s)\<lparr>drop_counter := drop_counter (s_nf s) + 1\<rparr>\<rparr> else s);
             consistent = check_tag B c pkt in
         if consistent < 0 then Ret s
         else if consistent = 0 \<or> is_reuse B c pkt then
           run_bind (sess_Remove c s) (\<lambda>s. create_conn B p h pkt s)
         else deliver B p h c pkt s)"

end
