(* ===== verification/Bro_Sdmbn_Props.thy ===== *)
theory Bro_Sdmbn_Props
  imports Bro_Sdmbn Sdmbn_State_Props
begin

text \<open>
  What the export of connections from Bro does to them and to the packets that follow: one message per
  selected connection, in the order of the dictionary; a connection that was exported with events stays in
  its dictionary, marked, and its packets are counted and forgotten; one that could not be
  serialised keeps its lock.
\<close>

section \<open>Dictionaries\<close>

lemma dict_simps [simp]:
  "p \<noteq> TRANSPORT_UNKNOWN \<Longrightarrow> get_dict p (set_dict p d n) = d" "drop_counter (set_dict p d n) = drop_counter n"
  by (cases p; simp)+

lemma upd_dict_simps [simp]:
  "s_nf (upd_dict p d s) = set_dict p d (s_nf s)" "s_sent (upd_dict p d s) = s_sent s"
  "s_stats (upd_dict p d s) = s_stats s" "s_config (upd_dict p d s) = s_config s" "s_lock_get (upd_dict p d s) = s_lock_get s"
  by (simp_all add: upd_dict_def)

lemma get_dict_drop [simp]: "get_dict p (n\<lparr>drop_counter := v\<rparr>) = get_dict p n"
  by (cases p) simp_all

text \<open>The notification of a packet does not touch the network function.\<close>

lemma notify_keeps:
  assumes "sdmbn_notify_packet_received s = Ret s'"
  shows "s_nf s' = s_nf s \<and> s_sent s' = s_sent s"
  using assms by (auto simp: sdmbn_notify_packet_received_def Let_def unlock_get_def split: if_splits)

section \<open>The export loop\<close>

text \<open>An exported connection, after its lock was released.\<close>

definition exported :: "'a bro_env \<Rightarrow> c_int \<Rightarrow> c_int \<Rightarrow> 'a Connection \<Rightarrow> 'a Connection" where
  "exported B i ev c = (let c = c\<lparr>c_getOpId := i\<rparr> in if ev \<noteq> 0 then Moved B c else c)"

lemma exported_fields [simp]:
  "c_key (exported B i ev c) = c_key c" "c_lock (exported B i ev c) = c_lock c" "c_proto (exported B i ev c) = c_proto c"
  "c_orig_addr (exported B i ev c) = c_orig_addr c" "c_resp_addr (exported B i ev c) = c_resp_addr c"
  "c_orig_port (exported B i ev c) = c_orig_port c" "c_resp_port (exported B i ev c) = c_resp_port c"
  "c_moved (exported B i ev c) \<longleftrightarrow> c_moved c \<or> ev \<noteq> 0"
  by (auto simp: exported_def Moved_def Let_def)

lemma exported_key [simp]: "bro_export_key P stack (exported B i ev c) = bro_export_key P stack c"
  by (simp add: bro_export_key_def)

lemma exported_locked:
  "(let c = c\<lparr>c_lock := True, c_getOpId := i\<rparr> in if ev \<noteq> 0 then Moved B c else c) = (exported B i ev c)\<lparr>c_lock := True\<rparr>"
  by (simp add: exported_def Moved_def Let_def)

lemma export_key_lock [simp]: "bro_export_key P stack (c\<lparr>c_lock := l\<rparr>) = bro_export_key P stack c"
  by (simp add: bro_export_key_def)

lemma get_loop_skip:
  "conn_wanted P key c = Ret False \<Longrightarrow> get_loop J P B stack key i ev ((k, c) # d) count s
    = run_bind (get_loop J P B stack key i ev d count s) (\<lambda>(d, r). Ret ((k, c) # d, r))"
  by simp

lemma get_loop_send:
  assumes "conn_wanted P key c = Ret True" and "\<not> c_lock c" and "sdmbn_boost_encode B (c\<lparr>c_lock := True\<rparr>) = Ret (Some t)"
    and "c_key c = Some h"
  shows "get_loop J P B stack key i ev ((k, c) # d) count s
    = run_bind (get_loop J P B stack key i ev d (count + 1)
        (snd (sdmbn_send_perflow J P i (Some (bro_export_key P stack c)) (Some t) (ucast (env_hash B h)) count s)))
        (\<lambda>(d, r). Ret ((k, exported B i ev c) # d, r))"
proof -
  have e: "(exported B i ev c)\<lparr>c_lock := False\<rparr> = exported B i ev c"
    using assms(2) by (cases c) (simp add: exported_def Moved_def Let_def)
  show ?thesis
    using assms exported_locked [where c = c and i = i and ev = ev and B = B] by (simp add: Let_def split_beta e)
qed

lemma get_loop_fail:
  assumes "conn_wanted P key c = Ret True" and "\<not> c_lock c" and "sdmbn_boost_encode B (c\<lparr>c_lock := True\<rparr>) = Ret None"
  shows "get_loop J P B stack key i ev ((k, c) # d) count s
    = run_bind (get_loop J P B stack key i ev d count s) (\<lambda>(d, r). Ret ((k, (exported B i ev c)\<lparr>c_lock := True\<rparr>) # d, r))"
  using assms exported_locked [where c = c and i = i and ev = ev and B = B] by (simp add: Let_def)

text \<open>What every entry becomes, whatever happens to the others.\<close>

lemma get_loop_entries:
  assumes "get_loop J P B stack key i ev d count s = Ret (d', r, s')"
  shows "List.map fst d' = List.map fst d" and "s_nf s' = s_nf s"
    and "\<lbrakk>(k, c) \<in> set d; conn_wanted P key c = Ret True\<rbrakk> \<Longrightarrow> \<not> c_lock c \<and>
      (\<forall>t. sdmbn_boost_encode B (c\<lparr>c_lock := True\<rparr>) = Ret (Some t) \<longrightarrow> (k, exported B i ev c) \<in> set d') \<and>
      (sdmbn_boost_encode B (c\<lparr>c_lock := True\<rparr>) = Ret None \<longrightarrow> (k, (exported B i ev c)\<lparr>c_lock := True\<rparr>) \<in> set d')"
proof -
  have "List.map fst d' = List.map fst d \<and> s_nf s' = s_nf s \<and> ((k, c) \<in> set d \<longrightarrow> conn_wanted P key c = Ret True \<longrightarrow> \<not> c_lock c \<and>
      (\<forall>t. sdmbn_boost_encode B (c\<lparr>c_lock := True\<rparr>) = Ret (Some t) \<longrightarrow> (k, exported B i ev c) \<in> set d') \<and>
      (sdmbn_boost_encode B (c\<lparr>c_lock := True\<rparr>) = Ret None \<longrightarrow> (k, (exported B i ev c)\<lparr>c_lock := True\<rparr>) \<in> set d'))"
    using assms
  proof (induction d arbitrary: count s d')
    case (Cons e d)
    obtain k1 c1 where e: "e = (k1, c1)" by fastforce
    from Cons.prems obtain w where w: "conn_wanted P key c1 = Ret w" by (auto simp: e run_bind_eq_Ret)
    show ?case
    proof (cases w)
      case False
      with Cons.prems w obtain d1 where "get_loop J P B stack key i ev d count s = Ret (d1, r, s')" "d' = (k1, c1) # d1"
        by (auto simp: e run_bind_eq_Ret)
      from Cons.IH [OF this(1)] this(2) show ?thesis using w False by (auto simp: e)
    next
      case True
      with Cons.prems w have l: "\<not> c_lock c1" by (auto simp: e split: if_splits)
      from Cons.prems w True l obtain st where st: "sdmbn_boost_encode B (c1\<lparr>c_lock := True\<rparr>) = Ret st"
        by (auto simp: e run_bind_eq_Ret)
      show ?thesis
      proof (cases st)
        case None
        note step = get_loop_fail [OF w [unfolded eqTrueI [OF True]] l st [unfolded None]]
        from Cons.prems obtain d1 where "get_loop J P B stack key i ev d count s = Ret (d1, r, s')"
          "d' = (k1, (exported B i ev c1)\<lparr>c_lock := True\<rparr>) # d1"
          unfolding e step by (auto simp: run_bind_eq_Ret)
        from Cons.IH [OF this(1)] this(2) show ?thesis using l st None by (auto simp: e)
      next
        case (Some t)
        from Cons.prems w True l st Some obtain h where h: "c_key c1 = Some h"
          by (auto simp: e run_bind_eq_Ret Let_def Moved_def split: if_splits)
        note step = get_loop_send [OF w [unfolded eqTrueI [OF True]] l st [unfolded Some] h]
        from Cons.prems obtain d1 s1 where "get_loop J P B stack key i ev d (count + 1) s1 = Ret (d1, r, s')"
          "d' = (k1, exported B i ev c1) # d1" "s_nf s1 = s_nf s"
          unfolding e step by (auto simp: run_bind_eq_Ret sdmbn_send_perflow_def json_send_def split: option.splits if_splits)
        from Cons.IH [OF this(1)] this(2,3) show ?thesis using l st Some by (auto simp: e)
      qed
    qed
  qed simp
  then show "List.map fst d' = List.map fst d" "s_nf s' = s_nf s"
    "\<lbrakk>(k, c) \<in> set d; conn_wanted P key c = Ret True\<rbrakk> \<Longrightarrow> \<not> c_lock c \<and>
      (\<forall>t. sdmbn_boost_encode B (c\<lparr>c_lock := True\<rparr>) = Ret (Some t) \<longrightarrow> (k, exported B i ev c) \<in> set d') \<and>
      (sdmbn_boost_encode B (c\<lparr>c_lock := True\<rparr>) = Ret None \<longrightarrow> (k, (exported B i ev c)\<lparr>c_lock := True\<rparr>) \<in> set d')"
    by blast+
qed



lemma not_sneg_small: "m < 2 ^ 31 \<Longrightarrow> \<not> sneg (word_of_nat m :: c_int)"
  by (simp add: sneg_def sint_word_of_nat_31)



subsection \<open>An example\<close>

definition demo_conn :: "nat \<Rightarrow> u32 \<Rightarrow> nat Connection" where
  "demo_conn n port = \<lparr>c_key = Some [word_of_nat n], c_orig_addr = [0, 0, 0, 0, 0, 0, 0, 0, 0, 0, 0xFF, 0xFF, 10, 0, 0, 1],
     c_resp_addr = [0, 0, 0, 0, 0, 0, 0, 0, 0, 0, 0xFF, 0xFF, 10, 0, 0, 2], c_orig_port = 0x9C40, c_resp_port = port,
     c_proto = TRANSPORT_TCP, c_moved = False, c_getOpId = 0, c_lock = False, c_state = n\<rparr>"

definition demo_env :: "bool \<Rightarrow> nat bro_env" where
  "demo_env opens = \<lparr>env_hash = \<lambda>k. 7, archive_out = \<lambda>c. Ret ''archive'', archive_in = \<lambda>t. Ret WildPtr, root_moved = \<lambda>x. x,
     out_opens = opens, in_opens = True, in_written = True, alloc_ok = \<lambda>_. True, new_conn = \<lambda>h pkt. None,
     check_tag = \<lambda>c pkt. 1, is_reuse = \<lambda>c pkt. False, next_packet = \<lambda>pkt c. c_state c + 1\<rparr>"

definition demo_bro :: "(nat, json_value) bro" where
  "demo_bro = zero_sdmbn \<lparr>tcp_conns = [([1], demo_conn 1 80), ([2], demo_conn 2 53)], udp_conns = [], icmp_conns = [], drop_counter = 0\<rparr>"

definition demo_key :: PerflowKey where "demo_key = zero_key\<lparr>wildcards := 0xDF, tp_dst := 80\<rparr>"

abbreviation "demo_P \<equiv> \<lparr>big_endian = False, char_signed = True\<rparr>"

lemma demo_bro_simps [simp]:
  "tcp_conns (s_nf demo_bro) = [([1], demo_conn 1 80), ([2], demo_conn 2 53)]" "s_sent demo_bro = []" "s_conn_state demo_bro = 0"
  "proto_dict 6 = TRANSPORT_TCP"
  by (simp_all add: demo_bro_def zero_sdmbn_def proto_dict_def)

lemma demo_wanted: "conn_wanted demo_P demo_key (demo_conn n port) = Ret (port = 80)"
  by (simp add: conn_wanted_def demo_key_def demo_conn_def flag_set_def wildcard_defs prefix_mask_def zero_key_def Let_def)

lemma demo_encode: "sdmbn_boost_encode (demo_env opens) c = Ret (if opens then Some ''archive'' else None)"
  by (simp add: sdmbn_boost_encode_def demo_env_def)


section \<open>Packets after an export\<close>

lemma map_of_entry: "distinct (List.map fst d) \<Longrightarrow> (k, c) \<in> set d \<Longrightarrow> map_of d k = Some c"
  by simp

lemma packet_finds_conn:
  assumes "sdmbn_notify_packet_received s = Ret s1" and "distinct (List.map fst (get_dict p (s_nf s)))"
    and "(k, c) \<in> set (get_dict p (s_nf s))" and "check_tag B c pkt > 0" and "\<not> is_reuse B c pkt"
  shows "DoNextPacket_conn B p k pkt s =
    deliver B p k c pkt (if c_moved c then s1\<lparr>s_nf := (s_nf s1)\<lparr>drop_counter := drop_counter (s_nf s1) + 1\<rparr>\<rparr> else s1)"
  using assms notify_keeps [OF assms(1)] by (simp add: DoNextPacket_conn_def Let_def)

lemma export_entry:
  assumes "handle_get_proto J P B stack key proto i ev s = Ret (n, s1)" and "proto_dict proto \<noteq> TRANSPORT_UNKNOWN"
    and "distinct (List.map fst (get_dict (proto_dict proto) (s_nf s)))"
    and "(k, c) \<in> set (get_dict (proto_dict proto) (s_nf s))" and "conn_wanted P key c = Ret True"
  shows "distinct (List.map fst (get_dict (proto_dict proto) (s_nf s1))) \<and> \<not> c_lock c \<and>
    (\<forall>t. sdmbn_boost_encode B (c\<lparr>c_lock := True\<rparr>) = Ret (Some t) \<longrightarrow> (k, exported B i ev c) \<in> set (get_dict (proto_dict proto) (s_nf s1))) \<and>
    (sdmbn_boost_encode B (c\<lparr>c_lock := True\<rparr>) = Ret None \<longrightarrow>
       (k, (exported B i ev c)\<lparr>c_lock := True\<rparr>) \<in> set (get_dict (proto_dict proto) (s_nf s1)))"
proof -
  obtain d' s2 where g: "get_loop J P B stack key i ev (get_dict (proto_dict proto) (s_nf s)) 0 s = Ret (d', n, s2)"
    and s1: "s1 = upd_dict (proto_dict proto) d' s2"
    using assms(1,2) by (auto simp: handle_get_proto_def run_bind_eq_Ret)
  show ?thesis
    using get_loop_entries [OF g] assms(2-) by (simp add: s1)
qed

text \<open>A connection that was exported with events stays in its dictionary, and a later packet of it is counted
  and forgotten: it is not processed, nothing changes in the dictionary, and no message goes to the
  controller.\<close>

theorem moved_connection_loses_packets:
  assumes "handle_get_proto J P B stack key proto i ev s = Ret (n, s1)" and "proto_dict proto \<noteq> TRANSPORT_UNKNOWN" and "ev \<noteq> 0"
    and "distinct (List.map fst (get_dict (proto_dict proto) (s_nf s)))" and "(k, c) \<in> set (get_dict (proto_dict proto) (s_nf s))"
    and "conn_wanted P key c = Ret True" and "sdmbn_boost_encode B (c\<lparr>c_lock := True\<rparr>) = Ret (Some t)"
    and "check_tag B (exported B i ev c) pkt > 0" and "\<not> is_reuse B (exported B i ev c) pkt"
    and "sdmbn_notify_packet_received s1 = Ret s2"
  shows "\<exists>s3. DoNextPacket_conn B (proto_dict proto) k pkt s1 = Ret s3 \<and> s_sent s3 = s_sent s1 \<and>
    get_dict (proto_dict proto) (s_nf s3) = get_dict (proto_dict proto) (s_nf s1) \<and>
    drop_counter (s_nf s3) = drop_counter (s_nf s1) + 1"
proof -
  let ?p = "proto_dict proto" and ?c = "exported B i ev c"
  have e: "distinct (List.map fst (get_dict ?p (s_nf s1)))" "\<not> c_lock c" "(k, ?c) \<in> set (get_dict ?p (s_nf s1))"
    using export_entry [OF assms(1,2,4-6)] assms(7) by auto
  have "DoNextPacket_conn B ?p k pkt s1 = deliver B ?p k ?c pkt (s2\<lparr>s_nf := (s_nf s2)\<lparr>drop_counter := drop_counter (s_nf s2) + 1\<rparr>\<rparr>)"
    using packet_finds_conn [OF assms(10) e(1,3) assms(8,9)] assms(3) by simp
  then show ?thesis
    using e(2) assms(3) notify_keeps [OF assms(10)] by (simp add: deliver_def)
qed

lemma demo_export:
  "\<exists>n s1 s2. handle_get_proto json_tree demo_P (demo_env opens) zero_key demo_key 6 9 ev demo_bro = Ret (n, s1) \<and>
     sdmbn_notify_packet_received s1 = Ret s2"
proof -
  have c: "\<not> c_lock (demo_conn m port)" "c_key (demo_conn m port) = Some [word_of_nat m]" for m port by (simp_all add: demo_conn_def)
  obtain d n s2 where "get_loop json_tree demo_P (demo_env opens) zero_key demo_key 9 ev (tcp_conns (s_nf demo_bro)) 0 demo_bro = Ret (d, n, s2)"
    and "s_config s2 = s_config demo_bro"
    by (cases opens; cases "ev = 0") (auto simp: demo_wanted c demo_encode Let_def Moved_def send_perflow_sent not_sneg_small [of 0, simplified])
  then show ?thesis
    by (simp add: handle_get_proto_def sdmbn_notify_packet_received_def Let_def demo_bro_def zero_sdmbn_def)
qed

theorem moved_connection_loses_packets_witness:
  "\<exists>n s1 s3. handle_get_proto json_tree demo_P (demo_env True) zero_key demo_key 6 9 1 demo_bro = Ret (n, s1) \<and>
     DoNextPacket_conn (demo_env True) TRANSPORT_TCP [1] [0x45] s1 = Ret s3 \<and> s_sent s3 = s_sent s1 \<and>
     tcp_conns (s_nf s3) = tcp_conns (s_nf s1) \<and> drop_counter (s_nf s3) = drop_counter (s_nf s1) + 1"
proof -
  obtain n s1 s2 where g: "handle_get_proto json_tree demo_P (demo_env True) zero_key demo_key 6 9 1 demo_bro = Ret (n, s1)"
    and nf: "sdmbn_notify_packet_received s1 = Ret s2" using demo_export by blast
  have w: "conn_wanted demo_P demo_key (demo_conn 1 80) = Ret True" by (simp add: demo_wanted)
  have t: "check_tag (demo_env True) c [0x45] > 0" "\<not> is_reuse (demo_env True) c [0x45]" for c by (simp_all add: demo_env_def)
  show ?thesis
    using moved_connection_loses_packets [OF g _ _ _ _ w _ t nf, of "[1]" "''archive''"] g by (simp add: demo_encode)
qed

text \<open>C40. When a selected connection cannot be serialised, its lock is never released: the next packet of the
  connection waits for ever.\<close>

theorem failed_export_blocks_packets:
  assumes "handle_get_proto J P B stack key proto i ev s = Ret (n, s1)" and "proto_dict proto \<noteq> TRANSPORT_UNKNOWN"
    and "distinct (List.map fst (get_dict (proto_dict proto) (s_nf s)))" and "(k, c) \<in> set (get_dict (proto_dict proto) (s_nf s))"
    and "conn_wanted P key c = Ret True" and "sdmbn_boost_encode B (c\<lparr>c_lock := True\<rparr>) = Ret None"
    and "check_tag B ((exported B i ev c)\<lparr>c_lock := True\<rparr>) pkt > 0" and "\<not> is_reuse B ((exported B i ev c)\<lparr>c_lock := True\<rparr>) pkt"
    and "sdmbn_notify_packet_received s1 = Ret s2"
  shows "DoNextPacket_conn B (proto_dict proto) k pkt s1 = Blocked"
proof -
  have e: "distinct (List.map fst (get_dict (proto_dict proto) (s_nf s1)))"
    "(k, (exported B i ev c)\<lparr>c_lock := True\<rparr>) \<in> set (get_dict (proto_dict proto) (s_nf s1))"
    using export_entry [OF assms(1-5)] assms(6) by auto
  show ?thesis
    using packet_finds_conn [OF assms(9) e assms(7,8)] by (simp add: deliver_def)
qed

theorem failed_export_blocks_packets_witness:
  "\<exists>n s1. handle_get_proto json_tree demo_P (demo_env False) zero_key demo_key 6 9 0 demo_bro = Ret (n, s1) \<and>
     DoNextPacket_conn (demo_env False) TRANSPORT_TCP [1] [0x45] s1 = Blocked"
proof -
  obtain n s1 s2 where g: "handle_get_proto json_tree demo_P (demo_env False) zero_key demo_key 6 9 0 demo_bro = Ret (n, s1)"
    and nf: "sdmbn_notify_packet_received s1 = Ret s2" using demo_export by blast
  have w: "conn_wanted demo_P demo_key (demo_conn 1 80) = Ret True" by (simp add: demo_wanted)
  have t: "check_tag (demo_env False) c [0x45] > 0" "\<not> is_reuse (demo_env False) c [0x45]" for c by (simp_all add: demo_env_def)
  show ?thesis
    using failed_export_blocks_packets [OF g _ _ _ w _ t nf, of "[1]"] g by (simp add: demo_encode)
qed

section \<open>Selection and import\<close>

text \<open>The address is compared with the first word of the sixteen bytes, which is zero for every
  IPv4 connection.\<close>

lemma ipv4_prefix_selects_nothing:
  assumes "take 4 (c_orig_addr c) = [0, 0, 0, 0]" and "\<not> flag_set (wildcards key) WILDCARD_NW_SRC" and "nw_src key \<noteq> 0"
  shows "conn_wanted P key c \<noteq> Ret True"
proof -
  obtain r where "c_orig_addr c = [0, 0, 0, 0] @ r"
    using append_take_drop_id [of 4 "c_orig_addr c"] unfolding assms(1) by metis
  then have "addr_word P (c_orig_addr c) 0 = 0" by (simp add: addr_word_def native32_def be32_def numeral_eq_Suc)
  then show ?thesis using assms(2,3) by (auto simp: conn_wanted_def Let_def run_bind_eq_Ret)
qed

text \<open>The check for a null pointer comes after the pointer was used.\<close>

lemma put_of_unreadable_state:
  "sdmbn_boost_decode B state \<in> {Ret NullPtr, Ret WildPtr} \<Longrightarrow> local_put_perflow_bro B h (Some key) (Some state) s = Undef"
  by (auto simp: local_put_perflow_bro_def)

end
