(* ===== verification/Nf_Netmsg.thy ===== *)
theory Nf_Netmsg
  imports OFM_Prelude
begin

text \<open>
  The message format in which the iptables network function exports a connection:
  \<^verbatim>\<open>iptables-sdmbn/utils/network.h\<close>, \<^verbatim>\<open>network.c\<close>, \<^verbatim>\<open>build.c\<close> and \<^verbatim>\<open>parse.c\<close>.  A message is an 8-byte
  header followed by attributes, each with its length and number in network byte order, padded to a
  multiple of four bytes.  The buffer is static, so its old contents are part of the state.

  The connection object and its accessors belong to libnetfilter\_conntrack; they are the fields of
  the record \<open>nfct\<close>, a parameter of every definition.  What the library documents of them is a
  hypothesis of the theorems, in \<^verbatim>\<open>Nf_Netmsg_Props\<close>.
\<close>

section \<open>The connection library\<close>

datatype ct_attr =
    ATTR_L3PROTO | ATTR_L4PROTO | ATTR_IPV4_SRC | ATTR_IPV4_DST | ATTR_PORT_SRC | ATTR_PORT_DST | ATTR_ID
  | ATTR_TCP_STATE | ATTR_SCTP_STATE | ATTR_SCTP_VTAG_ORIG | ATTR_SCTP_VTAG_REPL | ATTR_DCCP_STATE | ATTR_DCCP_ROLE
  | ATTR_ICMP_TYPE | ATTR_ICMP_CODE | ATTR_ICMP_ID | ATTR_STATUS | ATTR_TIMEOUT | ATTR_MARK | ATTR_MASTER_L4PROTO
  | ATTR_REPL_IPV4_DST | ATTR_REPL_IPV4_SRC | ATTR_REPL_PORT_DST | ATTR_REPL_PORT_SRC
  | ATTR_SNAT_IPV4 | ATTR_DNAT_IPV4 | ATTR_SNAT_PORT | ATTR_DNAT_PORT
  | ATTR_ORIG_NAT_SEQ_CORRECTION_POS | ATTR_ORIG_NAT_SEQ_OFFSET_BEFORE | ATTR_ORIG_NAT_SEQ_OFFSET_AFTER
  | ATTR_REPL_NAT_SEQ_CORRECTION_POS | ATTR_REPL_NAT_SEQ_OFFSET_BEFORE | ATTR_REPL_NAT_SEQ_OFFSET_AFTER
  | ATTR_TCP_FLAGS_ORIG | ATTR_TCP_MASK_ORIG | ATTR_TCP_FLAGS_REPL | ATTR_TCP_MASK_REPL

datatype ct_grp =
    ATTR_GRP_ORIG_IPV4 | ATTR_GRP_ORIG_IPV6 | ATTR_GRP_ORIG_PORT
  | ATTR_GRP_MASTER_IPV4 | ATTR_GRP_MASTER_IPV6 | ATTR_GRP_MASTER_PORT

datatype ct_gopt = NFCT_GOPT_IS_SNAT | NFCT_GOPT_IS_DNAT | NFCT_GOPT_IS_SPAT | NFCT_GOPT_IS_DPAT

text \<open>\<open>nfct_get_attr\<close> is the byte that the returned pointer points to, \<open>None\<close> for a null pointer; a group
  is read and set as the bytes of its structure.\<close>

record 'c nfct =
  nfct_attr_is_set :: "'c \<Rightarrow> ct_attr \<Rightarrow> bool"
  nfct_get_attr :: "'c \<Rightarrow> ct_attr \<Rightarrow> u8 option"
  nfct_get_attr_u8 :: "'c \<Rightarrow> ct_attr \<Rightarrow> u8"
  nfct_get_attr_u16 :: "'c \<Rightarrow> ct_attr \<Rightarrow> u16"
  nfct_get_attr_u32 :: "'c \<Rightarrow> ct_attr \<Rightarrow> u32"
  nfct_set_attr_u8 :: "'c \<Rightarrow> ct_attr \<Rightarrow> u8 \<Rightarrow> 'c"
  nfct_set_attr_u16 :: "'c \<Rightarrow> ct_attr \<Rightarrow> u16 \<Rightarrow> 'c"
  nfct_set_attr_u32 :: "'c \<Rightarrow> ct_attr \<Rightarrow> u32 \<Rightarrow> 'c"
  nfct_attr_grp_is_set :: "'c \<Rightarrow> ct_grp \<Rightarrow> bool"
  nfct_get_attr_grp :: "'c \<Rightarrow> ct_grp \<Rightarrow> bytes"
  nfct_set_attr_grp :: "'c \<Rightarrow> ct_grp \<Rightarrow> bytes \<Rightarrow> 'c"
  nfct_getobjopt :: "'c \<Rightarrow> ct_gopt \<Rightarrow> bool"
  sizeof_grp :: "ct_grp \<Rightarrow> nat"

definition nfct_attr_is_set_array :: "'c nfct \<Rightarrow> 'c \<Rightarrow> ct_attr list \<Rightarrow> bool" where
  "nfct_attr_is_set_array N ct attrs \<longleftrightarrow> (\<forall>a \<in> set attrs. nfct_attr_is_set N ct a)"

section \<open>Messages\<close>

definition nethdr_align :: "int \<Rightarrow> int" where "nethdr_align value = (value + 3) div 4 * 4"
definition NETHDR_SIZ :: nat where "NETHDR_SIZ = nat (nethdr_align 8)"
definition NETHDR_ACK_SIZ :: nat where "NETHDR_ACK_SIZ = nat (nethdr_align 16)"
definition nethdr_size :: "int \<Rightarrow> int" where "nethdr_size len = int NETHDR_SIZ + len"

definition NTA_ALIGN :: "nat \<Rightarrow> nat" where "NTA_ALIGN len = (len + 3) div 4 * 4"
definition NTA_LENGTH :: "nat \<Rightarrow> nat" where "NTA_LENGTH len = NTA_ALIGN 4 + len"

datatype nta_attr =
    NTA_IPV4 | NTA_IPV6 | NTA_L4PROTO | NTA_PORT | NTA_TCP_STATE | NTA_STATUS | NTA_TIMEOUT | NTA_MARK
  | NTA_MASTER_IPV4 | NTA_MASTER_IPV6 | NTA_MASTER_L4PROTO | NTA_MASTER_PORT | NTA_SNAT_IPV4 | NTA_DNAT_IPV4
  | NTA_SPAT_PORT | NTA_DPAT_PORT | NTA_NAT_SEQ_ADJ | NTA_SCTP_STATE | NTA_SCTP_VTAG_ORIG | NTA_SCTP_VTAG_REPL
  | NTA_DCCP_STATE | NTA_DCCP_ROLE | NTA_ICMP_TYPE | NTA_ICMP_CODE | NTA_ICMP_ID

definition nta_list :: "nta_attr list" where
  "nta_list = [NTA_IPV4, NTA_IPV6, NTA_L4PROTO, NTA_PORT, NTA_TCP_STATE, NTA_STATUS, NTA_TIMEOUT, NTA_MARK,
     NTA_MASTER_IPV4, NTA_MASTER_IPV6, NTA_MASTER_L4PROTO, NTA_MASTER_PORT, NTA_SNAT_IPV4, NTA_DNAT_IPV4,
     NTA_SPAT_PORT, NTA_DPAT_PORT, NTA_NAT_SEQ_ADJ, NTA_SCTP_STATE, NTA_SCTP_VTAG_ORIG, NTA_SCTP_VTAG_REPL,
     NTA_DCCP_STATE, NTA_DCCP_ROLE, NTA_ICMP_TYPE, NTA_ICMP_CODE, NTA_ICMP_ID]"

definition NTA_MAX :: nat where "NTA_MAX = 25"

fun nta_code :: "nta_attr \<Rightarrow> nat" where
  "nta_code NTA_IPV4 = 0" | "nta_code NTA_IPV6 = 1" | "nta_code NTA_L4PROTO = 2" | "nta_code NTA_PORT = 3"
| "nta_code NTA_TCP_STATE = 4" | "nta_code NTA_STATUS = 5" | "nta_code NTA_TIMEOUT = 6" | "nta_code NTA_MARK = 7"
| "nta_code NTA_MASTER_IPV4 = 8" | "nta_code NTA_MASTER_IPV6 = 9" | "nta_code NTA_MASTER_L4PROTO = 10"
| "nta_code NTA_MASTER_PORT = 11" | "nta_code NTA_SNAT_IPV4 = 12" | "nta_code NTA_DNAT_IPV4 = 13"
| "nta_code NTA_SPAT_PORT = 14" | "nta_code NTA_DPAT_PORT = 15" | "nta_code NTA_NAT_SEQ_ADJ = 16"
| "nta_code NTA_SCTP_STATE = 17" | "nta_code NTA_SCTP_VTAG_ORIG = 18" | "nta_code NTA_SCTP_VTAG_REPL = 19"
| "nta_code NTA_DCCP_STATE = 20" | "nta_code NTA_DCCP_ROLE = 21" | "nta_code NTA_ICMP_TYPE = 22"
| "nta_code NTA_ICMP_CODE = 23" | "nta_code NTA_ICMP_ID = 24"

text \<open>The header, with the area behind it.  \<open>n_len\<close> counts the header.\<close>

record nethdr =
  n_type :: u8
  n_version :: u8
  n_flags :: u8
  n_len :: u16
  n_seq :: u32
  n_area :: bytes

definition store :: "bytes \<Rightarrow> nat \<Rightarrow> bytes \<Rightarrow> bytes run" where
  "store buf i data =
     (if i + length data \<le> length buf then Ret (take i buf @ data @ drop (i + length data) buf) else Undef)"

definition bytes_be16 :: "u16 \<Rightarrow> bytes" where
  "bytes_be16 w = [byte_of 1 w, byte_of 0 w]"

text \<open>Sequence numbers of messages start at the time of the first.\<close>

record seq_state =
  seq_set :: bool
  cur_seq :: u32

definition nethdr_set_common :: "u32 \<Rightarrow> nat \<Rightarrow> seq_state \<Rightarrow> nethdr \<Rightarrow> seq_state \<times> nethdr" where
  "nethdr_set_common time len st net =
     (let st = (if \<not> seq_set st then st\<lparr>seq_set := True, cur_seq := time\<rparr> else st)
      in (st\<lparr>cur_seq := cur_seq st + 1\<rparr>, net\<lparr>n_version := 0, n_len := word_of_nat len, n_seq := cur_seq st\<rparr>))"

definition nethdr_set :: "u32 \<Rightarrow> u8 \<Rightarrow> seq_state \<Rightarrow> nethdr \<Rightarrow> seq_state \<times> nethdr" where
  "nethdr_set time ty st net =
     (let (st, net) = nethdr_set_common time NETHDR_SIZ st net in (st, net\<lparr>n_type := ty\<rparr>))"

definition nethdr_set_ack :: "u32 \<Rightarrow> seq_state \<Rightarrow> nethdr \<Rightarrow> seq_state \<times> nethdr" where
  "nethdr_set_ack time st net = nethdr_set_common time NETHDR_ACK_SIZ st net"

definition nethdr_set_ctl :: "u32 \<Rightarrow> seq_state \<Rightarrow> nethdr \<Rightarrow> seq_state \<times> nethdr" where
  "nethdr_set_ctl time st net = nethdr_set_common time NETHDR_SIZ st net"

section \<open>Building\<close>

text \<open>The attribute header at the tail, its padding, and the position of its data.\<close>

definition put_header :: "nethdr \<Rightarrow> nta_attr \<Rightarrow> nat \<Rightarrow> (nat \<times> nethdr) run" where
  "put_header n attr len =
     (let tail = unat (n_len n) - NETHDR_SIZ;
          total_size = NTA_ALIGN (NTA_LENGTH len);
          attr_size = NTA_LENGTH len
      in run_bind (store (n_area n) tail (bytes_be16 (word_of_nat attr_size) @ bytes_be16 (word_of_nat (nta_code attr)))) (\<lambda>area.
         run_bind (store area (tail + attr_size) (replicate (total_size - attr_size) 0)) (\<lambda>area.
           Ret (tail + NTA_ALIGN 4, n\<lparr>n_len := n_len n + word_of_nat total_size, n_area := area\<rparr>))))"

definition addattr :: "nethdr \<Rightarrow> nta_attr \<Rightarrow> bytes \<Rightarrow> nethdr run" where
  "addattr n attr data =
     run_bind (put_header n attr (length data)) (\<lambda>(ptr, n).
     run_bind (store (n_area n) ptr data) (\<lambda>area. Ret (n\<lparr>n_area := area\<rparr>)))"

definition build_u8 :: "'c nfct \<Rightarrow> 'c \<Rightarrow> ct_attr \<Rightarrow> nta_attr \<Rightarrow> nethdr \<Rightarrow> nethdr run" where
  "build_u8 N ct a b n =
     run_bind (put_header n b 1) (\<lambda>(ptr, n).
     run_bind (run_of_option (nfct_get_attr N ct a)) (\<lambda>v.
     run_bind (store (n_area n) ptr [v]) (\<lambda>area. Ret (n\<lparr>n_area := area\<rparr>))))"

text \<open>A value converted with \<open>htons\<close> or \<open>htonl\<close> lies in memory in network byte order.\<close>

definition build_u16 :: "'c nfct \<Rightarrow> 'c \<Rightarrow> ct_attr \<Rightarrow> nta_attr \<Rightarrow> nethdr \<Rightarrow> nethdr run" where
  "build_u16 N ct a b n = addattr n b (bytes_be16 (nfct_get_attr_u16 N ct a))"

definition build_u32 :: "'c nfct \<Rightarrow> 'c \<Rightarrow> ct_attr \<Rightarrow> nta_attr \<Rightarrow> nethdr \<Rightarrow> nethdr run" where
  "build_u32 N ct a b n = addattr n b (bytes_be32 (nfct_get_attr_u32 N ct a))"

definition build_group :: "'c nfct \<Rightarrow> 'c \<Rightarrow> ct_grp \<Rightarrow> nta_attr \<Rightarrow> nethdr \<Rightarrow> nethdr run" where
  "build_group N ct a b n =
     run_bind (put_header n b (sizeof_grp N a)) (\<lambda>(ptr, n).
     run_bind (store (n_area n) ptr (nfct_get_attr_grp N ct a)) (\<lambda>area. Ret (n\<lparr>n_area := area\<rparr>)))"

definition nat_type :: "ct_attr list" where
  "nat_type = [ATTR_ORIG_NAT_SEQ_CORRECTION_POS, ATTR_ORIG_NAT_SEQ_OFFSET_BEFORE, ATTR_ORIG_NAT_SEQ_OFFSET_AFTER,
     ATTR_REPL_NAT_SEQ_CORRECTION_POS, ATTR_REPL_NAT_SEQ_OFFSET_BEFORE, ATTR_REPL_NAT_SEQ_OFFSET_AFTER]"

definition build_natseqadj :: "'c nfct \<Rightarrow> 'c \<Rightarrow> nethdr \<Rightarrow> nethdr run" where
  "build_natseqadj N ct n =
     addattr n NTA_NAT_SEQ_ADJ
       (bytes_be32 (nfct_get_attr_u32 N ct ATTR_ORIG_NAT_SEQ_CORRECTION_POS)
        @ bytes_be32 (nfct_get_attr_u32 N ct ATTR_ORIG_NAT_SEQ_OFFSET_BEFORE)
        @ bytes_be32 (nfct_get_attr_u32 N ct ATTR_ORIG_NAT_SEQ_OFFSET_AFTER)
        @ bytes_be32 (nfct_get_attr_u32 N ct ATTR_REPL_NAT_SEQ_CORRECTION_POS)
        @ bytes_be32 (nfct_get_attr_u32 N ct ATTR_REPL_NAT_SEQ_OFFSET_BEFORE)
        @ bytes_be32 (nfct_get_attr_u32 N ct ATTR_REPL_NAT_SEQ_OFFSET_AFTER))"

definition build_l4proto_tcp :: "'c nfct \<Rightarrow> 'c \<Rightarrow> nethdr \<Rightarrow> nethdr run" where
  "build_l4proto_tcp N ct n =
     (if \<not> nfct_attr_is_set N ct ATTR_TCP_STATE then Ret n else build_u8 N ct ATTR_TCP_STATE NTA_TCP_STATE n)"

definition build_l4proto_sctp :: "'c nfct \<Rightarrow> 'c \<Rightarrow> nethdr \<Rightarrow> nethdr run" where
  "build_l4proto_sctp N ct n =
     (if \<not> nfct_attr_is_set N ct ATTR_SCTP_STATE then Ret n
      else run_bind (build_u8 N ct ATTR_SCTP_STATE NTA_SCTP_STATE n) (\<lambda>n.
           run_bind (build_u32 N ct ATTR_SCTP_VTAG_ORIG NTA_SCTP_VTAG_ORIG n) (\<lambda>n.
           build_u32 N ct ATTR_SCTP_VTAG_REPL NTA_SCTP_VTAG_REPL n)))"

definition build_l4proto_dccp :: "'c nfct \<Rightarrow> 'c \<Rightarrow> nethdr \<Rightarrow> nethdr run" where
  "build_l4proto_dccp N ct n =
     (if \<not> nfct_attr_is_set N ct ATTR_DCCP_STATE then Ret n
      else run_bind (build_u8 N ct ATTR_DCCP_STATE NTA_DCCP_STATE n) (\<lambda>n.
           build_u8 N ct ATTR_DCCP_ROLE NTA_DCCP_ROLE n))"

definition build_l4proto_icmp :: "'c nfct \<Rightarrow> 'c \<Rightarrow> nethdr \<Rightarrow> nethdr run" where
  "build_l4proto_icmp N ct n =
     run_bind (build_u8 N ct ATTR_ICMP_TYPE NTA_ICMP_TYPE n) (\<lambda>n.
     run_bind (build_u8 N ct ATTR_ICMP_CODE NTA_ICMP_CODE n) (\<lambda>n.
     build_u16 N ct ATTR_ICMP_ID NTA_ICMP_ID n))"

definition l4proto_fcn :: "'c nfct \<Rightarrow> u8 \<Rightarrow> 'c \<Rightarrow> nethdr \<Rightarrow> nethdr run" where
  "l4proto_fcn N l4proto ct n =
     (if l4proto = 6 then build_l4proto_tcp N ct n
      else if l4proto = 132 then build_l4proto_sctp N ct n
      else if l4proto = 33 then build_l4proto_dccp N ct n
      else if l4proto = 1 then build_l4proto_icmp N ct n
      else Ret n)"

definition run_if :: "bool \<Rightarrow> (nethdr \<Rightarrow> nethdr run) \<Rightarrow> nethdr \<Rightarrow> nethdr run" where
  "run_if c f n = (if c then f n else Ret n)"

text \<open>The master connection of an expected one.\<close>

definition build_master :: "'c nfct \<Rightarrow> 'c \<Rightarrow> ct_grp \<Rightarrow> nta_attr \<Rightarrow> nethdr \<Rightarrow> nethdr run" where
  "build_master N ct grp nta n =
     run_bind (build_group N ct grp nta n) (\<lambda>n.
     run_bind (build_u8 N ct ATTR_MASTER_L4PROTO NTA_MASTER_L4PROTO n) (\<lambda>n.
     run_if (nfct_attr_grp_is_set N ct ATTR_GRP_MASTER_PORT) (build_group N ct ATTR_GRP_MASTER_PORT NTA_MASTER_PORT) n))"

definition build_payload :: "'c nfct \<Rightarrow> 'c \<Rightarrow> nethdr \<Rightarrow> nethdr run" where
  "build_payload N ct n =
     (let l4proto = nfct_get_attr_u8 N ct ATTR_L4PROTO in
      run_bind (if nfct_attr_grp_is_set N ct ATTR_GRP_ORIG_IPV4 then build_group N ct ATTR_GRP_ORIG_IPV4 NTA_IPV4 n
                else run_if (nfct_attr_grp_is_set N ct ATTR_GRP_ORIG_IPV6) (build_group N ct ATTR_GRP_ORIG_IPV6 NTA_IPV6) n) (\<lambda>n.
      run_bind (build_u8 N ct ATTR_L4PROTO NTA_L4PROTO n) (\<lambda>n.
      run_bind (run_if (nfct_attr_grp_is_set N ct ATTR_GRP_ORIG_PORT) (build_group N ct ATTR_GRP_ORIG_PORT NTA_PORT) n) (\<lambda>n.
      run_bind (build_u32 N ct ATTR_STATUS NTA_STATUS n) (\<lambda>n.
      run_bind (l4proto_fcn N l4proto ct n) (\<lambda>n.
      run_bind (run_if (nfct_attr_is_set N ct ATTR_TIMEOUT) (build_u32 N ct ATTR_TIMEOUT NTA_TIMEOUT) n) (\<lambda>n.
      run_bind (run_if (nfct_attr_is_set N ct ATTR_MARK) (build_u32 N ct ATTR_MARK NTA_MARK) n) (\<lambda>n.
      run_bind (if nfct_attr_grp_is_set N ct ATTR_GRP_MASTER_IPV4 then build_master N ct ATTR_GRP_MASTER_IPV4 NTA_MASTER_IPV4 n
                else run_if (nfct_attr_grp_is_set N ct ATTR_GRP_MASTER_IPV6) (build_master N ct ATTR_GRP_MASTER_IPV6 NTA_MASTER_IPV6) n) (\<lambda>n.
      run_bind (run_if (nfct_getobjopt N ct NFCT_GOPT_IS_SNAT) (build_u32 N ct ATTR_REPL_IPV4_DST NTA_SNAT_IPV4) n) (\<lambda>n.
      run_bind (run_if (nfct_getobjopt N ct NFCT_GOPT_IS_DNAT) (build_u32 N ct ATTR_REPL_IPV4_SRC NTA_DNAT_IPV4) n) (\<lambda>n.
      run_bind (run_if (nfct_getobjopt N ct NFCT_GOPT_IS_SPAT) (build_u16 N ct ATTR_REPL_PORT_DST NTA_SPAT_PORT) n) (\<lambda>n.
      run_bind (run_if (nfct_getobjopt N ct NFCT_GOPT_IS_DPAT) (build_u16 N ct ATTR_REPL_PORT_SRC NTA_DPAT_PORT) n) (\<lambda>n.
      run_if (nfct_attr_is_set_array N ct nat_type) (build_natseqadj N ct) n)))))))))))))"

text \<open>The message as it lies in memory after the conversion of its header to network byte order:
  a data message has no further fields to convert.\<close>

definition NET_T_STATE_NEW :: u8 where "NET_T_STATE_NEW = 0"

definition BUILD_NETMSG ::
  "'c nfct \<Rightarrow> u32 \<Rightarrow> 'c \<Rightarrow> u8 \<Rightarrow> seq_state \<Rightarrow> bytes \<Rightarrow> (seq_state \<times> nethdr) run" where
  "BUILD_NETMSG N time ct query st net =
     (let (st, hdr) = nethdr_set time query st
                        \<lparr>n_type = 0, n_version = 0, n_flags = 0, n_len = 0, n_seq = 0, n_area = drop NETHDR_SIZ net\<rparr>
      in run_bind (build_payload N ct hdr) (\<lambda>hdr. Ret (st, hdr)))"

definition nethdr_bytes :: "nethdr \<Rightarrow> bytes" where
  "nethdr_bytes n =
     [push_bit 4 (n_version n) OR n_type n, n_flags n] @ bytes_be16 (n_len n) @ bytes_be32 (n_seq n) @ n_area n"

section \<open>Parsing\<close>

datatype parser = parse_u8 ct_attr | parse_u16 ct_attr | parse_u32 ct_attr | parse_group ct_grp | parse_nat_seq_adj

fun parser_h :: "nta_attr \<Rightarrow> parser" where
  "parser_h NTA_IPV4 = parse_group ATTR_GRP_ORIG_IPV4"
| "parser_h NTA_IPV6 = parse_group ATTR_GRP_ORIG_IPV6"
| "parser_h NTA_PORT = parse_group ATTR_GRP_ORIG_PORT"
| "parser_h NTA_L4PROTO = parse_u8 ATTR_L4PROTO"
| "parser_h NTA_TCP_STATE = parse_u8 ATTR_TCP_STATE"
| "parser_h NTA_STATUS = parse_u32 ATTR_STATUS"
| "parser_h NTA_MARK = parse_u32 ATTR_MARK"
| "parser_h NTA_TIMEOUT = parse_u32 ATTR_TIMEOUT"
| "parser_h NTA_MASTER_IPV4 = parse_group ATTR_GRP_MASTER_IPV4"
| "parser_h NTA_MASTER_IPV6 = parse_group ATTR_GRP_MASTER_IPV6"
| "parser_h NTA_MASTER_L4PROTO = parse_u8 ATTR_MASTER_L4PROTO"
| "parser_h NTA_MASTER_PORT = parse_group ATTR_GRP_MASTER_PORT"
| "parser_h NTA_SNAT_IPV4 = parse_u32 ATTR_SNAT_IPV4"
| "parser_h NTA_DNAT_IPV4 = parse_u32 ATTR_DNAT_IPV4"
| "parser_h NTA_SPAT_PORT = parse_u16 ATTR_SNAT_PORT"
| "parser_h NTA_DPAT_PORT = parse_u16 ATTR_DNAT_PORT"
| "parser_h NTA_NAT_SEQ_ADJ = parse_nat_seq_adj"
| "parser_h NTA_SCTP_STATE = parse_u8 ATTR_SCTP_STATE"
| "parser_h NTA_SCTP_VTAG_ORIG = parse_u32 ATTR_SCTP_VTAG_ORIG"
| "parser_h NTA_SCTP_VTAG_REPL = parse_u32 ATTR_SCTP_VTAG_REPL"
| "parser_h NTA_DCCP_STATE = parse_u8 ATTR_DCCP_STATE"
| "parser_h NTA_DCCP_ROLE = parse_u8 ATTR_DCCP_ROLE"
| "parser_h NTA_ICMP_TYPE = parse_u8 ATTR_ICMP_TYPE"
| "parser_h NTA_ICMP_CODE = parse_u8 ATTR_ICMP_CODE"
| "parser_h NTA_ICMP_ID = parse_u16 ATTR_ICMP_ID"

fun data_size :: "'c nfct \<Rightarrow> parser \<Rightarrow> nat" where
  "data_size N (parse_u8 a) = 1"
| "data_size N (parse_u16 a) = 2"
| "data_size N (parse_u32 a) = 4"
| "data_size N (parse_group g) = sizeof_grp N g"
| "data_size N parse_nat_seq_adj = 24"

definition parser_size :: "'c nfct \<Rightarrow> nta_attr \<Rightarrow> nat" where
  "parser_size N nta = NTA_ALIGN 4 + data_size N (parser_h nta)"

definition val16 :: "bytes \<Rightarrow> u16" where "val16 d = be16 (d ! 0) (d ! 1)"
definition val32 :: "bytes \<Rightarrow> u32" where "val32 d = be32 (d ! 0) (d ! 1) (d ! 2) (d ! 3)"

text \<open>Setting an attribute from its data; all six sequence adjustments are set from the first word.\<close>

fun parse_attr :: "'c nfct \<Rightarrow> parser \<Rightarrow> bytes \<Rightarrow> 'c \<Rightarrow> 'c" where
  "parse_attr N (parse_u8 a) d ct = nfct_set_attr_u8 N ct a (d ! 0)"
| "parse_attr N (parse_u16 a) d ct = nfct_set_attr_u16 N ct a (val16 d)"
| "parse_attr N (parse_u32 a) d ct = nfct_set_attr_u32 N ct a (val32 d)"
| "parse_attr N (parse_group g) d ct = nfct_set_attr_grp N ct g d"
| "parse_attr N parse_nat_seq_adj d ct = foldl (\<lambda>ct a. nfct_set_attr_u32 N ct a (val32 d)) ct nat_type"

text \<open>The loop over the attributes in the buffer at position \<open>pos\<close>, with \<open>len\<close> bytes left.  The number
  \<open>NTA_MAX\<close> passes the check but is outside of the table.\<close>

function parse_loop :: "'c nfct \<Rightarrow> bytes \<Rightarrow> nat \<Rightarrow> int \<Rightarrow> 'c \<Rightarrow> (int \<times> 'c) run" where
  "parse_loop N buf pos len ct =
     (if len \<le> 4 then Ret (0, ct)
      else if pos + 4 > length buf then Undef
      else
        let nta_len = unat (be16 (buf ! pos) (buf ! (pos + 1))); nta = unat (be16 (buf ! (pos + 2)) (buf ! (pos + 3))) in
        if int nta_len > len then Ret (-2, ct)
        else if nta > NTA_MAX then Ret (-3, ct)
        else if nta = NTA_MAX then Undef
        else if nta_len \<noteq> parser_size N (nta_list ! nta) then Ret (-4, ct)
        else if pos + nta_len > length buf then Undef
        else parse_loop N buf (pos + NTA_ALIGN nta_len) (len - int (NTA_ALIGN nta_len))
               (parse_attr N (parser_h (nta_list ! nta)) (take (nta_len - 4) (drop (pos + 4) buf)) ct))"
  by pat_completeness auto
termination
  by (relation "measure (\<lambda>(N, buf, pos, len, ct). nat len)") (auto simp: parser_size_def NTA_ALIGN_def)

declare parse_loop.simps [simp del]

text \<open>\<open>buf\<close> is the buffer behind the header, \<open>len\<close> the length field.\<close>

definition parse_payload :: "'c nfct \<Rightarrow> u16 \<Rightarrow> bytes \<Rightarrow> nat \<Rightarrow> 'c \<Rightarrow> (int \<times> 'c) run" where
  "parse_payload N len buf remain ct =
     (if remain < unat len then Ret (-1, ct)
      else parse_loop N buf 0 (int (unat len) - int NETHDR_SIZ) ct)"

end
