(* ===== verification/Nf_Iptables.thy ===== *)
theory Nf_Iptables
  imports Sdmbn_State Sdmbn_Base64 Nf_Netmsg
begin

text \<open>
  The iptables network function, \<^verbatim>\<open>iptables-sdmbn/main.c\<close>: the callbacks that export, import
  and delete the connections the kernel tracks, and those that export and import the rule set.
  The kernel, reached through libnetfilter\_conntrack, and the pipes to the iptables commands
  are parameters: the records \<open>nfct_sys\<close> and \<open>pipes\<close>.

  A dump query hands over the connections it found; the callback is run for each of them in turn,
  with the state of the kernel threaded through.  \<open>nf_handles\<close> counts the handles that are open, to
  state which paths close theirs.
\<close>

section \<open>The kernel and the state of the function\<close>

datatype filter_attr =
    NFCT_FILTER_L4PROTO u32
  | NFCT_FILTER_SRC_IPV4 u32 u32
  | NFCT_FILTER_DST_IPV4 u32 u32

text \<open>\<open>sys_errno\<close> is the error number that the last failed call left; a boolean result says whether a
  pointer is not null.\<close>

record ('c, 'k) nfct_sys =
  sys_errno :: "'k \<Rightarrow> c_int"
  nfct_open :: "'k \<Rightarrow> bool \<times> 'k"
  nfct_close :: "'k \<Rightarrow> 'k"
  nfct_filter_create :: "'k \<Rightarrow> bool \<times> 'k"
  nfct_filter_destroy :: "'k \<Rightarrow> 'k"
  nfct_filter_attach :: "filter_attr list \<Rightarrow> 'k \<Rightarrow> c_int \<times> 'k"
  nfct_query_dump :: "u8 \<Rightarrow> 'k \<Rightarrow> c_int \<times> 'c list \<times> 'k"
  nfct_query_create :: "'c \<Rightarrow> 'k \<Rightarrow> c_int \<times> 'k"
  nfct_query_destroy :: "'c \<Rightarrow> 'k \<Rightarrow> c_int \<times> 'k"
  nfct_clone :: "'c \<Rightarrow> 'k \<Rightarrow> 'c option \<times> 'k"
  nfct_setup_reply :: "'c \<Rightarrow> 'c"
  nfct_zeroed :: 'c

record 'k nf =
  nf_get_count :: c_int
  nf_del_count :: c_int
  nf_seq :: seq_state
  nf_net :: bytes
  nf_handles :: int
  nf_kernel :: 'k

type_synonym ('k, 'j) nfs = "('k nf, 'j) sdmbn"

definition upd_nf :: "('k nf \<Rightarrow> 'k nf) \<Rightarrow> ('k, 'j) nfs \<Rightarrow> ('k, 'j) nfs" where
  "upd_nf f s = s\<lparr>s_nf := f (s_nf s)\<rparr>"

definition kernel :: "('k, 'j) nfs \<Rightarrow> 'k" where
  "kernel s = nf_kernel (s_nf s)"

definition set_kernel :: "'k \<Rightarrow> ('k, 'j) nfs \<Rightarrow> ('k, 'j) nfs" where
  "set_kernel k = upd_nf (\<lambda>n. n\<lparr>nf_kernel := k\<rparr>)"

definition do_open :: "('c, 'k) nfct_sys \<Rightarrow> ('k, 'j) nfs \<Rightarrow> bool \<times> ('k, 'j) nfs" where
  "do_open S s =
     (let (got, k) = nfct_open S (kernel s); s = set_kernel k s
      in (got, if got then upd_nf (\<lambda>n. n\<lparr>nf_handles := nf_handles n + 1\<rparr>) s else s))"

definition do_close :: "('c, 'k) nfct_sys \<Rightarrow> ('k, 'j) nfs \<Rightarrow> ('k, 'j) nfs" where
  "do_close S s =
     upd_nf (\<lambda>n. n\<lparr>nf_handles := nf_handles n - 1\<rparr>) (set_kernel (nfct_close S (kernel s)) s)"

section \<open>Selecting connections\<close>

definition AF_INET :: u8 where "AF_INET = 2"
definition AF_INET6 :: u8 where "AF_INET6 = 10"
definition ETHERTYPE_IP :: u16 where "ETHERTYPE_IP = 0x0800"
definition ETHERTYPE_IPV6 :: u16 where "ETHERTYPE_IPV6 = 0x86DD"

definition unwild :: "PerflowKey \<Rightarrow> u8 \<Rightarrow> PerflowKey" where
  "unwild k w = k\<lparr>wildcards := wildcards k AND NOT w\<rparr>"

text \<open>The test of the ports, and with it the ports of the exported key; \<open>None\<close> when the connection is
  not wanted.\<close>

definition match_ports :: "'c nfct \<Rightarrow> PerflowKey \<Rightarrow> 'c \<Rightarrow> PerflowKey \<Rightarrow> PerflowKey option" where
  "match_ports N key ct connkey =
     (case (if \<not> flag_set (wildcards key) WILDCARD_TP_SRC then
              if \<not> nfct_attr_is_set N ct ATTR_PORT_SRC then None
              else if nfct_get_attr_u16 N ct ATTR_PORT_SRC \<noteq> tp_src key then None
              else Some (unwild (connkey\<lparr>tp_src := nfct_get_attr_u16 N ct ATTR_PORT_SRC\<rparr>) WILDCARD_TP_SRC)
            else Some connkey) of
        None \<Rightarrow> None
      | Some connkey \<Rightarrow>
          if \<not> flag_set (wildcards key) WILDCARD_TP_DST then
            if \<not> nfct_attr_is_set N ct ATTR_PORT_DST then None
            else if nfct_get_attr_u16 N ct ATTR_PORT_DST \<noteq> tp_dst key then None
            else Some (unwild (connkey\<lparr>tp_dst := nfct_get_attr_u16 N ct ATTR_PORT_DST\<rparr>) WILDCARD_TP_DST)
          else Some connkey)"

text \<open>The family to query; an unset one is \<open>-1\<close>, and \<open>None\<close> is a type that is not supported.\<close>

definition query_family :: "PerflowKey \<Rightarrow> u8 option" where
  "query_family key =
     (if flag_set (wildcards key) WILDCARD_DL_TYPE then Some (-1)
      else if dl_type key = ETHERTYPE_IP then Some AF_INET
      else if dl_type key = ETHERTYPE_IPV6 then Some AF_INET6
      else None)"

text \<open>A shift by 32 or more is undefined.  The destination uses the mask of the source, as in the code.\<close>

definition filter_mask :: "PerflowKey \<Rightarrow> u32 run" where
  "filter_mask key =
     (if flag_set (wildcards key) WILDCARD_NW_SRC_MASK then Ret 0xFFFFFFFF
      else let sh = 32 - nw_src_mask key in if sh < 32 then Ret (push_bit (unat sh) 0xFFFFFFFF) else Undef)"

definition conn_filter :: "platform \<Rightarrow> PerflowKey \<Rightarrow> u8 \<Rightarrow> filter_attr list run" where
  "conn_filter P key family =
     (let proto = (if flag_set (wildcards key) WILDCARD_NW_PROTO then [] else [NFCT_FILTER_L4PROTO (ucast (nw_proto key))]) in
      if family = AF_INET then
        run_bind (if flag_set (wildcards key) WILDCARD_NW_SRC then Ret []
                  else run_bind (filter_mask key) (\<lambda>mask. Ret [NFCT_FILTER_SRC_IPV4 (ntohl P (nw_src key)) mask])) (\<lambda>src.
        run_bind (if flag_set (wildcards key) WILDCARD_NW_DST then Ret []
                  else run_bind (filter_mask key) (\<lambda>mask. Ret [NFCT_FILTER_DST_IPV4 (ntohl P (nw_dst key)) mask])) (\<lambda>dst.
        Ret (proto @ src @ dst)))
      else Ret proto)"

section \<open>Export\<close>

definition NFCT_CB_CONTINUE :: c_int where "NFCT_CB_CONTINUE = 1"

text \<open>The key of the exported state, over the uninitialised one on the stack.\<close>

definition export_key :: "'c nfct \<Rightarrow> 'c \<Rightarrow> PerflowKey \<Rightarrow> PerflowKey" where
  "export_key N ct connkey =
     (let connkey =
        (if nfct_get_attr_u8 N ct ATTR_L3PROTO = AF_INET then
           let k = connkey\<lparr>nw_src := nfct_get_attr_u32 N ct ATTR_IPV4_SRC, nw_src_mask := 32\<rparr>;
               k = unwild (unwild k WILDCARD_NW_SRC) WILDCARD_NW_SRC_MASK;
               k = k\<lparr>nw_dst := nfct_get_attr_u32 N ct ATTR_IPV4_DST, nw_dst_mask := 32\<rparr>;
               k = unwild (unwild k WILDCARD_NW_DST) WILDCARD_NW_DST_MASK
           in unwild (k\<lparr>dl_type := ETHERTYPE_IP\<rparr>) WILDCARD_DL_TYPE
         else connkey);
          connkey = connkey\<lparr>nw_proto := ucast (nfct_get_attr_u16 N ct ATTR_L4PROTO)\<rparr>
      in unwild (unwild connkey WILDCARD_NW_PROTO) WILDCARD_DL_TYPE)"

text \<open>\<open>stack\<close> is what the uninitialised key holds, \<open>mem_ok\<close> tells whether an allocation succeeds.\<close>

definition conntrack_get_callback ::
  "'j json_c \<Rightarrow> platform \<Rightarrow> (int \<Rightarrow> bool) \<Rightarrow> 'c nfct \<Rightarrow> u32 \<Rightarrow> PerflowKey \<Rightarrow> PerflowKey \<Rightarrow> c_int \<Rightarrow> 'c \<Rightarrow> ('k, 'j) nfs
   \<Rightarrow> (c_int \<times> ('k, 'j) nfs) run" where
  "conntrack_get_callback J P mem_ok N time stack key i ct s =
     (case match_ports N key ct (stack\<lparr>wildcards := WILDCARD_ALL\<rparr>) of
        None \<Rightarrow> Ret (NFCT_CB_CONTINUE, s)
      | Some connkey \<Rightarrow>
          run_bind (BUILD_NETMSG N time ct NET_T_STATE_NEW (nf_seq (s_nf s)) (nf_net (s_nf s))) (\<lambda>(seq, net).
          let s = upd_nf (\<lambda>n. n\<lparr>nf_seq := seq, nf_net := nethdr_bytes net\<rparr>) s in
          (case sdmbn_base64_encode mem_ok (Some (nethdr_bytes net)) (ucast (n_len net)) of
             None \<Rightarrow> Ret (NFCT_CB_CONTINUE, s)
           | Some state \<Rightarrow>
               let connkey = export_key N ct connkey;
                   (result, s) = sdmbn_send_perflow J P i (Some connkey) (Some state) (nfct_get_attr_u32 N ct ATTR_ID)
                                   (nf_get_count (s_nf s)) s
               in Ret (NFCT_CB_CONTINUE, upd_nf (\<lambda>n. n\<lparr>nf_get_count := nf_get_count n + 1\<rparr>) s))))"

fun run_callbacks :: "('c \<Rightarrow> 's \<Rightarrow> (c_int \<times> 's) run) \<Rightarrow> 'c list \<Rightarrow> 's \<Rightarrow> 's run" where
  "run_callbacks cb [] s = Ret s"
| "run_callbacks cb (ct # cts) s = run_bind (cb ct s) (\<lambda>(r, s). run_callbacks cb cts s)"

definition fixed_key :: "PerflowKey \<Rightarrow> PerflowKey" where
  "fixed_key stack =
     (let k = stack\<lparr>wildcards := WILDCARD_ALL, tp_src := 1111\<rparr>;
          k = (unwild k WILDCARD_TP_SRC)\<lparr>nw_src := 123456, nw_src_mask := 32\<rparr>;
          k = (unwild (unwild k WILDCARD_NW_SRC) WILDCARD_NW_SRC_MASK)\<lparr>nw_dst := 875897, nw_dst_mask := 32\<rparr>;
          k = (unwild (unwild k WILDCARD_NW_DST) WILDCARD_NW_DST_MASK)\<lparr>dl_type := ETHERTYPE_IP\<rparr>;
          k = (unwild k WILDCARD_DL_TYPE)\<lparr>nw_proto := 6\<rparr>
      in unwild (unwild k WILDCARD_NW_PROTO) WILDCARD_DL_TYPE)"

fun send_state_loop ::
  "'j json_c \<Rightarrow> platform \<Rightarrow> PerflowKey \<Rightarrow> nat \<Rightarrow> ('k, 'j) nfs \<Rightarrow> ('k, 'j) nfs" where
  "send_state_loop J P connkey 0 s = s"
| "send_state_loop J P connkey (Suc rounds) s =
     (let (result, s) = sdmbn_send_perflow J P 1 (Some connkey) (Some ''lalala'') 0x019294 (nf_get_count (s_nf s)) s
      in send_state_loop J P connkey rounds (upd_nf (\<lambda>n. n\<lparr>nf_get_count := nf_get_count n + 1\<rparr>) s))"

text \<open>The loop runs for \<open>i\<close> from 0 to 8.\<close>

definition send_state ::
  "'j json_c \<Rightarrow> platform \<Rightarrow> PerflowKey \<Rightarrow> ('k, 'j) nfs \<Rightarrow> c_int \<times> ('k, 'j) nfs" where
  "send_state J P stack s =
     (let s = upd_nf (\<lambda>n. n\<lparr>nf_get_count := 1\<rparr>) s
      in (NFCT_CB_CONTINUE, send_state_loop J P (fixed_key stack) 9 s))"

definition local_get_perflow ::
  "'j json_c \<Rightarrow> platform \<Rightarrow> (int \<Rightarrow> bool) \<Rightarrow> 'c nfct \<Rightarrow> ('c, 'k) nfct_sys \<Rightarrow> u32 \<Rightarrow> PerflowKey \<Rightarrow> PerflowKey option \<Rightarrow> c_int
   \<Rightarrow> c_int \<Rightarrow> ('k, 'j) nfs \<Rightarrow> (c_int \<times> ('k, 'j) nfs) run" where
  "local_get_perflow J P mem_ok N S time stack key_ptr i raiseEvents s =
     (case key_ptr of
        None \<Rightarrow> Ret (-1, s)
      | Some key \<Rightarrow>
     let s = upd_nf (\<lambda>n. n\<lparr>nf_get_count := 0\<rparr>) s; (got, s) = do_open S s in
     if \<not> got then Ret (-1, s)
     else let (created, k) = nfct_filter_create S (kernel s); s = set_kernel k s in
     if \<not> created then Ret (-1, s)
     else
     (case query_family key of
        None \<Rightarrow> Ret (-1, s)
      | Some family \<Rightarrow>
     run_bind (conn_filter P key family) (\<lambda>flt.
     let (r, k) = nfct_filter_attach S flt (kernel s); s = set_kernel k s in
     if sneg r then Ret (-1, s)
     else let (r, cts, k) = nfct_query_dump S family (kernel s); s = set_kernel k s in
     run_bind (run_callbacks (conntrack_get_callback J P mem_ok N time stack key i) cts s) (\<lambda>s.
     if sneg r then Ret (-1, s)
     else let (ret, s) = send_state J P stack s;
              s = set_kernel (nfct_filter_destroy S (kernel s)) s;
              s = do_close S s
          in Ret (nf_get_count (s_nf s), s)))))"

section \<open>Import\<close>

definition IPS_EXPECTED :: u32 where "IPS_EXPECTED = 1"
definition IP_CT_TCP_FLAG_SACK_PERM :: u8 where "IP_CT_TCP_FLAG_SACK_PERM = 0x02"
definition IP_CT_TCP_FLAG_CLOSE_INIT :: u8 where "IP_CT_TCP_FLAG_CLOSE_INIT = 0x04"
definition IP_CT_TCP_FLAG_BE_LIBERAL :: u8 where "IP_CT_TCP_FLAG_BE_LIBERAL = 0x08"
definition TCP_CONNTRACK_TIME_WAIT :: u8 where "TCP_CONNTRACK_TIME_WAIT = 7"
definition EEXIST :: c_int where "EEXIST = 17"
definition ENOENT :: c_int where "ENOENT = 2"

definition nl_destroy_conntrack :: "('c, 'k) nfct_sys \<Rightarrow> 'c \<Rightarrow> 'k \<Rightarrow> c_int \<times> 'k" where
  "nl_destroy_conntrack S ct k = nfct_query_destroy S ct k"

text \<open>The object that is inserted: without the expected bit, with the reply direction set up and with
  liberal window tracking.\<close>

definition prepare_conntrack :: "'c nfct \<Rightarrow> ('c, 'k) nfct_sys \<Rightarrow> 'c \<Rightarrow> 'c" where
  "prepare_conntrack N S ct =
     (let ct = (if nfct_attr_is_set N ct ATTR_STATUS
                then nfct_set_attr_u32 N ct ATTR_STATUS (nfct_get_attr_u32 N ct ATTR_STATUS AND NOT IPS_EXPECTED)
                else ct);
          ct = nfct_setup_reply S ct
      in if nfct_attr_is_set N ct ATTR_TCP_STATE then
           let flags = IP_CT_TCP_FLAG_BE_LIBERAL OR IP_CT_TCP_FLAG_SACK_PERM;
               flags = (if nfct_get_attr_u8 N ct ATTR_TCP_STATE \<ge> TCP_CONNTRACK_TIME_WAIT
                        then flags OR IP_CT_TCP_FLAG_CLOSE_INIT else flags);
               ct = nfct_set_attr_u8 N ct ATTR_TCP_FLAGS_ORIG flags;
               ct = nfct_set_attr_u8 N ct ATTR_TCP_MASK_ORIG flags;
               ct = nfct_set_attr_u8 N ct ATTR_TCP_FLAGS_REPL flags
           in nfct_set_attr_u8 N ct ATTR_TCP_MASK_REPL flags
         else ct)"

text \<open>The label \<open>retry\<close> is reached at most twice.\<close>

definition nl_create_conntrack :: "'c nfct \<Rightarrow> ('c, 'k) nfct_sys \<Rightarrow> 'c \<Rightarrow> 'k \<Rightarrow> c_int \<times> 'k" where
  "nl_create_conntrack N S orig k =
     (case nfct_clone S orig k of
        (None, k) \<Rightarrow> (-1, k)
      | (Some ct, k) \<Rightarrow>
          let ct = prepare_conntrack N S ct;
              (ret, k) = nfct_query_create S ct k
          in if sys_errno S k = EEXIST then
               let (ret, k) = nl_destroy_conntrack S ct k
               in if ret = 0 \<or> (ret = -1 \<and> sys_errno S k = ENOENT) then nfct_query_create S ct k
                  else (ret, k)
             else (ret, k))"

text \<open>\<open>HDR_NETWORK2HOST\<close>: the length and the rest of the message; the two further fields of an
  acknowledgement are converted in place.\<close>

definition swap_words :: "platform \<Rightarrow> bytes \<Rightarrow> bytes" where
  "swap_words P area = (if big_endian P then area else rev (take 4 area) @ rev (take 4 (drop 4 area)) @ drop 8 area)"

definition HDR_NETWORK2HOST :: "platform \<Rightarrow> bytes \<Rightarrow> (u16 \<times> bytes) run" where
  "HDR_NETWORK2HOST P net =
     (if length net < 8 then Undef
      else let ty = net ! 0 AND 0x0F; flags = net ! 1; len = be16 (net ! 2) (net ! 3) in
        if ty = 10 \<and> (flag_set flags 8 \<or> flag_set flags 4 \<or> flag_set flags 2)
        then if length net < 16 then Undef else Ret (len, swap_words P (drop 8 net))
        else Ret (len, drop 8 net))"

definition local_put_perflow ::
  "platform \<Rightarrow> (int \<Rightarrow> bool) \<Rightarrow> 'c nfct \<Rightarrow> ('c, 'k) nfct_sys \<Rightarrow> c_int \<Rightarrow> PerflowKey option \<Rightarrow> string option \<Rightarrow> ('k, 'j) nfs
   \<Rightarrow> (c_int \<times> ('k, 'j) nfs) run" where
  "local_put_perflow P mem_ok N S hashkey key_ptr state s =
     (if key_ptr = None \<or> state = None then Ret (-1, s)
      else let (got, s) = do_open S s in
      if \<not> got then Ret (-1, s)
      else
      run_bind (sdmbn_base64_decode mem_ok state) (\<lambda>blob.
      run_bind (run_of_option blob) (\<lambda>net.
      run_bind (HDR_NETWORK2HOST P net) (\<lambda>(len, area).
      run_bind (parse_payload N len area (unat len) (nfct_zeroed S)) (\<lambda>(ret, ct).
      if ret \<noteq> 0 then Ret (-1, do_close S s)
      else let (ret, k) = nl_create_conntrack N S ct (kernel s)
           in Ret (1, do_close S (set_kernel k s)))))))"

section \<open>Deletion\<close>

text \<open>The callback repeats the test of the ports, without building a key.\<close>

definition conntrack_del_callback ::
  "'c nfct \<Rightarrow> ('c, 'k) nfct_sys \<Rightarrow> PerflowKey \<Rightarrow> 'c \<Rightarrow> ('k, 'j) nfs \<Rightarrow> (c_int \<times> ('k, 'j) nfs) run" where
  "conntrack_del_callback N S key ct s =
     (if \<not> flag_set (wildcards key) WILDCARD_TP_SRC \<and>
         (\<not> nfct_attr_is_set N ct ATTR_PORT_SRC \<or> nfct_get_attr_u16 N ct ATTR_PORT_SRC \<noteq> tp_src key)
      then Ret (NFCT_CB_CONTINUE, s)
      else if \<not> flag_set (wildcards key) WILDCARD_TP_DST \<and>
         (\<not> nfct_attr_is_set N ct ATTR_PORT_DST \<or> nfct_get_attr_u16 N ct ATTR_PORT_DST \<noteq> tp_dst key)
      then Ret (NFCT_CB_CONTINUE, s)
      else let (r, k) = nl_destroy_conntrack S ct (kernel s)
           in Ret (NFCT_CB_CONTINUE, upd_nf (\<lambda>n. n\<lparr>nf_kernel := k, nf_del_count := nf_del_count n + 1\<rparr>) s))"

definition local_del_perflow ::
  "platform \<Rightarrow> 'c nfct \<Rightarrow> ('c, 'k) nfct_sys \<Rightarrow> PerflowKey option \<Rightarrow> c_int \<Rightarrow> ('k, 'j) nfs \<Rightarrow> (c_int \<times> ('k, 'j) nfs) run" where
  "local_del_perflow P N S key_ptr i s =
     (case key_ptr of
        None \<Rightarrow> Ret (-1, s)
      | Some key \<Rightarrow>
     let s = upd_nf (\<lambda>n. n\<lparr>nf_del_count := 0\<rparr>) s; (got, s) = do_open S s in
     if \<not> got then Ret (-1, s)
     else let (created, k) = nfct_filter_create S (kernel s); s = set_kernel k s in
     if \<not> created then Ret (-1, s)
     else
     (case query_family key of
        None \<Rightarrow> Ret (-1, s)
      | Some family \<Rightarrow>
     run_bind (conn_filter P key family) (\<lambda>flt.
     let (r, k) = nfct_filter_attach S flt (kernel s); s = set_kernel k s in
     if sneg r then Ret (-1, s)
     else let (r, cts, k) = nfct_query_dump S family (kernel s); s = set_kernel k s in
     run_bind (run_callbacks (conntrack_del_callback N S key) cts s) (\<lambda>s.
     if sneg r then Ret (-1, s)
     else let s = set_kernel (nfct_filter_destroy S (kernel s)) s;
              s = do_close S s
          in Ret (nf_del_count (s_nf s), s)))))"

section \<open>Configuration\<close>

text \<open>The pipes to the commands: what reading from \<^verbatim>\<open>iptables-save\<close> returns, line piece by line piece
  (\<open>None\<close> when the pipe does not open), and the exit status of \<^verbatim>\<open>iptables-restore\<close> on an input.\<close>

record 'k pipes =
  popen_read :: "'k \<Rightarrow> string list option \<times> 'k"
  popen_write :: "string \<Rightarrow> 'k \<Rightarrow> c_int option \<times> 'k"

definition BUFF_SIZE :: nat where "BUFF_SIZE = 16384"
definition MIN_SIZE :: nat where "MIN_SIZE = 30"

text \<open>The state is grown before each piece but the first, which goes into the first allocation.\<close>

fun read_config :: "(int \<Rightarrow> bool) \<Rightarrow> string list \<Rightarrow> string \<Rightarrow> string run" where
  "read_config mem_ok [] state = Ret state"
| "read_config mem_ok (data # rest) state =
     (if length state > 0 \<and> \<not> mem_ok (int (length state + BUFF_SIZE + 1)) then Undef
      else read_config mem_ok rest (state @ data))"

definition local_get_config ::
  "'j json_c \<Rightarrow> (int \<Rightarrow> bool) \<Rightarrow> 'k pipes \<Rightarrow> c_int \<Rightarrow> ('k, 'j) nfs \<Rightarrow> (c_int \<times> ('k, 'j) nfs) run" where
  "local_get_config J mem_ok B i s =
     (let (pf, k) = popen_read B (kernel s); s = set_kernel k s in
      case pf of
        None \<Rightarrow> Ret (0, s)
      | Some pieces \<Rightarrow>
          if \<not> mem_ok (int (BUFF_SIZE + 1)) \<or> pieces = [] then Undef
          else run_bind (read_config mem_ok pieces []) (\<lambda>state.
            if length state \<le> MIN_SIZE then Ret (-1, s)
            else let (result, s) = sdmbn_send_config J i (Some state) 0 s in Ret (1, s)))"

definition local_put_config ::
  "'k pipes \<Rightarrow> c_int \<Rightarrow> string \<Rightarrow> ('k, 'j) nfs \<Rightarrow> c_int \<times> ('k, 'j) nfs" where
  "local_put_config B hashkey state s =
     (let (rc, k) = popen_write B (state @ [CHR 0x0A]) (kernel s); s = set_kernel k s in
      case rc of
        None \<Rightarrow> (1, s)
      | Some rc \<Rightarrow> if rc \<noteq> 0 then (rc, s) else (1, s))"

end
