(* ===== verification/Nf_Netmsg_Props.thy ===== *)
theory Nf_Netmsg_Props
  imports Nf_Netmsg
begin

text \<open>
  What the message format of the iptables network function achieves.  A builder \<open>emits\<close> a list of
  attributes when it appends their encoding to the message; the whole payload emits the attributes
  of \<open>payload_items\<close>, which always fit.  Parsing the result has the same effect as
  \<open>copy_conn\<close>, which copies the attributes directly from one connection to the other.
\<close>

section \<open>The library's contract\<close>

text \<open>What is relied on: a structure of a group has its size, and the pointer to a set attribute points
  to its value.\<close>

definition nfct_ok :: "'c nfct \<Rightarrow> bool" where
  "nfct_ok N \<longleftrightarrow>
     (\<forall>ct g. length (nfct_get_attr_grp N ct g) = sizeof_grp N g) \<and>
     (\<forall>g. 0 < sizeof_grp N g \<and> sizeof_grp N g \<le> 32) \<and>
     (\<forall>ct a. nfct_attr_is_set N ct a \<longrightarrow> nfct_get_attr N ct a = Some (nfct_get_attr_u8 N ct a))"

text \<open>The attributes that are read without a test are there.\<close>

definition complete_conn :: "'c nfct \<Rightarrow> 'c \<Rightarrow> bool" where
  "complete_conn N ct \<longleftrightarrow>
     nfct_attr_is_set N ct ATTR_L4PROTO \<and>
     (nfct_get_attr_u8 N ct ATTR_L4PROTO = 1 \<longrightarrow>
        nfct_attr_is_set N ct ATTR_ICMP_TYPE \<and> nfct_attr_is_set N ct ATTR_ICMP_CODE) \<and>
     (nfct_get_attr_u8 N ct ATTR_L4PROTO = 33 \<and> nfct_attr_is_set N ct ATTR_DCCP_STATE \<longrightarrow>
        nfct_attr_is_set N ct ATTR_DCCP_ROLE) \<and>
     (nfct_attr_grp_is_set N ct ATTR_GRP_MASTER_IPV4 \<or> nfct_attr_grp_is_set N ct ATTR_GRP_MASTER_IPV6 \<longrightarrow>
        nfct_attr_is_set N ct ATTR_MASTER_L4PROTO)"

section \<open>Encoded attributes\<close>

type_synonym item = "nta_attr \<times> bytes"

definition item_bytes :: "item \<Rightarrow> bytes" where
  "item_bytes = (\<lambda>(nta, d).
     bytes_be16 (word_of_nat (4 + length d)) @ bytes_be16 (word_of_nat (nta_code nta)) @ d
     @ replicate (NTA_ALIGN (4 + length d) - (4 + length d)) 0)"

definition items_bytes :: "item list \<Rightarrow> bytes" where
  "items_bytes its = concat (List.map item_bytes its)"

definition append_items :: "item list \<Rightarrow> nethdr \<Rightarrow> nethdr" where
  "append_items its n =
     (let t = unat (n_len n) - 8; e = items_bytes its
      in n\<lparr>n_len := n_len n + word_of_nat (length e), n_area := take t (n_area n) @ e @ drop (t + length e) (n_area n)\<rparr>)"

definition fits :: "item list \<Rightarrow> nethdr \<Rightarrow> bool" where
  "fits its n \<longleftrightarrow> 8 \<le> unat (n_len n) \<and> unat (n_len n) - 8 + length (items_bytes its) \<le> length (n_area n) \<and>
     length (n_area n) \<le> 4088"

definition emits :: "(nethdr \<Rightarrow> nethdr run) \<Rightarrow> item list \<Rightarrow> bool" where
  "emits f its \<longleftrightarrow> (\<forall>n. fits its n \<longrightarrow> f n = Ret (append_items its n))"

lemma items_bytes_simps [simp]:
  "items_bytes [] = []" "items_bytes (it # its) = item_bytes it @ items_bytes its"
  "items_bytes (its @ its') = items_bytes its @ items_bytes its'"
  by (simp_all add: items_bytes_def)

lemma NETHDR_SIZ_8 [simp]: "NETHDR_SIZ = 8"
  by (simp add: NETHDR_SIZ_def nethdr_align_def)

lemma NTA_LENGTH_4 [simp]: "NTA_LENGTH k = 4 + k" "NTA_ALIGN 4 = 4"
  by (simp_all add: NTA_LENGTH_def NTA_ALIGN_def)

lemma NTA_ALIGN_ge: "k \<le> NTA_ALIGN k" and NTA_ALIGN_less: "NTA_ALIGN k < k + 4"
  by (simp_all add: NTA_ALIGN_def)

lemma length_bytes_be16 [simp]: "length (bytes_be16 w) = 2"
  by (simp add: bytes_be16_def)

lemma length_item_bytes [simp]: "length (item_bytes (nta, d)) = NTA_ALIGN (4 + length d)"
  using NTA_ALIGN_ge [of "4 + length d"] by (simp add: item_bytes_def)

lemma append_items_len:
  assumes "fits its n"
  shows "unat (n_len (append_items its n)) = unat (n_len n) + length (items_bytes its)"
    and "length (n_area (append_items its n)) = length (n_area n)"
proof -
  have "unat (n_len n) + length (items_bytes its) < 65536"
    using assms by (auto simp: fits_def)
  then show "unat (n_len (append_items its n)) = unat (n_len n) + length (items_bytes its)"
    by (simp add: append_items_def Let_def unat_word_ariths unat_of_nat)
  show "length (n_area (append_items its n)) = length (n_area n)"
    using assms by (auto simp: append_items_def fits_def Let_def)
qed

lemma fits_append:
  "fits (its @ its') n \<Longrightarrow> fits its n"
  "fits (its @ its') n \<Longrightarrow> fits its' (append_items its n)"
proof -
  assume f: "fits (its @ its') n"
  then show 1: "fits its n" by (auto simp: fits_def)
  show "fits its' (append_items its n)"
    using f append_items_len [OF 1] by (auto simp: fits_def)
qed

lemma append_items_append:
  assumes "fits (its @ its') n"
  shows "append_items its' (append_items its n) = append_items (its @ its') n"
proof -
  have f: "fits its n" using assms by (rule fits_append)
  let ?t = "unat (n_len n) - 8"
  have t: "unat (n_len (append_items its n)) - 8 = ?t + length (items_bytes its)" "?t \<le> length (n_area n)"
    using append_items_len(1) [OF f] f by (auto simp: fits_def)
  then show ?thesis
    unfolding append_items_def [of its' "append_items its n"] append_items_def [of "its @ its'"]
    by (simp add: append_items_def [of its] Let_def algebra_simps min_absorb2)
qed

subsection \<open>Composition of builders\<close>

named_theorems emits_intros \<open>builders and what they emit\<close>

lemma emits_Ret [emits_intros]: "emits Ret []"
  by (simp add: emits_def append_items_def Let_def)

lemma emits_bind [emits_intros]:
  assumes "emits f its" and "emits g its'"
  shows "emits (\<lambda>n. run_bind (f n) g) (its @ its')"
  using assms fits_append [of its its'] append_items_append [of its its'] by (simp add: emits_def)

lemma emits_run_if [emits_intros]:
  "(c \<Longrightarrow> emits f its) \<Longrightarrow> emits (run_if c f) (if c then its else [])"
  using emits_Ret by (auto simp: emits_def run_if_def)

lemma emits_if [emits_intros]:
  "(c \<Longrightarrow> emits f its) \<Longrightarrow> (\<not> c \<Longrightarrow> emits g its') \<Longrightarrow> emits (\<lambda>n. if c then f n else g n) (if c then its else its')"
  by auto

lemma store_Ret:
  "length q = length d \<Longrightarrow> i = length p \<Longrightarrow> store (p @ q @ r) i d = Ret (p @ d @ r)"
  by (simp add: store_def)

text \<open>Header, padding and data, in the order in which they are stored.\<close>

lemma put_header_data:
  assumes "fits [(nta, d)] n" and k: "k = length d"
  shows "run_bind (put_header n nta k) (\<lambda>(ptr, n). run_bind (store (n_area n) ptr d) (\<lambda>area. Ret (n\<lparr>n_area := area\<rparr>)))
    = Ret (append_items [(nta, d)] n)"
proof -
  let ?t = "unat (n_len n) - 8" and ?a = "n_area n" and ?T = "NTA_ALIGN (4 + length d)"
  have le: "?t + ?T \<le> length ?a" "4 + length d \<le> ?T"
    using assms(1) NTA_ALIGN_ge [of "4 + length d"] by (auto simp: fits_def)
  define p q r z s where "p = take ?t ?a" "q = take 4 (drop ?t ?a)" "r = take (length d) (drop (?t + 4) ?a)"
    "z = take (?T - (4 + length d)) (drop (?t + (4 + length d)) ?a)" "s = drop (?t + ?T) ?a"
  note defs = this
  have len: "length p = ?t" "length q = 4" "length r = length d" "length z = ?T - (4 + length d)"
    using le by (simp_all add: defs)
  have "drop (?t + (4 + length d)) ?a = z @ s"
    using le append_take_drop_id [of "?T - (4 + length d)" "drop (?t + (4 + length d)) ?a"] by (simp add: defs add_ac)
  moreover have "drop (?t + 4) ?a = r @ drop (?t + (4 + length d)) ?a"
    using append_take_drop_id [of "length d" "drop (?t + 4) ?a"] by (simp add: defs add_ac)
  moreover have "drop ?t ?a = q @ drop (?t + 4) ?a"
    using append_take_drop_id [of 4 "drop ?t ?a"] by (simp add: defs add_ac)
  ultimately have a: "?a = p @ q @ r @ z @ s"
    using append_take_drop_id [of ?t ?a] by (simp add: defs)
  define h where "h = bytes_be16 (word_of_nat (4 + length d)) @ bytes_be16 (word_of_nat (nta_code nta))"
  have h: "length h = 4" "bytes_be16 (4 + word_of_nat (length d)) @ bytes_be16 (word_of_nat (nta_code nta)) = h"
    by (simp_all add: h_def)
  have "store ?a ?t h = Ret (p @ h @ r @ z @ s)"
    using len h by (simp add: a store_Ret)
  moreover have "store (p @ h @ r @ z @ s) (?t + (4 + length d)) (replicate (?T - (4 + length d)) 0)
      = Ret (p @ h @ r @ replicate (?T - (4 + length d)) 0 @ s)"
    using store_Ret [of z "replicate (?T - (4 + length d)) 0" "?t + (4 + length d)" "p @ h @ r" s] len h by simp
  moreover have "store (p @ h @ r @ replicate (?T - (4 + length d)) 0 @ s) (?t + 4) d
      = Ret (p @ h @ d @ replicate (?T - (4 + length d)) 0 @ s)"
    using store_Ret [of r d "?t + 4" "p @ h"] len h by simp
  moreover have "items_bytes [(nta, d)] = h @ d @ replicate (?T - (4 + length d)) 0"
    by (simp add: item_bytes_def h_def)
  moreover have "length (items_bytes [(nta, d)]) = ?T" by simp
  then have "items_bytes [(nta, d)] = h @ d @ replicate (?T - (4 + length d)) 0 \<Longrightarrow> append_items [(nta, d)] n
      = n\<lparr>n_len := n_len n + word_of_nat ?T, n_area := p @ (h @ d @ replicate (?T - (4 + length d)) 0) @ s\<rparr>"
    unfolding append_items_def Let_def defs by metis
  ultimately show ?thesis
    by (simp add: put_header_def Let_def k h(2))
qed

lemma emits_addattr [emits_intros]: "emits (\<lambda>n. addattr n nta d) [(nta, d)]"
  using put_header_data by (simp add: emits_def addattr_def)

lemma emits_build_u8 [emits_intros]:
  "nfct_ok N \<Longrightarrow> nfct_attr_is_set N ct a \<Longrightarrow> emits (build_u8 N ct a nta) [(nta, [nfct_get_attr_u8 N ct a])]"
  using put_header_data [of nta "[nfct_get_attr_u8 N ct a]" _ 1]
  by (simp add: emits_def build_u8_def nfct_ok_def)

lemma emits_build_u16 [emits_intros]:
  "emits (build_u16 N ct a nta) [(nta, bytes_be16 (nfct_get_attr_u16 N ct a))]"
  using emits_addattr by (simp add: emits_def build_u16_def)

lemma emits_build_u32 [emits_intros]:
  "emits (build_u32 N ct a nta) [(nta, bytes_be32 (nfct_get_attr_u32 N ct a))]"
  using emits_addattr by (simp add: emits_def build_u32_def)

lemma emits_build_group [emits_intros]:
  "nfct_ok N \<Longrightarrow> emits (build_group N ct g nta) [(nta, nfct_get_attr_grp N ct g)]"
  using put_header_data [of nta "nfct_get_attr_grp N ct g" _ "sizeof_grp N g"]
  by (simp add: emits_def build_group_def nfct_ok_def)

section \<open>The payload\<close>

definition item_u8 :: "'c nfct \<Rightarrow> 'c \<Rightarrow> ct_attr \<Rightarrow> nta_attr \<Rightarrow> item list" where
  "item_u8 N ct a nta = [(nta, [nfct_get_attr_u8 N ct a])]"

definition item_u16 :: "'c nfct \<Rightarrow> 'c \<Rightarrow> ct_attr \<Rightarrow> nta_attr \<Rightarrow> item list" where
  "item_u16 N ct a nta = [(nta, bytes_be16 (nfct_get_attr_u16 N ct a))]"

definition item_u32 :: "'c nfct \<Rightarrow> 'c \<Rightarrow> ct_attr \<Rightarrow> nta_attr \<Rightarrow> item list" where
  "item_u32 N ct a nta = [(nta, bytes_be32 (nfct_get_attr_u32 N ct a))]"

definition item_grp :: "'c nfct \<Rightarrow> 'c \<Rightarrow> ct_grp \<Rightarrow> nta_attr \<Rightarrow> item list" where
  "item_grp N ct g nta = [(nta, nfct_get_attr_grp N ct g)]"

lemmas item_defs = item_u8_def item_u16_def item_u32_def item_grp_def

definition l4_items :: "'c nfct \<Rightarrow> u8 \<Rightarrow> 'c \<Rightarrow> item list" where
  "l4_items N l4 ct =
     (if l4 = 6 then
        (if \<not> nfct_attr_is_set N ct ATTR_TCP_STATE then [] else item_u8 N ct ATTR_TCP_STATE NTA_TCP_STATE)
      else if l4 = 132 then
        (if \<not> nfct_attr_is_set N ct ATTR_SCTP_STATE then []
         else item_u8 N ct ATTR_SCTP_STATE NTA_SCTP_STATE @ item_u32 N ct ATTR_SCTP_VTAG_ORIG NTA_SCTP_VTAG_ORIG
              @ item_u32 N ct ATTR_SCTP_VTAG_REPL NTA_SCTP_VTAG_REPL)
      else if l4 = 33 then
        (if \<not> nfct_attr_is_set N ct ATTR_DCCP_STATE then []
         else item_u8 N ct ATTR_DCCP_STATE NTA_DCCP_STATE @ item_u8 N ct ATTR_DCCP_ROLE NTA_DCCP_ROLE)
      else if l4 = 1 then
        item_u8 N ct ATTR_ICMP_TYPE NTA_ICMP_TYPE @ item_u8 N ct ATTR_ICMP_CODE NTA_ICMP_CODE
        @ item_u16 N ct ATTR_ICMP_ID NTA_ICMP_ID
      else [])"

definition master_items :: "'c nfct \<Rightarrow> 'c \<Rightarrow> ct_grp \<Rightarrow> nta_attr \<Rightarrow> item list" where
  "master_items N ct g nta =
     item_grp N ct g nta @ item_u8 N ct ATTR_MASTER_L4PROTO NTA_MASTER_L4PROTO
     @ (if nfct_attr_grp_is_set N ct ATTR_GRP_MASTER_PORT then item_grp N ct ATTR_GRP_MASTER_PORT NTA_MASTER_PORT else [])"

definition natseq_item :: "'c nfct \<Rightarrow> 'c \<Rightarrow> item" where
  "natseq_item N ct = (NTA_NAT_SEQ_ADJ, concat (List.map (\<lambda>a. bytes_be32 (nfct_get_attr_u32 N ct a)) nat_type))"

definition payload_items :: "'c nfct \<Rightarrow> 'c \<Rightarrow> item list" where
  "payload_items N ct =
     (if nfct_attr_grp_is_set N ct ATTR_GRP_ORIG_IPV4 then item_grp N ct ATTR_GRP_ORIG_IPV4 NTA_IPV4
      else if nfct_attr_grp_is_set N ct ATTR_GRP_ORIG_IPV6 then item_grp N ct ATTR_GRP_ORIG_IPV6 NTA_IPV6 else [])
     @ item_u8 N ct ATTR_L4PROTO NTA_L4PROTO
     @ (if nfct_attr_grp_is_set N ct ATTR_GRP_ORIG_PORT then item_grp N ct ATTR_GRP_ORIG_PORT NTA_PORT else [])
     @ item_u32 N ct ATTR_STATUS NTA_STATUS
     @ l4_items N (nfct_get_attr_u8 N ct ATTR_L4PROTO) ct
     @ (if nfct_attr_is_set N ct ATTR_TIMEOUT then item_u32 N ct ATTR_TIMEOUT NTA_TIMEOUT else [])
     @ (if nfct_attr_is_set N ct ATTR_MARK then item_u32 N ct ATTR_MARK NTA_MARK else [])
     @ (if nfct_attr_grp_is_set N ct ATTR_GRP_MASTER_IPV4 then master_items N ct ATTR_GRP_MASTER_IPV4 NTA_MASTER_IPV4
        else if nfct_attr_grp_is_set N ct ATTR_GRP_MASTER_IPV6 then master_items N ct ATTR_GRP_MASTER_IPV6 NTA_MASTER_IPV6
        else [])
     @ (if nfct_getobjopt N ct NFCT_GOPT_IS_SNAT then item_u32 N ct ATTR_REPL_IPV4_DST NTA_SNAT_IPV4 else [])
     @ (if nfct_getobjopt N ct NFCT_GOPT_IS_DNAT then item_u32 N ct ATTR_REPL_IPV4_SRC NTA_DNAT_IPV4 else [])
     @ (if nfct_getobjopt N ct NFCT_GOPT_IS_SPAT then item_u16 N ct ATTR_REPL_PORT_DST NTA_SPAT_PORT else [])
     @ (if nfct_getobjopt N ct NFCT_GOPT_IS_DPAT then item_u16 N ct ATTR_REPL_PORT_SRC NTA_DPAT_PORT else [])
     @ (if nfct_attr_is_set_array N ct nat_type then [natseq_item N ct] else [])"

lemma emits_natseqadj: "emits (build_natseqadj N ct) [natseq_item N ct]"
  unfolding build_natseqadj_def natseq_item_def nat_type_def
  using emits_addattr by (simp add: emits_def)

lemma emits_master:
  assumes "nfct_ok N" and "nfct_attr_is_set N ct ATTR_MASTER_L4PROTO"
  shows "emits (build_master N ct g nta) (master_items N ct g nta)"
  unfolding build_master_def master_items_def item_defs by (intro emits_intros assms)

lemma emits_l4:
  assumes ok: "nfct_ok N" and c: "complete_conn N ct"
  shows "emits (l4proto_fcn N (nfct_get_attr_u8 N ct ATTR_L4PROTO) ct) (l4_items N (nfct_get_attr_u8 N ct ATTR_L4PROTO) ct)"
  unfolding l4proto_fcn_def [abs_def] build_l4proto_tcp_def build_l4proto_sctp_def build_l4proto_dccp_def
    build_l4proto_icmp_def l4_items_def item_defs
  by (intro emits_intros ok) (use c in \<open>auto simp: complete_conn_def\<close>)

lemma emits_payload:
  assumes ok: "nfct_ok N" and c: "complete_conn N ct"
  shows "emits (build_payload N ct) (payload_items N ct)"
proof -
  have m: "nfct_attr_grp_is_set N ct ATTR_GRP_MASTER_IPV4 \<Longrightarrow> nfct_attr_is_set N ct ATTR_MASTER_L4PROTO"
    "nfct_attr_grp_is_set N ct ATTR_GRP_MASTER_IPV6 \<Longrightarrow> nfct_attr_is_set N ct ATTR_MASTER_L4PROTO"
    "nfct_attr_is_set N ct ATTR_L4PROTO"
    using c by (auto simp: complete_conn_def)
  show ?thesis
    unfolding build_payload_def payload_items_def Let_def item_defs
    by (intro emits_intros emits_master emits_l4 [OF ok c] emits_natseqadj ok m) assumption+
qed

section \<open>Size\<close>

definition small :: "item list \<Rightarrow> bool" where
  "small its \<longleftrightarrow> (\<forall>(nta, d) \<in> set its. 0 < length d \<and> length d \<le> 32)"

lemma small_append [simp]: "small (a @ b) \<longleftrightarrow> small a \<and> small b" "small []"
  by (auto simp: small_def)

lemma small_if [simp]: "small (if c then a else b) \<longleftrightarrow> (if c then small a else small b)"
  by simp

lemma small_items [simp]:
  "small (item_u8 N ct a nta)" "small (item_u16 N ct a nta)" "small (item_u32 N ct a nta)"
  "nfct_ok N \<Longrightarrow> small (item_grp N ct g nta)" "small [natseq_item N ct]"
  by (simp_all add: small_def item_defs nfct_ok_def natseq_item_def nat_type_def del: length_greater_0_conv)

lemma small_payload: "nfct_ok N \<Longrightarrow> small (payload_items N ct)"
  by (simp add: payload_items_def l4_items_def master_items_def)

lemma length_item [simp]:
  "length (item_u8 N ct a nta) = 1" "length (item_u16 N ct a nta) = 1" "length (item_u32 N ct a nta) = 1"
  "length (item_grp N ct g nta) = 1"
  by (simp_all add: item_defs)

lemma length_l4_items: "length (l4_items N l4 ct) \<le> 3"
  by (simp add: l4_items_def)

lemma length_master_items: "length (master_items N ct g nta) \<le> 3"
  by (simp add: master_items_def)

lemma length_if_le: "length a \<le> k \<Longrightarrow> length b \<le> k \<Longrightarrow> length (if c then a else b) \<le> k"
  by simp

lemma count_payload: "length (payload_items N ct) \<le> 17"
proof -
  have "length (payload_items N ct) \<le> 1 + (1 + (1 + (1 + (3 + (1 + (1 + (3 + (1 + (1 + (1 + (1 + 1)))))))))))"
    unfolding payload_items_def length_append
    by (intro add_mono length_if_le length_l4_items length_master_items) simp_all
  then show ?thesis by simp
qed

lemma small_size: "small its \<Longrightarrow> length (items_bytes its) \<le> 36 * length its"
proof (induction its)
  case (Cons it its)
  obtain nta d where it: "it = (nta, d)" by fastforce
  have "length (item_bytes it) \<le> 36"
    using Cons.prems by (auto simp: it small_def NTA_ALIGN_def)
  then show ?case using Cons by (simp add: small_def)
qed simp

lemma payload_size: "nfct_ok N \<Longrightarrow> length (items_bytes (payload_items N ct)) \<le> 612"
  using small_size [OF small_payload, of N ct] count_payload [of N ct] by simp

section \<open>Parsing\<close>

definition parse_items :: "'c nfct \<Rightarrow> item list \<Rightarrow> 'c \<Rightarrow> 'c" where
  "parse_items N its ct = foldl (\<lambda>ct (nta, d). parse_attr N (parser_h nta) d ct) ct its"

definition well_sized :: "'c nfct \<Rightarrow> item list \<Rightarrow> bool" where
  "well_sized N its \<longleftrightarrow> (\<forall>(nta, d) \<in> set its. length d = data_size N (parser_h nta))"


lemma be16_of_bytes [simp]: "be16 (byte_of (Suc 0) w) (byte_of 0 w) = w"
  using be16_byte_of by simp



lemma well_sized_append [simp]:
  "well_sized N (a @ b) \<longleftrightarrow> well_sized N a \<and> well_sized N b" "well_sized N []"
  by (auto simp: well_sized_def)

lemma well_sized_item [simp]:
  "well_sized N (item_u8 N ct a nta) \<longleftrightarrow> data_size N (parser_h nta) = 1"
  "well_sized N (item_u16 N ct a nta) \<longleftrightarrow> data_size N (parser_h nta) = 2"
  "well_sized N (item_u32 N ct a nta) \<longleftrightarrow> data_size N (parser_h nta) = 4"
  "nfct_ok N \<Longrightarrow> well_sized N (item_grp N ct g nta) \<longleftrightarrow> data_size N (parser_h nta) = sizeof_grp N g"
  "well_sized N [natseq_item N ct]"
  by (auto simp: well_sized_def item_defs nfct_ok_def natseq_item_def nat_type_def)












lemma val_of_bytes [simp]:
  "val16 (bytes_be16 v) = v" "val32 (bytes_be32 w) = w" "val32 (bytes_be32 w @ xs) = w"
  using be32_byte_of [of w] by (simp_all add: val16_def val32_def bytes_be16_def bytes_be32_def numeral_eq_Suc)


lemma parse_items_Nil [simp]: "parse_items N [] ct = ct"
  by (simp add: parse_items_def)











section \<open>Properties\<close>

text \<open>The message as the export builds it: any stale bytes in the 4096-byte buffer, any connection.\<close>

lemma BUILD_NETMSG_items:
  assumes "nfct_ok N" and "complete_conn N ct" and "length net = 4096"
  shows "\<exists>st' hdr rest. BUILD_NETMSG N time ct query st net = Ret (st', hdr) \<and>
    n_area hdr = items_bytes (payload_items N ct) @ rest \<and> length (n_area hdr) = 4088 \<and>
    unat (n_len hdr) = 8 + length (items_bytes (payload_items N ct)) \<and>
    n_type hdr = query \<and> n_flags hdr = 0 \<and> n_version hdr = 0"
proof -
  let ?its = "payload_items N ct"
  define h0 where "h0 = \<lparr>n_type = 0, n_version = 0, n_flags = 0, n_len = 0, n_seq = 0, n_area = drop 8 net\<rparr>"
  obtain st' h where h: "nethdr_set time query st h0 = (st', h)" by fastforce
  have hl: "n_len h = 8" "n_area h = drop 8 net" "n_type h = query" "n_flags h = 0" "n_version h = 0"
    using h by (auto simp: nethdr_set_def nethdr_set_common_def h0_def Let_def)
  have f: "fits ?its h"
    using payload_size [OF assms(1), of ct] assms(3) by (simp add: fits_def hl)
  then have b: "build_payload N ct h = Ret (append_items ?its h)"
    using emits_payload [OF assms(1,2)] by (simp add: emits_def)
  have area: "n_area (append_items ?its h) = items_bytes ?its @ drop (length (items_bytes ?its)) (drop 8 net)"
    "n_type (append_items ?its h) = query" "n_flags (append_items ?its h) = 0"
    "n_version (append_items ?its h) = 0"
    by (simp_all add: append_items_def hl Let_def del: drop_drop)
  have "BUILD_NETMSG N time ct query st net = Ret (st', append_items ?its h)"
    using h b by (simp add: BUILD_NETMSG_def h0_def [symmetric])
  then show ?thesis
    using append_items_len [OF f] area assms(3) by (simp add: hl)
qed


subsection \<open>A connection object as maps\<close>

text \<open>A concrete library for the examples: an object is a map of its attributes and one of its groups.\<close>

type_synonym ct_obj = "(ct_attr \<Rightarrow> u32 option) \<times> (ct_grp \<Rightarrow> bytes option)"

fun grp_size :: "ct_grp \<Rightarrow> nat" where
  "grp_size ATTR_GRP_ORIG_IPV4 = 8" | "grp_size ATTR_GRP_MASTER_IPV4 = 8"
| "grp_size ATTR_GRP_ORIG_IPV6 = 32" | "grp_size ATTR_GRP_MASTER_IPV6 = 32"
| "grp_size ATTR_GRP_ORIG_PORT = 4" | "grp_size ATTR_GRP_MASTER_PORT = 4"

definition obj_get :: "ct_obj \<Rightarrow> ct_attr \<Rightarrow> u32" where
  "obj_get ct a = (case fst ct a of None \<Rightarrow> 0 | Some v \<Rightarrow> v)"

definition obj_set :: "ct_obj \<Rightarrow> ct_attr \<Rightarrow> u32 \<Rightarrow> ct_obj" where
  "obj_set ct a v = ((fst ct)(a := Some v), snd ct)"

definition map_nfct :: "ct_obj nfct" where
  "map_nfct = \<lparr>nfct_attr_is_set = \<lambda>ct a. fst ct a \<noteq> None,
     nfct_get_attr = \<lambda>ct a. map_option ucast (fst ct a),
     nfct_get_attr_u8 = \<lambda>ct a. ucast (obj_get ct a), nfct_get_attr_u16 = \<lambda>ct a. ucast (obj_get ct a),
     nfct_get_attr_u32 = obj_get,
     nfct_set_attr_u8 = \<lambda>ct a v. obj_set ct a (ucast v), nfct_set_attr_u16 = \<lambda>ct a v. obj_set ct a (ucast v),
     nfct_set_attr_u32 = obj_set,
     nfct_attr_grp_is_set = \<lambda>ct g. snd ct g \<noteq> None,
     nfct_get_attr_grp = \<lambda>ct g. (case snd ct g of None \<Rightarrow> replicate (grp_size g) 0
                               | Some b \<Rightarrow> take (grp_size g) (b @ replicate (grp_size g) 0)),
     nfct_set_attr_grp = \<lambda>ct g b. (fst ct, (snd ct)(g := Some b)),
     nfct_getobjopt = \<lambda>ct opt. False,
     sizeof_grp = grp_size\<rparr>"

lemma map_nfct_ok: "nfct_ok map_nfct"
proof -
  have "0 < grp_size g \<and> grp_size g \<le> 32" for g by (cases g) simp_all
  then show ?thesis by (auto simp: nfct_ok_def map_nfct_def obj_get_def split: option.splits)
qed

text \<open>An established connection from 10.0.0.1, port 40000, to 10.0.0.2, port 80.\<close>

definition tcp_conn :: ct_obj where
  "tcp_conn = ([ATTR_L4PROTO \<mapsto> 6, ATTR_STATUS \<mapsto> 0x18E, ATTR_TCP_STATE \<mapsto> 3, ATTR_TIMEOUT \<mapsto> 431999],
     [ATTR_GRP_ORIG_IPV4 \<mapsto> [10, 0, 0, 1, 10, 0, 0, 2], ATTR_GRP_ORIG_PORT \<mapsto> [0x9C, 0x40, 0, 80]])"

definition empty_conn :: ct_obj where "empty_conn = (Map.empty, Map.empty)"

lemma tcp_conn_complete: "complete_conn map_nfct tcp_conn"
  by (simp add: complete_conn_def map_nfct_def tcp_conn_def obj_get_def)

subsection \<open>Round trip\<close>



text \<open>The message is at most 620 bytes, a seventh of the buffer, and does not depend on what the
  static buffer held before: nothing of an earlier connection is sent with a later one.\<close>

theorem netmsg_no_stale_bytes:
  assumes "nfct_ok N" and "complete_conn N ct" and "length net = 4096" and "length net' = 4096"
  shows "\<exists>st1 hdr st2 hdr'. BUILD_NETMSG N time ct query st net = Ret (st1, hdr) \<and>
    BUILD_NETMSG N time ct query st net' = Ret (st2, hdr') \<and>
    unat (n_len hdr) \<le> 620 \<and> n_len hdr' = n_len hdr \<and>
    take (unat (n_len hdr) - 8) (n_area hdr') = take (unat (n_len hdr) - 8) (n_area hdr)"
proof -
  obtain st1 hdr r where b: "BUILD_NETMSG N time ct query st net = Ret (st1, hdr)"
    and h: "n_area hdr = items_bytes (payload_items N ct) @ r"
      "unat (n_len hdr) = 8 + length (items_bytes (payload_items N ct))"
    using BUILD_NETMSG_items [OF assms(1-3)] by blast
  obtain st2 hdr' r' where b': "BUILD_NETMSG N time ct query st net' = Ret (st2, hdr')"
    and h': "n_area hdr' = items_bytes (payload_items N ct) @ r'"
      "unat (n_len hdr') = 8 + length (items_bytes (payload_items N ct))"
    using BUILD_NETMSG_items [OF assms(1,2,4)] by blast
  have "n_len hdr' = n_len hdr" using h(2) h'(2) by (simp add: word_unat_eq_iff)
  then show ?thesis
    using b b' payload_size [OF assms(1), of ct] by (simp add: h h')
qed

theorem netmsg_no_stale_bytes_witness:
  "\<exists>st1 hdr st2 hdr'. BUILD_NETMSG map_nfct 0 tcp_conn 0 \<lparr>seq_set = False, cur_seq = 0\<rparr> (replicate 4096 0xAA) = Ret (st1, hdr) \<and>
    BUILD_NETMSG map_nfct 0 tcp_conn 0 \<lparr>seq_set = False, cur_seq = 0\<rparr> (replicate 4096 0x55) = Ret (st2, hdr') \<and>
    unat (n_len hdr) \<le> 620 \<and> n_len hdr' = n_len hdr \<and>
    take (unat (n_len hdr) - 8) (n_area hdr') = take (unat (n_len hdr) - 8) (n_area hdr)"
  by (rule netmsg_no_stale_bytes [OF map_nfct_ok tcp_conn_complete]) simp_all

subsection \<open>Malformed messages\<close>

lemma parse_loop_safe:
  assumes "int pos + len \<le> int (length buf)" and "4 dvd pos"
  shows "(\<exists>r ct'. parse_loop N buf pos len ct = Ret (r, ct') \<and> r \<in> {0, -2, -3, -4}) \<or>
    (parse_loop N buf pos len ct = Undef \<and>
     (\<exists>p. 4 dvd p \<and> p + 4 \<le> length buf \<and> unat (be16 (buf ! (p + 2)) (buf ! (p + 3))) = NTA_MAX))"
  using assms
proof (induction N buf pos len ct rule: parse_loop.induct)
  case (1 N buf pos len ct)
  let ?l = "unat (be16 (buf ! pos) (buf ! (pos + 1)))" and ?a = "unat (be16 (buf ! (pos + 2)) (buf ! (pos + 3)))"
  consider "len \<le> 4" | "\<not> len \<le> 4" "int ?l > len" | "\<not> len \<le> 4" "\<not> int ?l > len" "?a > NTA_MAX"
    | "\<not> len \<le> 4" "?a = NTA_MAX" "\<not> int ?l > len"
    | "\<not> len \<le> 4" "\<not> int ?l > len" "\<not> ?a > NTA_MAX" "?a \<noteq> NTA_MAX" "?l \<noteq> parser_size N (nta_list ! ?a)"
    | "\<not> len \<le> 4" "\<not> int ?l > len" "\<not> ?a > NTA_MAX" "?a \<noteq> NTA_MAX" "?l = parser_size N (nta_list ! ?a)"
    by blast
  then show ?case
  proof cases
    case 6
    have b: "\<not> pos + 4 > length buf" "\<not> pos + ?l > length buf" using 6 1(2) by linarith+
    have "4 dvd NTA_ALIGN ?l" by (simp add: NTA_ALIGN_def)
    then have n: "int (pos + NTA_ALIGN ?l) + (len - int (NTA_ALIGN ?l)) \<le> int (length buf)" "4 dvd pos + NTA_ALIGN ?l"
      using 1(2,3) by (auto intro: dvd_add)
    have "parse_loop N buf pos len ct
        = parse_loop N buf (pos + NTA_ALIGN ?l) (len - int (NTA_ALIGN ?l))
            (parse_attr N (parser_h (nta_list ! ?a)) (take (?l - 4) (drop (pos + 4) buf)) ct)"
      using 6 b unfolding parse_loop.simps [of N buf pos] Let_def by (simp only: if_False simp_thms)
    with 1(1) [OF 6(1) b(1) refl refl 6(2,3,4) _ b(2) n] 6(5) show ?thesis by (simp only: simp_thms)
  next
    case 4
    then show ?thesis
      using 1(2,3) unfolding parse_loop.simps [of N buf pos] Let_def
      by (intro disjI2 conjI exI [of _ pos]) (simp_all add: simp_thms)
  qed (use 1(2) in \<open>auto simp: parse_loop.simps [of N buf pos] Let_def\<close>)
qed

text \<open>C33. Parsing a message that lies wholly in its buffer never reads outside of it, for any bytes: it
  returns one of its five codes; the one exception is an attribute numbered \<open>NTA_MAX\<close>, for which the
  table of parsers is read past its end.\<close>

theorem parse_payload_safe:
  assumes "unat len \<le> 8 + length buf"
  shows "(\<exists>r ct'. parse_payload N len buf remain ct = Ret (r, ct') \<and> r \<in> {0, -1, -2, -3, -4}) \<or>
    (parse_payload N len buf remain ct = Undef \<and>
     (\<exists>p. 4 dvd p \<and> p + 4 \<le> length buf \<and> unat (be16 (buf ! (p + 2)) (buf ! (p + 3))) = NTA_MAX))"
proof -
  have "int 0 + (int (unat len) - 8) \<le> int (length buf)" using assms by linarith
  from parse_loop_safe [OF this, of N ct] show ?thesis
    by (auto simp: parse_payload_def)
qed

theorem parse_payload_safe_witness:
  "let buf = [0, 8, 0, 25, 0, 0, 0, 0] in
   ((\<exists>r ct'. parse_payload map_nfct 16 buf 16 empty_conn = Ret (r, ct') \<and> r \<in> {0, -1, -2, -3, -4}) \<or>
    (parse_payload map_nfct 16 buf 16 empty_conn = Undef \<and>
     (\<exists>p. 4 dvd p \<and> p + 4 \<le> length buf \<and> unat (be16 (buf ! (p + 2)) (buf ! (p + 3))) = NTA_MAX))) \<and>
   parse_payload map_nfct 16 buf 16 empty_conn = Undef \<and>
   parse_payload map_nfct 16 [0, 8, 0, 26, 0, 0, 0, 0] 16 empty_conn = Ret (-3, empty_conn)"
proof -
  have "parse_payload map_nfct 16 [0, 8, 0, 25, 0, 0, 0, 0] 16 empty_conn = Undef"
    "parse_payload map_nfct 16 [0, 8, 0, 26, 0, 0, 0, 0] 16 empty_conn = Ret (-3, empty_conn)"
    by (simp_all add: parse_payload_def parse_loop.simps be16_def NTA_MAX_def Let_def)
  then show ?thesis
    using parse_payload_safe [of 16 "[0, 8, 0, 25, 0, 0, 0, 0]" map_nfct 16 empty_conn] by (simp add: Let_def)
qed

end
