(* ===== verification/Nf_Iptables_Props.thy ===== *)
theory Nf_Iptables_Props
  imports Nf_Iptables Nf_Netmsg_Props Sdmbn_State_Props
begin

text \<open>
  What the callbacks of the iptables network function achieve: a connection that is exported and
  imported elsewhere reaches the kernel there with the attributes it had, deletion removes
  exactly the connections that an export with the same key selects, and what is reported to the controller
  when something went wrong.
\<close>

section \<open>The state of the function\<close>

lemma upd_nf_simps [simp]:
  "s_nf (upd_nf f s) = f (s_nf s)" "s_sent (upd_nf f s) = s_sent s" "s_conn_state (upd_nf f s) = s_conn_state s"
  by (simp_all add: upd_nf_def)

lemma kernel_simps [simp]:
  "kernel (set_kernel k s) = k" "s_sent (set_kernel k s) = s_sent s" "s_conn_state (set_kernel k s) = s_conn_state s"
  "nf_get_count (s_nf (set_kernel k s)) = nf_get_count (s_nf s)" "nf_del_count (s_nf (set_kernel k s)) = nf_del_count (s_nf s)"
  "nf_handles (s_nf (set_kernel k s)) = nf_handles (s_nf s)" "nf_net (s_nf (set_kernel k s)) = nf_net (s_nf s)"
  by (simp_all add: kernel_def set_kernel_def)

lemma do_close_simps [simp]:
  "s_sent (do_close S s) = s_sent s" "nf_get_count (s_nf (do_close S s)) = nf_get_count (s_nf s)"
  "nf_del_count (s_nf (do_close S s)) = nf_del_count (s_nf s)" "kernel (do_close S s) = nfct_close S (kernel s)"
  "nf_handles (s_nf (do_close S s)) = nf_handles (s_nf s) - 1"
  by (simp_all add: do_close_def kernel_def set_kernel_def)

section \<open>Moving a connection\<close>





subsection \<open>A kernel for the examples\<close>

text \<open>A kernel that tracks a list of connections, newest first, with the error number and the number
  of connections that were destroyed.\<close>

type_synonym toy = "c_int \<times> ct_obj list \<times> nat"

definition toy_sys :: "(ct_obj, toy) nfct_sys" where
  "toy_sys = \<lparr>sys_errno = fst, nfct_open = \<lambda>k. (True, k), nfct_close = \<lambda>k. k,
     nfct_filter_create = \<lambda>k. (True, k), nfct_filter_destroy = \<lambda>k. k, nfct_filter_attach = \<lambda>f k. (0, k),
     nfct_query_dump = \<lambda>fam (e, cs, d). (0, cs, (e, cs, d)),
     nfct_query_create = \<lambda>c (e, cs, d). (0, (e, c # cs, d)),
     nfct_query_destroy = \<lambda>c (e, cs, d). (0, (e, tl cs, d + 1)),
     nfct_clone = \<lambda>c k. (Some c, k), nfct_setup_reply = \<lambda>c. c, nfct_zeroed = empty_conn\<rparr>"

lemma toy_sys_simps [simp]:
  "sys_errno toy_sys = fst" "nfct_open toy_sys k = (True, k)" "nfct_close toy_sys k = k"
  "nfct_filter_create toy_sys k = (True, k)" "nfct_filter_destroy toy_sys k = k" "nfct_filter_attach toy_sys f k = (0, k)"
  "nfct_query_dump toy_sys fam (e, cs, d) = (0, cs, (e, cs, d))" "nfct_query_create toy_sys c (e, cs, d) = (0, (e, c # cs, d))"
  "nfct_query_destroy toy_sys c (e, cs, d) = (0, (e, tl cs, d + 1))" "nfct_clone toy_sys c k = (Some c, k)"
  "nfct_zeroed toy_sys = empty_conn"
  by (simp_all add: toy_sys_def)

definition toy_nf :: "ct_obj list \<Rightarrow> (toy, json_value) nfs" where
  "toy_nf cs = zero_sdmbn \<lparr>nf_get_count = 0, nf_del_count = 0, nf_seq = \<lparr>seq_set = False, cur_seq = 0\<rparr>,
     nf_net = replicate 4096 0, nf_handles = 0, nf_kernel = (0, cs, 0)\<rparr>"

lemma toy_nf_simps [simp]:
  "nf_net (s_nf (toy_nf cs)) = replicate 4096 0" "nf_get_count (s_nf (toy_nf cs)) = 0" "kernel (toy_nf cs) = (0, cs, 0)"
  "s_sent (toy_nf cs) = []" "s_conn_state (toy_nf cs) = 0" "nf_handles (s_nf (toy_nf cs)) = 0"
  by (simp_all add: toy_nf_def zero_sdmbn_def kernel_def)

lemma not_sneg_0 [simp]: "\<not> sneg (0 :: c_int)"
  by (simp add: sneg_def)


section \<open>Deleting connections\<close>

definition selected :: "'c nfct \<Rightarrow> PerflowKey \<Rightarrow> 'c \<Rightarrow> bool" where
  "selected N key ct \<longleftrightarrow> match_ports N key ct zero_key \<noteq> None"

lemma match_ports_selected: "match_ports N key ct k = None \<longleftrightarrow> \<not> selected N key ct"
  by (auto simp: match_ports_def selected_def)

lemma del_callback_eq:
  "conntrack_del_callback N S key ct s =
     (if selected N key ct
      then Ret (NFCT_CB_CONTINUE, upd_nf (\<lambda>n. n\<lparr>nf_kernel := snd (nl_destroy_conntrack S ct (kernel s)),
             nf_del_count := nf_del_count n + 1\<rparr>) s)
      else Ret (NFCT_CB_CONTINUE, s))"
  by (auto simp: conntrack_del_callback_def selected_def match_ports_def split: prod.split)

lemma run_del_callbacks:
  "\<exists>s'. run_callbacks (conntrack_del_callback N S key) cts s = Ret s' \<and>
     kernel s' = fold (\<lambda>ct k. snd (nl_destroy_conntrack S ct k)) (List.filter (selected N key) cts) (kernel s) \<and>
     nf_del_count (s_nf s') = nf_del_count (s_nf s) + word_of_nat (length (List.filter (selected N key) cts)) \<and>
     nf_handles (s_nf s') = nf_handles (s_nf s) \<and> s_sent s' = s_sent s"
proof (induction cts arbitrary: s)
  case (Cons ct cts)
  show ?case
  proof (cases "selected N key ct")
    case True
    let ?s = "upd_nf (\<lambda>n. n\<lparr>nf_kernel := snd (nl_destroy_conntrack S ct (kernel s)), nf_del_count := nf_del_count n + 1\<rparr>) s"
    have "kernel ?s = snd (nl_destroy_conntrack S ct (kernel s))" by (simp add: kernel_def)
    then show ?thesis using Cons.IH [of ?s] True by (simp add: del_callback_eq add_ac)
  next
    case False
    then show ?thesis using Cons.IH [of s] by (simp add: del_callback_eq)
  qed
qed simp

text \<open>C34. A deletion that gets through destroys, in order, exactly the connections of the dump
  that an export with the same key would select; it reports their number and closes its handle.\<close>

theorem del_perflow_exact:
  assumes "do_open S (upd_nf (\<lambda>n. n\<lparr>nf_del_count := 0\<rparr>) s) = (True, s1)"
    and "nfct_filter_create S (kernel s1) = (True, k1)" and "query_family key = Some family"
    and "conn_filter P key family = Ret flt" and "nfct_filter_attach S flt k1 = (r2, k2)" and "\<not> sneg r2"
    and "nfct_query_dump S family k2 = (r3, cts, k3)" and "\<not> sneg r3"
  shows "\<exists>s'. local_del_perflow P N S (Some key) i s
      = Ret (word_of_nat (length (List.filter (\<lambda>ct. match_ports N key ct k0 \<noteq> None) cts)), s') \<and>
    kernel s' = nfct_close S (nfct_filter_destroy S
      (fold (\<lambda>ct k. snd (nl_destroy_conntrack S ct k)) (List.filter (\<lambda>ct. match_ports N key ct k0 \<noteq> None) cts) k3)) \<and>
    nf_handles (s_nf s') = nf_handles (s_nf s) \<and> s_sent s' = s_sent s"
proof -
  have s1: "nf_del_count (s_nf s1) = 0" "nf_handles (s_nf s1) = nf_handles (s_nf s) + 1" "s_sent s1 = s_sent s"
    using assms(1) by (auto simp: do_open_def Let_def split: prod.splits if_splits)
  let ?s = "set_kernel k3 (set_kernel k2 (set_kernel k1 s1))"
  obtain s' where r: "run_callbacks (conntrack_del_callback N S key) cts ?s = Ret s'"
    and k: "kernel s' = fold (\<lambda>ct k. snd (nl_destroy_conntrack S ct k)) (List.filter (selected N key) cts) k3"
      "nf_del_count (s_nf s') = word_of_nat (length (List.filter (selected N key) cts))"
      "nf_handles (s_nf s') = nf_handles (s_nf s) + 1" "s_sent s' = s_sent s"
    using run_del_callbacks [of N S key cts ?s] s1 by auto
  show ?thesis
    using assms r k by (simp add: local_del_perflow_def Let_def match_ports_selected)
qed

theorem del_perflow_exact_witness:
  "let key = zero_key\<lparr>wildcards := 0xDF, tp_dst := 80\<rparr>; web = ([ATTR_PORT_DST \<mapsto> 80], Map.empty);
       dns = ([ATTR_PORT_DST \<mapsto> 53], Map.empty); icmp = (Map.empty, Map.empty) in
   \<exists>s'. local_del_perflow \<lparr>big_endian = False, char_signed = True\<rparr> map_nfct toy_sys (Some key) 1 (toy_nf [web, dns, web, icmp])
      = Ret (2, s') \<and> snd (snd (kernel s')) = 2 \<and> nf_handles (s_nf s') = 0"
proof -
  define key where "key = zero_key\<lparr>wildcards := 0xDF, tp_dst := 80\<rparr>"
  define web :: ct_obj where "web = ([ATTR_PORT_DST \<mapsto> 80], Map.empty)"
  define dns :: ct_obj where "dns = ([ATTR_PORT_DST \<mapsto> 53], Map.empty)"
  define icmp :: ct_obj where "icmp = (Map.empty, Map.empty)"
  let ?cts = "[web, dns, web, icmp]"
  obtain s1 where op: "do_open toy_sys (upd_nf (\<lambda>n. n\<lparr>nf_del_count := 0\<rparr>) (toy_nf ?cts)) = (True, s1)"
    and s1: "kernel s1 = (0, ?cts, 0)"
    by (simp add: do_open_def Let_def kernel_def set_kernel_def toy_nf_def zero_sdmbn_def)
  have f: "query_family key = Some (-1)" "conn_filter \<lparr>big_endian = False, char_signed = True\<rparr> key (-1) = Ret []"
    by (simp_all add: query_family_def conn_filter_def key_def flag_set_def wildcard_defs AF_INET_def)
  have "List.filter (\<lambda>ct. match_ports map_nfct key ct zero_key \<noteq> None) ?cts = [web, web]"
    by (simp add: match_ports_def key_def flag_set_def wildcard_defs web_def dns_def icmp_def map_nfct_def obj_get_def zero_key_def)
  then show ?thesis
    using del_perflow_exact [OF op _ f, of _ 0 _ 0 _ _ map_nfct 1 zero_key] s1
    unfolding Let_def key_def [symmetric] web_def [symmetric] dns_def [symmetric] icmp_def [symmetric]
    by (fastforce simp: nl_destroy_conntrack_def)
qed

section \<open>What the controller is told\<close>

lemma send_state_loop_sent:
  assumes "\<And>j. j < n \<Longrightarrow> \<not> sneg (nf_get_count (s_nf s) + word_of_nat j)"
  shows "s_sent (send_state_loop J P key n s) = s_sent s @
      List.map (\<lambda>j. (s_conn_state s, state_msg J P 1 key ''lalala'' 0x019294 (nf_get_count (s_nf s) + word_of_nat j))) [0..<n] \<and>
    nf_get_count (s_nf (send_state_loop J P key n s)) = nf_get_count (s_nf s) + word_of_nat n \<and>
    nf_handles (s_nf (send_state_loop J P key n s)) = nf_handles (s_nf s)"
  using assms
proof (induction n arbitrary: s)
  case (Suc n)
  let ?s = "upd_nf (\<lambda>n. n\<lparr>nf_get_count := nf_get_count n + 1\<rparr>)
    (s\<lparr>s_sent := s_sent s @ [(s_conn_state s, state_msg J P 1 key ''lalala'' 0x019294 (nf_get_count (s_nf s)))]\<rparr>)"
  have "\<not> sneg (nf_get_count (s_nf ?s) + word_of_nat j)" if "j < n" for j
    using Suc.prems [of "Suc j"] that by (simp add: add_ac)
  from Suc.IH [OF this] have IH: "s_sent (send_state_loop J P key n ?s) = s_sent ?s @
      List.map (\<lambda>j. (s_conn_state s, state_msg J P 1 key ''lalala'' 0x019294 (nf_get_count (s_nf s) + word_of_nat (Suc j)))) [0..<n]"
    "nf_get_count (s_nf (send_state_loop J P key n ?s)) = nf_get_count (s_nf s) + word_of_nat (Suc n)"
    "nf_handles (s_nf (send_state_loop J P key n ?s)) = nf_handles (s_nf s)"
    by (simp_all add: add_ac)
  have "send_state_loop J P key (Suc n) s = send_state_loop J P key n ?s"
    using Suc.prems [of 0] by (simp add: send_perflow_sent)
  then show ?case
    unfolding upt_conv_Cons [OF zero_less_Suc] map_Suc_upt [symmetric] by (simp add: IH comp_def del: upt_Suc)
qed simp

lemma send_state_eq:
  "fst (send_state J P stack s) = NFCT_CB_CONTINUE \<and>
   s_sent (snd (send_state J P stack s)) = s_sent s @
     List.map (\<lambda>j. (s_conn_state s, state_msg J P 1 (fixed_key stack) ''lalala'' 0x019294 j)) [1, 2, 3, 4, 5, 6, 7, 8, 9] \<and>
   nf_get_count (s_nf (snd (send_state J P stack s))) = 10 \<and>
   nf_handles (s_nf (snd (send_state J P stack s))) = nf_handles (s_nf s)"
proof -
  let ?s = "upd_nf (\<lambda>n. n\<lparr>nf_get_count := 1\<rparr>) s"
  have u: "[0..<9] = [0, 1, 2, 3, 4, 5, 6, 7, 8 :: nat]" by code_simp
  have "\<forall>j \<in> set [0..<9]. \<not> sneg (1 + word_of_nat j :: c_int)" by code_simp
  then have "\<not> sneg (nf_get_count (s_nf ?s) + word_of_nat j)" if "j < 9" for j using that by simp
  from send_state_loop_sent [of 9 ?s J P "fixed_key stack", OF this] show ?thesis
    unfolding send_state_def Let_def u by simp
qed

text \<open>The callbacks of an export only add messages.\<close>

definition grew :: "('k, 'j) nfs \<Rightarrow> ('k, 'j) nfs \<Rightarrow> bool" where
  "grew s s' \<longleftrightarrow> (\<exists>ms. s_sent s' = s_sent s @ ms) \<and> s_conn_state s' = s_conn_state s \<and>
     nf_handles (s_nf s') = nf_handles (s_nf s)"

lemma grew_refl [simp]: "grew s s"
  by (simp add: grew_def)

lemma grew_trans [trans]: "grew s s' \<Longrightarrow> grew s' s'' \<Longrightarrow> grew s s''"
  by (auto simp: grew_def)

lemma send_perflow_grew: "grew s (snd (sdmbn_send_perflow J P i key state hashkey seq s))"
  by (auto simp: grew_def sdmbn_send_perflow_def json_send_def split: option.split)

lemma upd_nf_grew: "(\<And>n. nf_handles (f n) = nf_handles n) \<Longrightarrow> grew s (upd_nf f s)"
  by (simp add: grew_def)

lemma get_callback_grew:
  assumes "conntrack_get_callback J P mem_ok N time stack key i ct s = Ret (r, s')"
  shows "grew s s'"
proof (cases "match_ports N key ct (stack\<lparr>wildcards := WILDCARD_ALL\<rparr>)")
  case None
  with assms show ?thesis by (simp add: conntrack_get_callback_def)
next
  case (Some k)
  with assms obtain seq net where
    b: "BUILD_NETMSG N time ct NET_T_STATE_NEW (nf_seq (s_nf s)) (nf_net (s_nf s)) = Ret (seq, net)"
    by (auto simp: conntrack_get_callback_def run_bind_eq_Ret)
  let ?s = "upd_nf (\<lambda>n. n\<lparr>nf_seq := seq, nf_net := nethdr_bytes net\<rparr>) s"
  have g: "grew s ?s" by (rule upd_nf_grew) simp
  show ?thesis
  proof (cases "sdmbn_base64_encode mem_ok (Some (nethdr_bytes net)) (ucast (n_len net))")
    case None
    with assms Some b g show ?thesis by (simp add: conntrack_get_callback_def)
  next
    case (Some state)
    let ?t = "snd (sdmbn_send_perflow J P i (Some (export_key N ct k)) (Some state) (nfct_get_attr_u32 N ct ATTR_ID)
      (nf_get_count (s_nf ?s)) ?s)"
    have "s' = upd_nf (\<lambda>n. n\<lparr>nf_get_count := nf_get_count n + 1\<rparr>) ?t"
      using assms Some \<open>match_ports _ _ _ _ = _\<close> b by (simp add: conntrack_get_callback_def Let_def split_beta)
    moreover have "grew ?t (upd_nf (\<lambda>n. n\<lparr>nf_get_count := nf_get_count n + 1\<rparr>) ?t)" by (rule upd_nf_grew) simp
    ultimately show ?thesis using grew_trans [OF g grew_trans [OF send_perflow_grew]] by simp
  qed
qed

lemma run_callbacks_grew:
  "run_callbacks (conntrack_get_callback J P mem_ok N time stack key i) cts s = Ret s' \<Longrightarrow> grew s s'"
proof (induction cts arbitrary: s)
  case (Cons ct cts)
  then obtain r s1 where "conntrack_get_callback J P mem_ok N time stack key i ct s = Ret (r, s1)"
    and "run_callbacks (conntrack_get_callback J P mem_ok N time stack key i) cts s1 = Ret s'"
    by (auto simp: run_bind_eq_Ret)
  from grew_trans [OF get_callback_grew [OF this(1)] Cons.IH [OF this(2)]] show ?case .
qed simp

text \<open>An export that does not fail reports ten connections to the controller, however many the
  kernel tracks, and sends, after the state of the connections, nine messages with a made-up
  connection and the request number one.\<close>

theorem get_perflow_count_is_constant:
  assumes "local_get_perflow J P mem_ok N S time stack key i ev s = Ret (r, s')" and "r \<noteq> -1"
  shows "r = 10 \<and> nf_handles (s_nf s') = nf_handles (s_nf s) \<and> (\<exists>ms. s_sent s' = s_sent s @ ms @
    List.map (\<lambda>j. (s_conn_state s, state_msg J P 1 (fixed_key stack) ''lalala'' 0x019294 j)) [1, 2, 3, 4, 5, 6, 7, 8, 9])"
proof -
  obtain key' family flt where k: "key = Some key'" "query_family key' = Some family" "conn_filter P key' family = Ret flt"
    using assms by (auto simp: local_get_perflow_def run_bind_eq_Ret Let_def split_beta split: option.splits if_splits)
  obtain got s1 where op: "do_open S (upd_nf (\<lambda>n. n\<lparr>nf_get_count := 0\<rparr>) s) = (got, s1)" by fastforce
  obtain cr k1 where c: "nfct_filter_create S (kernel s1) = (cr, k1)" by fastforce
  obtain r2 k2 where a: "nfct_filter_attach S flt k1 = (r2, k2)" by fastforce
  obtain r3 cts k3 where d: "nfct_query_dump S family k2 = (r3, cts, k3)" using prod_cases3 by blast
  from assms obtain s2 where got
    and cb: "run_callbacks (conntrack_get_callback J P mem_ok N time stack key' i) cts
        (set_kernel k3 (set_kernel k2 (set_kernel k1 s1))) = Ret s2"
    and r: "r = nf_get_count (s_nf (snd (send_state J P stack s2)))"
      "s' = do_close S (set_kernel (nfct_filter_destroy S (kernel (snd (send_state J P stack s2)))) (snd (send_state J P stack s2)))"
    by (auto simp: local_get_perflow_def run_bind_eq_Ret Let_def k op c a d split_beta split: if_splits)
  note op = op [unfolded eqTrueI [OF \<open>got\<close>]]
  have "s_sent s1 = s_sent s" "s_conn_state s1 = s_conn_state s" "nf_handles (s_nf s1) = nf_handles (s_nf s) + 1"
    using op by (auto simp: do_open_def Let_def split: prod.splits if_splits)
  with run_callbacks_grew [OF cb] obtain ms where
    "s_sent s2 = s_sent s @ ms" "s_conn_state s2 = s_conn_state s" "nf_handles (s_nf s2) = nf_handles (s_nf s) + 1"
    by (auto simp: grew_def)
  then show ?thesis
    using send_state_eq [of J P stack s2] by (auto simp: r)
qed

theorem get_perflow_count_is_constant_witness:
  "let P = \<lparr>big_endian = False, char_signed = True\<rparr>; key = zero_key\<lparr>wildcards := 0xFF\<rparr> in
   \<exists>s'. local_get_perflow json_tree P (\<lambda>_. True) map_nfct toy_sys 0 zero_key (Some key) 7 0 (toy_nf []) = Ret (10, s') \<and>
     length (s_sent s') \<ge> 9 \<and> nf_handles (s_nf s') = 0"
proof -
  define P where "P = \<lparr>big_endian = False, char_signed = True\<rparr>"
  define key where "key = zero_key\<lparr>wildcards := 0xFF\<rparr>"
  have f: "query_family key = Some (-1)" "conn_filter P key (-1) = Ret []"
    by (simp_all add: query_family_def conn_filter_def key_def flag_set_def wildcard_defs AF_INET_def)
  have k: "kernel (upd_nf (\<lambda>n. n\<lparr>nf_get_count := 0\<rparr>) (toy_nf [])) = (0, [], 0)"
    "kernel (upd_nf (\<lambda>n. n\<lparr>nf_handles := nf_handles n + 1\<rparr>) (s :: (toy, json_value) nfs)) = kernel s" for s
    by (simp_all add: kernel_def toy_nf_def zero_sdmbn_def)
  have c: "nf_get_count (s_nf (snd (send_state json_tree P zero_key s))) = 10" for s :: "(toy, json_value) nfs"
    using send_state_eq by blast
  obtain r s' where g: "local_get_perflow json_tree P (\<lambda>_. True) map_nfct toy_sys 0 zero_key (Some key) 7 0 (toy_nf []) = Ret (r, s')"
    and "r \<noteq> -1"
    by (simp add: local_get_perflow_def do_open_def Let_def f k c split_beta)
  from get_perflow_count_is_constant [OF this] g show ?thesis
    unfolding Let_def P_def [symmetric] key_def [symmetric] by auto
qed

text \<open>When the pipe to the command that restores the rules cannot be opened, or the command exits
  with an error status, the put is acknowledged to the controller like a successful one.\<close>

theorem failed_restore_acknowledged:
  assumes "loc_put_config L = Some (local_put_config B)"
    and "json_object_object_get J msg FIELD_HASHKEY = Some hf" and "json_object_object_get J msg FIELD_STATE = Some sf"
    and "popen_write B (json_object_get_string J sf @ [CHR 0x0A]) (kernel s) = (rc, k)"
    and "rc = None \<or> \<not> sneg (the rc)"
  shows "\<exists>r. \<not> sneg r \<and> handle_put_config J L msg i s
    = (r, reply_event (json_compose_put_config_ack J i (json_object_get_int J hf)) (set_kernel k s))"
proof -
  have "\<not> sneg (1 :: c_int)" by (simp add: sneg_def)
  then show ?thesis
    using assms by (cases rc) (auto simp: handle_put_config_def local_put_config_def ack_defs Let_def)
qed

theorem failed_restore_acknowledged_witness:
  "let B = \<lparr>popen_read = \<lambda>k. (None, k), popen_write = \<lambda>text k. (Some 256, k)\<rparr>;
       msg = JObj [(FIELD_HASHKEY, JInt 5), (FIELD_STATE, JStr ''rules'')] in
   \<exists>r. \<not> sneg r \<and> handle_put_config json_tree (no_callbacks\<lparr>loc_put_config := Some (local_put_config B)\<rparr>) msg 3 (toy_nf [])
     = (r, reply_event (json_compose_put_config_ack json_tree 3 5) (set_kernel (0, [], 0) (toy_nf [])))"
proof -
  define B :: "toy pipes" where "B = \<lparr>popen_read = \<lambda>k. (None, k), popen_write = \<lambda>text k. (Some 256, k)\<rparr>"
  define msg where "msg = JObj [(FIELD_HASHKEY, JInt 5), (FIELD_STATE, JStr ''rules'')]"
  have m: "json_object_object_get json_tree msg FIELD_HASHKEY = Some (JInt 5)"
    "json_object_object_get json_tree msg FIELD_STATE = Some (JStr ''rules'')"
    "json_object_get_int json_tree (JInt 5) = 5"
    by (simp_all add: msg_def json_tree_def)
  have w: "popen_write B x k = (Some 256, k)" for x k by (simp add: B_def)
  have "\<not> sneg (256 :: c_int)" by (simp add: sneg_def)
  then show ?thesis
    using failed_restore_acknowledged [OF _ m(1,2) w, where i = 3 and s = "toy_nf []"
        and L = "no_callbacks\<lparr>loc_put_config := Some (local_put_config B)\<rparr>"]
    unfolding Let_def B_def [symmetric] msg_def [symmetric] by (simp add: m(3))
qed

section \<open>Malformed state\<close>

text \<open>The length in the header of a put state is trusted: a message that consists of its header
  only but claims more than twelve bytes is read past the end of the decoded state.\<close>

theorem put_perflow_trusts_length:
  assumes "do_open S s = (True, s1)" and "length blob = 8" and "\<And>n. mem_ok n"
    and "blob ! 0 AND 0x0F \<noteq> 10" and "unat (be16 (blob ! 2) (blob ! 3)) > 12"
  shows "local_put_perflow P mem_ok N S hashkey (Some key) (Some (List.map char_of_byte (base64_encode_loop blob))) s = Undef"
proof -
  have "sdmbn_base64_decode mem_ok (Some (List.map char_of_byte (base64_encode_loop blob))) = Ret (Some blob)"
    using assms(3) by (simp add: decode_eq comp_def)
  moreover have "HDR_NETWORK2HOST P blob = Ret (be16 (blob ! 2) (blob ! 3), [])"
    using assms(2,4) by (simp add: HDR_NETWORK2HOST_def Let_def)
  moreover have "\<not> int (unat (be16 (blob ! 2) (blob ! 3))) - 8 \<le> 4" using assms(5) by linarith
  then have "parse_payload N (be16 (blob ! 2) (blob ! 3)) [] (unat (be16 (blob ! 2) (blob ! 3))) ct = Undef" for ct
    by (simp add: parse_payload_def parse_loop.simps)
  ultimately show ?thesis
    using assms(1) by (simp add: local_put_perflow_def)
qed

theorem put_perflow_trusts_length_witness:
  "local_put_perflow \<lparr>big_endian = False, char_signed = True\<rparr> (\<lambda>_. True) map_nfct toy_sys 0 (Some zero_key)
     (Some ''AAAAAAAEAAAAAAAA'') (toy_nf []) = Undef"
proof -
  have e: "List.map char_of_byte (base64_encode_loop [0, 0, 0, 64, 0, 0, 0, 0]) = ''AAAAAAAEAAAAAAAA''" by code_simp
  show ?thesis
    using put_perflow_trusts_length [of toy_sys "toy_nf []" _ "[0, 0, 0, 64, 0, 0, 0, 0]" "\<lambda>_. True"]
    unfolding e by (simp add: do_open_def Let_def be16_def)
qed

end
