(* ===== verification/OFM_Refine.thy ===== *)
theory OFM_Refine
  imports OFM_Prelude
begin

text \<open>
  Data refinement for the containers: an operation on a concrete state returns a result and a new
  state; the specification is the same operation as a function on abstract states.  The locale
  \<open>refines\<close> states that one step of the code simulates one step of the specification, with no
  undefined behaviour; its client lemma extends this to sequences of operations.
\<close>

fun run_ops :: "('op \<Rightarrow> 's \<Rightarrow> ('r \<times> 's) run) \<Rightarrow> 'op list \<Rightarrow> 's \<Rightarrow> ('r list \<times> 's) run" where
  "run_ops step [] s = Ret ([], s)"
| "run_ops step (op # ops) s =
     run_bind (step op s) (\<lambda>(r, s). run_bind (run_ops step ops s) (\<lambda>(rs, s). Ret (r # rs, s)))"

fun spec_ops :: "('op \<Rightarrow> 'a \<Rightarrow> 'r \<times> 'a) \<Rightarrow> 'op list \<Rightarrow> 'a \<Rightarrow> 'r list \<times> 'a" where
  "spec_ops spec [] a = ([], a)"
| "spec_ops spec (op # ops) a =
     (let (r, a) = spec op a; (rs, a) = spec_ops spec ops a in (r # rs, a))"

locale refines =
  fixes sim :: "'s \<Rightarrow> 'a \<Rightarrow> bool" and ok :: "'op \<Rightarrow> bool"
    and step :: "'op \<Rightarrow> 's \<Rightarrow> ('r \<times> 's) run" and spec :: "'op \<Rightarrow> 'a \<Rightarrow> 'r \<times> 'a"
  assumes step_law: "sim s a \<Longrightarrow> ok op \<Longrightarrow> \<exists>s'. step op s = Ret (fst (spec op a), s') \<and> sim s' (snd (spec op a))"
begin

lemma ops_simulated:
  "sim s a \<Longrightarrow> \<forall>op \<in> set ops. ok op \<Longrightarrow>
     \<exists>s'. run_ops step ops s = Ret (fst (spec_ops spec ops a), s') \<and> sim s' (snd (spec_ops spec ops a))"
proof (induction ops arbitrary: s a)
  case (Cons op ops)
  obtain r a1 where sp: "spec op a = (r, a1)" by fastforce
  obtain rs a2 where sps: "spec_ops spec ops a1 = (rs, a2)" by fastforce
  from step_law [OF Cons.prems(1), of op] Cons.prems(2) sp obtain s1 where "step op s = Ret (r, s1)" "sim s1 a1" by auto
  with Cons.IH [of s1 a1] Cons.prems(2) sps obtain s2 where "run_ops step ops s1 = Ret (rs, s2)" "sim s2 a2" by auto
  with \<open>step op s = Ret (r, s1)\<close> sp sps show ?case by simp
qed simp

end

end
