(* ===== verification/Bro_Dict.thy ===== *)
theory Bro_Dict
  imports OFM_Refine "HOL-Library.AList" "HOL-Library.Multiset"
begin

text \<open>
  The hash table under Bro's dictionaries, \<^verbatim>\<open>bro-2.1/src/Dict.cc\<close> and \<^verbatim>\<open>Dict.h\<close>: chained
  buckets that are rehashed incrementally, while entries are in an old and in a new table, optional order of
  insertion, and iteration with cookies that may be told of changes.

  Entries and d_cookies have addresses, in order of allocation.  A table is known by an identifier, so that a
  cookie that points to a table that was freed can be told; the chains (\<open>PList\<close>) are lists, empty or
  null.  Sizes are natural numbers, below \<open>2 ^ 31\<close> in the code.  The density threshold is the constant 3.
\<close>

section \<open>Sizes of tables\<close>

function is_prime_loop :: "nat \<Rightarrow> nat \<Rightarrow> bool" where
  "is_prime_loop j n = (if j = 0 \<or> j * j > n then True else if n mod j = 0 then False else is_prime_loop (j + 1) n)"
  by pat_completeness auto
termination
proof (relation "measure (\<lambda>(j, n). Suc n - j)")
  fix j n :: nat
  assume "\<not> (j = 0 \<or> n < j * j)"
  then have "j * j \<le> n" by simp
  then have "j \<le> n" using le_trans [OF le_square] by blast
  then show "((j + 1, n), (j, n)) \<in> measure (\<lambda>(j, n). Suc n - j)" by simp
qed simp

declare is_prime_loop.simps [simp del]

definition IsPrime :: "nat \<Rightarrow> bool" where
  "IsPrime n = is_prime_loop 3 n"

definition PRIME_THRESH :: nat where "PRIME_THRESH = 1000"

partial_function (option) next_prime_loop :: "nat \<Rightarrow> nat option" where
  "next_prime_loop n = (if IsPrime n then Some n else next_prime_loop (n + 2))"

declare next_prime_loop.simps [code]

definition NextPrime :: "nat \<Rightarrow> nat option" where
  "NextPrime n =
     (let n = (if even n then n + 1 else n)
      in if n > PRIME_THRESH then Some n else next_prime_loop n)"

section \<open>State\<close>

record 'v DictEntry =
  e_addr :: nat
  e_key :: bytes
  e_hash :: u64
  e_value :: "'v option"

text \<open>The table that a cookie points to, and the addresses of entries inserted meanwhile.\<close>

record IterCookie =
  c_bucket :: nat
  c_offset :: nat
  c_ttbl :: "nat option"
  c_inserted :: "nat list"

record 'v table =
  t_id :: nat
  t_buckets :: "'v DictEntry list option list"
  t_num_entries :: int
  t_max_entries :: int
  t_thresh :: int

record 'v Dictionary =
  tbl :: "'v table"
  tbl2 :: "'v table option"
  tbl_next_ind :: nat
  d_order :: "nat list option"
  d_cookies :: "nat list"
  cookie_heap :: "(nat \<times> IterCookie) list"
  d_next_addr :: nat
  loose :: "'v DictEntry list"

definition num_buckets :: "'v table \<Rightarrow> nat" where
  "num_buckets t = length (t_buckets t)"

definition DEFAULT_DENSITY_THRESH :: nat where "DEFAULT_DENSITY_THRESH = 3"

definition new_table :: "nat \<Rightarrow> nat \<Rightarrow> 'v table option" where
  "new_table i sz =
     map_option (\<lambda>n. \<lparr>t_id = i, t_buckets = replicate n None, t_num_entries = 0, t_max_entries = 0,
        t_thresh = int (DEFAULT_DENSITY_THRESH * n)\<rparr>) (NextPrime sz)"

definition new_Dictionary :: "bool \<Rightarrow> nat \<Rightarrow> 'v Dictionary option" where
  "new_Dictionary ordered initial_size =
     map_option (\<lambda>t. \<lparr>tbl = t, tbl2 = None, tbl_next_ind = 0, d_order = (if ordered then Some [] else None),
        d_cookies = [], cookie_heap = [], d_next_addr = 1, loose = []\<rparr>) (new_table 0 initial_size)"

section \<open>Lookup\<close>

definition same_key :: "bytes \<Rightarrow> u64 \<Rightarrow> 'v DictEntry \<Rightarrow> bool" where
  "same_key key hash e \<longleftrightarrow> e_hash e = hash \<and> length (e_key e) = length key \<and> key = e_key e"

text \<open>The position of an entry in a chain; a null chain has none.\<close>

fun chain_pos :: "bytes \<Rightarrow> u64 \<Rightarrow> 'v DictEntry list \<Rightarrow> nat option" where
  "chain_pos key hash [] = None"
| "chain_pos key hash (e # es) = (if same_key key hash e then Some 0 else map_option Suc (chain_pos key hash es))"

definition chain_list :: "'v DictEntry list option \<Rightarrow> 'v DictEntry list" where
  "chain_list c = (case c of None \<Rightarrow> [] | Some es \<Rightarrow> es)"

definition bucket_of :: "u64 \<Rightarrow> 'v table \<Rightarrow> nat" where
  "bucket_of hash t = unat hash mod num_buckets t"

definition bucket_chain :: "u64 \<Rightarrow> 'v table \<Rightarrow> 'v DictEntry list option" where
  "bucket_chain hash t = t_buckets t ! bucket_of hash t"

text \<open>The new table, when the bucket of the old one was moved already.\<close>

definition moved_table :: "u64 \<Rightarrow> 'v Dictionary \<Rightarrow> 'v table option" where
  "moved_table hash d = (if bucket_of hash (tbl d) \<ge> tbl_next_ind d then None else tbl2 d)"

definition home :: "u64 \<Rightarrow> 'v Dictionary \<Rightarrow> 'v table" where
  "home hash d = (case moved_table hash d of None \<Rightarrow> tbl d | Some t2 \<Rightarrow> t2)"

definition set_home :: "u64 \<Rightarrow> 'v table \<Rightarrow> 'v Dictionary \<Rightarrow> 'v Dictionary" where
  "set_home hash t d = (case moved_table hash d of None \<Rightarrow> d\<lparr>tbl := t\<rparr> | Some _ \<Rightarrow> d\<lparr>tbl2 := Some t\<rparr>)"

definition dict_Lookup :: "bytes \<Rightarrow> u64 \<Rightarrow> 'v Dictionary \<Rightarrow> 'v option" where
  "dict_Lookup key hash d =
     (let chain = chain_list (bucket_chain hash (home hash d))
      in case chain_pos key hash chain of None \<Rightarrow> None | Some i \<Rightarrow> e_value (chain ! i))"

section \<open>Insertion\<close>

text \<open>Telling the registered cookies; one that was freed while it was registered is a dangling pointer.\<close>

fun tell_cookies :: "(IterCookie \<Rightarrow> IterCookie) \<Rightarrow> nat list \<Rightarrow> (nat \<times> IterCookie) list \<Rightarrow> (nat \<times> IterCookie) list run" where
  "tell_cookies f [] heap = Ret heap"
| "tell_cookies f (a # as) heap =
     (case map_of heap a of
        None \<Rightarrow> Undef
      | Some c \<Rightarrow> tell_cookies f as (AList.update a (f c) heap))"

definition upd_chain :: "nat \<Rightarrow> 'v DictEntry list option \<Rightarrow> 'v table \<Rightarrow> 'v table" where
  "upd_chain h c t = t\<lparr>t_buckets := (t_buckets t)[h := c]\<rparr>"

definition count_up :: "'v table \<Rightarrow> 'v table" where
  "count_up t =
     (let n = t_num_entries t + 1 in t\<lparr>t_num_entries := n, t_max_entries := (if t_max_entries t < n then n else t_max_entries t)\<rparr>)"

text \<open>The private \<open>Insert\<close> of an entry: it overwrites the value of an entry with the same key.\<close>

definition insert_entry :: "'v DictEntry \<Rightarrow> 'v Dictionary \<Rightarrow> ('v option \<times> 'v Dictionary) run" where
  "insert_entry new_entry d =
     (let hash = e_hash new_entry; t = home hash d; h = bucket_of hash t; chain = chain_list (t_buckets t ! h)
      in case chain_pos (e_key new_entry) hash chain of
           Some i \<Rightarrow>
             Ret (e_value (chain ! i),
               set_home hash (upd_chain h (Some (chain[i := (chain ! i)\<lparr>e_value := e_value new_entry\<rparr>])) t)
                 (d\<lparr>loose := new_entry # loose d\<rparr>))
         | None \<Rightarrow>
             let d = set_home hash (count_up (upd_chain h (Some (chain @ [new_entry])) t)) d
             in run_bind (tell_cookies (\<lambda>c. if h < c_bucket c then c\<lparr>c_inserted := c_inserted c @ [e_addr new_entry]\<rparr> else c)
                            (d_cookies d) (cookie_heap d)) (\<lambda>heap.
                Ret (None, d\<lparr>cookie_heap := heap\<rparr>)))"

definition StartChangeSize :: "nat \<Rightarrow> 'v Dictionary \<Rightarrow> 'v Dictionary run option" where
  "StartChangeSize new_size d =
     (if d_cookies d \<noteq> [] then Some (Ret d)
      else if tbl2 d \<noteq> None then Some Aborted
      else map_option (\<lambda>t. Ret (d\<lparr>tbl2 := Some t, tbl_next_ind := 0, d_next_addr := d_next_addr d + 1\<rparr>)) (new_table (d_next_addr d) new_size))"

definition FinishChangeSize :: "'v Dictionary \<Rightarrow> 'v Dictionary run" where
  "FinishChangeSize d =
     (if t_num_entries (tbl d) \<noteq> 0 then Aborted
      else case tbl2 d of None \<Rightarrow> Undef | Some t \<Rightarrow> Ret (d\<lparr>tbl := t, tbl2 := None\<rparr>))"

text \<open>The entries of one chain of the old table go to the new one.\<close>

fun move_chain :: "'v DictEntry list \<Rightarrow> int \<Rightarrow> 'v Dictionary \<Rightarrow> (int \<times> 'v Dictionary) run" where
  "move_chain [] num d = Ret (num, d)"
| "move_chain (e # es) num d =
     run_bind (insert_entry e d) (\<lambda>(_, d).
       move_chain es (num - 1) (d\<lparr>tbl := (tbl d)\<lparr>t_num_entries := t_num_entries (tbl d) - 1\<rparr>\<rparr>))"

lemma moved_table_update [simp]:
  "moved_table h (d\<lparr>loose := x\<rparr>) = moved_table h d" "moved_table h (d\<lparr>d_order := os\<rparr>) = moved_table h d"
  "moved_table h (d\<lparr>cookie_heap := cs\<rparr>) = moved_table h d" "moved_table h (d\<lparr>d_next_addr := n\<rparr>) = moved_table h d"
  "moved_table h (d\<lparr>d_cookies := as\<rparr>) = moved_table h d"
  by (simp_all add: moved_table_def)

lemma insert_entry_table:
  "insert_entry e d = Ret (v, d') \<Longrightarrow> num_buckets (tbl d') = num_buckets (tbl d) \<and> tbl_next_ind d' = tbl_next_ind d"
  by (auto simp: insert_entry_def Let_def run_bind_eq_Ret set_home_def home_def upd_chain_def count_up_def num_buckets_def
      split: option.splits)

lemma move_chain_table:
  "move_chain es num d = Ret (num', d') \<Longrightarrow> num_buckets (tbl d') = num_buckets (tbl d) \<and> tbl_next_ind d' = tbl_next_ind d"
proof (induction es num d rule: move_chain.induct)
  case (2 e es num d)
  from 2(2) obtain v d1 where i: "insert_entry e d = Ret (v, d1)"
    and m: "move_chain es (num - 1) (d1\<lparr>tbl := (tbl d1)\<lparr>t_num_entries := t_num_entries (tbl d1) - 1\<rparr>\<rparr>) = Ret (num', d')"
    by (auto simp: run_bind_eq_Ret)
  from 2(1) [OF i refl m] insert_entry_table [OF i] show ?case by (simp add: num_buckets_def)
qed simp

text \<open>The body of the loop, and the loop, which moves at least eight entries or all.\<close>

definition move_bucket :: "int \<Rightarrow> 'v Dictionary \<Rightarrow> (int \<times> 'v Dictionary) run" where
  "move_bucket num d =
     (if tbl_next_ind d \<ge> num_buckets (tbl d) then Undef
      else let i = tbl_next_ind d; d = d\<lparr>tbl_next_ind := i + 1\<rparr> in
        case t_buckets (tbl d) ! i of
          None \<Rightarrow> Ret (num, d)
        | Some chain \<Rightarrow> move_chain chain num (d\<lparr>tbl := upd_chain i None (tbl d)\<rparr>))"

lemma move_bucket_table:
  "move_bucket num d = Ret (num', d') \<Longrightarrow>
     num_buckets (tbl d') = num_buckets (tbl d) \<and> tbl_next_ind d' = Suc (tbl_next_ind d) \<and> tbl_next_ind d < num_buckets (tbl d)"
  by (auto simp: move_bucket_def Let_def upd_chain_def num_buckets_def dest!: move_chain_table split: if_splits option.splits)

function move_loop :: "int \<Rightarrow> 'v Dictionary \<Rightarrow> 'v Dictionary run" where
  "move_loop num d =
     run_bind (move_bucket num d) (\<lambda>(num, d).
       if num > 0 \<and> tbl_next_ind d < num_buckets (tbl d) then move_loop num d else Ret d)"
  by pat_completeness auto
termination
  by (relation "measure (\<lambda>(num, d). num_buckets (tbl d) - tbl_next_ind d)") (auto dest!: move_bucket_table)

declare move_loop.simps [simp del]

definition MoveChains :: "'v Dictionary \<Rightarrow> 'v Dictionary run" where
  "MoveChains d =
     (if d_cookies d \<noteq> [] then Ret d
      else run_bind (move_loop 8 d) (\<lambda>d.
        if tbl_next_ind d \<ge> num_buckets (tbl d) then FinishChangeSize d else Ret d))"

text \<open>What ends an insertion.  The option is \<open>None\<close> if no size for a new table were found.\<close>

definition resize_logic :: "'v Dictionary \<Rightarrow> 'v Dictionary run option" where
  "resize_logic d =
     (if tbl2 d \<noteq> None then Some (MoveChains d)
      else if t_num_entries (tbl d) \<ge> t_thresh (tbl d) then StartChangeSize (num_buckets (tbl d) * 2 + 1) d
      else Some (Ret d))"

text \<open>
  The public \<open>Insert\<close>.  An entry that was not linked into a chain is freed if there was a value before; if
  the stored value was null, it is taken for a new entry.
\<close>

definition dict_Insert :: "bytes \<Rightarrow> u64 \<Rightarrow> 'v option \<Rightarrow> 'v Dictionary \<Rightarrow> ('v option \<times> 'v Dictionary) run option" where
  "dict_Insert key hash val d =
     (let new_entry = \<lparr>e_addr = d_next_addr d, e_key = key, e_hash = hash, e_value = val\<rparr>
      in case insert_entry new_entry (d\<lparr>d_next_addr := d_next_addr d + 1\<rparr>) of
           Ret (old_val, d) \<Rightarrow>
             let d = (if old_val \<noteq> None then d\<lparr>loose := tl (loose d)\<rparr>
                      else d\<lparr>d_order := map_option (\<lambda>os. os @ [e_addr new_entry]) (d_order d)\<rparr>)
             in map_option (\<lambda>r. run_bind r (\<lambda>d. Ret (old_val, d))) (resize_logic d)
         | Blocked \<Rightarrow> Some Blocked | Undef \<Rightarrow> Some Undef | Aborted \<Rightarrow> Some Aborted)"

section \<open>Removal\<close>

definition remove_nth :: "nat \<Rightarrow> 'a list \<Rightarrow> 'a list" where
  "remove_nth i xs = take i xs @ drop (Suc i) xs"

text \<open>\<open>h\<close> is the bucket in the old table, also for an entry of the new one.\<close>

definition dict_DoRemove :: "'v DictEntry \<Rightarrow> nat \<Rightarrow> nat \<Rightarrow> 'v Dictionary \<Rightarrow> ('v option \<times> 'v Dictionary) run" where
  "dict_DoRemove e h chain_offset d =
     (let d = d\<lparr>d_order := map_option (remove1 (e_addr e)) (d_order d)\<rparr>
      in run_bind (tell_cookies (\<lambda>c.
             let c = (if c_bucket c = h \<and> c_offset c > chain_offset then c\<lparr>c_offset := c_offset c - 1\<rparr> else c)
             in if c_bucket c > h then c\<lparr>c_inserted := remove1 (e_addr e) (c_inserted c)\<rparr> else c)
           (d_cookies d) (cookie_heap d)) (\<lambda>heap.
         Ret (e_value e, d\<lparr>cookie_heap := heap\<rparr>)))"

definition dict_Remove :: "bytes \<Rightarrow> u64 \<Rightarrow> 'v Dictionary \<Rightarrow> ('v option \<times> 'v Dictionary) run" where
  "dict_Remove key hash d =
     (let t = home hash d; b = bucket_of hash t; chain = chain_list (t_buckets t ! b)
      in case chain_pos key hash chain of
           None \<Rightarrow> Ret (None, d)
         | Some i \<Rightarrow>
             run_bind (dict_DoRemove (chain ! i) (bucket_of hash (tbl d)) i
                 (set_home hash (upd_chain b (Some (remove_nth i chain)) t) d)) (\<lambda>(v, d).
               let t = home hash d in Ret (v, set_home hash (t\<lparr>t_num_entries := t_num_entries t - 1\<rparr>) d)))"

text \<open>\<open>Clear\<close> starts over with two buckets; threshold, order and cookies stay.\<close>

definition dict_Clear :: "'v Dictionary \<Rightarrow> 'v Dictionary option" where
  "dict_Clear d =
     map_option (\<lambda>n. d\<lparr>tbl := (tbl d)\<lparr>t_id := d_next_addr d, t_buckets := replicate n None, t_num_entries := 0, t_max_entries := 0\<rparr>,
       tbl2 := None, d_next_addr := d_next_addr d + 1\<rparr>) (NextPrime 2)"

section \<open>Sizes and order\<close>

definition dict_Length :: "'v Dictionary \<Rightarrow> int" where
  "dict_Length d = (case tbl2 d of None \<Rightarrow> t_num_entries (tbl d) | Some t \<Rightarrow> t_num_entries (tbl d) + t_num_entries t)"

definition dict_MaxLength :: "'v Dictionary \<Rightarrow> int" where
  "dict_MaxLength d = (case tbl2 d of None \<Rightarrow> t_max_entries (tbl d) | Some t \<Rightarrow> t_max_entries (tbl d) + t_max_entries t)"

definition table_entries :: "'v table \<Rightarrow> 'v DictEntry list" where
  "table_entries t = concat (List.map chain_list (t_buckets t))"

definition dict_entries :: "'v Dictionary \<Rightarrow> 'v DictEntry list" where
  "dict_entries d = table_entries (tbl d) @ (case tbl2 d of None \<Rightarrow> [] | Some t \<Rightarrow> table_entries t)"

text \<open>Following a pointer to an entry; one that was freed is in no table and not loose.\<close>

definition deref :: "nat \<Rightarrow> 'v Dictionary \<Rightarrow> 'v DictEntry run" where
  "deref a d = run_of_option (find (\<lambda>e. e_addr e = a) (dict_entries d @ loose d))"

definition dict_NthEntry :: "int \<Rightarrow> 'v Dictionary \<Rightarrow> 'v DictEntry option run" where
  "dict_NthEntry n d =
     (case d_order d of
        None \<Rightarrow> Ret None
      | Some os \<Rightarrow>
          if n < 0 \<or> n \<ge> dict_Length d then Ret None
          else if nat n \<ge> length os then Undef
          else run_bind (deref (os ! nat n) d) (\<lambda>e. Ret (Some e)))"

section \<open>Iteration\<close>

definition InitForIteration :: "'v Dictionary \<Rightarrow> nat \<times> 'v Dictionary" where
  "InitForIteration d =
     (d_next_addr d, d\<lparr>cookie_heap := (d_next_addr d, \<lparr>c_bucket = 0, c_offset = 0, c_ttbl = None, c_inserted = []\<rparr>) # cookie_heap d,
        d_next_addr := d_next_addr d + 1\<rparr>)"

definition MakeRobustCookie :: "nat \<Rightarrow> 'v Dictionary \<Rightarrow> 'v Dictionary" where
  "MakeRobustCookie a d = d\<lparr>d_cookies := d_cookies d @ [a]\<rparr>"

definition StopIteration :: "nat \<Rightarrow> 'v Dictionary \<Rightarrow> 'v Dictionary" where
  "StopIteration a d = d\<lparr>cookie_heap := AList.delete a (cookie_heap d)\<rparr>"

definition set_cookie :: "nat \<Rightarrow> IterCookie \<Rightarrow> 'v Dictionary \<Rightarrow> 'v Dictionary" where
  "set_cookie a c d = d\<lparr>cookie_heap := AList.update a c (cookie_heap d)\<rparr>"

text \<open>The first bucket from \<open>b\<close> that is not empty.\<close>

fun skip_empty :: "nat \<Rightarrow> 'v DictEntry list option list \<Rightarrow> nat" where
  "skip_empty b [] = b"
| "skip_empty b (c # cs) = (if chain_list c = [] then skip_empty (b + 1) cs else b)"

text \<open>One look into a table: the entry at the cookie, or the first of the next bucket, or none.\<close>

definition next_in :: "'v table \<Rightarrow> IterCookie \<Rightarrow> ('v DictEntry \<times> IterCookie) option run" where
  "next_in t c =
     (let b = c_bucket c; o' = c_offset c in
      if b \<ge> num_buckets t then Undef
      else let chain = chain_list (t_buckets t ! b) in
        if length chain > o' then Ret (Some (chain ! o', c\<lparr>c_offset := o' + 1\<rparr>))
        else let b = skip_empty (b + 1) (drop (b + 1) (t_buckets t)) in
          if b \<ge> num_buckets t then Ret None
          else Ret (Some (chain_list (t_buckets t ! b) ! 0, c\<lparr>c_bucket := b, c_offset := 1\<rparr>)))"

definition table_named :: "nat \<Rightarrow> 'v Dictionary \<Rightarrow> 'v table option" where
  "table_named i d =
     (if t_id (tbl d) = i then Some (tbl d)
      else case tbl2 d of None \<Rightarrow> None | Some t \<Rightarrow> if t_id t = i then Some t else None)"

definition end_iteration :: "nat \<Rightarrow> 'v Dictionary \<Rightarrow> 'v Dictionary" where
  "end_iteration a d = d\<lparr>d_cookies := remove1 a (d_cookies d), cookie_heap := AList.delete a (cookie_heap d)\<rparr>"

text \<open>The result is the entry, or none with the cookie freed.\<close>

definition dict_NextEntry :: "nat \<Rightarrow> 'v Dictionary \<Rightarrow> ('v DictEntry option \<times> 'v Dictionary) run" where
  "dict_NextEntry a d =
     (case map_of (cookie_heap d) a of
        None \<Rightarrow> Undef
      | Some c \<Rightarrow>
          if c_inserted c \<noteq> [] then
            run_bind (deref (last (c_inserted c)) d) (\<lambda>e.
              Ret (Some e, set_cookie a (c\<lparr>c_inserted := butlast (c_inserted c)\<rparr>) d))
          else
            let c = (if c_ttbl c = None then c\<lparr>c_ttbl := Some (t_id (tbl d))\<rparr> else c) in
            run_bind (run_of_option (table_named (the (c_ttbl c)) d)) (\<lambda>t.
            run_bind (next_in t c) (\<lambda>r.
              case r of
                Some (e, c) \<Rightarrow> Ret (Some e, set_cookie a c d)
              | None \<Rightarrow>
                  (case (if c_ttbl c = Some (t_id (tbl d)) then tbl2 d else None) of
                     None \<Rightarrow> Ret (None, end_iteration a d)
                   | Some t2 \<Rightarrow>
                       run_bind (next_in t2 (c\<lparr>c_ttbl := Some (t_id t2), c_bucket := 0, c_offset := 0\<rparr>)) (\<lambda>r.
                         case r of
                           Some (e, c) \<Rightarrow> Ret (Some e, set_cookie a c d)
                         | None \<Rightarrow> Ret (None, end_iteration a d))))))"

end
