(* ===== verification/Bro_Dict_Props.thy ===== *)
theory Bro_Dict_Props
  imports Bro_Dict
begin

text \<open>
  Properties of the dictionary of \<^verbatim>\<open>bro-2.1/src/Dict.cc\<close>: the search for a prime ends, every operation keeps
  the tables, counts and order consistent, also while entries move to a larger table, and sequences of operations
  have the results of an association list (the locale \<open>refines\<close>).
\<close>

section \<open>Sizes of tables\<close>

lemma next_prime_loop_reaches:
  "IsPrime p \<Longrightarrow> n + 2 * k = p \<Longrightarrow> \<exists>q. next_prime_loop n = Some q \<and> n \<le> q \<and> q \<le> p \<and> IsPrime q \<and> (even q = even n)"
proof (induction k arbitrary: n)
  case 0
  then show ?case by (simp add: next_prime_loop.simps)
next
  case (Suc k)
  show ?case
  proof (cases "IsPrime n")
    case True
    with Suc.prems show ?thesis by (auto simp: next_prime_loop.simps)
  next
    case False
    from Suc.IH [of "n + 2"] Suc.prems obtain q where "next_prime_loop (n + 2) = Some q" "n + 2 \<le> q" "q \<le> p" "IsPrime q"
      "even q = even n" by auto
    with False show ?thesis by (subst next_prime_loop.simps) auto
  qed
qed

lemma is_prime_1009: "IsPrime 1009"
  by code_simp

lemma NextPrime_Some:
  obtains q where "NextPrime n = Some q" and "n \<le> q" and "q \<le> max 1009 (n + 1)" and "0 < q"
proof -
  define m where "m = (if even n then n + 1 else n)"
  have m: "odd m" "n \<le> m" "m \<le> n + 1" by (auto simp: m_def)
  show ?thesis
  proof (cases "m > PRIME_THRESH")
    case True
    with m show ?thesis by (intro that [of m]) (auto simp: NextPrime_def m_def [symmetric])
  next
    case False
    then have "m \<le> 1009" by (simp add: PRIME_THRESH_def)
    with m(1) have "m + 2 * ((1009 - m) div 2) = 1009" by presburger
    from next_prime_loop_reaches [OF is_prime_1009 this] obtain q where "next_prime_loop m = Some q" "m \<le> q" "q \<le> 1009" by auto
    with m False odd_pos [OF m(1)] show ?thesis by (intro that [of q]) (auto simp: NextPrime_def m_def [symmetric] Let_def)
  qed
qed

section \<open>One table\<close>

lemma mset_concat_update:
  "i < length xs \<Longrightarrow> mset (concat (List.map f (xs[i := x]))) + mset (f (xs ! i)) = mset (concat (List.map f xs)) + mset (f x)"
  by (induction xs arbitrary: i) (auto split: nat.splits simp: ac_simps)

definition table_ok :: "'v table \<Rightarrow> bool" where
  "table_ok t \<longleftrightarrow> 0 < num_buckets t \<and>
     (\<forall>b < num_buckets t. \<forall>e \<in> set (chain_list (t_buckets t ! b)). bucket_of (e_hash e) t = b)"

lemma upd_chain_simps [simp]:
  "num_buckets (upd_chain b c t) = num_buckets t" "bucket_of h (upd_chain b c t) = bucket_of h t"
  "t_num_entries (upd_chain b c t) = t_num_entries t"
  by (simp_all add: upd_chain_def num_buckets_def bucket_of_def)

lemma num_entries_update_simps [simp]:
  "num_buckets (t\<lparr>t_num_entries := n\<rparr>) = num_buckets t" "bucket_of h (t\<lparr>t_num_entries := n\<rparr>) = bucket_of h t"
  "table_entries (t\<lparr>t_num_entries := n\<rparr>) = table_entries t" "table_ok (t\<lparr>t_num_entries := n\<rparr>) = table_ok t"
  by (simp_all add: num_buckets_def bucket_of_def table_entries_def table_ok_def)

lemma count_up_simps [simp]:
  "num_buckets (count_up t) = num_buckets t" "bucket_of h (count_up t) = bucket_of h t"
  "table_entries (count_up t) = table_entries t" "table_ok (count_up t) = table_ok t" "t_num_entries (count_up t) = t_num_entries t + 1"
  by (simp_all add: num_buckets_def bucket_of_def table_entries_def table_ok_def count_up_def Let_def)

lemma table_entries_upd_chain:
  "b < num_buckets t \<Longrightarrow>
     mset (table_entries (upd_chain b c t)) + mset (chain_list (t_buckets t ! b)) = mset (table_entries t) + mset (chain_list c)"
  by (simp add: table_entries_def upd_chain_def num_buckets_def mset_concat_update)

lemma table_ok_upd_chain:
  "table_ok t \<Longrightarrow> b < num_buckets t \<Longrightarrow> \<forall>e \<in> set (chain_list c). bucket_of (e_hash e) t = b \<Longrightarrow> table_ok (upd_chain b c t)"
  by (auto simp: table_ok_def) (auto simp: upd_chain_def nth_list_update num_buckets_def split: if_splits)

lemma set_table_entries:
  "e \<in> set (table_entries t) \<longleftrightarrow> (\<exists>b < num_buckets t. e \<in> set (chain_list (t_buckets t ! b)))"
  by (simp add: table_entries_def num_buckets_def) (metis in_set_conv_nth)

lemma bucket_of_less [intro]: "table_ok t \<Longrightarrow> bucket_of h t < num_buckets t"
  by (simp add: table_ok_def bucket_of_def)

text \<open>In a consistent table an entry is in the chain that its hash selects.\<close>

lemma in_bucket_chain:
  "table_ok t \<Longrightarrow> e \<in> set (table_entries t) \<longleftrightarrow> e \<in> set (chain_list (bucket_chain (e_hash e) t))"
  by (auto simp: set_table_entries bucket_chain_def intro: exI [of _ "bucket_of (e_hash e) t"]) (auto simp: table_ok_def)

definition ident :: "'v DictEntry \<Rightarrow> bytes \<times> u64" where
  "ident e = (e_key e, e_hash e)"

lemma same_key_ident: "same_key key hash e \<longleftrightarrow> ident e = (key, hash)"
  by (auto simp: same_key_def ident_def)

lemma chain_pos_None: "chain_pos key hash es = None \<longleftrightarrow> (\<forall>e \<in> set es. ident e \<noteq> (key, hash))"
  by (induction es) (auto simp: same_key_ident)

lemma chain_pos_Some: "chain_pos key hash es = Some i \<Longrightarrow> i < length es \<and> ident (es ! i) = (key, hash)"
  by (induction es arbitrary: i) (auto simp: same_key_ident split: if_splits)

section \<open>Both tables\<close>

text \<open>
  The entries that are still in the old table have a bucket that was not moved, those in the new table one that was.
\<close>

definition shape :: "'v Dictionary \<Rightarrow> bool" where
  "shape d \<longleftrightarrow> table_ok (tbl d) \<and>
     (\<forall>t2. tbl2 d = Some t2 \<longrightarrow> table_ok t2 \<and>
        (\<forall>e \<in> set (table_entries (tbl d)). tbl_next_ind d \<le> bucket_of (e_hash e) (tbl d)) \<and>
        (\<forall>e \<in> set (table_entries t2). bucket_of (e_hash e) (tbl d) < tbl_next_ind d))"

lemma moved_table_Some: "moved_table h d = Some t \<longleftrightarrow> tbl2 d = Some t \<and> bucket_of h (tbl d) < tbl_next_ind d"
  by (auto simp: moved_table_def)

lemma moved_table_SomeD: "moved_table h d = Some t \<Longrightarrow> tbl2 d = Some t \<and> bucket_of h (tbl d) < tbl_next_ind d"
  by (simp add: moved_table_Some)

lemma moved_table_None: "moved_table h d = None \<longleftrightarrow> tbl2 d = None \<or> tbl_next_ind d \<le> bucket_of h (tbl d)"
  by (auto simp: moved_table_def)

lemma home_ok: "shape d \<Longrightarrow> table_ok (home h d)"
  by (auto simp: shape_def home_def moved_table_Some split: option.splits)

lemma in_home:
  "shape d \<Longrightarrow> e \<in> set (dict_entries d) \<longleftrightarrow> e \<in> set (table_entries (home (e_hash e) d))"
  by (auto simp: shape_def home_def dict_entries_def moved_table_def not_less [symmetric] split: option.splits if_splits)

lemma in_home_chain:
  "shape d \<Longrightarrow> e \<in> set (dict_entries d) \<longleftrightarrow> e \<in> set (chain_list (bucket_chain (e_hash e) (home (e_hash e) d)))"
  by (simp add: in_home in_bucket_chain home_ok)

lemma home_chain_subset: "shape d \<Longrightarrow> e \<in> set (chain_list (bucket_chain h (home h d))) \<Longrightarrow> e \<in> set (dict_entries d)"
  by (auto simp: dict_entries_def home_def bucket_chain_def moved_table_Some set_table_entries shape_def split: option.splits)

lemma set_home_entries:
  "mset (dict_entries (set_home h t d)) + mset (table_entries (home h d)) = mset (dict_entries d) + mset (table_entries t)"
  by (cases "moved_table h d") (auto simp: set_home_def home_def dict_entries_def dest!: moved_table_SomeD)

lemma set_home_shape:
  assumes "shape d" and "table_ok t" and "num_buckets t = num_buckets (home h d)"
    and "\<And>e. e \<in> set (table_entries t) \<Longrightarrow> e_hash e = h \<or> e \<in> set (table_entries (home h d))"
  shows "shape (set_home h t d)"
proof (cases "moved_table h d")
  case None
  with assms have b: "bucket_of x t = bucket_of x (tbl d)" for x by (simp add: bucket_of_def home_def)
  from None assms(4) have "\<And>e. e \<in> set (table_entries t) \<Longrightarrow> e_hash e = h \<or> e \<in> set (table_entries (tbl d))"
    by (simp add: home_def)
  with None assms b show ?thesis by (fastforce simp: shape_def set_home_def moved_table_def split: if_splits)
next
  case (Some t2)
  with assms(4) have "\<And>e. e \<in> set (table_entries t) \<Longrightarrow> e_hash e = h \<or> e \<in> set (table_entries t2)"
    by (simp add: home_def)
  moreover from Some have "tbl2 d = Some t2" "bucket_of h (tbl d) < tbl_next_ind d" "set_home h t d = d\<lparr>tbl2 := Some t\<rparr>"
    by (auto simp: set_home_def dest: moved_table_SomeD)
  ultimately show ?thesis using assms(1,2) by (auto simp: shape_def)
qed

text \<open>The counter of a table is exact but for the entries of a chain on its way to the other table.\<close>

definition excess :: "'v table \<Rightarrow> int" where
  "excess t = t_num_entries t - int (length (table_entries t))"

definition counted :: "int \<Rightarrow> 'v Dictionary \<Rightarrow> bool" where
  "counted k d \<longleftrightarrow> excess (tbl d) = k \<and> (\<forall>t2. tbl2 d = Some t2 \<longrightarrow> excess t2 = 0)"

lemma counted_set_home: "counted k d \<Longrightarrow> excess t = excess (home h d) \<Longrightarrow> counted k (set_home h t d)"
  by (cases "moved_table h d") (auto simp: counted_def set_home_def home_def dest!: moved_table_SomeD)

text \<open>What a change of one chain leaves alone.\<close>

definition live_cookies :: "'v Dictionary \<Rightarrow> bool" where
  "live_cookies d \<longleftrightarrow> distinct (d_cookies d) \<and> set (d_cookies d) \<subseteq> fst ` set (cookie_heap d)"

definition dict_frame :: "'v Dictionary \<Rightarrow> 'v Dictionary \<Rightarrow> bool" where
  "dict_frame d d' \<longleftrightarrow> d_cookies d' = d_cookies d \<and> tbl_next_ind d' = tbl_next_ind d \<and>
     num_buckets (tbl d') = num_buckets (tbl d) \<and> (tbl2 d' = None \<longleftrightarrow> tbl2 d = None) \<and> d_next_addr d' = d_next_addr d \<and>
     fst ` set (cookie_heap d') = fst ` set (cookie_heap d)"

lemma dict_frame_live: "dict_frame d d' \<Longrightarrow> live_cookies d' \<longleftrightarrow> live_cookies d"
  by (simp add: dict_frame_def live_cookies_def)

lemma dict_frame_trans: "dict_frame d d' \<Longrightarrow> dict_frame d' d'' \<Longrightarrow> dict_frame d d''"
  by (simp add: dict_frame_def)

lemma dict_frame_bucket: "dict_frame d d' \<Longrightarrow> bucket_of h (tbl d') = bucket_of h (tbl d)"
  by (simp add: dict_frame_def bucket_of_def)

lemma set_home_frame: "num_buckets t = num_buckets (home h d) \<Longrightarrow> dict_frame d (set_home h t d)"
  by (cases "moved_table h d") (auto simp: dict_frame_def set_home_def home_def dest!: moved_table_SomeD)

lemma set_home_order [simp]: "d_order (set_home h t d) = d_order d" "loose (set_home h t d) = loose d"
  by (simp_all add: set_home_def split: option.splits)

lemma add_swap: "a + t = d + t' \<Longrightarrow> t' + c = t + n \<Longrightarrow> a + c = d + (n :: 'a :: cancel_comm_monoid_add)"
proof -
  assume "a + t = d + t'" and "t' + c = t + n"
  then have "(a + t) + (t' + c) = (d + t') + (t + n)" by simp
  then have "(a + c) + (t + t') = (d + n) + (t + t')" by (simp only: ac_simps)
  then show ?thesis by (rule add_right_imp_eq)
qed

text \<open>Replacing the chain that a hash selects, in the table that has it.\<close>

lemma replace_chain:
  assumes "shape d" and t: "t = home h d" and b: "b = bucket_of h t" and chain: "chain = chain_list (t_buckets t ! b)"
    and c: "\<And>e. e \<in> set c \<Longrightarrow> e_hash e = h \<or> e \<in> set chain"
    and t': "table_entries t' = table_entries (upd_chain b (Some c) t)" "table_ok t' = table_ok (upd_chain b (Some c) t)"
      "num_buckets t' = num_buckets t"
      "t_num_entries t' = t_num_entries t + int (length c) - int (length chain)"
  shows "shape (set_home h t' d) \<and> dict_frame d (set_home h t' d) \<and> (counted k d \<longrightarrow> counted k (set_home h t' d)) \<and>
    mset (dict_entries (set_home h t' d)) + mset chain = mset (dict_entries d) + mset c"
proof -
  from assms have ok: "table_ok t" by (simp add: home_ok)
  with b have less: "b < num_buckets t" by auto
  have "bucket_of (e_hash e) t = b" if "e \<in> set c" for e
    using c [OF that] ok less b chain by (auto simp: table_ok_def)
  with ok less have ok': "table_ok t'"
    unfolding t' by (intro table_ok_upd_chain) (simp_all add: chain_list_def)
  have m: "mset (table_entries t') + mset chain = mset (table_entries t) + mset c"
    using table_entries_upd_chain [OF less, of "Some c"] chain t' by (simp add: chain_list_def)
  have sub: "e_hash e = h \<or> e \<in> set (table_entries t)" if "e \<in> set (table_entries t')" for e
  proof -
    from that have "e \<in># mset (table_entries t') + mset chain" by simp
    with m have "e \<in> set (table_entries t) \<or> e \<in> set c" by simp
    with c chain less show ?thesis by (auto simp: set_table_entries)
  qed
  have "shape (set_home h t' d)"
    using assms(1) ok' t'(3) sub by (intro set_home_shape) (auto simp: t)
  moreover have "dict_frame d (set_home h t' d)" by (rule set_home_frame) (simp add: t' t)
  moreover have "counted k d \<longrightarrow> counted k (set_home h t' d)"
  proof
    assume k: "counted k d"
    from arg_cong [OF m, of "\<lambda>x. int (size x)"] have "excess t' = excess (home h d)" by (simp add: excess_def t' t [symmetric])
    with k show "counted k (set_home h t' d)" by (rule counted_set_home)
  qed
  moreover have "mset (dict_entries (set_home h t' d)) + mset chain = mset (dict_entries d) + mset c"
    using add_swap [OF set_home_entries m [unfolded t]] .
  ultimately show ?thesis by blast
qed

lemma tell_cookies_Ret:
  "set as \<subseteq> fst ` set heap \<Longrightarrow> \<exists>heap'. tell_cookies f as heap = Ret heap' \<and> fst ` set heap' = fst ` set heap"
proof (induction f as heap rule: tell_cookies.induct)
  case (2 f a as heap)
  from 2(2) have "map_of heap a \<noteq> None" by (simp add: map_of_eq_None_iff)
  then obtain c where c: "map_of heap a = Some c" by blast
  have "fst ` set (AList.update a (f c) heap) = fst ` set heap"
    using 2(2) by (simp add: dom_update insert_absorb)
  with 2 c show ?case by auto
qed simp

section \<open>Insertion of an entry and the move to a larger table\<close>

lemma cookie_heap_update_simps [simp]:
  "shape (d\<lparr>cookie_heap := x\<rparr>) = shape d" "counted k (d\<lparr>cookie_heap := x\<rparr>) = counted k d"
  "dict_entries (d\<lparr>cookie_heap := x\<rparr>) = dict_entries d"
  "shape (d\<lparr>loose := l\<rparr>) = shape d" "counted k (d\<lparr>loose := l\<rparr>) = counted k d" "dict_entries (d\<lparr>loose := l\<rparr>) = dict_entries d"
  "shape (d\<lparr>d_order := os\<rparr>) = shape d" "counted k (d\<lparr>d_order := os\<rparr>) = counted k d" "dict_entries (d\<lparr>d_order := os\<rparr>) = dict_entries d"
  "shape (d\<lparr>d_next_addr := n\<rparr>) = shape d" "counted k (d\<lparr>d_next_addr := n\<rparr>) = counted k d"
  "dict_entries (d\<lparr>d_next_addr := n\<rparr>) = dict_entries d"
  by (simp_all add: shape_def counted_def dict_entries_def)

lemma home_update [simp]:
  "home h (d\<lparr>loose := l\<rparr>) = home h d" "home h (d\<lparr>d_next_addr := n\<rparr>) = home h d" "home h (d\<lparr>d_order := os\<rparr>) = home h d"
  by (simp_all add: home_def cong: option.case_cong)

lemma dict_frame_update [simp]:
  "fst ` set x = fst ` set (cookie_heap d) \<Longrightarrow> dict_frame d0 (d\<lparr>cookie_heap := x\<rparr>) = dict_frame d0 d"
  "dict_frame d0 (d\<lparr>loose := l\<rparr>) = dict_frame d0 d" "dict_frame (d0\<lparr>loose := l\<rparr>) d = dict_frame d0 d"
  "dict_frame d0 (d\<lparr>d_order := os\<rparr>) = dict_frame d0 d"
  by (simp_all add: dict_frame_def)

text \<open>An entry whose key is not there yet becomes the last one of its chain.\<close>

lemma insert_entry_new:
  assumes "shape d" and "live_cookies d" and new: "\<forall>x \<in> set (dict_entries d). ident x \<noteq> ident e"
  shows "\<exists>d'. insert_entry e d = Ret (None, d') \<and> shape d' \<and> dict_frame d d' \<and> (\<forall>k. counted k d \<longrightarrow> counted k d') \<and>
    d_order d' = d_order d \<and> loose d' = loose d \<and> mset (dict_entries d') = add_mset e (mset (dict_entries d))"
proof -
  define h where "h = e_hash e"
  define t where "t = home h d"
  define b where "b = bucket_of h t"
  define chain where "chain = chain_list (t_buckets t ! b)"
  define t' where "t' = count_up (upd_chain b (Some (chain @ [e])) t)"
  define d1 where "d1 = set_home h t' d"
  have chain: "set chain \<subseteq> set (dict_entries d)"
    using home_chain_subset [OF assms(1), of _ h] by (auto simp: chain_def b_def t_def bucket_chain_def)
  with new have "chain_pos (e_key e) h chain = None" by (auto simp: chain_pos_None ident_def h_def)
  then have ins: "insert_entry e d = run_bind (tell_cookies (\<lambda>c. if b < c_bucket c then c\<lparr>c_inserted := c_inserted c @ [e_addr e]\<rparr> else c)
      (d_cookies d1) (cookie_heap d1)) (\<lambda>heap. Ret (None, d1\<lparr>cookie_heap := heap\<rparr>))"
    by (simp add: insert_entry_def Let_def h_def [symmetric] t_def [symmetric] b_def [symmetric] chain_def [symmetric]
        t'_def [symmetric] d1_def [symmetric])
  have *: "shape d1 \<and> dict_frame d d1 \<and> (counted k d \<longrightarrow> counted k d1) \<and>
      mset (dict_entries d1) + mset chain = mset (dict_entries d) + mset (chain @ [e])" for k
    unfolding d1_def by (rule replace_chain [OF assms(1) t_def b_def chain_def]) (auto simp: t'_def h_def)
  then have "set (d_cookies d1) \<subseteq> fst ` set (cookie_heap d1)"
    using assms(2) by (simp add: dict_frame_live [symmetric] live_cookies_def dict_frame_def)
  from tell_cookies_Ret [OF this, of "\<lambda>c. if b < c_bucket c then c\<lparr>c_inserted := c_inserted c @ [e_addr e]\<rparr> else c"]
  obtain heap where "insert_entry e d = Ret (None, d1\<lparr>cookie_heap := heap\<rparr>)" "fst ` set heap = fst ` set (cookie_heap d1)"
    unfolding ins by auto
  moreover have "d_order d1 = d_order d" "loose d1 = loose d" by (simp_all add: d1_def)
  ultimately show ?thesis using * by auto
qed

text \<open>An entry with the same key keeps its place and gets the new value.\<close>

lemma insert_entry_old:
  assumes "shape d" and x: "x \<in> set (dict_entries d)" "ident x = ident e"
    and inj: "distinct (List.map ident (dict_entries d))"
  shows "\<exists>d'. insert_entry e d = Ret (e_value x, d') \<and> shape d' \<and> dict_frame d d' \<and> (\<forall>k. counted k d \<longrightarrow> counted k d') \<and>
    d_order d' = d_order d \<and> loose d' = e # loose d \<and>
    add_mset x (mset (dict_entries d')) = add_mset (x\<lparr>e_value := e_value e\<rparr>) (mset (dict_entries d))"
proof -
  define h where "h = e_hash e"
  define t where "t = home h d"
  define b where "b = bucket_of h t"
  define chain where "chain = chain_list (t_buckets t ! b)"
  from x have hx: "e_hash x = h" by (simp add: ident_def h_def)
  have chain: "set chain \<subseteq> set (dict_entries d)"
    using home_chain_subset [OF assms(1), of _ h] by (auto simp: chain_def b_def t_def bucket_chain_def)
  have "x \<in> set chain"
    using in_home_chain [OF assms(1), of x] x(1) hx by (simp add: chain_def b_def t_def bucket_chain_def)
  then have "chain_pos (e_key e) h chain \<noteq> None" using x(2) by (auto simp: chain_pos_None ident_def h_def)
  then obtain i where i: "chain_pos (e_key e) h chain = Some i" by blast
  with chain_pos_Some [OF i] have len: "i < length chain" and "ident (chain ! i) = ident x" using x(2) by (auto simp: ident_def h_def)
  with inj x(1) chain have xi: "chain ! i = x" by (metis distinct_map inj_onD nth_mem subsetD)
  define c where "c = chain[i := x\<lparr>e_value := e_value e\<rparr>]"
  define d1 where "d1 = set_home h (upd_chain b (Some c) t) d"
  from i have "insert_entry e d = Ret (e_value x, set_home h (upd_chain b (Some c) t) (d\<lparr>loose := e # loose d\<rparr>))"
    by (simp add: insert_entry_def Let_def h_def [symmetric] t_def [symmetric] b_def [symmetric] chain_def [symmetric] xi c_def)
  also have "set_home h (upd_chain b (Some c) t) (d\<lparr>loose := e # loose d\<rparr>) = d1\<lparr>loose := e # loose d\<rparr>"
    by (cases "moved_table h d") (simp_all add: set_home_def d1_def)
  finally have ins: "insert_entry e d = Ret (e_value x, d1\<lparr>loose := e # loose d\<rparr>)" .
  have *: "shape d1 \<and> dict_frame d d1 \<and> (counted k d \<longrightarrow> counted k d1) \<and>
      mset (dict_entries d1) + mset chain = mset (dict_entries d) + mset c" for k
    unfolding d1_def
    by (rule replace_chain [OF assms(1) t_def b_def chain_def])
       (auto simp: c_def hx dest: set_update_subset_insert [THEN subsetD])
  define rest where "rest = mset chain - {#x#}"
  from len xi have c: "mset c = add_mset (x\<lparr>e_value := e_value e\<rparr>) rest" by (simp add: c_def mset_update rest_def)
  have chain': "mset chain = add_mset x rest" using \<open>x \<in> set chain\<close> by (simp add: rest_def)
  from * have "mset (dict_entries d1) + mset chain = mset (dict_entries d) + mset c" by blast
  then have "add_mset x (mset (dict_entries d1)) = add_mset (x\<lparr>e_value := e_value e\<rparr>) (mset (dict_entries d))"
    unfolding c chain' union_mset_add_mset_right by (metis add_right_imp_eq union_mset_add_mset_left)
  with * ins show ?thesis by (auto simp: d1_def)
qed

text \<open>What the change of size leaves alone; entries only change places.\<close>

definition size_kept :: "'v Dictionary \<Rightarrow> 'v Dictionary \<Rightarrow> bool" where
  "size_kept d d' \<longleftrightarrow> d_cookies d' = d_cookies d \<and> fst ` set (cookie_heap d') = fst ` set (cookie_heap d) \<and>
     d_next_addr d \<le> d_next_addr d' \<and> d_order d' = d_order d \<and> loose d' = loose d"

lemma size_kept_trans: "size_kept d d' \<Longrightarrow> size_kept d' d'' \<Longrightarrow> size_kept d d''"
  by (simp add: size_kept_def)

lemma size_kept_live: "size_kept d d' \<Longrightarrow> live_cookies d' \<longleftrightarrow> live_cookies d"
  by (simp add: size_kept_def live_cookies_def)

lemma counter_update [simp]:
  "shape (d\<lparr>tbl := (tbl d)\<lparr>t_num_entries := n\<rparr>\<rparr>) = shape d"
  "dict_entries (d\<lparr>tbl := (tbl d)\<lparr>t_num_entries := n\<rparr>\<rparr>) = dict_entries d"
  by (simp_all add: shape_def dict_entries_def)

lemma counted_counter:
  "counted k d \<Longrightarrow> counted (k - 1) (d\<lparr>tbl := (tbl d)\<lparr>t_num_entries := t_num_entries (tbl d) - 1\<rparr>\<rparr>)"
  by (simp add: counted_def excess_def)

lemma move_chain_ok:
  assumes "shape d" "live_cookies d" "tbl2 d \<noteq> None" "counted k d" "distinct (List.map ident (dict_entries d @ es))"
  shows "\<exists>d'. move_chain es num d = Ret (num - int (length es), d') \<and> shape d' \<and> size_kept d d' \<and> tbl2 d' \<noteq> None \<and>
    counted (k - int (length es)) d' \<and> mset (dict_entries d') = mset (dict_entries d) + mset es"
  using assms
proof (induction es arbitrary: num d k)
  case (Cons e es)
  from Cons.prems(5) have "\<forall>x \<in> set (dict_entries d). ident x \<noteq> ident e" by (auto simp: image_iff)
  from insert_entry_new [OF Cons.prems(1,2) this] obtain d1 where d1: "insert_entry e d = Ret (None, d1)" "shape d1"
    "dict_frame d d1" "\<forall>k. counted k d \<longrightarrow> counted k d1" "d_order d1 = d_order d" "loose d1 = loose d"
    and m1: "mset (dict_entries d1) = add_mset e (mset (dict_entries d))" by blast
  define d2 where "d2 = d1\<lparr>tbl := (tbl d1)\<lparr>t_num_entries := t_num_entries (tbl d1) - 1\<rparr>\<rparr>"
  have k2: "size_kept d d2" using d1 by (simp add: size_kept_def d2_def dict_frame_def)
  from m1 have "mset (List.map ident (dict_entries d2 @ es)) = mset (List.map ident (dict_entries d @ e # es))"
    by (simp add: d2_def)
  from mset_eq_imp_distinct_iff [OF this] Cons.prems(5) have dist: "distinct (List.map ident (dict_entries d2 @ es))" by blast
  have "shape d2" using d1(2) by (simp add: d2_def)
  moreover have "live_cookies d2" using k2 Cons.prems(2) by (simp add: size_kept_live)
  moreover have "tbl2 d2 \<noteq> None" using d1(3) Cons.prems(3) by (simp add: d2_def dict_frame_def)
  moreover have "counted (k - 1) d2" unfolding d2_def by (rule counted_counter) (use d1(4) Cons.prems(4) in blast)
  ultimately obtain d' where d': "move_chain es (num - 1) d2 = Ret (num - 1 - int (length es), d')" "shape d'" "size_kept d2 d'"
    "tbl2 d' \<noteq> None" "counted (k - 1 - int (length es)) d'" "mset (dict_entries d') = mset (dict_entries d2) + mset es"
    using Cons.IH [of d2 "k - 1" "num - 1"] dist by blast
  have "move_chain (e # es) num d = move_chain es (num - 1) d2" by (simp add: d1(1) d2_def)
  also note d'(1)
  also have "num - 1 - int (length es) = num - int (length (e # es))" by simp
  finally have "move_chain (e # es) num d = Ret (num - int (length (e # es)), d')" .
  moreover have "counted (k - int (length (e # es))) d'" using d'(5) by (simp add: algebra_simps)
  moreover have "mset (dict_entries d') = mset (dict_entries d) + mset (e # es)" using d'(6) m1 by (simp add: d2_def)
  ultimately show ?case using d'(2,4) size_kept_trans [OF k2 d'(3)] by blast
qed (auto simp: size_kept_def)

text \<open>Taking the next chain out of the old table.\<close>

lemma take_chain:
  assumes "shape d" and tbl2: "tbl2 d \<noteq> None" and less: "tbl_next_ind d < num_buckets (tbl d)" and k: "counted k d"
    and d1: "d1 = d\<lparr>tbl_next_ind := tbl_next_ind d + 1, tbl := upd_chain (tbl_next_ind d) None (tbl d)\<rparr>"
    and chain: "chain = chain_list (t_buckets (tbl d) ! tbl_next_ind d)"
  shows "shape d1 \<and> counted (k + int (length chain)) d1 \<and> mset (dict_entries d1) + mset chain = mset (dict_entries d)"
proof -
  define t' where "t' = upd_chain (tbl_next_ind d) None (tbl d)"
  from assms(1) tbl2 obtain t2 where t2: "tbl2 d = Some t2" "table_ok t2" "table_ok (tbl d)"
    "\<forall>e \<in> set (table_entries (tbl d)). tbl_next_ind d \<le> bucket_of (e_hash e) (tbl d)"
    "\<forall>e \<in> set (table_entries t2). bucket_of (e_hash e) (tbl d) < tbl_next_ind d" by (auto simp: shape_def)
  have ok': "table_ok t'" using t2(3) less by (simp add: t'_def table_ok_upd_chain chain_list_def)
  have m: "mset (table_entries t') + mset chain = mset (table_entries (tbl d))"
    using table_entries_upd_chain [OF less, of None] by (simp add: t'_def chain chain_list_def)
  have empty: "chain_list (t_buckets t' ! tbl_next_ind d) = []"
    using less by (simp add: t'_def upd_chain_def num_buckets_def chain_list_def)
  have "tbl_next_ind d < bucket_of (e_hash e) (tbl d)" if e: "e \<in> set (table_entries t')" for e
  proof -
    from e have "e \<in># mset (table_entries t') + mset chain" by simp
    with m t2(4) have "tbl_next_ind d \<le> bucket_of (e_hash e) (tbl d)" by simp
    moreover from e obtain b where "b < num_buckets t'" "e \<in> set (chain_list (t_buckets t' ! b))" by (auto simp: set_table_entries)
    with empty ok' have "bucket_of (e_hash e) (tbl d) \<noteq> tbl_next_ind d" by (auto simp: table_ok_def t'_def)
    ultimately show ?thesis by simp
  qed
  moreover have "bucket_of (e_hash e) (tbl d) < Suc (tbl_next_ind d)" if "e \<in> set (table_entries t2)" for e
    using t2(5) that by (simp add: less_Suc_eq)
  ultimately have "shape d1" using ok' t2(1,2) by (auto simp: shape_def d1 t'_def Suc_le_eq)
  moreover have "counted (k + int (length chain)) d1"
    using k arg_cong [OF m, of "\<lambda>x. int (size x)"] by (simp add: counted_def excess_def d1 t'_def)
  moreover have "mset (dict_entries d1) + mset chain = mset (dict_entries d)"
    using t2(1) m by (simp add: dict_entries_def d1 t'_def ac_simps)
  ultimately show ?thesis by blast
qed

lemma move_bucket_eq:
  assumes "tbl_next_ind d < num_buckets (tbl d)"
    and "d1 = d\<lparr>tbl_next_ind := tbl_next_ind d + 1, tbl := upd_chain (tbl_next_ind d) None (tbl d)\<rparr>"
  shows "move_bucket num d = move_chain (chain_list (t_buckets (tbl d) ! tbl_next_ind d)) num d1"
proof (cases "t_buckets (tbl d) ! tbl_next_ind d")
  case None
  with assms have "upd_chain (tbl_next_ind d) None (tbl d) = tbl d"
    by (simp add: upd_chain_def list_update_same_conv num_buckets_def)
  with None assms show ?thesis by (simp add: move_bucket_def Let_def chain_list_def)
qed (use assms in \<open>simp add: move_bucket_def Let_def chain_list_def\<close>)

text \<open>The state between two rounds of the loop.\<close>

definition moving :: "'v Dictionary \<Rightarrow> bool" where
  "moving d \<longleftrightarrow> shape d \<and> live_cookies d \<and> tbl2 d \<noteq> None \<and> counted 0 d \<and> distinct (List.map ident (dict_entries d))"

lemma move_bucket_ok:
  assumes "moving d" "tbl_next_ind d < num_buckets (tbl d)"
  shows "\<exists>num' d'. move_bucket num d = Ret (num', d') \<and> moving d' \<and> size_kept d d' \<and> mset (dict_entries d') = mset (dict_entries d)"
proof -
  define chain where "chain = chain_list (t_buckets (tbl d) ! tbl_next_ind d)"
  define d1 where "d1 = d\<lparr>tbl_next_ind := tbl_next_ind d + 1, tbl := upd_chain (tbl_next_ind d) None (tbl d)\<rparr>"
  from assms(1) have d: "shape d" "live_cookies d" "tbl2 d \<noteq> None" "counted 0 d" "distinct (List.map ident (dict_entries d))"
    by (simp_all add: moving_def)
  from take_chain [OF d(1,3) assms(2) d(4) d1_def chain_def]
  have d1: "shape d1" "counted (int (length chain)) d1" and m: "mset (dict_entries d1) + mset chain = mset (dict_entries d)"
    by simp_all
  have k1: "size_kept d d1" by (simp add: size_kept_def d1_def)
  from m have "mset (List.map ident (dict_entries d1 @ chain)) = mset (List.map ident (dict_entries d))"
    by (metis mset_append mset_map)
  from mset_eq_imp_distinct_iff [OF this] d(5) have dist: "distinct (List.map ident (dict_entries d1 @ chain))" by blast
  have "live_cookies d1" "tbl2 d1 \<noteq> None" using d k1 by (simp_all add: size_kept_live d1_def)
  from move_chain_ok [OF d1(1) this d1(2) dist, of num] obtain d' where d': "move_chain chain num d1 = Ret (num - int (length chain), d')"
    "shape d'" "size_kept d1 d'" "tbl2 d' \<noteq> None" "counted 0 d'" "mset (dict_entries d') = mset (dict_entries d)"
    using m by auto
  have "moving d'"
    using d' k1 d size_kept_live [OF size_kept_trans [OF k1 d'(3)]] mset_eq_imp_distinct_iff [of "List.map ident (dict_entries d')" "List.map ident (dict_entries d)"]
    by (simp add: moving_def)
  with d' size_kept_trans [OF k1 d'(3)] move_bucket_eq [OF assms(2) d1_def, of num] show ?thesis
    by (auto simp: chain_def)
qed

lemma move_loop_ok:
  "moving d \<Longrightarrow> tbl_next_ind d < num_buckets (tbl d) \<Longrightarrow>
     \<exists>d'. move_loop num d = Ret d' \<and> moving d' \<and> size_kept d d' \<and> mset (dict_entries d') = mset (dict_entries d)"
proof (induction num d rule: move_loop.induct)
  case (1 num d)
  from move_bucket_ok [OF 1(2,3)] obtain num1 d1 where b: "move_bucket num d = Ret (num1, d1)" and d1: "moving d1" "size_kept d d1"
    and m: "mset (dict_entries d1) = mset (dict_entries d)" by blast
  show ?case
  proof (cases "num1 > 0 \<and> tbl_next_ind d1 < num_buckets (tbl d1)")
    case True
    from 1(1) [OF b refl True d1(1)] True obtain d' where "move_loop num1 d1 = Ret d'" "moving d'" "size_kept d1 d'"
      "mset (dict_entries d') = mset (dict_entries d1)" by blast
    with b True d1(2) m show ?thesis by (subst move_loop.simps) (auto dest: size_kept_trans)
  next
    case False
    with b d1 m show ?thesis by (subst move_loop.simps) auto
  qed
qed

text \<open>Sizes, counters and cookies of a dictionary between two calls.\<close>

definition settled :: "'v Dictionary \<Rightarrow> bool" where
  "settled d \<longleftrightarrow> shape d \<and> counted 0 d \<and> live_cookies d \<and> (tbl2 d \<noteq> None \<longrightarrow> tbl_next_ind d < num_buckets (tbl d))"

lemma moving_settled: "settled d \<Longrightarrow> distinct (List.map ident (dict_entries d)) \<Longrightarrow> tbl2 d \<noteq> None \<Longrightarrow> moving d"
  by (simp add: settled_def moving_def)

text \<open>When all buckets were moved the old table is empty, as the safety check of the code wants.\<close>

lemma finish_ok:
  assumes "moving d" "num_buckets (tbl d) \<le> tbl_next_ind d"
  shows "\<exists>d'. FinishChangeSize d = Ret d' \<and> settled d' \<and> size_kept d d' \<and> mset (dict_entries d') = mset (dict_entries d)"
proof -
  from assms(1) obtain t2 where t2: "tbl2 d = Some t2" "table_ok (tbl d)" "table_ok t2"
    "\<forall>e \<in> set (table_entries (tbl d)). tbl_next_ind d \<le> bucket_of (e_hash e) (tbl d)" by (auto simp: moving_def shape_def)
  have "table_entries (tbl d) = []"
  proof (rule ccontr)
    assume "table_entries (tbl d) \<noteq> []"
    then obtain e where "e \<in> set (table_entries (tbl d))" by (cases "table_entries (tbl d)") auto
    with t2(2,4) assms(2) bucket_of_less [of "tbl d" "e_hash e"] show False by fastforce
  qed
  with assms t2 show ?thesis
    by (auto simp: FinishChangeSize_def moving_def counted_def excess_def settled_def shape_def live_cookies_def size_kept_def dict_entries_def)
qed

lemma MoveChains_ok:
  assumes "settled d" "distinct (List.map ident (dict_entries d))" "tbl2 d \<noteq> None"
  shows "\<exists>d'. MoveChains d = Ret d' \<and> settled d' \<and> size_kept d d' \<and> mset (dict_entries d') = mset (dict_entries d)"
proof (cases "d_cookies d = []")
  case True
  from moving_settled [OF assms] move_loop_ok [of d 8] assms(1,3) obtain d1 where d1: "move_loop 8 d = Ret d1" "moving d1" "size_kept d d1"
    "mset (dict_entries d1) = mset (dict_entries d)" by (auto simp: settled_def)
  show ?thesis
  proof (cases "num_buckets (tbl d1) \<le> tbl_next_ind d1")
    case le: True
    from finish_ok [OF d1(2) le] d1 True le show ?thesis by (auto simp: MoveChains_def dest: size_kept_trans)
  next
    case False
    with d1 True show ?thesis by (auto simp: MoveChains_def moving_def settled_def)
  qed
next
  case False
  with assms show ?thesis by (auto simp: MoveChains_def size_kept_def)
qed

lemma new_table_Some: "\<exists>t. new_table i n = Some t \<and> table_ok t \<and> excess t = 0 \<and> table_entries t = []"
proof -
  obtain q where "NextPrime n = Some q" "0 < q" by (rule NextPrime_Some [of n])
  then show ?thesis
    by (simp add: new_table_def table_ok_def excess_def num_buckets_def table_entries_def chain_list_def)
qed

lemma StartChangeSize_ok:
  fixes d :: "'v Dictionary"
  assumes "settled d" "tbl2 d = None"
  shows "\<exists>d'. StartChangeSize n d = Some (Ret d') \<and> settled d' \<and> size_kept d d' \<and> mset (dict_entries d') = mset (dict_entries d)"
proof (cases "d_cookies d = []")
  case True
  obtain t :: "'v table" where t: "new_table (d_next_addr d) n = Some t" "table_ok t" "excess t = 0" "table_entries t = []"
    using new_table_Some by blast
  define d' where "d' = d\<lparr>tbl2 := Some t, tbl_next_ind := 0, d_next_addr := d_next_addr d + 1\<rparr>"
  have "StartChangeSize n d = Some (Ret d')" using True assms(2) t(1) by (simp add: StartChangeSize_def d'_def)
  moreover have "0 < num_buckets (tbl d)" using assms(1) by (simp add: settled_def shape_def table_ok_def)
  then have "settled d'" using assms t by (simp add: settled_def shape_def counted_def live_cookies_def d'_def)
  moreover have "size_kept d d'" by (simp add: size_kept_def d'_def)
  moreover have "mset (dict_entries d') = mset (dict_entries d)" using assms(2) t(4) by (simp add: dict_entries_def d'_def)
  ultimately show ?thesis by blast
next
  case False
  with assms show ?thesis by (auto simp: StartChangeSize_def size_kept_def)
qed

section \<open>The dictionary as a list of entries\<close>

text \<open>
  The entries in the order of insertion.  Their order in the tables depends on hashes and sizes; an ordered
  dictionary has their addresses in this order.
\<close>

definition dict_rep :: "'v Dictionary \<Rightarrow> 'v DictEntry list \<Rightarrow> bool" where
  "dict_rep d es \<longleftrightarrow> settled d \<and> mset (dict_entries d) = mset es \<and> distinct (List.map ident es) \<and> distinct (List.map e_addr es) \<and>
     (\<forall>e \<in> set es. e_addr e < d_next_addr d \<and> e_value e \<noteq> None) \<and> (\<forall>os. d_order d = Some os \<longrightarrow> os = List.map e_addr es)"

lemma dict_rep_kept:
  assumes "dict_rep d es" "settled d'" "size_kept d d'" "mset (dict_entries d') = mset (dict_entries d)"
  shows "dict_rep d' es"
  using assms by (auto simp: dict_rep_def size_kept_def)

lemma dict_rep_distinct: "dict_rep d es \<Longrightarrow> distinct (List.map ident (dict_entries d))"
  using mset_eq_imp_distinct_iff [of "List.map ident (dict_entries d)" "List.map ident es"] by (simp add: dict_rep_def)

lemma dict_rep_set: "dict_rep d es \<Longrightarrow> set (dict_entries d) = set es"
  by (auto simp: dict_rep_def dest: mset_eq_setD)

lemma resize_logic_ok:
  assumes "dict_rep d es"
  shows "\<exists>d'. resize_logic d = Some (Ret d') \<and> dict_rep d' es \<and> size_kept d d'"
proof -
  have s: "settled d" using assms by (simp add: dict_rep_def)
  consider "tbl2 d \<noteq> None" | "tbl2 d = None" "t_num_entries (tbl d) \<ge> t_thresh (tbl d)"
    | "tbl2 d = None" "\<not> t_num_entries (tbl d) \<ge> t_thresh (tbl d)" by blast
  then show ?thesis
  proof cases
    case 1
    with MoveChains_ok [OF s dict_rep_distinct [OF assms] 1] dict_rep_kept [OF assms] show ?thesis
      by (auto simp: resize_logic_def)
  next
    case 2
    with StartChangeSize_ok [OF s 2(1)] dict_rep_kept [OF assms] show ?thesis by (fastforce simp: resize_logic_def)
  next
    case 3
    with assms show ?thesis by (simp add: resize_logic_def size_kept_def)
  qed
qed

lemma dict_Insert_after:
  assumes "insert_entry \<lparr>e_addr = d_next_addr d, e_key = key, e_hash = hash, e_value = val\<rparr>
      (d\<lparr>d_next_addr := d_next_addr d + 1\<rparr>) = Ret (old, d1)"
    and "d2 = (if old \<noteq> None then d1\<lparr>loose := tl (loose d1)\<rparr> else d1\<lparr>d_order := map_option (\<lambda>os. os @ [d_next_addr d]) (d_order d1)\<rparr>)"
    and "resize_logic d2 = Some (Ret d')"
  shows "dict_Insert key hash val d = Some (Ret (old, d'))"
  unfolding dict_Insert_def Let_def assms(1) run.case prod.case DictEntry.select_convs assms(2) [symmetric] assms(3) by simp

definition upsert :: "'v DictEntry \<Rightarrow> 'v DictEntry list \<Rightarrow> 'v DictEntry list" where
  "upsert e es =
     (if ident e \<in> ident ` set es then List.map (\<lambda>x. if ident x = ident e then x\<lparr>e_value := e_value e\<rparr> else x) es else es @ [e])"

definition value_in :: "bytes \<times> u64 \<Rightarrow> 'v DictEntry list \<Rightarrow> 'v option" where
  "value_in k es = (case find (\<lambda>x. ident x = k) es of None \<Rightarrow> None | Some x \<Rightarrow> e_value x)"

lemma dict_frame_settled:
  "settled d \<Longrightarrow> shape d' \<Longrightarrow> counted 0 d' \<Longrightarrow> dict_frame d d' \<Longrightarrow> settled d'"
  by (auto simp: settled_def dict_frame_live) (auto simp: dict_frame_def)

lemma ident_update [simp]: "ident (x\<lparr>e_value := v\<rparr>) = ident x"
  by (simp add: ident_def)

lemma find_ident:
  "distinct (List.map f es) \<Longrightarrow> x \<in> set es \<Longrightarrow> find (\<lambda>y. f y = f x) es = Some x"
  by (induction es) (auto simp: image_iff)

lemma map_unchanged: "k \<notin> f ` set xs \<Longrightarrow> List.map (\<lambda>x. if f x = k then g x else x) xs = xs"
  by (induction xs) auto

lemma mset_upsert_old:
  assumes "distinct (List.map ident es)" "x \<in> set es" "ident x = ident e"
  shows "add_mset x (mset (upsert e es)) = add_mset (x\<lparr>e_value := e_value e\<rparr>) (mset es)"
proof -
  obtain us ws where es: "es = us @ x # ws" using assms(2) by (auto simp: in_set_conv_decomp)
  with assms have "ident e \<notin> ident ` set us" "ident e \<notin> ident ` set ws" by auto
  with assms es show ?thesis by (simp add: upsert_def map_unchanged)
qed

lemma upsert_new: "ident e \<notin> ident ` set es \<Longrightarrow> upsert e es = es @ [e]"
  by (simp add: upsert_def)

lemma upsert_old_simps:
  "ident e \<in> ident ` set es \<Longrightarrow> List.map ident (upsert e es) = List.map ident es"
  "ident e \<in> ident ` set es \<Longrightarrow> List.map e_addr (upsert e es) = List.map e_addr es"
  by (auto simp: upsert_def)

lemma dict_rep_insert_new:
  assumes rep: "dict_rep d es" and new: "ident e \<notin> ident ` set es" and e: "e_addr e = d_next_addr d" "e_value e \<noteq> None"
  shows "\<exists>d1. insert_entry e (d\<lparr>d_next_addr := d_next_addr d + 1\<rparr>) = Ret (None, d1) \<and> d_cookies d1 = d_cookies d \<and>
    d_order d1 = d_order d \<and> dict_rep (d1\<lparr>d_order := map_option (\<lambda>os. os @ [e_addr e]) (d_order d1)\<rparr>) (es @ [e])"
proof -
  let ?d = "d\<lparr>d_next_addr := d_next_addr d + 1\<rparr>"
  from rep have s: "settled ?d" by (simp add: dict_rep_def settled_def live_cookies_def)
  have "\<forall>x \<in> set (dict_entries ?d). ident x \<noteq> ident e" using new by (simp add: dict_rep_set [OF rep] image_iff) metis
  from insert_entry_new [OF _ _ this] s obtain d1 where d1: "insert_entry e ?d = Ret (None, d1)" "shape d1" "dict_frame ?d d1"
    "\<forall>k. counted k ?d \<longrightarrow> counted k d1" "d_order d1 = d_order ?d"
    and m: "mset (dict_entries d1) = add_mset e (mset (dict_entries ?d))" by (auto simp: settled_def)
  from s have "counted 0 ?d" by (simp add: settled_def)
  with d1(4) have "settled d1" by (intro dict_frame_settled [OF s d1(2) _ d1(3)]) blast
  moreover have "d_next_addr d1 = d_next_addr d + 1" "d_cookies d1 = d_cookies d" using d1(3) by (simp_all add: dict_frame_def)
  moreover have "\<forall>x \<in> set es. e_addr x < d_next_addr d" using rep by (simp add: dict_rep_def)
  then have "e_addr e \<notin> e_addr ` set es" using e by auto
  moreover have "mset (dict_entries d1) = mset (es @ [e])" using m rep by (simp add: dict_rep_def)
  ultimately show ?thesis
    using rep new d1 e by (auto simp: dict_rep_def settled_def live_cookies_def less_Suc_eq)
qed

lemma dict_rep_insert_old:
  assumes rep: "dict_rep d es" and x: "x \<in> set es" "ident x = ident e" and e: "e_value e \<noteq> None"
  shows "\<exists>d1. insert_entry e (d\<lparr>d_next_addr := d_next_addr d + 1\<rparr>) = Ret (e_value x, d1) \<and> d_cookies d1 = d_cookies d \<and>
    d_order d1 = d_order d \<and> dict_rep (d1\<lparr>loose := tl (loose d1)\<rparr>) (upsert e es)"
proof -
  let ?d = "d\<lparr>d_next_addr := d_next_addr d + 1\<rparr>"
  from rep have s: "settled ?d" by (simp add: dict_rep_def settled_def live_cookies_def)
  have "x \<in> set (dict_entries ?d)" using x by (simp add: dict_rep_set [OF rep])
  from insert_entry_old [OF _ this x(2)] s dict_rep_distinct [OF rep] obtain d1 where d1: "insert_entry e ?d = Ret (e_value x, d1)"
    "shape d1" "dict_frame ?d d1" "\<forall>k. counted k ?d \<longrightarrow> counted k d1" "d_order d1 = d_order ?d"
    and m: "add_mset x (mset (dict_entries d1)) = add_mset (x\<lparr>e_value := e_value e\<rparr>) (mset (dict_entries ?d))"
    by (auto simp: settled_def)
  from s have "counted 0 ?d" by (simp add: settled_def)
  with d1(4) have "settled d1" by (intro dict_frame_settled [OF s d1(2) _ d1(3)]) blast
  moreover have "d_next_addr d1 = d_next_addr d + 1" "d_cookies d1 = d_cookies d" using d1(3) by (simp_all add: dict_frame_def)
  moreover have "mset (dict_entries ?d) = mset es" "distinct (List.map ident es)" using rep by (simp_all add: dict_rep_def)
  with m mset_upsert_old [of es x e] x have "mset (dict_entries d1) = mset (upsert e es)" by (metis add_mset_add_single add_right_imp_eq)
  moreover have "ident e \<in> ident ` set es" using x by (metis imageI)
  moreover have "\<forall>y \<in> set (upsert e es). e_addr y < d_next_addr d + 1 \<and> e_value y \<noteq> None"
    using rep e calculation(5) by (auto simp: upsert_def dict_rep_def less_Suc_eq)
  ultimately show ?thesis
    using rep d1 by (auto simp: dict_rep_def settled_def live_cookies_def upsert_old_simps)
qed

lemma value_in_new: "k \<notin> ident ` set es \<Longrightarrow> value_in k es = None"
  by (auto simp: value_in_def find_None_iff split: option.splits dest!: find_Some_iff [THEN iffD1])

lemma value_in_old: "distinct (List.map ident es) \<Longrightarrow> x \<in> set es \<Longrightarrow> value_in (ident x) es = e_value x"
  by (simp add: value_in_def find_ident)

lemma dict_Insert_rep:
  assumes rep: "dict_rep d es" and val: "val \<noteq> None"
  shows "\<exists>d'. dict_Insert key hash val d = Some (Ret (value_in (key, hash) es, d')) \<and> d_cookies d' = d_cookies d \<and>
    (d_order d' = None \<longleftrightarrow> d_order d = None) \<and>
    dict_rep d' (upsert \<lparr>e_addr = d_next_addr d, e_key = key, e_hash = hash, e_value = val\<rparr> es)"
proof -
  define e where "e = \<lparr>e_addr = d_next_addr d, e_key = key, e_hash = hash, e_value = val\<rparr>"
  have e: "ident e = (key, hash)" "e_addr e = d_next_addr d" "e_value e \<noteq> None" using val by (simp_all add: e_def ident_def)
  show ?thesis
  proof (cases "ident e \<in> ident ` set es")
    case True
    then obtain x where x: "x \<in> set es" "ident x = ident e" by auto
    from dict_rep_insert_old [OF rep x e(3)] obtain d1 where i: "insert_entry e (d\<lparr>d_next_addr := d_next_addr d + 1\<rparr>) = Ret (e_value x, d1)"
      and d1: "d_cookies d1 = d_cookies d" "d_order d1 = d_order d" "dict_rep (d1\<lparr>loose := tl (loose d1)\<rparr>) (upsert e es)" by blast
    from x rep have v: "e_value x \<noteq> None" "value_in (key, hash) es = e_value x"
      using value_in_old [of es x] e by (auto simp: dict_rep_def)
    from resize_logic_ok [OF d1(3)] obtain d' where d': "resize_logic (d1\<lparr>loose := tl (loose d1)\<rparr>) = Some (Ret d')"
      "dict_rep d' (upsert e es)" "size_kept (d1\<lparr>loose := tl (loose d1)\<rparr>) d'" by blast
    have "dict_Insert key hash val d = Some (Ret (e_value x, d'))"
      by (rule dict_Insert_after [OF i [unfolded e_def] refl]) (use v(1) d'(1) in simp)
    with d' d1 v(2) show ?thesis by (auto simp: size_kept_def e_def)
  next
    case False
    from dict_rep_insert_new [OF rep False e(2,3)] obtain d1 where
      i: "insert_entry e (d\<lparr>d_next_addr := d_next_addr d + 1\<rparr>) = Ret (None, d1)"
      and d1: "d_cookies d1 = d_cookies d" "d_order d1 = d_order d"
        "dict_rep (d1\<lparr>d_order := map_option (\<lambda>os. os @ [e_addr e]) (d_order d1)\<rparr>) (es @ [e])" by blast
    from resize_logic_ok [OF d1(3)] obtain d' where d': "resize_logic (d1\<lparr>d_order := map_option (\<lambda>os. os @ [e_addr e]) (d_order d1)\<rparr>) = Some (Ret d')"
      "dict_rep d' (es @ [e])" "size_kept (d1\<lparr>d_order := map_option (\<lambda>os. os @ [e_addr e]) (d_order d1)\<rparr>) d'" by blast
    have "dict_Insert key hash val d = Some (Ret (None, d'))"
      by (rule dict_Insert_after [OF i [unfolded e_def] refl]) (use d'(1) e(2) in simp)
    with d' d1 value_in_new [OF False] upsert_new [OF False] e(1) show ?thesis by (auto simp: size_kept_def e_def)
  qed
qed

section \<open>Lookup and removal\<close>

lemma dict_Lookup_rep:
  assumes rep: "dict_rep d es"
  shows "dict_Lookup key hash d = value_in (key, hash) es"
proof -
  define chain where "chain = chain_list (bucket_chain hash (home hash d))"
  from rep have s: "shape d" by (simp add: dict_rep_def settled_def)
  have sub: "set chain \<subseteq> set es"
    using home_chain_subset [OF s] dict_rep_set [OF rep] by (auto simp: chain_def)
  show ?thesis
  proof (cases "chain_pos key hash chain")
    case None
    have "(key, hash) \<notin> ident ` set es"
    proof
      assume "(key, hash) \<in> ident ` set es"
      then obtain x where x: "x \<in> set es" "ident x = (key, hash)" by auto
      with in_home_chain [OF s, of x] dict_rep_set [OF rep] have "x \<in> set chain" by (simp add: chain_def ident_def)
      with None x(2) show False by (auto simp: chain_pos_None)
    qed
    with None show ?thesis by (simp add: dict_Lookup_def chain_def [symmetric] value_in_new)
  next
    case (Some i)
    from chain_pos_Some [OF Some] sub have "chain ! i \<in> set es" "ident (chain ! i) = (key, hash)" by auto
    with rep value_in_old [of es "chain ! i"] have "value_in (key, hash) es = e_value (chain ! i)" by (simp add: dict_rep_def)
    with Some show ?thesis by (simp add: dict_Lookup_def chain_def [symmetric])
  qed
qed

lemma remove_nth_mset: "i < length xs \<Longrightarrow> add_mset (xs ! i) (mset (remove_nth i xs)) = mset xs"
  using arg_cong [OF id_take_nth_drop [of i xs], of mset] by (simp add: remove_nth_def)

lemma remove_filter:
  "distinct (List.map f xs) \<Longrightarrow> x \<in> set xs \<Longrightarrow> distinct (List.map g xs) \<Longrightarrow>
     remove1 (g x) (List.map g xs) = List.map g (filter (\<lambda>y. f y \<noteq> f x) xs)"
proof (induction xs)
  case (Cons y ys)
  show ?case
  proof (cases "x = y")
    case True
    with Cons.prems(1) have "filter (\<lambda>y. f y \<noteq> f x) ys = ys" by (auto simp: image_iff intro!: filter_True)
    with True show ?thesis by simp
  next
    case False
    with Cons.prems have "g y \<noteq> g x" "f y \<noteq> f x" by (auto simp: image_iff)
    with Cons False show ?thesis by simp
  qed
qed simp

lemma remove_mset:
  "distinct (List.map f xs) \<Longrightarrow> x \<in> set xs \<Longrightarrow> add_mset x (mset (filter (\<lambda>y. f y \<noteq> f x) xs)) = mset xs"
proof (induction xs)
  case (Cons y ys)
  show ?case
  proof (cases "x = y")
    case True
    with Cons.prems(1) have "filter (\<lambda>y. f y \<noteq> f x) ys = ys" by (auto simp: image_iff intro!: filter_True)
    with True show ?thesis by simp
  next
    case False
    with Cons.prems have "f y \<noteq> f x" by (auto simp: image_iff)
    with Cons False show ?thesis by (simp add: add_mset_commute)
  qed
qed simp

lemma mset_cancel: "A + add_mset x R = B + R \<Longrightarrow> add_mset x A = B"
  by (metis add_right_imp_eq union_mset_add_mset_left union_mset_add_mset_right)

lemma moved_table_set_home:
  "num_buckets t = num_buckets (home h d) \<Longrightarrow> moved_table h (set_home h t d) = map_option (\<lambda>_. t) (moved_table h d)"
  by (cases "moved_table h d") (auto simp: set_home_def moved_table_def home_def bucket_of_def split: if_splits)

lemma home_set_home: "num_buckets t = num_buckets (home h d) \<Longrightarrow> home h (set_home h t d) = t"
  by (cases "moved_table h d") (simp_all add: home_def [of h "set_home h t d"] moved_table_set_home, simp add: set_home_def)

lemma set_home_set_home: "num_buckets t = num_buckets (home h d) \<Longrightarrow> set_home h t' (set_home h t d) = set_home h t' d"
  by (cases "moved_table h d") (simp_all add: set_home_def [of h t'] moved_table_set_home, simp_all add: set_home_def)

lemma set_home_update [simp]:
  "set_home h t (d\<lparr>d_order := os\<rparr>) = (set_home h t d)\<lparr>d_order := os\<rparr>"
  "set_home h t (d\<lparr>cookie_heap := hp\<rparr>) = (set_home h t d)\<lparr>cookie_heap := hp\<rparr>"
  "home h (d\<lparr>cookie_heap := hp\<rparr>) = home h d"
  by (simp_all add: set_home_def home_def split: option.splits)

text \<open>What is done with an entry that was found.\<close>

lemma dict_Remove_found:
  assumes s: "settled d" and chain: "chain = chain_list (bucket_chain hash (home hash d))"
    and found: "chain_pos key hash chain = Some i" and x: "x = chain ! i"
  shows "\<exists>d'. dict_Remove key hash d = Ret (e_value x, d') \<and> settled d' \<and> d_next_addr d' = d_next_addr d \<and> d_cookies d' = d_cookies d \<and>
    d_order d' = map_option (remove1 (e_addr x)) (d_order d) \<and> add_mset x (mset (dict_entries d')) = mset (dict_entries d)"
proof -
  define t where "t = home hash d"
  define b where "b = bucket_of hash t"
  have ch: "chain = chain_list (t_buckets t ! b)" by (simp add: chain b_def t_def bucket_chain_def)
  define t' where "t' = upd_chain b (Some (remove_nth i chain)) t"
  define d1 where "d1 = set_home hash t' d"
  define d2 where "d2 = set_home hash (t'\<lparr>t_num_entries := t_num_entries t' - 1\<rparr>) d"
  from s have sh: "shape d" by (simp add: settled_def)
  have nb: "num_buckets t' = num_buckets (home hash d)" by (simp add: t'_def t_def)
  from chain_pos_Some [OF found] have i: "i < length chain" by simp
  then have rn: "set (remove_nth i chain) \<subseteq> set chain" "length (remove_nth i chain) + 1 = length chain"
    by (auto simp: remove_nth_def dest: in_set_takeD in_set_dropD)
  have *: "shape d2 \<and> dict_frame d d2 \<and> (counted 0 d \<longrightarrow> counted 0 d2) \<and>
      mset (dict_entries d2) + mset chain = mset (dict_entries d) + mset (remove_nth i chain)"
    unfolding d2_def by (rule replace_chain [OF sh t_def b_def ch]) (use rn in \<open>auto simp: t'_def\<close>)
  then have "mset (dict_entries d2) + mset chain = mset (dict_entries d) + mset (remove_nth i chain)" by blast
  then have m: "add_mset x (mset (dict_entries d2)) = mset (dict_entries d)"
    unfolding remove_nth_mset [OF i, folded x, symmetric] by (rule mset_cancel)
  have "set (d_cookies d1) \<subseteq> fst ` set (cookie_heap d1)"
    using s set_home_frame [OF nb] by (simp add: settled_def live_cookies_def d1_def dict_frame_def)
  from tell_cookies_Ret [OF this] obtain heap where
    tc: "tell_cookies (\<lambda>c. let c = (if c_bucket c = bucket_of hash (tbl d) \<and> c_offset c > i then c\<lparr>c_offset := c_offset c - 1\<rparr> else c)
        in if c_bucket c > bucket_of hash (tbl d) then c\<lparr>c_inserted := remove1 (e_addr x) (c_inserted c)\<rparr> else c)
      (d_cookies d1) (cookie_heap d1) = Ret heap" and heap: "fst ` set heap = fst ` set (cookie_heap d1)" by meson
  have "dict_Remove key hash d = Ret (e_value x, d2\<lparr>d_order := map_option (remove1 (e_addr x)) (d_order d), cookie_heap := heap\<rparr>)"
    using found tc
    by (simp add: dict_Remove_def dict_DoRemove_def Let_def t_def [symmetric] b_def [symmetric] ch [symmetric] x [symmetric]
        t'_def [symmetric] d1_def [symmetric])
       (simp add: d1_def d2_def home_set_home [OF nb] set_home_set_home [OF nb])
  moreover have "settled d2" using * s by (intro dict_frame_settled [OF s]) (simp_all add: settled_def)
  then have "settled (d2\<lparr>d_order := map_option (remove1 (e_addr x)) (d_order d), cookie_heap := heap\<rparr>)"
    using heap * set_home_frame [OF nb] by (auto simp: settled_def live_cookies_def d1_def dict_frame_def)
  moreover have "d_next_addr d2 = d_next_addr d" "d_cookies d2 = d_cookies d" using * by (simp_all add: dict_frame_def)
  ultimately show ?thesis using m by auto
qed

lemma dict_Remove_rep:
  assumes rep: "dict_rep d es"
  shows "\<exists>d'. dict_Remove key hash d = Ret (value_in (key, hash) es, d') \<and> d_cookies d' = d_cookies d \<and>
    (d_order d' = None \<longleftrightarrow> d_order d = None) \<and> dict_rep d' (filter (\<lambda>e. ident e \<noteq> (key, hash)) es)"
proof -
  define chain where "chain = chain_list (bucket_chain hash (home hash d))"
  from rep have s: "settled d" and sh: "shape d" by (simp_all add: dict_rep_def settled_def)
  have lk: "value_in (key, hash) es = (case chain_pos key hash chain of None \<Rightarrow> None | Some i \<Rightarrow> e_value (chain ! i))"
    unfolding dict_Lookup_rep [OF rep, symmetric] dict_Lookup_def chain_def Let_def ..
  show ?thesis
  proof (cases "chain_pos key hash chain")
    case None
    with home_chain_subset [OF sh] in_home_chain [OF sh] dict_rep_set [OF rep] have "\<forall>e \<in> set es. ident e \<noteq> (key, hash)"
      by (auto simp: chain_pos_None chain_def ident_def)
    with None lk rep show ?thesis by (simp add: dict_Remove_def Let_def chain_def bucket_chain_def)
  next
    case (Some i)
    define x where "x = chain ! i"
    from dict_Remove_found [OF s chain_def Some x_def] obtain d' where r: "dict_Remove key hash d = Ret (e_value x, d')"
      and d': "settled d'" "d_next_addr d' = d_next_addr d" "d_cookies d' = d_cookies d"
        "d_order d' = map_option (remove1 (e_addr x)) (d_order d)" and m: "add_mset x (mset (dict_entries d')) = mset (dict_entries d)" by blast
    from chain_pos_Some [OF Some] have i: "i < length chain" and x: "ident x = (key, hash)" by (simp_all add: x_def)
    then have "x \<in> set chain" by (simp add: x_def)
    then have xes: "x \<in> set es" using home_chain_subset [OF sh] dict_rep_set [OF rep] by (auto simp: chain_def)
    have "add_mset x (mset (filter (\<lambda>e. ident e \<noteq> (key, hash)) es)) = mset es"
      using remove_mset [of ident es x] rep xes x by (simp add: dict_rep_def)
    moreover from rep have "mset (dict_entries d) = mset es" by (simp add: dict_rep_def)
    ultimately have "add_mset x (mset (dict_entries d')) = add_mset x (mset (filter (\<lambda>e. ident e \<noteq> (key, hash)) es))"
      using m by (simp only:)
    then have "mset (dict_entries d') = mset (filter (\<lambda>e. ident e \<noteq> (key, hash)) es)" by (rule add_mset_add_mset_same_iff [THEN iffD1])
    moreover have "d_order d' = map_option (\<lambda>_. List.map e_addr (filter (\<lambda>e. ident e \<noteq> (key, hash)) es)) (d_order d)"
      using rep remove_filter [of ident es x e_addr] xes x d'(4) by (cases "d_order d") (simp_all add: dict_rep_def)
    moreover have "value_in (key, hash) es = e_value x" using lk Some by (simp add: x_def)
    ultimately show ?thesis using rep r d' by (auto simp: dict_rep_def distinct_map_filter)
  qed
qed

section \<open>Length and order\<close>

lemma dict_Length_entries: "counted 0 d \<Longrightarrow> dict_Length d = int (length (dict_entries d))"
  by (auto simp: dict_Length_def counted_def excess_def dict_entries_def split: option.splits)

lemma dict_Length_rep: "dict_rep d es \<Longrightarrow> dict_Length d = int (length es)"
  by (auto simp: dict_rep_def settled_def dict_Length_entries dest: mset_eq_length)

lemma find_app: "find P (xs @ ys) = (case find P xs of None \<Rightarrow> find P ys | Some x \<Rightarrow> Some x)"
  by (induction xs) auto

lemma deref_rep:
  assumes rep: "dict_rep d es" and x: "x \<in> set es"
  shows "deref (e_addr x) d = Ret x"
proof -
  have "distinct (List.map e_addr (dict_entries d))"
    using mset_eq_imp_distinct_iff [of "List.map e_addr (dict_entries d)" "List.map e_addr es"] rep by (simp add: dict_rep_def)
  with find_ident [of e_addr "dict_entries d" x] x dict_rep_set [OF rep] show ?thesis by (simp add: deref_def find_app)
qed

text \<open>Operations of clients, and what they do on an association list in the order of insertion.\<close>

datatype 'v dict_op =
  OpLookup bytes u64
| OpInsert bytes u64 'v
| OpRemove bytes u64
| OpLength
| OpNth int

datatype 'v dict_result = DValue "'v option" | DLength int | DEntry "(bytes \<times> 'v option) option"

definition dict_step :: "'v dict_op \<Rightarrow> 'v Dictionary \<Rightarrow> ('v dict_result \<times> 'v Dictionary) run" where
  "dict_step op d =
     (case op of
        OpLookup key hash \<Rightarrow> Ret (DValue (dict_Lookup key hash d), d)
      | OpInsert key hash v \<Rightarrow>
          (case dict_Insert key hash (Some v) d of
             None \<Rightarrow> Blocked
           | Some r \<Rightarrow> run_bind r (\<lambda>(old, d). Ret (DValue old, d)))
      | OpRemove key hash \<Rightarrow> run_bind (dict_Remove key hash d) (\<lambda>(old, d). Ret (DValue old, d))
      | OpLength \<Rightarrow> Ret (DLength (dict_Length d), d)
      | OpNth n \<Rightarrow> run_bind (dict_NthEntry n d) (\<lambda>e. Ret (DEntry (map_option (\<lambda>e. (e_key e, e_value e)) e), d)))"

definition assoc_step :: "'v dict_op \<Rightarrow> ((bytes \<times> u64) \<times> 'v) list \<Rightarrow> 'v dict_result \<times> ((bytes \<times> u64) \<times> 'v) list" where
  "assoc_step op al =
     (case op of
        OpLookup key hash \<Rightarrow> (DValue (map_of al (key, hash)), al)
      | OpInsert key hash v \<Rightarrow> (DValue (map_of al (key, hash)), AList.update (key, hash) v al)
      | OpRemove key hash \<Rightarrow> (DValue (map_of al (key, hash)), AList.delete (key, hash) al)
      | OpLength \<Rightarrow> (DLength (int (length al)), al)
      | OpNth n \<Rightarrow> (DEntry (if 0 \<le> n \<and> n < int (length al) then Some (fst (fst (al ! nat n)), Some (snd (al ! nat n))) else None), al))"

definition pair_of :: "'v DictEntry \<Rightarrow> (bytes \<times> u64) \<times> 'v" where
  "pair_of e = (ident e, the (e_value e))"

lemma value_in_pairs: "\<forall>e \<in> set es. e_value e \<noteq> None \<Longrightarrow> value_in k es = map_of (List.map pair_of es) k"
  by (induction es) (auto simp: value_in_def pair_of_def)

lemma upsert_pairs:
  "distinct (List.map ident es) \<Longrightarrow> List.map pair_of (upsert e es) = AList.update (ident e) (the (e_value e)) (List.map pair_of es)"
proof (induction es)
  case (Cons x es)
  show ?case
  proof (cases "ident x = ident e")
    case True
    with Cons.prems have "ident e \<notin> ident ` set es" by auto
    with True show ?thesis by (simp add: upsert_def map_unchanged) (simp add: pair_of_def)
  next
    case False
    with Cons show ?thesis by (auto simp: upsert_def pair_of_def)
  qed
qed (simp add: upsert_def pair_of_def)

lemma filter_pairs: "List.map pair_of (filter (\<lambda>e. ident e \<noteq> k) es) = AList.delete k (List.map pair_of es)"
  by (induction es) (auto simp: pair_of_def AList.delete_eq)

text \<open>The relation between an ordered dictionary, with no iteration under way, and the list.\<close>

definition dict_sim :: "'v Dictionary \<Rightarrow> ((bytes \<times> u64) \<times> 'v) list \<Rightarrow> bool" where
  "dict_sim d al \<longleftrightarrow> d_order d \<noteq> None \<and> (\<exists>es. dict_rep d es \<and> al = List.map pair_of es)"

lemma dict_simI: "dict_rep d es \<Longrightarrow> d_order d \<noteq> None \<Longrightarrow> al = List.map pair_of es \<Longrightarrow> dict_sim d al"
  by (auto simp: dict_sim_def)

interpretation od: refines dict_sim "\<lambda>_. True" dict_step assoc_step
proof unfold_locales
  fix d :: "'v Dictionary" and al op
  assume "dict_sim d al"
  then obtain es where rep: "dict_rep d es" and al: "al = List.map pair_of es" and ord: "d_order d \<noteq> None" by (auto simp: dict_sim_def)
  from rep have val: "value_in k es = map_of al k" for k using value_in_pairs [of es k] al by (simp add: dict_rep_def)
  show "\<exists>d'. dict_step op d = Ret (fst (assoc_step op al), d') \<and> dict_sim d' (snd (assoc_step op al))"
  proof (cases op)
    case (OpLookup key hash)
    with \<open>dict_sim d al\<close> show ?thesis by (simp add: dict_step_def assoc_step_def dict_Lookup_rep [OF rep] val)
  next
    case (OpInsert key hash v)
    define e where "e = \<lparr>e_addr = d_next_addr d, e_key = key, e_hash = hash, e_value = Some v\<rparr>"
    from dict_Insert_rep [OF rep, of "Some v" key hash] obtain d' where "dict_Insert key hash (Some v) d = Some (Ret (map_of al (key, hash), d'))"
      "d_order d' \<noteq> None" "dict_rep d' (upsert e es)" using ord by (auto simp: val e_def)
    moreover have "List.map pair_of (upsert e es) = AList.update (key, hash) v al"
      using rep al by (simp add: upsert_pairs dict_rep_def) (simp add: e_def ident_def)
    ultimately show ?thesis by (auto simp: OpInsert dict_step_def assoc_step_def intro: dict_simI)
  next
    case (OpRemove key hash)
    from dict_Remove_rep [OF rep, of key hash] obtain d' where "dict_Remove key hash d = Ret (map_of al (key, hash), d')"
      "d_order d' \<noteq> None" "dict_rep d' (filter (\<lambda>e. ident e \<noteq> (key, hash)) es)" using ord by (auto simp: val)
    then show ?thesis by (auto simp: OpRemove dict_step_def assoc_step_def al filter_pairs [symmetric] intro: dict_simI)
  next
    case OpLength
    with \<open>dict_sim d al\<close> al show ?thesis by (simp add: dict_step_def assoc_step_def dict_Length_rep [OF rep])
  next
    case (OpNth n)
    from rep ord have os: "d_order d = Some (List.map e_addr es)" by (auto simp: dict_rep_def)
    have "dict_NthEntry n d = Ret (if 0 \<le> n \<and> n < int (length es) then Some (es ! nat n) else None)"
      using deref_rep [OF rep, of "es ! nat n"] by (auto simp: dict_NthEntry_def os dict_Length_rep [OF rep])
    moreover have "e_value (es ! nat n) = Some (the (e_value (es ! nat n)))" if "0 \<le> n" "n < int (length es)"
      using rep that by (auto simp: dict_rep_def)
    ultimately show ?thesis
      using \<open>dict_sim d al\<close> by (auto simp: OpNth dict_step_def assoc_step_def al pair_of_def ident_def)
  qed
qed

lemma new_Dictionary_rep:
  "\<exists>d. new_Dictionary ordered sz = Some d \<and> dict_rep d [] \<and> (d_order d = None \<longleftrightarrow> \<not> ordered) \<and>
     tbl2 d = None \<and> d_cookies d = [] \<and> cookie_heap d = [] \<and> t_id (tbl d) < d_next_addr d"
proof -
  obtain q where "NextPrime sz = Some q" "0 < q" by (rule NextPrime_Some [of sz])
  then show ?thesis
    by (simp add: new_Dictionary_def new_table_def dict_rep_def settled_def shape_def table_ok_def counted_def excess_def
        live_cookies_def num_buckets_def dict_entries_def table_entries_def chain_list_def)
qed

text \<open>C19. Any sequence of lookups, insertions, removals, length and position queries on a new ordered dictionary, of any
  initial size, has exactly the results of an association list in the order of insertion: the hashing, the chains
  and the incremental move to larger tables are not observable, nothing is undefined and every call returns.
\<close>

theorem dictionary_is_association_list:
  fixes ops :: "'v dict_op list"
  shows "case new_Dictionary True sz of
     None \<Rightarrow> False
   | Some d \<Rightarrow> \<exists>d'. run_ops dict_step ops d = Ret (fst (spec_ops assoc_step ops []), d')"
proof -
  obtain d :: "'v Dictionary" where "new_Dictionary True sz = Some d" "dict_sim d []"
    using new_Dictionary_rep [of True sz] by (auto simp: dict_sim_def)
  with od.ops_simulated [of d "[]" ops] show ?thesis by auto
qed

end
