(* ===== verification/Bro_Dict_Iter.thy ===== *)
theory Bro_Dict_Iter
  imports Bro_Dict_Props
begin

text \<open>
  Reachable dictionaries and iteration (\<^verbatim>\<open>InitForIteration\<close>, \<^verbatim>\<open>MakeRobustCookie\<close>, \<^verbatim>\<open>NextEntry\<close>,
  \<^verbatim>\<open>StopIteration\<close>): the public calls as a step relation, what an iteration visits when nothing changes and
  when entries are inserted and removed meanwhile, and where a robust cookie misses an entry.
\<close>

section \<open>Names of tables and cookies\<close>

definition ids_ok :: "'v Dictionary \<Rightarrow> bool" where
  "ids_ok d \<longleftrightarrow> t_id (tbl d) < d_next_addr d \<and> (\<forall>t2. tbl2 d = Some t2 \<longrightarrow> t_id t2 < d_next_addr d \<and> t_id t2 \<noteq> t_id (tbl d)) \<and>
     fst ` set (cookie_heap d) \<subseteq> {..<d_next_addr d}"

lemma ids_ok_update [simp]:
  "ids_ok (d\<lparr>loose := l\<rparr>) = ids_ok d" "ids_ok (d\<lparr>d_order := os\<rparr>) = ids_ok d" "ids_ok (d\<lparr>d_cookies := cs\<rparr>) = ids_ok d"
  "ids_ok (d\<lparr>tbl := (tbl d)\<lparr>t_num_entries := k\<rparr>\<rparr>) = ids_ok d" "ids_ok (d\<lparr>tbl_next_ind := i\<rparr>) = ids_ok d"
  by (simp_all add: ids_ok_def)

lemma ids_ok_grow: "ids_ok d \<Longrightarrow> ids_ok (d\<lparr>d_next_addr := Suc (d_next_addr d)\<rparr>)"
  by (auto simp: ids_ok_def less_Suc_eq)

lemma ids_ok_heap: "ids_ok d \<Longrightarrow> fst ` set heap = fst ` set (cookie_heap d) \<Longrightarrow> ids_ok (d\<lparr>cookie_heap := heap\<rparr>)"
  by (simp add: ids_ok_def)

lemma t_id_simps [simp]:
  "t_id (upd_chain b c t) = t_id t" "t_id (count_up t) = t_id t"
  by (simp_all add: upd_chain_def count_up_def Let_def)

lemma ids_ok_set_home: "t_id t = t_id (home h d) \<Longrightarrow> ids_ok (set_home h t d) = ids_ok d"
  by (cases "moved_table h d") (auto simp: ids_ok_def set_home_def home_def dest!: moved_table_SomeD)

lemma set_home_parts [simp]:
  "cookie_heap (set_home h t d) = cookie_heap d" "d_cookies (set_home h t d) = d_cookies d"
  "d_next_addr (set_home h t d) = d_next_addr d"
  by (simp_all add: set_home_def split: option.splits)

lemma tell_cookies_keys: "tell_cookies f as heap = Ret heap' \<Longrightarrow> fst ` set heap' = fst ` set heap"
proof (induction f as heap rule: tell_cookies.induct)
  case (2 f a as heap)
  then obtain c where c: "map_of heap a = Some c" by (cases "map_of heap a") auto
  then have "a \<in> fst ` set heap" by (metis map_of_eq_None_iff option.distinct(1))
  with 2 c show ?case by (simp add: dom_update insert_absorb)
qed simp

lemma tell_cookies_ids: "tell_cookies f as h = Ret heap \<Longrightarrow> h = cookie_heap d \<Longrightarrow> ids_ok (d\<lparr>cookie_heap := heap\<rparr>) = ids_ok d"
  using tell_cookies_keys [of f as h heap] by (simp add: ids_ok_def)

lemma insert_entry_ids:
  "insert_entry e d = Ret (v, d') \<Longrightarrow> ids_ok d \<Longrightarrow> ids_ok d' \<and> d_next_addr d' = d_next_addr d \<and> d_cookies d' = d_cookies d"
  by (auto simp: insert_entry_def Let_def run_bind_eq_Ret ids_ok_set_home tell_cookies_ids split: option.splits)

lemma move_chain_ids:
  "move_chain es num d = Ret (num', d') \<Longrightarrow> ids_ok d \<Longrightarrow> ids_ok d'"
proof (induction es num d rule: move_chain.induct)
  case (2 e es num d)
  from 2(2) obtain v d1 where i: "insert_entry e d = Ret (v, d1)"
    and m: "move_chain es (num - 1) (d1\<lparr>tbl := (tbl d1)\<lparr>t_num_entries := t_num_entries (tbl d1) - 1\<rparr>\<rparr>) = Ret (num', d')"
    by (auto simp: run_bind_eq_Ret)
  from 2(1) [OF i refl m] insert_entry_ids [OF i 2(3)] show ?case by simp
qed simp

lemma move_loop_ids: "move_loop num d = Ret d' \<Longrightarrow> ids_ok d \<Longrightarrow> ids_ok d'"
proof (induction num d rule: move_loop.induct)
  case (1 num d)
  from 1(2) obtain num1 d1 where b: "move_bucket num d = Ret (num1, d1)"
    and r: "(if num1 > 0 \<and> tbl_next_ind d1 < num_buckets (tbl d1) then move_loop num1 d1 else Ret d1) = Ret d'"
    by (auto simp: move_loop.simps [of num d] run_bind_eq_Ret)
  have "ids_ok (d\<lparr>tbl_next_ind := i, tbl := upd_chain j c (tbl d)\<rparr>)" for i j c using 1(3) by (simp add: ids_ok_def)
  with b 1(3) have "ids_ok d1" by (auto simp: move_bucket_def Let_def dest!: move_chain_ids split: if_splits option.splits)
  with 1(1) [OF b refl] r show ?case by (auto split: if_splits)
qed

lemma FinishChangeSize_ids: "FinishChangeSize d = Ret d' \<Longrightarrow> ids_ok d \<Longrightarrow> ids_ok d'"
proof -
  assume "FinishChangeSize d = Ret d'" and ok: "ids_ok d"
  then obtain t2 where "tbl2 d = Some t2" "d' = d\<lparr>tbl := t2, tbl2 := None\<rparr>"
    by (cases "tbl2 d") (auto simp: FinishChangeSize_def split: if_splits)
  with ok show "ids_ok d'" by (simp add: ids_ok_def)
qed

lemma StartChangeSize_ids:
  assumes "StartChangeSize n d = Some (Ret d')" and ok: "ids_ok d"
  shows "ids_ok d'"
proof (cases "d_cookies d = []")
  case True
  with assms(1) obtain t where t: "new_table (d_next_addr d) n = Some t" "d' = d\<lparr>tbl2 := Some t, tbl_next_ind := 0, d_next_addr := Suc (d_next_addr d)\<rparr>"
    by (auto simp: StartChangeSize_def split: if_splits)
  then have "t_id t = d_next_addr d" by (auto simp: new_table_def)
  with t ids_ok_grow [OF ok] ok show ?thesis by (simp add: ids_ok_def)
qed (use assms in \<open>simp add: StartChangeSize_def\<close>)

lemma resize_logic_ids: "resize_logic d = Some (Ret d') \<Longrightarrow> ids_ok d \<Longrightarrow> ids_ok d'"
  by (auto simp: resize_logic_def MoveChains_def run_bind_eq_Ret dest!: StartChangeSize_ids dest: move_loop_ids FinishChangeSize_ids
      split: if_splits)

lemma dict_Insert_ids: "dict_Insert key hash v d = Some (Ret (old, d')) \<Longrightarrow> ids_ok d \<Longrightarrow> ids_ok d'"
  by (auto simp: dict_Insert_def Let_def run_bind_eq_Ret ids_ok_grow dest!: resize_logic_ids insert_entry_ids
      split: run.splits prod.splits if_splits)

lemma dict_Remove_ids: "dict_Remove key hash d = Ret (v, d') \<Longrightarrow> ids_ok d \<Longrightarrow> ids_ok d'"
  by (auto simp: dict_Remove_def dict_DoRemove_def Let_def run_bind_eq_Ret ids_ok_set_home tell_cookies_ids split: option.splits)

section \<open>Reachable dictionaries\<close>

text \<open>The public calls that change the state; a value that is inserted is not null.\<close>

inductive dict_call :: "'v Dictionary \<Rightarrow> 'v Dictionary \<Rightarrow> bool" where
  call_Insert: "dict_Insert key hash (Some v) d = Some (Ret (old, d')) \<Longrightarrow> dict_call d d'"
| call_Remove: "dict_Remove key hash d = Ret (v, d') \<Longrightarrow> dict_call d d'"
| call_Clear: "d_order d = None \<Longrightarrow> dict_Clear d = Some d' \<Longrightarrow> dict_call d d'"
| call_Init: "InitForIteration d = (a, d') \<Longrightarrow> dict_call d d'"
| call_Robust: "map_of (cookie_heap d) a \<noteq> None \<Longrightarrow> a \<notin> set (d_cookies d) \<Longrightarrow> dict_call d (MakeRobustCookie a d)"
| call_Next: "dict_NextEntry a d = Ret (e, d') \<Longrightarrow> dict_call d d'"
| call_Stop: "a \<notin> set (d_cookies d) \<Longrightarrow> dict_call d (StopIteration a d)"

definition dict_wf :: "'v Dictionary \<Rightarrow> bool" where
  "dict_wf d \<longleftrightarrow> ids_ok d \<and> (\<exists>es. dict_rep d es)"

lemma dict_rep_cookies:
  "dict_rep d es \<Longrightarrow> distinct cs \<Longrightarrow> set cs \<subseteq> fst ` set heap \<Longrightarrow> dict_rep (d\<lparr>d_cookies := cs, cookie_heap := heap\<rparr>) es"
  by (simp add: dict_rep_def settled_def shape_def counted_def live_cookies_def dict_entries_def)

lemma dict_wf_cookies:
  assumes "dict_wf d" "distinct cs" "set cs \<subseteq> fst ` set heap" "fst ` set heap \<subseteq> fst ` set (cookie_heap d)"
  shows "dict_wf (d\<lparr>d_cookies := cs, cookie_heap := heap\<rparr>)"
proof -
  from assms(1) obtain es where "dict_rep d es" "ids_ok d" by (auto simp: dict_wf_def)
  with dict_rep_cookies assms(2-4) show ?thesis by (fastforce simp: dict_wf_def ids_ok_def)
qed

lemma dict_wf_live: "dict_wf d \<Longrightarrow> distinct (d_cookies d) \<and> set (d_cookies d) \<subseteq> fst ` set (cookie_heap d)"
  by (auto simp: dict_wf_def dict_rep_def settled_def live_cookies_def)

lemma dict_wf_set_cookie:
  assumes "dict_wf d" "map_of (cookie_heap d) a \<noteq> None"
  shows "dict_wf (set_cookie a c d)"
proof -
  have "fst ` set (AList.update a c (cookie_heap d)) = fst ` set (cookie_heap d)"
    using assms(2) by (simp add: dom_update insert_absorb map_of_eq_None_iff)
  with dict_wf_cookies [OF assms(1), of "d_cookies d" "AList.update a c (cookie_heap d)"] dict_wf_live [OF assms(1)]
  show ?thesis by (simp add: set_cookie_def)
qed

lemma keys_delete: "fst ` set (AList.delete a heap) = fst ` set heap - {a}"
  using arg_cong [OF AList.delete_keys [of a heap], of set] by simp

lemma dict_wf_end_iteration: "dict_wf d \<Longrightarrow> dict_wf (end_iteration a d)"
  using dict_wf_cookies [of d "remove1 a (d_cookies d)" "AList.delete a (cookie_heap d)"] dict_wf_live [of d]
  by (simp add: end_iteration_def keys_delete) blast

lemma NextEntry_wf: "dict_NextEntry a d = Ret (e, d') \<Longrightarrow> dict_wf d \<Longrightarrow> dict_wf d'"
  by (auto simp: dict_NextEntry_def Let_def run_bind_eq_Ret dict_wf_set_cookie dict_wf_end_iteration split: option.splits if_splits)

lemma dict_Clear_wf:
  assumes "dict_wf d" "d_order d = None" "dict_Clear d = Some d'"
  shows "dict_wf d'"
proof -
  obtain n where n: "NextPrime 2 = Some n" "0 < n" by (rule NextPrime_Some [of 2])
  define t where "t = (tbl d)\<lparr>t_id := d_next_addr d, t_buckets := replicate n None, t_num_entries := 0, t_max_entries := 0\<rparr>"
  have d': "d' = d\<lparr>tbl := t, tbl2 := None, d_next_addr := Suc (d_next_addr d)\<rparr>"
    using assms(3) n by (simp add: dict_Clear_def t_def)
  have t: "table_ok t" "excess t = 0" "table_entries t = []" "t_id t = d_next_addr d"
    using n(2) by (simp_all add: t_def table_ok_def num_buckets_def excess_def table_entries_def chain_list_def)
  have "ids_ok d'" using ids_ok_grow [of d] assms(1) t(4) by (simp add: dict_wf_def ids_ok_def d')
  moreover have "dict_rep d' []"
    using dict_wf_live [OF assms(1)] assms(2) t
    by (simp add: d' dict_rep_def settled_def shape_def counted_def live_cookies_def dict_entries_def)
  ultimately show ?thesis by (auto simp: dict_wf_def)
qed

lemma dict_call_wf: "dict_call d d' \<Longrightarrow> dict_wf d \<Longrightarrow> dict_wf d'"
proof (induction rule: dict_call.induct)
  case (call_Insert key hash v d old d')
  then obtain es where "dict_rep d es" by (auto simp: dict_wf_def)
  from dict_Insert_rep [OF this, of "Some v" key hash] call_Insert dict_Insert_ids show ?case by (auto simp: dict_wf_def)
next
  case (call_Remove key hash d v d')
  then obtain es where "dict_rep d es" by (auto simp: dict_wf_def)
  from dict_Remove_rep [OF this, of key hash] call_Remove dict_Remove_ids show ?case by (auto simp: dict_wf_def)
next
  case (call_Init d a d')
  then have d': "d' = d\<lparr>cookie_heap := (d_next_addr d, \<lparr>c_bucket = 0, c_offset = 0, c_ttbl = None, c_inserted = []\<rparr>) # cookie_heap d,
      d_next_addr := d_next_addr d + 1\<rparr>" by (auto simp: InitForIteration_def)
  from call_Init obtain es where rep: "dict_rep d es" by (auto simp: dict_wf_def)
  then have "dict_rep d' es" by (auto simp: d' dict_rep_def settled_def shape_def counted_def live_cookies_def dict_entries_def less_Suc_eq)
  moreover have "ids_ok d'" using ids_ok_grow [of d] call_Init by (simp add: dict_wf_def ids_ok_def d')
  ultimately show ?case by (auto simp: dict_wf_def)
next
  case (call_Robust d a)
  then have "a \<in> fst ` set (cookie_heap d)" by (simp add: map_of_eq_None_iff)
  with call_Robust dict_wf_cookies [of d "d_cookies d @ [a]" "cookie_heap d"] dict_wf_live [of d] show ?case
    by (simp add: MakeRobustCookie_def)
next
  case (call_Stop a d)
  with dict_wf_cookies [of d "d_cookies d" "AList.delete a (cookie_heap d)"] dict_wf_live [of d] show ?case
    by (simp add: StopIteration_def keys_delete) blast
qed (auto intro: dict_Clear_wf NextEntry_wf)

lemma new_Dictionary_wf:
  fixes d :: "'v Dictionary"
  assumes "new_Dictionary ordered sz = Some d"
  shows "dict_wf d"
proof -
  obtain d1 :: "'v Dictionary" where "new_Dictionary ordered sz = Some d1" "dict_rep d1 []" "tbl2 d1 = None" "cookie_heap d1 = []"
    "t_id (tbl d1) < d_next_addr d1" using new_Dictionary_rep [of ordered sz] by blast
  with assms show ?thesis by (auto simp: dict_wf_def ids_ok_def)
qed

lemma dict_reachable_wf: "dict_call\<^sup>*\<^sup>* d0 d \<Longrightarrow> new_Dictionary ordered sz = Some d0 \<Longrightarrow> dict_wf d"
  by (induction rule: rtranclp_induct) (auto intro: dict_call_wf new_Dictionary_wf)

section \<open>What is left to visit\<close>

definition to_visit :: "'v table \<Rightarrow> IterCookie \<Rightarrow> 'v DictEntry list" where
  "to_visit t c =
     drop (c_offset c) (chain_list (t_buckets t ! c_bucket c)) @ concat (List.map chain_list (drop (Suc (c_bucket c)) (t_buckets t)))"

definition cookie_in :: "'v table \<Rightarrow> IterCookie \<Rightarrow> bool" where
  "cookie_in t c \<longleftrightarrow> c_bucket c < num_buckets t \<and> c_offset c \<le> length (chain_list (t_buckets t ! c_bucket c))"

lemma to_visit_start: "0 < num_buckets t \<Longrightarrow> c_bucket c = 0 \<Longrightarrow> c_offset c = 0 \<Longrightarrow> to_visit t c = table_entries t"
  by (cases "t_buckets t") (simp_all add: to_visit_def table_entries_def num_buckets_def)

lemma skip_empty_spec:
  "\<exists>k \<le> length cs. skip_empty b cs = b + k \<and> concat (List.map chain_list cs) = concat (List.map chain_list (drop k cs)) \<and>
     (k < length cs \<longrightarrow> chain_list (cs ! k) \<noteq> [])"
proof (induction b cs rule: skip_empty.induct)
  case (2 b c cs)
  show ?case
  proof (cases "chain_list c = []")
    case True
    with 2 obtain k where "k \<le> length cs" "skip_empty (b + 1) cs = b + 1 + k"
      "concat (List.map chain_list cs) = concat (List.map chain_list (drop k cs))" "k < length cs \<longrightarrow> chain_list (cs ! k) \<noteq> []" by blast
    with True show ?thesis by (intro exI [of _ "Suc k"]) simp
  qed (intro exI [of _ 0], simp)
qed simp

lemma next_in_end:
  assumes "cookie_in t c" "to_visit t c = []"
  shows "next_in t c = Ret None"
proof -
  let ?cs = "drop (Suc (c_bucket c)) (t_buckets t)"
  obtain k where k: "skip_empty (Suc (c_bucket c)) ?cs = Suc (c_bucket c) + k" "k \<le> length ?cs"
    "concat (List.map chain_list ?cs) = concat (List.map chain_list (drop k ?cs))" "k < length ?cs \<longrightarrow> chain_list (?cs ! k) \<noteq> []"
    using skip_empty_spec [of ?cs "Suc (c_bucket c)"] by blast
  from assms(2) have e: "concat (List.map chain_list ?cs) = []" "length (chain_list (t_buckets t ! c_bucket c)) \<le> c_offset c"
    by (simp_all add: to_visit_def)
  have "\<not> k < length ?cs"
  proof
    assume less: "k < length ?cs"
    then have "?cs ! k \<in> set ?cs" by (rule nth_mem)
    moreover from less k(4) have "chain_list (?cs ! k) \<noteq> []" by blast
    ultimately have "\<exists>x \<in> set ?cs. chain_list x \<noteq> []" by (rule bexI [rotated])
    with e(1) show False by (simp only: concat_eq_Nil_conv set_map) blast
  qed
  then have "num_buckets t \<le> Suc (c_bucket c) + k" using k(2) by (simp add: num_buckets_def)
  with assms(1) e(2) k(1) show ?thesis by (simp add: next_in_def cookie_in_def Let_def)
qed

lemma next_in_more:
  assumes "cookie_in t c" "to_visit t c = e # es"
  shows "\<exists>b off. next_in t c = Ret (Some (e, c\<lparr>c_bucket := b, c_offset := off\<rparr>)) \<and> c_bucket c \<le> b \<and>
    cookie_in t (c\<lparr>c_bucket := b, c_offset := off\<rparr>) \<and> to_visit t (c\<lparr>c_bucket := b, c_offset := off\<rparr>) = es"
proof (cases "c_offset c < length (chain_list (t_buckets t ! c_bucket c))")
  case True
  show ?thesis
    by (rule exI [of _ "c_bucket c"], rule exI [of _ "Suc (c_offset c)"])
       (use assms True in \<open>simp add: next_in_def cookie_in_def Let_def to_visit_def Cons_nth_drop_Suc [symmetric]\<close>)
next
  case False
  let ?cs = "drop (Suc (c_bucket c)) (t_buckets t)"
  obtain k where k: "skip_empty (Suc (c_bucket c)) ?cs = Suc (c_bucket c) + k" "k \<le> length ?cs"
    "concat (List.map chain_list ?cs) = concat (List.map chain_list (drop k ?cs))" "k < length ?cs \<longrightarrow> chain_list (?cs ! k) \<noteq> []"
    using skip_empty_spec [of ?cs "Suc (c_bucket c)"] by blast
  define b where "b = Suc (c_bucket c) + k"
  from False assms(2) k(3) have v: "concat (List.map chain_list (drop k ?cs)) = e # es" by (simp add: to_visit_def)
  then have "k < length ?cs" by (cases "k < length ?cs") auto
  then have b: "b < num_buckets t" "chain_list (t_buckets t ! b) \<noteq> []" using k(4) by (auto simp: num_buckets_def b_def)
  have less: "c_bucket c \<le> b" by (simp add: b_def)
  have "drop k ?cs = drop b (t_buckets t)" by (simp add: b_def add.commute)
  also have "\<dots> = t_buckets t ! b # drop (Suc b) (t_buckets t)" using b(1) by (simp add: num_buckets_def Cons_nth_drop_Suc)
  finally have "concat (List.map chain_list (drop k ?cs)) = chain_list (t_buckets t ! b) @ concat (List.map chain_list (drop (Suc b) (t_buckets t)))"
    by (simp only: list.map concat.simps)
  with v b obtain xs where ch: "chain_list (t_buckets t ! b) = e # xs" and es: "es = xs @ concat (List.map chain_list (drop (Suc b) (t_buckets t)))"
    by (cases "chain_list (t_buckets t ! b)") auto
  show ?thesis
    by (rule exI [of _ b], rule exI [of _ 1])
       (use assms(1) False b ch es k(1) [folded b_def] less in \<open>simp add: next_in_def cookie_in_def Let_def to_visit_def\<close>)
qed

text \<open>A cookie in the first table also has the second one before it.\<close>

definition new_entries :: "'v Dictionary \<Rightarrow> 'v DictEntry list" where
  "new_entries d = (case tbl2 d of None \<Rightarrow> [] | Some t2 \<Rightarrow> table_entries t2)"

definition pending :: "'v Dictionary \<Rightarrow> IterCookie \<Rightarrow> 'v DictEntry list" where
  "pending d c =
     (if c_ttbl c = None \<or> c_ttbl c = Some (t_id (tbl d)) then to_visit (tbl d) c @ new_entries d
      else case tbl2 d of None \<Rightarrow> [] | Some t2 \<Rightarrow> to_visit t2 c)"

definition cookie_ok :: "'v Dictionary \<Rightarrow> IterCookie \<Rightarrow> bool" where
  "cookie_ok d c \<longleftrightarrow>
     (if c_ttbl c = None \<or> c_ttbl c = Some (t_id (tbl d)) then cookie_in (tbl d) c
      else \<exists>t2. tbl2 d = Some t2 \<and> c_ttbl c = Some (t_id t2) \<and> cookie_in t2 c)"

lemma cookie_in_ttbl [simp]:
  "cookie_in t (c\<lparr>c_ttbl := x\<rparr>) = cookie_in t c" "to_visit t (c\<lparr>c_ttbl := x\<rparr>) = to_visit t c"
  by (simp_all add: cookie_in_def to_visit_def)

lemma set_cookie_tables [simp]:
  "cookie_ok (set_cookie a c d) = cookie_ok d" "pending (set_cookie a c d) = pending d"
  "dict_entries (set_cookie a c d) = dict_entries d" "ids_ok (set_cookie a c d) \<longleftrightarrow> ids_ok (d\<lparr>cookie_heap := AList.update a c (cookie_heap d)\<rparr>)"
  by (auto simp: fun_eq_iff cookie_ok_def pending_def set_cookie_def new_entries_def dict_entries_def)

text \<open>The look into the second table, when the first one has no more.\<close>

lemma next_in_new:
  assumes "tbl2 d = Some t2" "table_ok t2" "t_id t2 \<noteq> t_id (tbl d)"
    and c2: "c2 = c\<lparr>c_ttbl := Some (t_id t2), c_bucket := 0, c_offset := 0\<rparr>"
  shows "case new_entries d of
      [] \<Rightarrow> next_in t2 c2 = Ret None
    | e # es \<Rightarrow> \<exists>c'. next_in t2 c2 = Ret (Some (e, c')) \<and> cookie_ok d c' \<and> pending d c' = es \<and> c_inserted c' = c_inserted c"
proof -
  have ok: "cookie_in t2 c2" using assms(2) by (simp add: cookie_in_def c2 table_ok_def)
  have v: "to_visit t2 c2 = new_entries d" using assms(1,2) by (simp add: to_visit_start c2 table_ok_def new_entries_def)
  show ?thesis
  proof (cases "new_entries d")
    case Nil
    with next_in_end [OF ok] v show ?thesis by simp
  next
    case (Cons e es)
    with next_in_more [OF ok] v obtain b off where "next_in t2 c2 = Ret (Some (e, c2\<lparr>c_bucket := b, c_offset := off\<rparr>))"
      "cookie_in t2 (c2\<lparr>c_bucket := b, c_offset := off\<rparr>)" "to_visit t2 (c2\<lparr>c_bucket := b, c_offset := off\<rparr>) = es" by fastforce
    with assms Cons show ?thesis by (auto simp: cookie_ok_def pending_def)
  qed
qed

lemma NextEntry_pending:
  assumes c: "map_of (cookie_heap d) a = Some c" "c_inserted c = []" "cookie_ok d c"
    and d: "shape d" "ids_ok d"
  shows "case pending d c of
      [] \<Rightarrow> dict_NextEntry a d = Ret (None, end_iteration a d)
    | e # es \<Rightarrow> \<exists>c'. dict_NextEntry a d = Ret (Some e, set_cookie a c' d) \<and> cookie_ok d c' \<and> pending d c' = es \<and> c_inserted c' = [] \<and>
        (tbl2 d = None \<longrightarrow> c_bucket c \<le> c_bucket c')"
proof (cases "c_ttbl c = None \<or> c_ttbl c = Some (t_id (tbl d))")
  case True
  define c1 where "c1 = (if c_ttbl c = None then c\<lparr>c_ttbl := Some (t_id (tbl d))\<rparr> else c)"
  with True have tt: "c_ttbl c1 = Some (t_id (tbl d))" and c1: "c_inserted c1 = []" "c_bucket c1 = c_bucket c"
    and ok: "cookie_in (tbl d) c1" and p: "pending d c = to_visit (tbl d) c1 @ new_entries d"
    using c by (auto simp: cookie_ok_def pending_def)
  have nx: "dict_NextEntry a d = run_bind (next_in (tbl d) c1) (\<lambda>r. case r of
      Some (e, c) \<Rightarrow> Ret (Some e, set_cookie a c d)
    | None \<Rightarrow> (case tbl2 d of None \<Rightarrow> Ret (None, end_iteration a d)
        | Some t2 \<Rightarrow> run_bind (next_in t2 (c1\<lparr>c_ttbl := Some (t_id t2), c_bucket := 0, c_offset := 0\<rparr>)) (\<lambda>r. case r of
            Some (e, c) \<Rightarrow> Ret (Some e, set_cookie a c d) | None \<Rightarrow> Ret (None, end_iteration a d))))"
    using c(1,2) tt unfolding dict_NextEntry_def by (simp add: c1_def [symmetric] table_named_def)
  show ?thesis
  proof (cases "to_visit (tbl d) c1")
    case (Cons e es)
    from next_in_more [OF ok Cons] obtain b off where "next_in (tbl d) c1 = Ret (Some (e, c1\<lparr>c_bucket := b, c_offset := off\<rparr>))"
      "c_bucket c1 \<le> b" "cookie_in (tbl d) (c1\<lparr>c_bucket := b, c_offset := off\<rparr>)" "to_visit (tbl d) (c1\<lparr>c_bucket := b, c_offset := off\<rparr>) = es"
      by blast
    with nx p Cons tt c1 show ?thesis by (auto simp: cookie_ok_def pending_def)
  next
    case Nil
    note e = next_in_end [OF ok Nil]
    show ?thesis
    proof (cases "tbl2 d")
      case None
      with nx e p Nil show ?thesis by (simp add: new_entries_def)
    next
      case (Some t2)
      with d have "table_ok t2" "t_id t2 \<noteq> t_id (tbl d)" by (auto simp: shape_def ids_ok_def)
      from next_in_new [OF Some this refl, of c1] nx e p Nil Some c1 show ?thesis by (auto split: list.splits)
    qed
  qed
next
  case False
  with c(3) obtain t2 where t2: "tbl2 d = Some t2" "c_ttbl c = Some (t_id t2)" and ok: "cookie_in t2 c" by (auto simp: cookie_ok_def)
  have p: "pending d c = to_visit t2 c" using False t2 by (simp add: pending_def)
  have nx: "dict_NextEntry a d = run_bind (next_in t2 c) (\<lambda>r. case r of
      Some (e, c) \<Rightarrow> Ret (Some e, set_cookie a c d) | None \<Rightarrow> Ret (None, end_iteration a d))"
    using c(1,2) t2 False unfolding dict_NextEntry_def by (simp add: table_named_def)
  show ?thesis
  proof (cases "to_visit t2 c")
    case (Cons e es)
    from next_in_more [OF ok Cons] obtain b off where "next_in t2 c = Ret (Some (e, c\<lparr>c_bucket := b, c_offset := off\<rparr>))"
      "cookie_in t2 (c\<lparr>c_bucket := b, c_offset := off\<rparr>)" "to_visit t2 (c\<lparr>c_bucket := b, c_offset := off\<rparr>) = es"
      by blast
    with nx p Cons t2 False c(2) show ?thesis by (auto simp: cookie_ok_def pending_def)
  next
    case Nil
    with next_in_end [OF ok Nil] nx p show ?thesis by simp
  qed
qed

section \<open>Iteration with no changes\<close>

lemma delete_update: "AList.delete a (AList.update a c heap) = AList.delete a heap"
  by (induction heap) (auto simp: AList.delete_eq)

lemma end_iteration_set_cookie [simp]: "end_iteration a (set_cookie a c d) = end_iteration a d"
  by (simp add: end_iteration_def set_cookie_def delete_update)

lemma shape_set_cookie [simp]: "shape (set_cookie a c d) = shape d"
  by (simp add: set_cookie_def)

lemma map_of_set_cookie [simp]: "map_of (cookie_heap (set_cookie a c d)) a = Some c"
  by (simp add: set_cookie_def update_conv)

lemma ids_ok_set_cookie: "map_of (cookie_heap d) a = Some c0 \<Longrightarrow> ids_ok d \<Longrightarrow> ids_ok (set_cookie a c d)"
  by (simp add: set_cookie_def ids_ok_heap dom_update insert_absorb map_of_SomeD rev_image_eqI [of "(a, c0)"])

lemma iteration_pending:
  assumes "map_of (cookie_heap d) a = Some c" "c_inserted c = []" "cookie_ok d c" "shape d" "ids_ok d"
  shows "run_ops (\<lambda>_. dict_NextEntry a) (replicate (Suc (length (pending d c))) ()) d
    = Ret (List.map Some (pending d c) @ [None], end_iteration a d)"
  using assms
proof (induction "length (pending d c)" arbitrary: c d)
  case 0
  then have "pending d c = []" by simp
  with NextEntry_pending [OF 0(2-6)] show ?case by simp
next
  case (Suc n)
  then obtain e es where p: "pending d c = e # es" "length es = n" by (cases "pending d c") auto
  from NextEntry_pending [OF Suc(3-7)] obtain c' where c': "dict_NextEntry a d = Ret (Some e, set_cookie a c' d)"
    "cookie_ok d c'" "pending d c' = es" "c_inserted c' = []" unfolding p list.case by blast
  let ?d = "set_cookie a c' d"
  have d': "pending ?d c' = es" "cookie_ok ?d c'" "shape ?d" "ids_ok ?d"
    using c' Suc(6) ids_ok_set_cookie [OF Suc(3,7)] by simp_all
  have "run_ops (\<lambda>_. dict_NextEntry a) (replicate (Suc (length (pending ?d c'))) ()) ?d
      = Ret (List.map Some (pending ?d c') @ [None], end_iteration a ?d)"
    by (rule Suc(1) [OF _ map_of_set_cookie c'(4) d'(2-4)]) (simp add: c'(3) p(2))
  then have "run_ops (\<lambda>_. dict_NextEntry a) (replicate (Suc (length es)) ()) ?d = Ret (List.map Some es @ [None], end_iteration a d)"
    unfolding d'(1) end_iteration_set_cookie .
  then show ?case unfolding p(1) length_Cons replicate_Suc [of "Suc (length es)"] run_ops.simps(2) c'(1) run_bind.simps prod.case
    by (simp only: run_bind.simps prod.case list.map append_Cons)
qed

lemma InitForIteration_ok:
  assumes wf: "dict_wf d" and init: "InitForIteration d = (a, d1)"
  shows "map_of (cookie_heap d1) a = Some \<lparr>c_bucket = 0, c_offset = 0, c_ttbl = None, c_inserted = []\<rparr> \<and> dict_wf d1 \<and>
    tbl d1 = tbl d \<and> tbl2 d1 = tbl2 d \<and> d_cookies d1 = d_cookies d \<and>
    cookie_ok d1 \<lparr>c_bucket = 0, c_offset = 0, c_ttbl = None, c_inserted = []\<rparr> \<and>
    pending d1 \<lparr>c_bucket = 0, c_offset = 0, c_ttbl = None, c_inserted = []\<rparr> = dict_entries d \<and>
    end_iteration a d1 = d\<lparr>d_next_addr := Suc (d_next_addr d)\<rparr>"
proof -
  from init have a: "a = d_next_addr d" and d1: "d1 = d\<lparr>cookie_heap := (a, \<lparr>c_bucket = 0, c_offset = 0, c_ttbl = None, c_inserted = []\<rparr>) # cookie_heap d,
      d_next_addr := Suc (d_next_addr d)\<rparr>" by (auto simp: InitForIteration_def)
  from wf have keys: "fst ` set (cookie_heap d) \<subseteq> {..<a}" by (simp add: dict_wf_def ids_ok_def a)
  then have "a \<notin> fst ` set (cookie_heap d)" by (metis lessThan_iff less_irrefl subsetD)
  moreover from this dict_wf_live [OF wf] have "a \<notin> set (d_cookies d)" by blast
  moreover from calculation have "AList.delete a (cookie_heap d) = cookie_heap d" by (simp add: AList.delete_idem)
  ultimately have "end_iteration a d1 = d\<lparr>d_next_addr := Suc (d_next_addr d)\<rparr>"
    by (cases d) (simp add: end_iteration_def d1 remove1_idem)
  moreover have "table_ok (tbl d)" using wf by (auto simp: dict_wf_def dict_rep_def settled_def shape_def)
  then have "0 < num_buckets (tbl d)" by (simp add: table_ok_def)
  moreover have "dict_wf d1" using call_Init [OF init] wf by (rule dict_call_wf)
  ultimately show ?thesis
    by (simp add: d1 cookie_ok_def cookie_in_def pending_def to_visit_start new_entries_def dict_entries_def)
qed


definition example_empty :: "nat Dictionary" where
  "example_empty = the (new_Dictionary True 1)"

definition example_one :: "nat Dictionary" where
  "example_one = (case dict_Insert [1] 7 (Some 5) example_empty of Some (Ret (_, d)) \<Rightarrow> d | _ \<Rightarrow> example_empty)"

lemma example_new: "new_Dictionary True 1 = Some example_empty"
  by code_simp

lemma example_reachable: "dict_call\<^sup>*\<^sup>* example_empty example_one"
proof (rule r_into_rtranclp, rule call_Insert)
  show "dict_Insert [1] 7 (Some 5) example_empty = Some (Ret (None, example_one))" by code_simp
qed


text \<open>C21. In every reachable state an iteration with no changes gives every entry of both tables once, in the order of
  the buckets, then null; it leaves the dictionary as it was, and its cookie is freed.
\<close>

theorem iteration_visits_every_entry:
  assumes "new_Dictionary ordered sz = Some d0" "dict_call\<^sup>*\<^sup>* d0 d" and init: "InitForIteration d = (a, d1)"
  shows "run_ops (\<lambda>_. dict_NextEntry a) (replicate (Suc (length (dict_entries d))) ()) d1
    = Ret (List.map Some (dict_entries d) @ [None], d\<lparr>d_next_addr := Suc (d_next_addr d)\<rparr>)"
proof -
  have wf: "dict_wf d" using dict_reachable_wf [OF assms(2,1)] .
  note i = InitForIteration_ok [OF wf init]
  then have "shape d1" "ids_ok d1" by (auto simp: dict_wf_def dict_rep_def settled_def)
  with iteration_pending [of d1 a "\<lparr>c_bucket = 0, c_offset = 0, c_ttbl = None, c_inserted = []\<rparr>"] i show ?thesis by simp
qed

theorem iteration_visits_every_entry_witness:
  "List.map e_value (dict_entries example_one) = [Some 5] \<and>
   run_ops (\<lambda>_. dict_NextEntry (fst (InitForIteration example_one))) (replicate 2 ()) (snd (InitForIteration example_one))
     = Ret (List.map Some (dict_entries example_one) @ [None], example_one\<lparr>d_next_addr := Suc (d_next_addr example_one)\<rparr>)"
proof -
  have "List.map e_value (dict_entries example_one) = [Some 5]" by code_simp
  moreover from this have "length (dict_entries example_one) = 1" using length_map [of e_value "dict_entries example_one"] by simp
  moreover note iteration_visits_every_entry [OF example_new example_reachable surjective_pairing]
  ultimately show ?thesis by (simp add: numeral_2_eq_2)
qed

end
