(* ===== verification/Bro_Dict_Robust.thy ===== *)
theory Bro_Dict_Robust
  imports Bro_Dict_Iter
begin

text \<open>
  Iteration with a robust cookie (\<^verbatim>\<open>MakeRobustCookie\<close>) while entries are inserted and removed.  \<^verbatim>\<open>Dict.h\<close>
  promises that all entries are visited that were there, or were added, and not removed.  That holds while there is
  one table; during a resize the old table's bucket number is compared with a position in the new table, and an
  entry can be missed.
\<close>

section \<open>Positions in rows of addresses\<close>

definition row_rest :: "'a list list \<Rightarrow> nat \<Rightarrow> nat \<Rightarrow> 'a list" where
  "row_rest rows b off = drop off (rows ! b) @ concat (drop (Suc b) rows)"

lemma set_concat_nth: "x \<in> set (concat rows) \<longleftrightarrow> (\<exists>h < length rows. x \<in> set (rows ! h))"
  by (simp add: set_conv_nth [of rows]) blast

lemma set_concat_drop: "x \<in> set (concat (drop n rows)) \<longleftrightarrow> (\<exists>h < length rows. n \<le> h \<and> x \<in> set (rows ! h))"
proof
  assume "x \<in> set (concat (drop n rows))"
  then obtain k where "k < length rows - n" "x \<in> set (rows ! (n + k))" unfolding set_concat_nth by auto
  then show "\<exists>h < length rows. n \<le> h \<and> x \<in> set (rows ! h)" by (intro exI [of _ "n + k"]) simp
next
  assume "\<exists>h < length rows. n \<le> h \<and> x \<in> set (rows ! h)"
  then obtain h where h: "h < length rows" "n \<le> h" "x \<in> set (rows ! h)" by blast
  then have "drop n rows ! (h - n) = rows ! h" "h - n < length (drop n rows)" by simp_all
  with h(3) show "x \<in> set (concat (drop n rows))" unfolding set_concat_nth by metis
qed

lemma set_row_rest:
  "x \<in> set (row_rest rows b off) \<longleftrightarrow> x \<in> set (drop off (rows ! b)) \<or> (\<exists>h < length rows. b < h \<and> x \<in> set (rows ! h))"
  using set_concat_drop [of x "Suc b" rows] by (simp add: row_rest_def Suc_le_eq del: set_concat)

lemma mset_concat_row: "h < length rows \<Longrightarrow> mset (concat (rows[h := r])) + mset (rows ! h) = mset (concat rows) + mset r"
  using mset_concat_update [of h rows "\<lambda>x. x" r] by simp

lemma row_append_concat:
  assumes "h < length rows"
  shows "mset (concat (rows[h := rows ! h @ [x]])) = add_mset x (mset (concat rows))"
  using mset_concat_row [OF assms, of "rows ! h @ [x]"] by simp

lemma row_append_rest:
  assumes "b < length rows" "off \<le> length (rows ! b)" "h < length rows"
  shows "set (row_rest rows b off) \<subseteq> set (row_rest (rows[h := rows ! h @ [x]]) b off)"
    and "\<not> h < b \<Longrightarrow> x \<in> set (row_rest (rows[h := rows ! h @ [x]]) b off)"
proof -
  show "set (row_rest rows b off) \<subseteq> set (row_rest (rows[h := rows ! h @ [x]]) b off)"
  proof
    fix y assume "y \<in> set (row_rest rows b off)"
    with assms show "y \<in> set (row_rest (rows[h := rows ! h @ [x]]) b off)"
      by (cases "h = b") (auto simp: set_row_rest nth_list_update)
  qed
  show "\<not> h < b \<Longrightarrow> x \<in> set (row_rest (rows[h := rows ! h @ [x]]) b off)"
    using assms by (cases "h = b") (auto simp: set_row_rest nth_list_update)
qed

lemma row_remove_concat:
  assumes "h < length rows" "i < length (rows ! h)"
  shows "add_mset (rows ! h ! i) (mset (concat (rows[h := remove_nth i (rows ! h)]))) = mset (concat rows)"
  using mset_concat_row [OF assms(1), of "remove_nth i (rows ! h)"]
  unfolding remove_nth_mset [OF assms(2), symmetric] by (rule mset_cancel)

lemma remove_nth_keeps: "y \<in> set xs \<Longrightarrow> i < length xs \<Longrightarrow> y \<noteq> xs ! i \<Longrightarrow> y \<in> set (remove_nth i xs)"
  using arg_cong [OF remove_nth_mset [of i xs], of set_mset] by auto

lemma drop_remove_nth:
  "i < length xs \<Longrightarrow> off \<le> i \<Longrightarrow> drop off (remove_nth i xs) = remove_nth (i - off) (drop off xs)"
  "i < length xs \<Longrightarrow> i < off \<Longrightarrow> drop (off - Suc 0) (remove_nth i xs) = drop off xs"
  by (auto simp: remove_nth_def Suc_diff_le add.commute drop_take)

text \<open>The offset that the code computes for a removal in the row of the cookie.\<close>

lemma row_remove_rest:
  assumes "b < length rows" "off \<le> length (rows ! b)" "h < length rows" "i < length (rows ! h)"
    and off': "off' = (if b = h \<and> i < off then off - 1 else off)"
  shows "off' \<le> length (rows[h := remove_nth i (rows ! h)] ! b)"
    and "y \<in> set (row_rest rows b off) \<Longrightarrow> y \<noteq> rows ! h ! i \<Longrightarrow> y \<in> set (row_rest (rows[h := remove_nth i (rows ! h)]) b off')"
proof -
  have len: "length (remove_nth i (rows ! h)) = length (rows ! h) - 1" using assms(4) by (simp add: remove_nth_def)
  show "off' \<le> length (rows[h := remove_nth i (rows ! h)] ! b)"
    using assms by (cases "b = h") (auto simp: len nth_list_update)
  assume y: "y \<in> set (row_rest rows b off)" "y \<noteq> rows ! h ! i"
  have "y \<in> set (drop off' (remove_nth i (rows ! b)))" if "b = h" "y \<in> set (drop off (rows ! b))"
  proof (cases "i < off")
    case True
    with that assms(4) off' show ?thesis by (simp add: drop_remove_nth)
  next
    case False
    with y(2) that assms(4) off' remove_nth_keeps [of y "drop off (rows ! b)" "i - off"] show ?thesis by (simp add: drop_remove_nth)
  qed
  then have *: "y \<in> set (drop off' (rows[h := remove_nth i (rows ! h)] ! b))" if "y \<in> set (drop off (rows ! b))"
    using that assms(3) off' by (cases "b = h") simp_all
  have "y \<in> set (rows[h := remove_nth i (rows ! h)] ! k)" if "y \<in> set (rows ! k)" for k
    using that assms(3) remove_nth_keeps [OF _ assms(4) y(2)] by (cases "k = h") simp_all
  with * y(1) show "y \<in> set (row_rest (rows[h := remove_nth i (rows ! h)]) b off')"
    unfolding set_row_rest length_list_update by blast
qed

section \<open>The invariant of a robust iteration\<close>

definition rows_of :: "'v table \<Rightarrow> nat list list" where
  "rows_of t = List.map (\<lambda>c. List.map e_addr (chain_list c)) (t_buckets t)"

lemma rows_of_simps:
  "length (rows_of t) = num_buckets t" "concat (rows_of t) = List.map e_addr (table_entries t)"
  "b < num_buckets t \<Longrightarrow> rows_of t ! b = List.map e_addr (chain_list (t_buckets t ! b))"
  "rows_of (upd_chain b c t) = (rows_of t)[b := List.map e_addr (chain_list c)]" "rows_of (count_up t) = rows_of t"
  "rows_of (t\<lparr>t_num_entries := k\<rparr>) = rows_of t"
  by (simp_all add: rows_of_def num_buckets_def table_entries_def map_concat comp_def upd_chain_def map_update count_up_def Let_def)

lemma row_rest_to_visit:
  "c_bucket c < num_buckets t \<Longrightarrow> row_rest (rows_of t) (c_bucket c) (c_offset c) = List.map e_addr (to_visit t c)"
  by (simp add: row_rest_def to_visit_def rows_of_simps drop_map [symmetric] map_concat)
     (simp add: rows_of_def drop_map comp_def)

text \<open>
  \<open>seen\<close> holds the addresses of the entries that the iteration gave out.  An entry that is in the table was seen,
  or is in the cookie's list, in a row that was passed, or is still before the cookie.
\<close>

definition robust_rows :: "nat list list \<Rightarrow> IterCookie \<Rightarrow> nat list \<Rightarrow> bool" where
  "robust_rows rows c seen \<longleftrightarrow>
     c_bucket c < length rows \<and> c_offset c \<le> length (rows ! c_bucket c) \<and> distinct (c_inserted c) \<and>
     (\<forall>x \<in> set (c_inserted c). \<exists>h < c_bucket c. x \<in> set (rows ! h)) \<and>
     (\<forall>x \<in> set (concat rows). x \<in> set seen \<or> x \<in> set (c_inserted c) \<or> x \<in> set (row_rest rows (c_bucket c) (c_offset c)))"

lemma robust_rows_append:
  assumes "robust_rows rows c seen" "h < length rows" "x \<notin> set (concat rows)"
    and c': "c' = (if h < c_bucket c then c\<lparr>c_inserted := c_inserted c @ [x]\<rparr> else c)"
  shows "robust_rows (rows[h := rows ! h @ [x]]) c' seen"
proof -
  let ?r = "rows[h := rows ! h @ [x]]"
  have r: "c_bucket c < length rows" "c_offset c \<le> length (rows ! c_bucket c)" using assms(1) by (simp_all add: robust_rows_def)
  have pos: "c_bucket c' = c_bucket c" "c_offset c' = c_offset c" by (simp_all add: c')
  have "x \<notin> set (c_inserted c)"
  proof
    assume "x \<in> set (c_inserted c)"
    then obtain k where "k < c_bucket c" "x \<in> set (rows ! k)" using assms(1) by (auto simp: robust_rows_def)
    with r assms(3) show False unfolding set_concat_nth by (meson less_trans)
  qed
  then have "distinct (c_inserted c')" using assms(1) by (simp add: c' robust_rows_def)
  moreover have "\<exists>k < c_bucket c. y \<in> set (?r ! k)" if "y \<in> set (c_inserted c')" for y
  proof (cases "y \<in> set (c_inserted c)")
    case True
    then obtain k where "k < c_bucket c" "y \<in> set (rows ! k)" using assms(1) by (auto simp: robust_rows_def)
    then show ?thesis using assms(2) by (intro exI [of _ k]) (auto simp: nth_list_update)
  next
    case False
    with that have "y = x" "h < c_bucket c" by (auto simp: c' split: if_splits)
    then show ?thesis using assms(2) by (intro exI [of _ h]) simp
  qed
  moreover have "y \<in> set seen \<or> y \<in> set (c_inserted c') \<or> y \<in> set (row_rest ?r (c_bucket c) (c_offset c))"
    if "y \<in> set (concat ?r)" for y
  proof -
    from that have "y = x \<or> y \<in> set (concat rows)" using row_append_concat [OF assms(2), of x] by (metis insert_iff set_mset_add_mset_insert set_mset_mset)
    then show ?thesis
      using assms(1) row_append_rest [OF r assms(2), of x] by (auto simp: robust_rows_def c' simp del: set_concat)
  qed
  ultimately show ?thesis using r assms(2) by (simp add: robust_rows_def pos nth_list_update del: set_concat)
qed

lemma robust_rows_remove:
  assumes "robust_rows rows c seen" "h < length rows" "i < length (rows ! h)" "distinct (concat rows)"
    and c1: "c1 = (if c_bucket c = h \<and> c_offset c > i then c\<lparr>c_offset := c_offset c - 1\<rparr> else c)"
    and c': "c' = (if c_bucket c1 > h then c1\<lparr>c_inserted := remove1 (rows ! h ! i) (c_inserted c1)\<rparr> else c1)"
  shows "robust_rows (rows[h := remove_nth i (rows ! h)]) c' seen"
proof -
  let ?r = "rows[h := remove_nth i (rows ! h)]"
  let ?x = "rows ! h ! i"
  have r: "c_bucket c < length rows" "c_offset c \<le> length (rows ! c_bucket c)" using assms(1) by (simp_all add: robust_rows_def)
  have pos: "c_bucket c' = c_bucket c" "c_offset c' = (if c_bucket c = h \<and> i < c_offset c then c_offset c - 1 else c_offset c)"
    by (simp_all add: c' c1)
  note rest = row_remove_rest [OF r assms(2,3) pos(2)]
  have ins: "c_inserted c' = (if c_bucket c > h then remove1 ?x (c_inserted c) else c_inserted c)" by (simp add: c' c1)
  have m: "add_mset ?x (mset (concat ?r)) = mset (concat rows)" by (rule row_remove_concat [OF assms(2,3)])
  then have "distinct (?x # concat ?r)" using mset_eq_imp_distinct_iff [of "?x # concat ?r" "concat rows"] assms(4) by simp
  with m have sub: "y \<in> set (concat rows) \<and> y \<noteq> ?x" if "y \<in> set (concat ?r)" for y
    using that by (metis distinct.simps(2) insert_iff set_mset_add_mset_insert set_mset_mset)
  have "\<exists>k < c_bucket c. y \<in> set (?r ! k)" if y: "y \<in> set (c_inserted c')" for y
  proof -
    from y ins have "y \<in> set (c_inserted c)" by (auto split: if_splits dest: notin_set_remove1 [rotated] set_remove1_subset [THEN subsetD])
    then obtain k where k: "k < c_bucket c" "y \<in> set (rows ! k)" using assms(1) by (auto simp: robust_rows_def)
    have "y \<noteq> ?x" if "k = h" using y ins that k(1) assms(1) by (simp add: robust_rows_def)
    then have "y \<in> set (?r ! k)" using k assms(2) remove_nth_keeps [of y "rows ! h" i] assms(3) by (cases "k = h") auto
    with k show ?thesis by blast
  qed
  moreover have "distinct (c_inserted c')" using assms(1) by (simp add: ins robust_rows_def)
  moreover have "y \<in> set seen \<or> y \<in> set (c_inserted c') \<or> y \<in> set (row_rest ?r (c_bucket c') (c_offset c'))"
    if "y \<in> set (concat ?r)" for y
    using sub [OF that] assms(1) rest(2) [of y] by (auto simp: robust_rows_def ins pos(1) simp del: set_concat)
  ultimately show ?thesis using r assms(2) rest(1) by (simp add: robust_rows_def pos(1) del: set_concat)
qed

definition robust_inv :: "nat \<Rightarrow> 'v Dictionary \<Rightarrow> nat list \<Rightarrow> bool" where
  "robust_inv a d seen \<longleftrightarrow> dict_wf d \<and> tbl2 d = None \<and> d_cookies d = [a] \<and>
     (\<exists>c. map_of (cookie_heap d) a = Some c \<and> (c_ttbl c = None \<or> c_ttbl c = Some (t_id (tbl d))) \<and>
        robust_rows (rows_of (tbl d)) c seen)"

lemma chain_list_Some: "chain_list (Some es) = es"
  by (simp add: chain_list_def)

lemma one_table: "tbl2 d = None \<Longrightarrow> moved_table h d = None" "tbl2 d = None \<Longrightarrow> home h d = tbl d"
  "tbl2 d = None \<Longrightarrow> set_home h t d = d\<lparr>tbl := t\<rparr>"
  by (simp_all add: moved_table_def home_def set_home_def)

lemma resize_logic_hold: "tbl2 d = None \<Longrightarrow> d_cookies d \<noteq> [] \<Longrightarrow> resize_logic d = Some (Ret d)"
  by (simp add: resize_logic_def StartChangeSize_def)

lemma dict_wf_table: "dict_wf d \<Longrightarrow> table_ok (tbl d)"
  by (auto simp: dict_wf_def dict_rep_def settled_def shape_def)

lemma dict_wf_addresses:
  assumes "dict_wf d" "tbl2 d = None"
  shows "distinct (concat (rows_of (tbl d)))" and "x \<in> set (concat (rows_of (tbl d))) \<Longrightarrow> x < d_next_addr d"
proof -
  from assms obtain es where rep: "dict_rep d es" by (auto simp: dict_wf_def)
  have e: "dict_entries d = table_entries (tbl d)" using assms(2) by (simp add: dict_entries_def)
  show "distinct (concat (rows_of (tbl d)))"
    using mset_eq_imp_distinct_iff [of "List.map e_addr (dict_entries d)" "List.map e_addr es"] rep
    by (simp add: rows_of_simps e [symmetric] dict_rep_def)
  assume "x \<in> set (concat (rows_of (tbl d)))"
  then obtain y where "y \<in> set (dict_entries d)" "x = e_addr y" unfolding rows_of_simps e by auto
  with rep dict_rep_set [OF rep] show "x < d_next_addr d" by (auto simp: dict_rep_def)
qed

lemma robust_insert:
  assumes inv: "robust_inv a d seen"
  shows "\<exists>old d'. dict_Insert key hash (Some v) d = Some (Ret (old, d')) \<and> robust_inv a d' seen"
proof -
  from inv obtain c where wf: "dict_wf d" and one: "tbl2 d = None" "d_cookies d = [a]" and c: "map_of (cookie_heap d) a = Some c"
    "c_ttbl c = None \<or> c_ttbl c = Some (t_id (tbl d))" "robust_rows (rows_of (tbl d)) c seen" by (auto simp: robust_inv_def)
  from wf obtain es where rep: "dict_rep d es" by (auto simp: dict_wf_def)
  from dict_Insert_rep [OF rep, of "Some v" key hash] obtain old d' where
    i: "dict_Insert key hash (Some v) d = Some (Ret (old, d'))" by auto
  have wf': "dict_wf d'" using call_Insert [OF i] wf by (rule dict_call_wf)
  define h where "h = bucket_of hash (tbl d)"
  have h: "h < length (rows_of (tbl d))" using bucket_of_less [OF dict_wf_table [OF wf]] by (simp add: h_def rows_of_simps)
  define chain where "chain = chain_list (t_buckets (tbl d) ! h)"
  have row: "List.map e_addr chain = rows_of (tbl d) ! h" using h by (simp add: rows_of_simps chain_def)
  show ?thesis
  proof (cases "chain_pos key hash chain")
    case None
    have "d_cookies d' = [a] \<and> tbl2 d' = None \<and> t_id (tbl d') = t_id (tbl d) \<and>
        rows_of (tbl d') = (rows_of (tbl d))[h := rows_of (tbl d) ! h @ [d_next_addr d]] \<and>
        cookie_heap d' = AList.update a (if h < c_bucket c then c\<lparr>c_inserted := c_inserted c @ [d_next_addr d]\<rparr> else c) (cookie_heap d)"
      using i None one c(1) row
      by (auto simp: dict_Insert_def insert_entry_def one_table Let_def h_def [symmetric] chain_def [symmetric] resize_logic_hold
          rows_of_simps chain_list_Some)
    moreover have "d_next_addr d \<notin> set (concat (rows_of (tbl d)))" using dict_wf_addresses(2) [OF wf one(1)] by blast
    from robust_rows_append [OF c(3) h this refl]
    have "robust_rows ((rows_of (tbl d))[h := rows_of (tbl d) ! h @ [d_next_addr d]])
        (if h < c_bucket c then c\<lparr>c_inserted := c_inserted c @ [d_next_addr d]\<rparr> else c) seen" .
    ultimately show ?thesis using i wf' c(2) by (simp add: robust_inv_def update_conv)
  next
    case (Some k)
    have *: "List.map e_addr (chain[k := (chain ! k)\<lparr>e_value := Some v\<rparr>]) = rows_of (tbl d) ! h"
      using chain_pos_Some [OF Some] row by (simp add: map_update) (metis length_map list_update_id nth_map)
    have "d_cookies d' = [a] \<and> tbl2 d' = None \<and> t_id (tbl d') = t_id (tbl d) \<and> cookie_heap d' = cookie_heap d \<and>
        rows_of (tbl d') = (rows_of (tbl d))[h := rows_of (tbl d) ! h]"
      using i Some one *
      by (auto simp: dict_Insert_def insert_entry_def one_table Let_def h_def [symmetric] chain_def [symmetric] resize_logic_hold
          rows_of_simps chain_list_Some split: if_splits)
    with i wf' c show ?thesis by (simp add: robust_inv_def)
  qed
qed

lemma map_e_addr_remove_nth: "List.map e_addr (remove_nth i xs) = remove_nth i (List.map e_addr xs)"
  by (simp add: remove_nth_def take_map drop_map)

lemma robust_remove:
  assumes inv: "robust_inv a d seen"
  shows "\<exists>v d'. dict_Remove key hash d = Ret (v, d') \<and> robust_inv a d' seen"
proof -
  from inv obtain c where wf: "dict_wf d" and one: "tbl2 d = None" "d_cookies d = [a]" and c: "map_of (cookie_heap d) a = Some c"
    "c_ttbl c = None \<or> c_ttbl c = Some (t_id (tbl d))" "robust_rows (rows_of (tbl d)) c seen" by (auto simp: robust_inv_def)
  from wf obtain es where rep: "dict_rep d es" by (auto simp: dict_wf_def)
  from dict_Remove_rep [OF rep, of key hash] obtain v d' where i: "dict_Remove key hash d = Ret (v, d')" by auto
  have wf': "dict_wf d'" using call_Remove [OF i] wf by (rule dict_call_wf)
  define h where "h = bucket_of hash (tbl d)"
  have h: "h < length (rows_of (tbl d))" using bucket_of_less [OF dict_wf_table [OF wf]] by (simp add: h_def rows_of_simps)
  define chain where "chain = chain_list (t_buckets (tbl d) ! h)"
  have row: "List.map e_addr chain = rows_of (tbl d) ! h" using h by (simp add: rows_of_simps chain_def)
  show ?thesis
  proof (cases "chain_pos key hash chain")
    case None
    with i one have "d' = d" by (simp add: dict_Remove_def one_table Let_def h_def [symmetric] chain_def [symmetric])
    with i inv show ?thesis by blast
  next
    case (Some k)
    from chain_pos_Some [OF Some] have k: "k < length chain" by simp
    have x: "e_addr (chain ! k) = rows_of (tbl d) ! h ! k" using k by (simp flip: row)
    define c1 where "c1 = (if c_bucket c = h \<and> c_offset c > k then c\<lparr>c_offset := c_offset c - 1\<rparr> else c)"
    define c' where "c' = (if c_bucket c1 > h then c1\<lparr>c_inserted := remove1 (rows_of (tbl d) ! h ! k) (c_inserted c1)\<rparr> else c1)"
    have "c_ttbl c' = c_ttbl c" by (simp add: c'_def c1_def)
    have "d_cookies d' = [a] \<and> tbl2 d' = None \<and> t_id (tbl d') = t_id (tbl d) \<and>
        rows_of (tbl d') = (rows_of (tbl d))[h := remove_nth k (rows_of (tbl d) ! h)] \<and> cookie_heap d' = AList.update a c' (cookie_heap d)"
      using i Some one c(1) row
      by (auto simp: dict_Remove_def dict_DoRemove_def one_table Let_def h_def [symmetric] chain_def [symmetric] x
          rows_of_simps chain_list_Some map_e_addr_remove_nth c'_def c1_def)
    moreover have "k < length (rows_of (tbl d) ! h)" using k by (simp flip: row)
    from robust_rows_remove [OF c(3) h this dict_wf_addresses(1) [OF wf one(1)] c1_def c'_def]
    have "robust_rows ((rows_of (tbl d))[h := remove_nth k (rows_of (tbl d) ! h)]) c' seen" .
    ultimately show ?thesis using i wf' c(2) \<open>c_ttbl c' = c_ttbl c\<close> by (simp add: robust_inv_def update_conv)
  qed
qed

definition left_over :: "nat \<Rightarrow> 'v Dictionary \<Rightarrow> nat" where
  "left_over a d = (case map_of (cookie_heap d) a of None \<Rightarrow> 0 | Some c \<Rightarrow> length (c_inserted c) + length (to_visit (tbl d) c))"

lemma left_over_set_cookie: "left_over a (set_cookie a c d) = length (c_inserted c) + length (to_visit (tbl d) c)"
  by (simp add: left_over_def) (simp add: set_cookie_def)

text \<open>A call of \<open>NextEntry\<close> gives out an entry of the table, or ends with nothing left.\<close>

lemma robust_next:
  assumes inv: "robust_inv a d seen"
  shows "(\<exists>e d'. dict_NextEntry a d = Ret (Some e, d') \<and> robust_inv a d' (e_addr e # seen) \<and> left_over a d' < left_over a d) \<or>
    (\<exists>d'. dict_NextEntry a d = Ret (None, d') \<and> dict_entries d' = dict_entries d \<and> (\<forall>e \<in> set (dict_entries d). e_addr e \<in> set seen))"
proof -
  from inv obtain c where wf: "dict_wf d" and one: "tbl2 d = None" "d_cookies d = [a]" and c: "map_of (cookie_heap d) a = Some c"
    "c_ttbl c = None \<or> c_ttbl c = Some (t_id (tbl d))" "robust_rows (rows_of (tbl d)) c seen" by (auto simp: robust_inv_def)
  have ent: "dict_entries d = table_entries (tbl d)" using one by (simp add: dict_entries_def)
  have wf': "dict_wf (set_cookie a c' d)" for c' using dict_wf_set_cookie [OF wf] c(1) by simp
  have heap: "robust_inv a (set_cookie a c' d) s \<longleftrightarrow>
      (c_ttbl c' = None \<or> c_ttbl c' = Some (t_id (tbl d))) \<and> robust_rows (rows_of (tbl d)) c' s" for c' s
    using wf' one by (simp add: robust_inv_def) (simp add: set_cookie_def update_conv)
  show ?thesis
  proof (cases "c_inserted c")
    case Nil
    have rows: "c_bucket c < num_buckets (tbl d)" "c_offset c \<le> length (chain_list (t_buckets (tbl d) ! c_bucket c))"
      using c(3) by (auto simp: robust_rows_def rows_of_simps)
    then have ok: "cookie_ok d c" using c(2) by (simp add: cookie_ok_def cookie_in_def)
    have p: "pending d c = to_visit (tbl d) c" using c(2) one(1) by (simp add: pending_def new_entries_def)
    have s: "shape d" "ids_ok d" using wf by (auto simp: dict_wf_def dict_rep_def settled_def)
    have seen: "e_addr e \<in> set seen \<or> e_addr e \<in> e_addr ` set (pending d c)" if "e \<in> set (dict_entries d)" for e
      using c(3) that unfolding robust_rows_def row_rest_to_visit [OF rows(1)] rows_of_simps p ent Nil by auto
    show ?thesis
    proof (cases "pending d c")
      case Nil
      with NextEntry_pending [OF c(1) \<open>c_inserted c = []\<close> ok s] seen show ?thesis
        by (auto simp: end_iteration_def dict_entries_def)
    next
      case (Cons e es)
      from NextEntry_pending [OF c(1) \<open>c_inserted c = []\<close> ok s] obtain c' where nx: "dict_NextEntry a d = Ret (Some e, set_cookie a c' d)"
        and c': "cookie_ok d c'" "pending d c' = es" "c_inserted c' = []" unfolding Cons list.case by blast
      have t: "c_ttbl c' = None \<or> c_ttbl c' = Some (t_id (tbl d))" "cookie_in (tbl d) c'" using c'(1) one(1) by (auto simp: cookie_ok_def split: if_splits)
      then have es: "to_visit (tbl d) c' = es" using c'(2) one(1) by (simp add: pending_def new_entries_def)
      have b: "c_bucket c' < num_buckets (tbl d)" using t(2) by (simp add: cookie_in_def)
      have "robust_rows (rows_of (tbl d)) c' (e_addr e # seen)"
        using t(2) seen unfolding robust_rows_def row_rest_to_visit [OF b] es rows_of_simps(1,2) Cons
        by (auto simp: cookie_in_def rows_of_simps c'(3) ent)
      moreover have "left_over a (set_cookie a c' d) < left_over a d"
        using c(1) es c'(3) arg_cong [OF Cons, of length] by (simp add: left_over_set_cookie p) (simp add: left_over_def)
      ultimately show ?thesis using nx heap t(1) by blast
    qed
  next
    case (Cons x xs)
    define y where "y = last (c_inserted c)"
    have y: "y \<in> set (c_inserted c)" and split: "c_inserted c = butlast (c_inserted c) @ [y]" using Cons by (simp_all add: y_def)
    then obtain k where "k < c_bucket c" "y \<in> set (rows_of (tbl d) ! k)" using c(3) by (auto simp: robust_rows_def)
    then have "y \<in> set (concat (rows_of (tbl d)))" using c(3) unfolding set_concat_nth robust_rows_def by (meson less_trans)
    then obtain e where e: "e \<in> set (dict_entries d)" "e_addr e = y" unfolding rows_of_simps ent by auto
    from wf obtain es where rep: "dict_rep d es" by (auto simp: dict_wf_def)
    with e deref_rep [OF rep, of e] have "deref y d = Ret e" by (simp add: dict_rep_set [OF rep])
    with c(1) Cons have nx: "dict_NextEntry a d = Ret (Some e, set_cookie a (c\<lparr>c_inserted := butlast (c_inserted c)\<rparr>) d)"
      unfolding dict_NextEntry_def by (simp add: y_def)
    have "distinct (butlast (c_inserted c) @ [y])" using c(3) split by (metis robust_rows_def)
    moreover have sets: "set (c_inserted c) = insert y (set (butlast (c_inserted c)))" using split by (metis list.simps(15) rotate1.simps(2) set_rotate1)
    ultimately have "robust_rows (rows_of (tbl d)) (c\<lparr>c_inserted := butlast (c_inserted c)\<rparr>) (e_addr e # seen)"
      using c(3) e(2) unfolding robust_rows_def sets by auto
    moreover have "left_over a (set_cookie a (c\<lparr>c_inserted := butlast (c_inserted c)\<rparr>) d) < left_over a d"
      using c(1) Cons by (simp add: left_over_set_cookie) (simp add: left_over_def to_visit_def)
    ultimately show ?thesis using nx heap c(2) by auto
  qed
qed

section \<open>Iterations with changes\<close>

datatype 'v robust_op = RInsert bytes u64 'v | RRemove bytes u64 | RNext

text \<open>The iteration is over when \<open>NextEntry\<close> gives null; \<open>seen\<close> has the addresses it gave out.\<close>

fun robust_run :: "nat \<Rightarrow> 'v robust_op list \<Rightarrow> 'v Dictionary \<Rightarrow> nat list \<Rightarrow> (bool \<times> nat list \<times> 'v Dictionary) run" where
  "robust_run a [] d seen = Ret (False, seen, d)"
| "robust_run a (RInsert key hash v # ops) d seen =
     (case dict_Insert key hash (Some v) d of
        None \<Rightarrow> Blocked
      | Some r \<Rightarrow> run_bind r (\<lambda>(_, d). robust_run a ops d seen))"
| "robust_run a (RRemove key hash # ops) d seen = run_bind (dict_Remove key hash d) (\<lambda>(_, d). robust_run a ops d seen)"
| "robust_run a (RNext # ops) d seen =
     run_bind (dict_NextEntry a d) (\<lambda>(e, d).
       case e of
         None \<Rightarrow> Ret (True, seen, d)
       | Some e \<Rightarrow> robust_run a ops d (e_addr e # seen))"

lemma robust_finish:
  assumes "robust_inv a d seen"
  shows "\<exists>n seen' d'. robust_run a (replicate n RNext) d seen = Ret (True, seen', d') \<and> (\<forall>e \<in> set (dict_entries d'). e_addr e \<in> set seen')"
  using assms
proof (induction "left_over a d" arbitrary: d seen rule: less_induct)
  case less
  from robust_next [OF less(2)] show ?case
  proof (elim disjE exE conjE)
    fix e d' assume nx: "dict_NextEntry a d = Ret (Some e, d')" and "robust_inv a d' (e_addr e # seen)" "left_over a d' < left_over a d"
    from less(1) [OF this(3,2)] obtain n seen' d'' where
      "robust_run a (replicate n RNext) d' (e_addr e # seen) = Ret (True, seen', d'')" "\<forall>e \<in> set (dict_entries d''). e_addr e \<in> set seen'" by blast
    with nx show ?thesis by (intro exI [of _ "Suc n"]) auto
  next
    fix d' assume "dict_NextEntry a d = Ret (None, d')" "dict_entries d' = dict_entries d" "\<forall>e \<in> set (dict_entries d). e_addr e \<in> set seen"
    then show ?thesis by (intro exI [of _ "Suc 0"]) auto
  qed
qed

lemma robust_run_complete:
  "robust_inv a d seen \<Longrightarrow> \<exists>n seen' d'. robust_run a (ops @ replicate n RNext) d seen = Ret (True, seen', d') \<and>
     (\<forall>e \<in> set (dict_entries d'). e_addr e \<in> set seen')"
proof (induction ops arbitrary: d seen)
  case Nil
  then show ?case using robust_finish by simp
next
  case (Cons op ops)
  show ?case
  proof (cases op)
    case (RInsert key hash v)
    with robust_insert [OF Cons(2), of key hash v] Cons(1) show ?thesis by fastforce
  next
    case (RRemove key hash)
    with robust_remove [OF Cons(2), of key hash] Cons(1) show ?thesis by fastforce
  next
    case RNext
    with robust_next [OF Cons(2)] Cons(1) show ?thesis by fastforce
  qed
qed

lemma robust_start:
  assumes wf: "dict_wf d" and one: "tbl2 d = None" "d_cookies d = []" and init: "InitForIteration d = (a, d1)"
  shows "robust_inv a (MakeRobustCookie a d1) []"
proof -
  from InitForIteration_ok [OF wf init] have c: "map_of (cookie_heap d1) a = Some \<lparr>c_bucket = 0, c_offset = 0, c_ttbl = None, c_inserted = []\<rparr>"
    and d1: "dict_wf d1" "tbl2 d1 = None" "d_cookies d1 = []" using one by simp_all
  have "dict_wf (MakeRobustCookie a d1)" using c d1 by (intro dict_call_wf [OF call_Robust d1(1)]) simp_all
  moreover have "0 < num_buckets (tbl d1)" using dict_wf_table [OF d1(1)] by (simp add: table_ok_def)
  then have "robust_rows (rows_of (tbl d1)) \<lparr>c_bucket = 0, c_offset = 0, c_ttbl = None, c_inserted = []\<rparr> []"
    using row_rest_to_visit [of "\<lparr>c_bucket = 0, c_offset = 0, c_ttbl = None, c_inserted = []\<rparr>" "tbl d1"]
    by (simp add: robust_rows_def rows_of_simps to_visit_start del: set_concat)
  ultimately show ?thesis using c d1 by (simp add: robust_inv_def MakeRobustCookie_def)
qed

text \<open>C22. A robust iteration that starts in a reachable state with one table and no other robust cookie: whatever
  is inserted and removed between its calls, nothing undefined happens, enough calls of \<open>NextEntry\<close> end it, and
  then every entry of the dictionary was given out, as \<^verbatim>\<open>Dict.h\<close> promises.
\<close>

theorem robust_iteration_misses_nothing:
  assumes "new_Dictionary ordered sz = Some d0" "dict_call\<^sup>*\<^sup>* d0 d"
    and "tbl2 d = None" "d_cookies d = []" "InitForIteration d = (a, d1)"
  shows "\<exists>n seen d'. robust_run a (ops @ replicate n RNext) (MakeRobustCookie a d1) [] = Ret (True, seen, d') \<and>
    (\<forall>e \<in> set (dict_entries d'). e_addr e \<in> set seen)"
  by (rule robust_run_complete [OF robust_start [OF dict_reachable_wf [OF assms(2,1)] assms(3-5)]])

theorem robust_iteration_misses_nothing_witness:
  "\<exists>n seen d'. robust_run (fst (InitForIteration example_one)) ([RInsert [2] 9 4, RRemove [1] 7] @ replicate n RNext)
      (MakeRobustCookie (fst (InitForIteration example_one)) (snd (InitForIteration example_one))) [] = Ret (True, seen, d') \<and>
    (\<forall>e \<in> set (dict_entries d'). e_addr e \<in> set seen)"
proof (rule robust_iteration_misses_nothing [OF example_new example_reachable _ _ surjective_pairing])
  show "tbl2 example_one = None" by code_simp
  show "d_cookies example_one = []" by code_simp
qed

text \<open>During a resize the promise fails.  Ten insertions into three buckets leave eight entries in the second
  bucket of the new table and one in each of the other buckets of the old one.  A robust cookie has passed the first
  entry of the new table when that entry is removed: \<open>Remove\<close> compares the cookie with bucket 0 of the old table
  and leaves its offset, so the entry with key 2, in the dictionary throughout, is never given out.
\<close>

theorem robust_cookie_misses_in_resize:
  "case new_Dictionary False 3 of
     None \<Rightarrow> False
   | Some d0 \<Rightarrow>
       (case run_ops dict_step (List.map (\<lambda>(k, h). OpInsert [k] h ())
            [(1, 15), (2, 36), (3, 57), (4, 78), (5, 99), (6, 120), (7, 141), (8, 162), (9, 1), (10, 2)]) d0 of
          Ret (_, d) \<Rightarrow>
            (case InitForIteration d of
               (a, d1) \<Rightarrow>
                 (case robust_run a ([RNext, RNext, RNext, RRemove [1] 15] @ replicate 7 RNext) (MakeRobustCookie a d1) [] of
                    Ret (over, seen, d') \<Rightarrow>
                      over \<and> List.map e_key (filter (\<lambda>e. e_addr e \<notin> set seen) (dict_entries d')) = [[2]] \<and>
                      [2] \<in> e_key ` set (dict_entries d)
                  | _ \<Rightarrow> False))
        | _ \<Rightarrow> False)"
  by code_simp

end
