(* ===== verification/Bro_List.thy ===== *)
theory Bro_List
  imports OFM_Refine
begin

text \<open>
  The growing array under Bro's lists, \<^verbatim>\<open>bro-2.1/src/List.cc\<close> and \<^verbatim>\<open>List.h\<close> (\<open>BaseList\<close>; \<open>List\<close> and \<open>PList\<close>
  are typed wrappers).  A cell is \<open>None\<close> until it is written; an access outside the array or the use of such a cell
  is undefined.  The null entry is \<open>0\<close>.  Sizes are natural numbers, below \<open>2 ^ 31\<close> in the code; positions that
  a caller passes are integers.  \<^verbatim>\<open>malloc\<close> and \<^verbatim>\<open>realloc\<close> stop the process when they fail.  \<open>sort\<close> is
  \<^verbatim>\<open>qsort\<close> of the C library and left out.
\<close>

section \<open>State\<close>

record 'a BaseList =
  l_entry :: "'a option list"
  l_chunk :: nat
  l_max :: nat
  l_num :: nat

definition LIST_CHUNK_SIZE :: nat where "LIST_CHUNK_SIZE = 10"

definition new_BaseList :: "int \<Rightarrow> 'a BaseList" where
  "new_BaseList sz =
     (if sz < 0 then \<lparr>l_entry = [], l_chunk = LIST_CHUNK_SIZE, l_max = 0, l_num = 0\<rparr>
      else let chunk = (if sz > 0 then nat sz else LIST_CHUNK_SIZE)
        in \<lparr>l_entry = replicate chunk None, l_chunk = chunk, l_max = chunk, l_num = 0\<rparr>)"

text \<open>A loop that writes \<open>cells[i] = src[i + k]\<close> for \<open>n\<close> indices from \<open>i\<close> upwards.\<close>

fun copy_up :: "'a option list \<Rightarrow> nat \<Rightarrow> nat \<Rightarrow> nat \<Rightarrow> 'a option list run" where
  "copy_up cells i k 0 = Ret cells"
| "copy_up cells i k (Suc n) =
     run_bind (arr_get cells (i + k)) (\<lambda>v. run_bind (arr_set cells i v) (\<lambda>cells. copy_up cells (i + 1) k n))"

fun copy_from :: "'a option list \<Rightarrow> nat \<Rightarrow> nat \<Rightarrow> 'a option list \<Rightarrow> 'a option list run" where
  "copy_from src i 0 cells = Ret cells"
| "copy_from src i (Suc n) cells =
     run_bind (arr_get src i) (\<lambda>v. run_bind (arr_set cells i v) (copy_from src (i + 1) n))"

text \<open>The copy constructor, and the assignment of another list.\<close>

definition list_copy :: "'a BaseList \<Rightarrow> 'a BaseList run" where
  "list_copy b =
     run_bind (copy_from (l_entry b) 0 (l_num b) (if l_max b \<noteq> 0 then replicate (l_max b) None else []))
       (\<lambda>cells. Ret \<lparr>l_entry = cells, l_chunk = l_chunk b, l_max = l_max b, l_num = l_num b\<rparr>)"

definition list_assign :: "'a BaseList \<Rightarrow> 'a BaseList \<Rightarrow> 'a BaseList run" where
  "list_assign b l = list_copy b"

section \<open>Size\<close>

definition list_resize :: "nat \<Rightarrow> 'a BaseList \<Rightarrow> nat \<times> 'a BaseList" where
  "list_resize new_size l =
     (let new_size = (if new_size < l_num l then l_num l else new_size);
          l = (if new_size \<noteq> l_max l
               then l\<lparr>l_entry := take new_size (l_entry l) @ replicate (new_size - length (l_entry l)) None, l_max := new_size\<rparr>
               else l)
      in (l_max l, l))"

definition list_room :: "'a BaseList \<Rightarrow> 'a BaseList" where
  "list_room l =
     (if l_num l = l_max l then let (_, l) = list_resize (l_max l + l_chunk l) l in l\<lparr>l_chunk := l_chunk l * 2\<rparr> else l)"

definition list_clear :: "'a BaseList \<Rightarrow> 'a BaseList" where
  "list_clear l = \<lparr>l_entry = [], l_chunk = LIST_CHUNK_SIZE, l_max = 0, l_num = 0\<rparr>"

section \<open>Adding entries\<close>

definition list_append :: "'a \<Rightarrow> 'a BaseList \<Rightarrow> 'a BaseList run" where
  "list_append a l =
     (let l = list_room l
      in run_bind (arr_set (l_entry l) (l_num l) a) (\<lambda>cells. Ret (l\<lparr>l_entry := cells, l_num := l_num l + 1\<rparr>)))"

text \<open>\<open>for ( int i = num_entries; i > 0; --i ) entry[i] = entry[i-1]\<close>\<close>

fun move_up :: "nat \<Rightarrow> 'a option list \<Rightarrow> 'a option list run" where
  "move_up 0 cells = Ret cells"
| "move_up (Suc i) cells = run_bind (arr_get cells i) (\<lambda>v. run_bind (arr_set cells (Suc i) v) (move_up i))"

definition list_insert :: "'a \<Rightarrow> 'a BaseList \<Rightarrow> 'a BaseList run" where
  "list_insert a l =
     (let l = list_room l
      in run_bind (move_up (l_num l) (l_entry l)) (\<lambda>cells.
         run_bind (arr_set cells 0 a) (\<lambda>cells. Ret (l\<lparr>l_entry := cells, l_num := l_num l + 1\<rparr>))))"

text \<open>The loop that moves the last entry to its place; it stops at the first neighbour that is not smaller.\<close>

fun bubble_up :: "('a \<Rightarrow> 'a \<Rightarrow> int) \<Rightarrow> nat \<Rightarrow> 'a option list \<Rightarrow> 'a option list run" where
  "bubble_up cmp 0 cells = Ret cells"
| "bubble_up cmp (Suc i) cells =
     run_bind (arr_get cells (Suc i)) (\<lambda>x. run_bind (arr_get cells i) (\<lambda>y.
       if cmp x y \<le> 0 then Ret cells
       else run_bind (arr_set cells (Suc i) y) (\<lambda>cells. run_bind (arr_set cells i x) (bubble_up cmp i))))"

definition list_sortedinsert :: "('a \<Rightarrow> 'a \<Rightarrow> int) \<Rightarrow> 'a \<Rightarrow> 'a BaseList \<Rightarrow> 'a BaseList run" where
  "list_sortedinsert cmp a l =
     (let l = list_room l
      in run_bind (arr_set (l_entry l) (l_num l) a) (\<lambda>cells.
         run_bind (bubble_up cmp (l_num l) cells) (\<lambda>cells. Ret (l\<lparr>l_entry := cells, l_num := l_num l + 1\<rparr>))))"

section \<open>Removing and replacing entries\<close>

definition list_remove_nth :: "int \<Rightarrow> 'a::zero BaseList \<Rightarrow> ('a \<times> 'a BaseList) run" where
  "list_remove_nth n l =
     (if n < 0 \<or> n \<ge> int (l_num l) then Ret (0, l)
      else
        run_bind (arr_get (l_entry l) (nat n)) (\<lambda>old_ent.
          let num = l_num l - 1 in
          run_bind (copy_up (l_entry l) (nat n) 1 (num - nat n)) (\<lambda>cells.
          run_bind (arr_set cells num 0) (\<lambda>cells. Ret (old_ent, l\<lparr>l_entry := cells, l_num := num\<rparr>)))))"

text \<open>The first index below \<open>n\<close> with the entry, or \<open>n\<close>.\<close>

fun find_ent :: "'a \<Rightarrow> 'a option list \<Rightarrow> nat \<Rightarrow> nat \<Rightarrow> nat run" where
  "find_ent a cells i 0 = Ret i"
| "find_ent a cells i (Suc n) = run_bind (arr_get cells i) (\<lambda>x. if a \<noteq> x then find_ent a cells (i + 1) n else Ret i)"

definition list_remove :: "'a \<Rightarrow> 'a::zero BaseList \<Rightarrow> ('a \<times> 'a BaseList) run" where
  "list_remove a l = run_bind (find_ent a (l_entry l) 0 (l_num l)) (\<lambda>i. list_remove_nth (int i) l)"

definition list_get :: "'a::zero BaseList \<Rightarrow> ('a \<times> 'a BaseList) run" where
  "list_get l =
     (if l_num l = 0 then Ret (0, l)
      else let l = l\<lparr>l_num := l_num l - 1\<rparr> in run_bind (arr_get (l_entry l) (l_num l)) (\<lambda>a. Ret (a, l)))"

fun fill_zero :: "nat \<Rightarrow> nat \<Rightarrow> 'a::zero option list \<Rightarrow> 'a option list run" where
  "fill_zero i 0 cells = Ret cells"
| "fill_zero i (Suc n) cells = run_bind (arr_set cells i 0) (fill_zero (i + 1) n)"

definition list_replace :: "int \<Rightarrow> 'a \<Rightarrow> 'a::zero BaseList \<Rightarrow> ('a \<times> 'a BaseList) run" where
  "list_replace ent_index new_ent l =
     (if ent_index < 0 then Ret (0, l)
      else
        run_bind
          (if ent_index > int (l_num l) - 1 then
             let (_, l) = list_resize (nat ent_index + 1) l in
             run_bind (fill_zero (l_num l) (l_max l - l_num l) (l_entry l)) (\<lambda>cells.
               Ret (0, l\<lparr>l_entry := cells, l_num := l_max l\<rparr>))
           else run_bind (arr_get (l_entry l) (nat ent_index)) (\<lambda>old_ent. Ret (old_ent, l)))
          (\<lambda>(old_ent, l).
            run_bind (arr_set (l_entry l) (nat ent_index) new_ent) (\<lambda>cells. Ret (old_ent, l\<lparr>l_entry := cells\<rparr>))))"

section \<open>Looking entries up\<close>

definition list_is_member :: "'a \<Rightarrow> 'a::zero BaseList \<Rightarrow> 'a run" where
  "list_is_member e l = run_bind (find_ent e (l_entry l) 0 (l_num l)) (\<lambda>i. Ret (if i = l_num l then 0 else e))"

definition list_member_pos :: "'a \<Rightarrow> 'a BaseList \<Rightarrow> int run" where
  "list_member_pos e l = run_bind (find_ent e (l_entry l) 0 (l_num l)) (\<lambda>i. Ret (if i = l_num l then -1 else int i))"

text \<open>\<open>operator[]\<close> and \<open>last\<close>, without the check that \<open>SAFE_LISTS\<close> would add.\<close>

definition list_nth :: "int \<Rightarrow> 'a BaseList \<Rightarrow> 'a run" where
  "list_nth i l = (if i < 0 then Undef else arr_get (l_entry l) (nat i))"

definition list_last :: "'a BaseList \<Rightarrow> 'a run" where
  "list_last l = list_nth (int (l_num l) - 1) l"

section \<open>The archive\<close>

text \<open>
  \<open>serialize\<close> writes and reads the three numbers; the array is left to the classes that inherit.  Reading
  replaces the numbers of a list that was constructed, with the array it has.
\<close>

definition list_save :: "'a BaseList \<Rightarrow> nat \<times> nat \<times> nat" where
  "list_save l = (l_chunk l, l_max l, l_num l)"

definition list_load :: "nat \<times> nat \<times> nat \<Rightarrow> 'a BaseList \<Rightarrow> 'a BaseList" where
  "list_load x l = (case x of (chunk, mx, num) \<Rightarrow> l\<lparr>l_chunk := chunk, l_max := mx, l_num := num\<rparr>)"

end
