(* ===== verification/Bro_List_Props.thy ===== *)
theory Bro_List_Props
  imports Bro_List "HOL-Library.Multiset"
begin

text \<open>
  The list of \<^verbatim>\<open>bro-2.1/src/List.cc\<close> implements finite sequences: no operation leaves the array or uses a
  cell that was not written, and sequences of operations have the results of HOL lists (the locale \<open>refines\<close>);
  \<open>sortedinsert\<close> keeps a sorted list sorted.
\<close>

section \<open>The sequence in the array\<close>

definition list_rep :: "'a BaseList \<Rightarrow> 'a list \<Rightarrow> bool" where
  "list_rep l xs \<longleftrightarrow> l_num l = length xs \<and> length xs \<le> l_max l \<and> l_max l = length (l_entry l) \<and> 0 < l_chunk l \<and>
     (\<forall>j < length xs. l_entry l ! j = Some (xs ! j))"

lemma new_BaseList_rep: "list_rep (new_BaseList sz) []"
  by (simp add: list_rep_def new_BaseList_def LIST_CHUNK_SIZE_def Let_def)

lemma list_clear_rep: "list_rep (list_clear l) []"
  by (simp add: list_rep_def list_clear_def LIST_CHUNK_SIZE_def)

lemma list_resize_rep:
  assumes "list_rep l xs"
  shows "fst (list_resize n l) = max n (length xs)" and "list_rep (snd (list_resize n l)) xs"
    and "l_max (snd (list_resize n l)) = max n (length xs)"
  using assms by (auto simp: list_rep_def list_resize_def Let_def nth_append)

lemma list_room_rep: "list_rep l xs \<Longrightarrow> list_rep (list_room l) xs \<and> length xs < l_max (list_room l)"
  using list_resize_rep [of l xs "l_max l + l_chunk l"]
  by (cases "list_resize (l_max l + l_chunk l) l") (auto simp: list_room_def list_rep_def)

section \<open>The loops\<close>

lemma copy_up_ok:
  "i + k + n \<le> length cells \<Longrightarrow> 0 < k \<Longrightarrow> \<forall>j. i + k \<le> j \<and> j < i + k + n \<longrightarrow> cells ! j \<noteq> None \<Longrightarrow>
     \<exists>cells'. copy_up cells i k n = Ret cells' \<and> length cells' = length cells \<and>
       (\<forall>j < length cells. cells' ! j = (if i \<le> j \<and> j < i + n then cells ! (j + k) else cells ! j))"
proof (induction n arbitrary: i cells)
  case (Suc n)
  then obtain v where v: "cells ! (i + k) = Some v" by fastforce
  with Suc.prems have step: "copy_up cells i k (Suc n) = copy_up (cells[i := Some v]) (i + 1) k n" by simp
  have "\<exists>cells'. copy_up (cells[i := Some v]) (i + 1) k n = Ret cells' \<and> length cells' = length (cells[i := Some v]) \<and>
      (\<forall>j < length (cells[i := Some v]). cells' ! j = (if i + 1 \<le> j \<and> j < i + 1 + n then cells[i := Some v] ! (j + k) else cells[i := Some v] ! j))"
    by (rule Suc.IH) (use Suc.prems in \<open>auto simp: nth_list_update\<close>)
  then show ?case unfolding step using v Suc.prems
    by (fastforce simp: nth_list_update Suc_le_eq le_less)
qed auto

lemma copy_from_ok:
  "i + n \<le> length src \<Longrightarrow> i + n \<le> length cells \<Longrightarrow> \<forall>j. i \<le> j \<and> j < i + n \<longrightarrow> src ! j \<noteq> None \<Longrightarrow>
     \<exists>cells'. copy_from src i n cells = Ret cells' \<and> length cells' = length cells \<and>
       (\<forall>j < length cells. cells' ! j = (if i \<le> j \<and> j < i + n then src ! j else cells ! j))"
proof (induction n arbitrary: i cells)
  case (Suc n)
  then obtain v where v: "src ! i = Some v" by fastforce
  with Suc.prems have step: "copy_from src i (Suc n) cells = copy_from src (i + 1) n (cells[i := Some v])" by simp
  have "\<exists>cells'. copy_from src (i + 1) n (cells[i := Some v]) = Ret cells' \<and> length cells' = length (cells[i := Some v]) \<and>
      (\<forall>j < length (cells[i := Some v]). cells' ! j = (if i + 1 \<le> j \<and> j < i + 1 + n then src ! j else cells[i := Some v] ! j))"
    by (rule Suc.IH) (use Suc.prems in auto)
  then show ?case unfolding step using v Suc.prems
    by (fastforce simp: nth_list_update Suc_le_eq le_less)
qed auto

lemma move_up_ok:
  "i < length cells \<Longrightarrow> \<forall>j < i. cells ! j \<noteq> None \<Longrightarrow>
     \<exists>cells'. move_up i cells = Ret cells' \<and> length cells' = length cells \<and>
       (\<forall>j < length cells. cells' ! j = (if 0 < j \<and> j \<le> i then cells ! (j - 1) else cells ! j))"
proof (induction i arbitrary: cells)
  case (Suc i)
  then obtain v where v: "cells ! i = Some v" by fastforce
  with Suc.prems have step: "move_up (Suc i) cells = move_up i (cells[Suc i := Some v])" by simp
  have "\<exists>cells'. move_up i (cells[Suc i := Some v]) = Ret cells' \<and> length cells' = length (cells[Suc i := Some v]) \<and>
      (\<forall>j < length (cells[Suc i := Some v]). cells' ! j = (if 0 < j \<and> j \<le> i then cells[Suc i := Some v] ! (j - 1) else cells[Suc i := Some v] ! j))"
    by (rule Suc.IH) (use Suc.prems in auto)
  then show ?case unfolding step using v Suc.prems
    by (fastforce simp: nth_list_update le_Suc_eq)
qed auto

lemma fill_zero_ok:
  "i + n \<le> length cells \<Longrightarrow>
     \<exists>cells'. fill_zero i n cells = Ret cells' \<and> length cells' = length cells \<and>
       (\<forall>j < length cells. cells' ! j = (if i \<le> j \<and> j < i + n then Some 0 else cells ! j))"
proof (induction n arbitrary: i cells)
  case (Suc n)
  then have step: "fill_zero i (Suc n) cells = fill_zero (i + 1) n (cells[i := Some 0])" by simp
  from Suc.IH [of "i + 1" "cells[i := Some 0]"] Suc.prems show ?case unfolding step
    by (fastforce simp: nth_list_update Suc_le_eq le_less)
qed auto

lemma find_ent_ok:
  "\<forall>j < length ys. cells ! (i + j) = Some (ys ! j) \<Longrightarrow> i + length ys \<le> length cells \<Longrightarrow>
     find_ent a cells i (length ys) = Ret (i + length (takeWhile (\<lambda>x. x \<noteq> a) ys))"
proof (induction ys arbitrary: i)
  case (Cons y ys)
  have "cells ! i = Some y" using Cons.prems(1) by (metis add.right_neutral length_Cons nth_Cons_0 zero_less_Suc)
  moreover have "\<forall>j < length ys. cells ! (i + 1 + j) = Some (ys ! j)"
    using Cons.prems(1) by (metis Suc_less_eq add.assoc add.commute length_Cons nth_Cons_Suc plus_1_eq_Suc)
  ultimately show ?case using Cons.IH [of "i + 1"] Cons.prems(2) by auto
qed auto

section \<open>Sorted insertion\<close>

fun place_rev :: "('a \<Rightarrow> 'a \<Rightarrow> int) \<Rightarrow> 'a \<Rightarrow> 'a list \<Rightarrow> 'a list" where
  "place_rev cmp a [] = [a]"
| "place_rev cmp a (z # zs) = (if cmp a z \<le> 0 then a # z # zs else z # place_rev cmp a zs)"

text \<open>The place from the end, after the last entry that is not smaller.\<close>

definition sorted_place :: "('a \<Rightarrow> 'a \<Rightarrow> int) \<Rightarrow> 'a \<Rightarrow> 'a list \<Rightarrow> 'a list" where
  "sorted_place cmp a xs = rev (place_rev cmp a (rev xs))"

lemma sorted_place_simps [simp]:
  "sorted_place cmp a [] = [a]"
  "sorted_place cmp a (xs @ [z]) = (if cmp a z \<le> 0 then xs @ [z, a] else sorted_place cmp a xs @ [z])"
  by (simp_all add: sorted_place_def)

lemma length_sorted_place [simp]: "length (sorted_place cmp a xs) = Suc (length xs)"
  by (induction xs rule: rev_induct) auto

lemma bubble_up_ok:
  "length xs < length cells \<Longrightarrow> \<forall>j < length xs. cells ! j = Some (xs ! j) \<Longrightarrow> cells ! length xs = Some a \<Longrightarrow>
     \<exists>cells'. bubble_up cmp (length xs) cells = Ret cells' \<and> length cells' = length cells \<and>
       (\<forall>j \<le> length xs. cells' ! j = Some (sorted_place cmp a xs ! j)) \<and> (\<forall>j > length xs. cells' ! j = cells ! j)"
proof (induction xs arbitrary: cells rule: rev_induct)
  case (snoc y xs)
  let ?n = "length xs"
  have y: "cells ! ?n = Some y" using snoc.prems(2) by simp
  show ?case
  proof (cases "cmp a y \<le> 0")
    case True
    have "\<forall>j \<le> Suc ?n. cells ! j = Some ((xs @ [y, a]) ! j)"
      using snoc.prems by (auto simp: nth_append le_Suc_eq less_Suc_eq)
    with True y snoc.prems show ?thesis by simp
  next
    case False
    let ?c = "cells[Suc ?n := Some y, ?n := Some a]"
    have b: "bubble_up cmp (Suc ?n) cells = bubble_up cmp ?n ?c" using False y snoc.prems by simp
    obtain cells' where c': "bubble_up cmp ?n ?c = Ret cells'" "length cells' = length ?c"
      "\<forall>j \<le> ?n. cells' ! j = Some (sorted_place cmp a xs ! j)" "\<forall>j > ?n. cells' ! j = ?c ! j"
      using snoc.IH [of ?c] snoc.prems by (auto simp: nth_append)
    have "cells' ! Suc ?n = Some y" using c'(4) snoc.prems(1) by simp
    with c' False b snoc.prems(1) show ?thesis by (auto simp: nth_append le_Suc_eq)
  qed
qed simp

text \<open>A list in which no entry is smaller than a later one stays so, for a comparison that is a total preorder.\<close>

definition descending :: "('a \<Rightarrow> 'a \<Rightarrow> int) \<Rightarrow> 'a list \<Rightarrow> bool" where
  "descending cmp xs \<longleftrightarrow> sorted_wrt (\<lambda>x y. cmp y x \<le> 0) xs"

lemma set_sorted_place: "set (sorted_place cmp a xs) = insert a (set xs)"
  by (induction xs rule: rev_induct) auto

lemma descending_sorted_place:
  assumes total: "\<And>x y. cmp x y > 0 \<Longrightarrow> cmp y x \<le> 0" and trans: "\<And>x y z. cmp x y \<le> 0 \<Longrightarrow> cmp y z \<le> 0 \<Longrightarrow> cmp x z \<le> 0"
  shows "descending cmp xs \<Longrightarrow> descending cmp (sorted_place cmp a xs)"
proof (induction xs rule: rev_induct)
  case (snoc y xs)
  then have ih: "descending cmp xs" "descending cmp (sorted_place cmp a xs)" "\<forall>x \<in> set xs. cmp y x \<le> 0"
    by (auto simp: descending_def sorted_wrt_append)
  show ?case
  proof (cases "cmp a y \<le> 0")
    case True
    with ih trans [of a y] show ?thesis by (auto simp: descending_def sorted_wrt_append)
  next
    case False
    then have "cmp y a \<le> 0" by (simp add: total)
    with ih False show ?thesis by (auto simp: descending_def sorted_wrt_append set_sorted_place)
  qed
qed (simp add: descending_def)

lemma mset_sorted_place: "mset (sorted_place cmp a xs) = add_mset a (mset xs)"
  by (induction xs rule: rev_induct) auto

section \<open>The operations on sequences\<close>

lemma list_append_rep:
  assumes "list_rep l xs"
  shows "\<exists>l'. list_append a l = Ret l' \<and> list_rep l' (xs @ [a])"
proof -
  from list_room_rep [OF assms] have "list_rep (list_room l) xs" "length xs < l_max (list_room l)" by simp_all
  then show ?thesis by (simp add: list_append_def Let_def list_rep_def nth_append nth_list_update less_Suc_eq)
qed

lemma list_insert_rep:
  assumes "list_rep l xs"
  shows "\<exists>l'. list_insert a l = Ret l' \<and> list_rep l' (a # xs)"
proof -
  define r where "r = list_room l"
  from list_room_rep [OF assms] have r: "list_rep r xs" "length xs < l_max r" by (simp_all add: r_def)
  then have "\<exists>cells'. move_up (l_num r) (l_entry r) = Ret cells' \<and> length cells' = length (l_entry r) \<and>
      (\<forall>j < length (l_entry r). cells' ! j = (if 0 < j \<and> j \<le> l_num r then l_entry r ! (j - 1) else l_entry r ! j))"
    by (intro move_up_ok) (auto simp: list_rep_def)
  then obtain cells' where "move_up (l_num r) (l_entry r) = Ret cells'" "length cells' = length (l_entry r)"
    "\<forall>j < length (l_entry r). cells' ! j = (if 0 < j \<and> j \<le> l_num r then l_entry r ! (j - 1) else l_entry r ! j)" by blast
  moreover from this r have "0 < length cells'" by (auto simp: list_rep_def)
  ultimately show ?thesis using r
    by (auto simp: list_insert_def r_def [symmetric] Let_def arr_set_def list_rep_def nth_list_update nth_Cons'
        simp del: length_greater_0_conv)
qed

lemma list_sortedinsert_rep:
  assumes "list_rep l xs"
  shows "\<exists>l'. list_sortedinsert cmp a l = Ret l' \<and> list_rep l' (sorted_place cmp a xs)"
proof -
  define r where "r = list_room l"
  from list_room_rep [OF assms] have r: "list_rep r xs" "length xs < l_max r" by (simp_all add: r_def)
  then have "\<exists>cells'. bubble_up cmp (length xs) ((l_entry r)[length xs := Some a]) = Ret cells' \<and> length cells' = length ((l_entry r)[length xs := Some a]) \<and>
       (\<forall>j \<le> length xs. cells' ! j = Some (sorted_place cmp a xs ! j)) \<and> (\<forall>j > length xs. cells' ! j = (l_entry r)[length xs := Some a] ! j)"
    by (intro bubble_up_ok) (auto simp: list_rep_def)
  with r show ?thesis by (auto simp: list_sortedinsert_def r_def [symmetric] Let_def list_rep_def less_Suc_eq_le)
qed

lemma list_remove_nth_rep:
  assumes "list_rep l xs"
  shows "\<exists>l'. list_remove_nth n l = Ret (if 0 \<le> n \<and> n < int (length xs) then xs ! nat n else 0, l') \<and>
    list_rep l' (if 0 \<le> n \<and> n < int (length xs) then take (nat n) xs @ drop (Suc (nat n)) xs else xs)"
proof (cases "0 \<le> n \<and> n < int (length xs)")
  case True
  then obtain i where i: "n = int i" "i < length xs" by (metis nonneg_int_cases of_nat_less_iff)
  have "\<exists>cells'. copy_up (l_entry l) i 1 (l_num l - 1 - i) = Ret cells' \<and> length cells' = length (l_entry l) \<and>
      (\<forall>j < length (l_entry l). cells' ! j = (if i \<le> j \<and> j < i + (l_num l - 1 - i) then l_entry l ! (j + 1) else l_entry l ! j))"
    using assms i by (intro copy_up_ok) (auto simp: list_rep_def)
  then obtain cells' where c: "copy_up (l_entry l) i 1 (l_num l - 1 - i) = Ret cells'" "length cells' = length (l_entry l)"
    "\<forall>j < length (l_entry l). cells' ! j = (if i \<le> j \<and> j < i + (l_num l - 1 - i) then l_entry l ! (j + 1) else l_entry l ! j)" by blast
  have "length xs - 1 < length (l_entry l)" using assms i(2) by (auto simp: list_rep_def)
  with c have "list_remove_nth n l = Ret (xs ! i, l\<lparr>l_entry := cells'[length xs - 1 := Some 0], l_num := length xs - 1\<rparr>)"
    using assms i by (simp add: list_remove_nth_def list_rep_def arr_get_def arr_set_def Let_def)
  moreover have "list_rep (l\<lparr>l_entry := cells'[length xs - 1 := Some 0], l_num := length xs - 1\<rparr>) (take i xs @ drop (Suc i) xs)"
    using assms i c(2,3) by (auto simp: list_rep_def nth_append)
  ultimately show ?thesis using True i by simp
next
  case False
  with assms show ?thesis by (auto simp: list_remove_nth_def list_rep_def)
qed

definition index_of :: "'a \<Rightarrow> 'a list \<Rightarrow> nat" where
  "index_of a xs = length (takeWhile (\<lambda>x. x \<noteq> a) xs)"

lemma index_of_eq_length: "index_of a xs = length xs \<longleftrightarrow> a \<notin> set xs"
  by (induction xs) (auto simp: index_of_def)

lemma index_of_less: "a \<in> set xs \<Longrightarrow> index_of a xs < length xs \<and> xs ! index_of a xs = a"
  by (induction xs) (auto simp: index_of_def)

lemma remove1_index_of: "remove1 a xs = take (index_of a xs) xs @ drop (Suc (index_of a xs)) xs"
  by (induction xs) (auto simp: index_of_def)

lemma find_ent_rep: "list_rep l xs \<Longrightarrow> find_ent a (l_entry l) 0 (l_num l) = Ret (index_of a xs)"
  using find_ent_ok [of xs "l_entry l" 0 a] by (simp add: list_rep_def index_of_def)

lemma list_remove_rep:
  assumes "list_rep l xs"
  shows "\<exists>l'. list_remove a l = Ret (if a \<in> set xs then a else 0, l') \<and> list_rep l' (remove1 a xs)"
proof (cases "a \<in> set xs")
  case True
  with list_remove_nth_rep [OF assms, of "int (index_of a xs)"] index_of_less [OF True] show ?thesis
    by (simp add: list_remove_def find_ent_rep [OF assms] remove1_index_of [symmetric])
next
  case False
  with list_remove_nth_rep [OF assms, of "int (index_of a xs)"] index_of_eq_length [of a xs] show ?thesis
    by (simp add: list_remove_def find_ent_rep [OF assms] remove1_idem)
qed

lemma list_get_rep:
  assumes "list_rep l xs"
  shows "\<exists>l'. list_get l = Ret (if xs = [] then 0 else last xs, l') \<and> list_rep l' (butlast xs)"
proof (cases xs rule: rev_cases)
  case Nil
  with assms show ?thesis by (auto simp: list_get_def list_rep_def)
next
  case (snoc ys y)
  with assms have "l_num l = Suc (length ys)" "l_entry l ! length ys = Some y" "length ys < length (l_entry l)"
    by (auto simp: list_rep_def)
  with assms snoc show ?thesis by (auto simp: list_get_def list_rep_def nth_append)
qed

definition padded_replace :: "int \<Rightarrow> 'a \<Rightarrow> 'a::zero list \<Rightarrow> 'a \<times> 'a list" where
  "padded_replace i a xs =
     (if i < 0 then (0, xs)
      else if i \<ge> int (length xs) then (0, xs @ replicate (nat i - length xs) 0 @ [a])
      else (xs ! nat i, xs[nat i := a]))"

lemma list_replace_rep:
  assumes "list_rep l xs"
  shows "\<exists>l'. list_replace i a l = Ret (fst (padded_replace i a xs), l') \<and> list_rep l' (snd (padded_replace i a xs))"
proof -
  have num: "l_num l = length xs" using assms by (simp add: list_rep_def)
  consider "i < 0" | "0 \<le> i" "i < int (length xs)" | "0 \<le> i" "\<not> i < int (length xs)" by linarith
  then show ?thesis
  proof cases
    case 1
    with assms show ?thesis by (simp add: list_replace_def padded_replace_def)
  next
    case 2
    then obtain k where "i = int k" "k < length xs" by (metis nonneg_int_cases of_nat_less_iff)
    with assms show ?thesis by (simp add: list_replace_def padded_replace_def arr_get_def arr_set_def list_rep_def nth_list_update)
  next
    case 3
    then obtain k where k: "i = int k" "length xs \<le> k" by (metis nonneg_int_cases not_less of_nat_less_iff)
    define r where "r = snd (list_resize (Suc k) l)"
    have r: "list_rep r xs" "l_max r = Suc k"
      using list_resize_rep [OF assms, of "Suc k"] k(2) by (simp_all add: r_def)
    then have len: "l_num r = length xs" "length (l_entry r) = Suc k" by (simp_all add: list_rep_def)
    obtain cells' where c: "fill_zero (length xs) (Suc k - length xs) (l_entry r) = Ret cells'" "length cells' = Suc k"
      "\<forall>j < Suc k. cells' ! j = (if length xs \<le> j \<and> j < length xs + (Suc k - length xs) then Some 0 else l_entry r ! j)"
      using fill_zero_ok [of "length xs" "Suc k - length xs" "l_entry r"] len k(2) by auto
    have "list_replace i a l = Ret (0, r\<lparr>l_entry := cells'[k := Some a], l_num := Suc k\<rparr>)"
      using 3(2) k num c(1,2) r(2) len
      by (simp add: list_replace_def split_beta r_def [symmetric] Let_def nat_add_distrib arr_set_def)
    moreover have "list_rep (r\<lparr>l_entry := cells'[k := Some a], l_num := Suc k\<rparr>) (xs @ replicate (k - length xs) 0 @ [a])"
      using r len k(2) c(2,3) by (auto simp: list_rep_def nth_list_update nth_append)
    ultimately show ?thesis using k by (simp add: padded_replace_def)
  qed
qed

lemma list_copy_rep:
  assumes "list_rep l xs"
  shows "\<exists>l'. list_copy l = Ret l' \<and> list_rep l' xs"
proof -
  define cells where "cells = (if l_max l \<noteq> 0 then replicate (l_max l) (None :: 'a option) else [])"
  have "length cells = l_max l" by (simp add: cells_def)
  with assms have "\<exists>cells'. copy_from (l_entry l) 0 (l_num l) cells = Ret cells' \<and> length cells' = length cells \<and>
       (\<forall>j < length cells. cells' ! j = (if 0 \<le> j \<and> j < 0 + l_num l then l_entry l ! j else cells ! j))"
    by (intro copy_from_ok) (auto simp: list_rep_def)
  then obtain cells' where c: "copy_from (l_entry l) 0 (l_num l) cells = Ret cells'" "length cells' = length cells"
    "\<forall>j < length cells. cells' ! j = (if 0 \<le> j \<and> j < 0 + l_num l then l_entry l ! j else cells ! j)" by blast
  have "list_copy l = Ret \<lparr>l_entry = cells', l_chunk = l_chunk l, l_max = l_max l, l_num = l_num l\<rparr>"
    unfolding list_copy_def cells_def [symmetric] c(1) by simp
  with assms \<open>length cells = l_max l\<close> c(2,3) show ?thesis by (auto simp: list_rep_def)
qed

section \<open>Sequences of operations\<close>

datatype 'a list_op =
  LInsert 'a
| LAppend 'a
| LSorted 'a
| LRemove 'a
| LRemoveNth int
| LGet
| LReplace int 'a
| LMember 'a
| LMemberPos 'a
| LResize nat
| LClear
| LCopy

datatype 'a list_result = LEnt 'a | LInt int | LDone

definition list_step :: "('a \<Rightarrow> 'a \<Rightarrow> int) \<Rightarrow> 'a::zero list_op \<Rightarrow> 'a BaseList \<Rightarrow> ('a list_result \<times> 'a BaseList) run" where
  "list_step cmp op l =
     (case op of
        LInsert a \<Rightarrow> run_bind (list_insert a l) (\<lambda>l. Ret (LDone, l))
      | LAppend a \<Rightarrow> run_bind (list_append a l) (\<lambda>l. Ret (LDone, l))
      | LSorted a \<Rightarrow> run_bind (list_sortedinsert cmp a l) (\<lambda>l. Ret (LDone, l))
      | LRemove a \<Rightarrow> run_bind (list_remove a l) (\<lambda>(x, l). Ret (LEnt x, l))
      | LRemoveNth n \<Rightarrow> run_bind (list_remove_nth n l) (\<lambda>(x, l). Ret (LEnt x, l))
      | LGet \<Rightarrow> run_bind (list_get l) (\<lambda>(x, l). Ret (LEnt x, l))
      | LReplace i a \<Rightarrow> run_bind (list_replace i a l) (\<lambda>(x, l). Ret (LEnt x, l))
      | LMember a \<Rightarrow> run_bind (list_is_member a l) (\<lambda>x. Ret (LEnt x, l))
      | LMemberPos a \<Rightarrow> run_bind (list_member_pos a l) (\<lambda>i. Ret (LInt i, l))
      | LResize n \<Rightarrow> (case list_resize n l of (m, l) \<Rightarrow> Ret (LInt (int m), l))
      | LClear \<Rightarrow> Ret (LDone, list_clear l)
      | LCopy \<Rightarrow> run_bind (list_copy l) (\<lambda>l. Ret (LDone, l)))"

definition seq_step :: "('a \<Rightarrow> 'a \<Rightarrow> int) \<Rightarrow> 'a::zero list_op \<Rightarrow> 'a list \<Rightarrow> 'a list_result \<times> 'a list" where
  "seq_step cmp op xs =
     (case op of
        LInsert a \<Rightarrow> (LDone, a # xs)
      | LAppend a \<Rightarrow> (LDone, xs @ [a])
      | LSorted a \<Rightarrow> (LDone, sorted_place cmp a xs)
      | LRemove a \<Rightarrow> (LEnt (if a \<in> set xs then a else 0), remove1 a xs)
      | LRemoveNth n \<Rightarrow>
          (if 0 \<le> n \<and> n < int (length xs) then (LEnt (xs ! nat n), take (nat n) xs @ drop (Suc (nat n)) xs) else (LEnt 0, xs))
      | LGet \<Rightarrow> (LEnt (if xs = [] then 0 else last xs), butlast xs)
      | LReplace i a \<Rightarrow> (LEnt (fst (padded_replace i a xs)), snd (padded_replace i a xs))
      | LMember a \<Rightarrow> (LEnt (if a \<in> set xs then a else 0), xs)
      | LMemberPos a \<Rightarrow> (LInt (if a \<in> set xs then int (index_of a xs) else -1), xs)
      | LResize n \<Rightarrow> (LInt (int (max n (length xs))), xs)
      | LClear \<Rightarrow> (LDone, [])
      | LCopy \<Rightarrow> (LDone, xs))"

interpretation bl: refines list_rep "\<lambda>_. True" "list_step cmp" "seq_step cmp" for cmp :: "'a::zero \<Rightarrow> 'a \<Rightarrow> int"
proof unfold_locales
  fix l :: "'a BaseList" and xs op
  assume rep: "list_rep l xs"
  have num: "l_num l = length xs" using rep by (simp add: list_rep_def)
  show "\<exists>l'. list_step cmp op l = Ret (fst (seq_step cmp op xs), l') \<and> list_rep l' (snd (seq_step cmp op xs))"
  proof (cases op)
    case (LInsert a)
    with list_insert_rep [OF rep, of a] show ?thesis by (auto simp: list_step_def seq_step_def)
  next
    case (LAppend a)
    with list_append_rep [OF rep, of a] show ?thesis by (auto simp: list_step_def seq_step_def)
  next
    case (LSorted a)
    with list_sortedinsert_rep [OF rep, of cmp a] show ?thesis by (auto simp: list_step_def seq_step_def)
  next
    case (LRemove a)
    with list_remove_rep [OF rep, of a] show ?thesis by (auto simp: list_step_def seq_step_def)
  next
    case (LRemoveNth n)
    with list_remove_nth_rep [OF rep, of n] show ?thesis by (auto simp: list_step_def seq_step_def)
  next
    case LGet
    with list_get_rep [OF rep] show ?thesis by (auto simp: list_step_def seq_step_def)
  next
    case (LReplace i a)
    with list_replace_rep [OF rep, of i a] show ?thesis by (auto simp: list_step_def seq_step_def)
  next
    case (LMember a)
    with rep index_of_eq_length [of a xs] show ?thesis
      by (auto simp: list_step_def seq_step_def list_is_member_def num find_ent_rep [OF rep, unfolded num])
  next
    case (LMemberPos a)
    with rep index_of_eq_length [of a xs] show ?thesis
      by (auto simp: list_step_def seq_step_def list_member_pos_def num find_ent_rep [OF rep, unfolded num])
  next
    case (LResize n)
    with list_resize_rep [OF rep, of n] show ?thesis by (auto simp: list_step_def seq_step_def split_beta)
  next
    case LClear
    with list_clear_rep show ?thesis by (auto simp: list_step_def seq_step_def)
  next
    case LCopy
    with list_copy_rep [OF rep] show ?thesis by (auto simp: list_step_def seq_step_def)
  qed
qed


text \<open>
  Entries that are added by \<^verbatim>\<open>sortedinsert\<close> alone, in any order, end up sorted, largest first, when
  the comparison is a total preorder; none is lost.
\<close>

theorem sortedinsert_sorts:
  assumes "\<And>x y. cmp x y > 0 \<Longrightarrow> cmp y x \<le> 0" and "\<And>x y z. cmp x y \<le> 0 \<Longrightarrow> cmp y z \<le> 0 \<Longrightarrow> cmp x z \<le> 0"
  shows "\<exists>l' ys rs. run_ops (list_step cmp) (List.map LSorted xs) (new_BaseList sz) = Ret (rs, l') \<and> list_rep l' ys \<and>
    descending cmp ys \<and> mset ys = mset xs"
proof -
  have d: "descending cmp ys \<Longrightarrow> descending cmp (sorted_place cmp a ys)" for a ys
    by (rule descending_sorted_place [OF assms])
  have sorted: "seq_step cmp (LSorted a) ys = (LDone, sorted_place cmp a ys)" for a ys by (simp add: seq_step_def)
  have "descending cmp ys \<Longrightarrow> descending cmp (snd (spec_ops (seq_step cmp) (List.map LSorted xs) ys)) \<and>
      mset (snd (spec_ops (seq_step cmp) (List.map LSorted xs) ys)) = mset ys + mset xs" for ys
  proof (induction xs arbitrary: ys)
    case (Cons x xs)
    from Cons.IH [OF d [OF Cons.prems, of x]] show ?case by (simp add: sorted split_beta mset_sorted_place)
  qed simp
  then have "descending cmp (snd (spec_ops (seq_step cmp) (List.map LSorted xs) []))"
    "mset (snd (spec_ops (seq_step cmp) (List.map LSorted xs) [])) = mset xs" by (simp_all add: descending_def)
  with bl.ops_simulated [OF new_BaseList_rep, of "List.map LSorted xs" cmp sz] show ?thesis by blast
qed

definition int_cmp :: "int \<Rightarrow> int \<Rightarrow> int" where "int_cmp x y = x - y"

theorem sortedinsert_sorts_witness:
  "\<exists>l' ys rs. run_ops (list_step int_cmp) (List.map LSorted [3, 9, 4]) (new_BaseList 2) = Ret (rs, l') \<and> list_rep l' ys \<and>
    descending int_cmp ys \<and> mset ys = mset [3, 9, 4]"
  by (rule sortedinsert_sorts) (simp_all add: int_cmp_def)

text \<open>
  A list that is read from an archive into a new one has the old numbers with an array of ten cells.
\<close>

theorem loaded_list_overruns:
  assumes "10 \<le> l_num l" "l_num l < l_max l"
  shows "list_append a (list_load (list_save l) (new_BaseList 0)) = Undef"
  using assms by (simp add: list_append_def list_room_def list_load_def list_save_def new_BaseList_def LIST_CHUNK_SIZE_def arr_set_def Let_def)

end
