(* ===== verification/Bro_Base64.thy ===== *)
theory Bro_Base64
  imports OFM_Prelude
begin

text \<open>
  Bro's incremental base64 decoder, \<^verbatim>\<open>bro-2.1/src/Base64.cc\<close> and \<^verbatim>\<open>Base64.h\<close>, whose state moves between
  instances in the middle of a stream (\<open>serialize\<close>).  The default table is filled once and shared in the code;
  its contents are the same each time.  The messages that \<open>IllegalEncoding\<close> reports are part of the results; the
  analyzer that only receives them is left out.  A cell of the group is \<open>None\<close> until it is written.
\<close>

section \<open>Alphabet and table\<close>

definition default_alphabet :: bytes where
  "default_alphabet = List.map (\<lambda>c. word_of_nat (of_char c))
     ''ABCDEFGHIJKLMNOPQRSTUVWXYZabcdefghijklmnopqrstuvwxyz0123456789+/''"

definition PAD :: u8 where "PAD = 0x3D"

text \<open>\<open>base64_table[int(c)] = v\<close> with a plain \<open>char\<close> for \<open>c\<close>.\<close>

definition set_entry :: "platform \<Rightarrow> u8 \<Rightarrow> int \<Rightarrow> int list \<Rightarrow> int list run" where
  "set_entry P c v table =
     (if char_signed P \<and> c \<ge> 128 then Undef else if unat c < length table then Ret (table[unat c := v]) else Undef)"

fun set_entries :: "platform \<Rightarrow> (u8 \<times> int) list \<Rightarrow> int list \<Rightarrow> int list run" where
  "set_entries P [] table = Ret table"
| "set_entries P ((c, v) # cs) table = run_bind (set_entry P c v table) (set_entries P cs)"

text \<open>The assignments in the order of the code; \<open>=\<close> comes last.\<close>

definition table_entries_of :: "bytes \<Rightarrow> (u8 \<times> int) list" where
  "table_entries_of alphabet =
     concat (List.map (\<lambda>i. [(alphabet ! i, int i), (alphabet ! (26 + i), int (i + 26))]) [0..<26])
     @ List.map (\<lambda>i. (alphabet ! (52 + i), int (i + 52))) [0..<10]
     @ [(alphabet ! 62, 62), (alphabet ! 63, 63), (PAD, 0)]"

definition InitBase64Table :: "platform \<Rightarrow> bytes \<Rightarrow> int list run" where
  "InitBase64Table P alphabet =
     (if length alphabet \<noteq> 64 then Aborted else set_entries P (table_entries_of alphabet) (replicate 256 (-1)))"

section \<open>The decoder\<close>

record Base64Decoder =
  b_group :: "u8 option list"
  b_next :: nat
  b_padding :: int
  b_after :: bool
  b_errored :: int
  b_table :: "int list"

datatype b64_weird = ExtraGroups | IgnoredCharacter u8 | IncompleteGroup nat

definition new_Base64Decoder :: "platform \<Rightarrow> bytes \<Rightarrow> Base64Decoder run" where
  "new_Base64Decoder P alphabet =
     run_bind (InitBase64Table P (if alphabet \<noteq> [] then alphabet else default_alphabet)) (\<lambda>table.
       Ret \<lparr>b_group = replicate 4 None, b_next = 0, b_padding = 0, b_after = False, b_errored = 0, b_table = table\<rparr>)"

definition six :: "u8 \<Rightarrow> u32" where
  "six c = ucast c AND 0x3F"

text \<open>The bytes of a full group; fewer of them after padding.\<close>

definition flush_group :: "Base64Decoder \<Rightarrow> (bytes \<times> Base64Decoder) run" where
  "flush_group d =
     run_bind (arr_get (b_group d) 0) (\<lambda>g0. run_bind (arr_get (b_group d) 1) (\<lambda>g1.
     run_bind (arr_get (b_group d) 2) (\<lambda>g2. run_bind (arr_get (b_group d) 3) (\<lambda>g3.
       let bit32 = push_bit 18 (six g0) OR push_bit 12 (six g1) OR push_bit 6 (six g2) OR six g3;
           octets = [ucast (drop_bit 16 bit32), ucast (drop_bit 8 bit32), ucast bit32]
       in Ret (take (nat (3 - b_padding d)) octets,
            d\<lparr>b_after := b_after d \<or> b_padding d > 0, b_next := 0, b_padding := 0\<rparr>)))))"

text \<open>One character; \<open>base64_group\<close> has four cells.\<close>

definition decode_char :: "u8 \<Rightarrow> Base64Decoder \<Rightarrow> (b64_weird list \<times> Base64Decoder) run" where
  "decode_char c d =
     (let d = (if c = PAD then d\<lparr>b_padding := b_padding d + 1\<rparr> else d) in
      if unat c \<ge> length (b_table d) then Undef
      else let k = b_table d ! unat c in
        if k \<ge> 0 then
          run_bind (arr_set (b_group d) (b_next d) (of_int k)) (\<lambda>g. Ret ([], d\<lparr>b_group := g, b_next := b_next d + 1\<rparr>))
        else
          let d = d\<lparr>b_errored := b_errored d + 1\<rparr>
          in Ret (if b_errored d = 1 then [IgnoredCharacter c] else [], d))"

lemma decode_char_next: "decode_char c d = Ret (w, d') \<Longrightarrow> b_next d' \<le> b_next d + 1"
  by (auto simp: decode_char_def Let_def run_bind_eq_Ret split: if_splits)

lemma flush_group_next: "flush_group d = Ret (out, d') \<Longrightarrow> b_next d' = 0"
  by (auto simp: flush_group_def Let_def run_bind_eq_Ret)

text \<open>
  The loop of \<open>Decode\<close>.  A group after padding is dropped; a full group that the buffer cannot take ends the loop
  with its characters kept, and so does the end of the data.  Results are the data that is left, the
  decoded bytes and the messages.
\<close>

function (sequential) decode_loop ::
  "int \<Rightarrow> Base64Decoder \<Rightarrow> bytes \<Rightarrow> bytes \<Rightarrow> b64_weird list \<Rightarrow> (bytes \<times> bytes \<times> b64_weird list \<times> Base64Decoder) run" where
  "decode_loop blen d data out w =
     (if b_next d = 4 \<and> b_after d then
        let d = d\<lparr>b_errored := b_errored d + 1, b_next := 0\<rparr>
        in decode_loop blen d data out (if b_errored d = 1 then w @ [ExtraGroups] else w)
      else if b_next d = 4 \<and> int (length out) + (3 - b_padding d) > blen then Ret (data, out, w, d)
      else
        run_bind (if b_next d = 4 then flush_group d else Ret ([], d)) (\<lambda>(octets, d).
          case data of
            [] \<Rightarrow> Ret ([], out @ octets, w, d)
          | c # cs \<Rightarrow> run_bind (decode_char c d) (\<lambda>(msgs, d). decode_loop blen d cs (out @ octets) (w @ msgs))))"
  by pat_completeness auto
termination
proof (relation "measure (\<lambda>(blen, d, data, out, w). 2 * length data + (if b_next d = 4 then 1 else 0))")
qed (auto split: if_splits)

declare decode_loop.simps [simp del]

text \<open>
  \<open>Decode\<close>: without a buffer one is allocated for the largest number of groups.  Results are the number of
  characters taken, the bytes written (\<open>*pblen\<close> is their number), the messages and the decoder.
\<close>

definition Decode :: "int option \<Rightarrow> bytes \<Rightarrow> Base64Decoder \<Rightarrow> (nat \<times> bytes \<times> b64_weird list \<times> Base64Decoder) run" where
  "Decode pbuf data d =
     (let blen = (case pbuf of Some n \<Rightarrow> n | None \<Rightarrow> int ((length data + b_next d + 3) div 4) * 3 + 1)
      in run_bind (decode_loop blen d data [] []) (\<lambda>(rest, out, w, d). Ret (length data - length rest, out, w, d)))"

definition b64_Done :: "int option \<Rightarrow> Base64Decoder \<Rightarrow> (int \<times> bytes \<times> b64_weird list \<times> Base64Decoder) run" where
  "b64_Done pbuf d =
     (if b_next d \<noteq> 0 then
        let msgs = (if b_next d < 4 then [IncompleteGroup ((4 - b_next d) * 6)] else []) in
        if b_next d > 4 then Undef
        else run_bind (Decode pbuf (replicate (4 - b_next d) PAD) d) (\<lambda>(_, out, w, d). Ret (-1, out, msgs @ w, d))
      else Ret (0, [], [], d))"

section \<open>The function of scripts\<close>

text \<open>\<open>BroString::CheckString\<close> of a string with a final NUL.\<close>

definition CheckString :: "bytes \<Rightarrow> bytes" where
  "CheckString s = (if 0 \<in> set s then List.map (\<lambda>c. word_of_nat (of_char c)) ''<string-with-NUL>'' else s)"

definition decode_base64 :: "platform \<Rightarrow> bytes \<Rightarrow> bytes option \<Rightarrow> (bytes option \<times> b64_weird list) run" where
  "decode_base64 P s a =
     (if a \<noteq> None \<and> length (the a) \<noteq> 64 then Ret (None, [])
      else
        let buf_len = int ((length s + 3) div 4) * 3 + 1 in
        run_bind (new_Base64Decoder P (case a of None \<Rightarrow> [] | Some a \<Rightarrow> CheckString a)) (\<lambda>dec.
        run_bind (Decode (Some buf_len) s dec) (\<lambda>(n, out, w, dec).
        run_bind (b64_Done (Some (buf_len - int (length out))) dec) (\<lambda>(_, out2, w2, dec).
          if int (length (out @ out2)) \<ge> buf_len then Undef
          else Ret (Some (out @ out2), w @ w2)))))"

section \<open>The archive\<close>

text \<open>The members that \<open>serialize\<close> writes, and the decoder made of them in the other process.\<close>

definition b64_save :: "Base64Decoder \<Rightarrow> u8 option list \<times> nat \<times> int \<times> bool \<times> int \<times> int list" where
  "b64_save d = (b_group d, b_next d, b_padding d, b_after d, b_errored d, b_table d)"

definition b64_load :: "u8 option list \<times> nat \<times> int \<times> bool \<times> int \<times> int list \<Rightarrow> Base64Decoder" where
  "b64_load x = (case x of (gp, nx, padding, aft, errored, table) \<Rightarrow>
     \<lparr>b_group = gp, b_next = nx, b_padding = padding, b_after = aft, b_errored = errored, b_table = table\<rparr>)"

end
