(* ===== verification/Bro_Base64_Props.thy ===== *)
theory Bro_Base64_Props
  imports Bro_Base64
begin

text \<open>
  Properties of Bro's base64 decoder: a stream may be cut and the decoder moved at every position, decoding inverts
  the encoding of RFC 4648, and the script function stays inside its buffer.
\<close>

abbreviation "demo_P \<equiv> \<lparr>big_endian = False, char_signed = True\<rparr>"

section \<open>The bits of a group\<close>

lemma byte_eqI:
  fixes a b :: u8
  assumes "bit a 0 = bit b 0" "bit a 1 = bit b 1" "bit a 2 = bit b 2" "bit a 3 = bit b 3"
    "bit a 4 = bit b 4" "bit a 5 = bit b 5" "bit a 6 = bit b 6" "bit a 7 = bit b 7"
  shows "a = b"
proof (rule bit_word_eqI)
  fix n assume "n < LENGTH(8)"
  then have "n = 0 \<or> n = 1 \<or> n = 2 \<or> n = 3 \<or> n = 4 \<or> n = 5 \<or> n = 6 \<or> n = (7 :: nat)" by simp arith
  with assms show "bit a n = bit b n" by blast
qed

lemma masks: "(0x3F :: 'a::len word) = mask 6" "(3 :: 'a::len word) = mask 2" "(15 :: 'a::len word) = mask 4"
  by (simp_all add: mask_eq_exp_minus_1)

lemma no_bit: "8 \<le> n \<Longrightarrow> \<not> bit (x :: u8) n"
  using bit_imp_le_length by fastforce

definition bits24 :: "u8 \<Rightarrow> u8 \<Rightarrow> u8 \<Rightarrow> u8 \<Rightarrow> u32" where
  "bits24 g0 g1 g2 g3 = push_bit 18 (six g0) OR push_bit 12 (six g1) OR push_bit 6 (six g2) OR six g3"

text \<open>The four six-bit numbers of three bytes, and the bytes of four numbers.\<close>

definition sextet0 :: "u8 \<Rightarrow> u8" where "sextet0 a = drop_bit 2 a"
definition sextet1 :: "u8 \<Rightarrow> u8 \<Rightarrow> u8" where "sextet1 a b = push_bit 4 (a AND 3) OR drop_bit 4 b"
definition sextet2 :: "u8 \<Rightarrow> u8 \<Rightarrow> u8" where "sextet2 b c = push_bit 2 (b AND 15) OR drop_bit 6 c"
definition sextet3 :: "u8 \<Rightarrow> u8" where "sextet3 c = c AND 0x3F"

lemmas sextet_defs = sextet0_def sextet1_def sextet2_def sextet3_def

lemma octets_of_sextets:
  "ucast (drop_bit 16 (bits24 (sextet0 a) (sextet1 a b) x y)) = a"
  "ucast (drop_bit 8 (bits24 x (sextet1 a b) (sextet2 b c) y)) = b"
  "ucast (bits24 x y (sextet2 b c) (sextet3 c)) = c"
  by (rule byte_eqI; simp add: bits24_def six_def sextet_defs masks bit_simps no_bit)+

lemma sextet_less_64:
  "unat (sextet0 a) < 64" "unat (sextet1 a b) < 64" "unat (sextet2 b c) < 64" "unat (sextet3 c) < 64"
proof -
  have *: "unat x < 64" if "x AND 0x3F = x" for x :: u8
    using unat_mono [of "x AND mask 6" "2 ^ 6"] and_mask_less' [of 6 x] that by (simp add: masks)
  show "unat (sextet0 a) < 64" "unat (sextet1 a b) < 64" "unat (sextet2 b c) < 64" "unat (sextet3 c) < 64"
    by (rule *, rule byte_eqI; simp add: sextet_defs masks bit_simps no_bit)+
qed

section \<open>One character at a time\<close>

definition good :: "Base64Decoder \<Rightarrow> bool" where
  "good d \<longleftrightarrow> length (b_group d) = 4 \<and> b_next d < 4 \<and> (\<forall>i < b_next d. b_group d ! i \<noteq> None) \<and> length (b_table d) = 256 \<and> 0 \<le> b_padding d"

text \<open>What a character does when there is room for the bytes of its group.\<close>

definition feed :: "u8 \<Rightarrow> Base64Decoder \<Rightarrow> (bytes \<times> b64_weird list \<times> Base64Decoder) run" where
  "feed c d =
     run_bind (decode_char c d) (\<lambda>(msgs, d).
       if b_next d \<noteq> 4 then Ret ([], msgs, d)
       else if b_after d then
         let d = d\<lparr>b_errored := b_errored d + 1, b_next := 0\<rparr> in Ret ([], msgs @ (if b_errored d = 1 then [ExtraGroups] else []), d)
       else run_bind (flush_group d) (\<lambda>(octets, d). Ret (octets, msgs, d)))"

fun feeds :: "bytes \<Rightarrow> Base64Decoder \<Rightarrow> (bytes \<times> b64_weird list \<times> Base64Decoder) run" where
  "feeds [] d = Ret ([], [], d)"
| "feeds (c # cs) d =
     run_bind (feed c d) (\<lambda>(out, w, d). run_bind (feeds cs d) (\<lambda>(out2, w2, d). Ret (out @ out2, w @ w2, d)))"

lemma flush_group_full:
  assumes "length (b_group d) = 4" "\<forall>i < 4. b_group d ! i \<noteq> None"
  obtains g0 g1 g2 g3 where "b_group d = [Some g0, Some g1, Some g2, Some g3]"
    and "flush_group d = Ret (take (nat (3 - b_padding d)) [ucast (drop_bit 16 (bits24 g0 g1 g2 g3)),
        ucast (drop_bit 8 (bits24 g0 g1 g2 g3)), ucast (bits24 g0 g1 g2 g3)],
      d\<lparr>b_after := b_after d \<or> b_padding d > 0, b_next := 0, b_padding := 0\<rparr>)"
proof -
  from assms(1) obtain x0 x1 x2 x3 where g: "b_group d = [x0, x1, x2, x3]"
    by (auto simp: length_Suc_conv numeral_eq_Suc)
  from assms(2) [rule_format, of 0] assms(2) [rule_format, of 1] assms(2) [rule_format, of 2] assms(2) [rule_format, of 3]
  obtain g0 g1 g2 g3 where "x0 = Some g0" "x1 = Some g1" "x2 = Some g2" "x3 = Some g3" unfolding g by auto
  with g show ?thesis by (intro that) (auto simp: flush_group_def bits24_def [symmetric] Let_def arr_get_def)
qed

lemma decode_char_good:
  assumes "good d"
  shows "\<exists>w d'. decode_char c d = Ret (w, d') \<and> length (b_group d') = 4 \<and> (\<forall>i < b_next d'. b_group d' ! i \<noteq> None) \<and>
    length (b_table d') = 256 \<and> 0 \<le> b_padding d' \<and> b_next d' \<le> 4 \<and> b_next d' \<le> b_next d + 1 \<and> b_after d' = b_after d"
proof -
  have "unat c < 256" using unsigned_less [of c, where ?'a = nat] by simp
  with assms show ?thesis
    by (auto simp: good_def decode_char_def Let_def arr_set_def nth_list_update less_Suc_eq)
qed

lemma feed_goodI:
  "feed c d = Ret (out, w, d') \<Longrightarrow> good d' \<Longrightarrow> length out \<le> 3 * g \<Longrightarrow> b_next d' + 4 * g \<le> b_next d + 1 \<Longrightarrow>
     \<exists>out w d' g. feed c d = Ret (out, w, d') \<and> good d' \<and> length out \<le> 3 * g \<and> b_next d' + 4 * g \<le> b_next d + 1"
  by blast

text \<open>The bytes written are at most three for every four characters.\<close>

lemma feed_good:
  assumes "good d"
  shows "\<exists>out w d' g. feed c d = Ret (out, w, d') \<and> good d' \<and> length out \<le> 3 * g \<and> b_next d' + 4 * g \<le> b_next d + 1"
proof -
  from decode_char_good [OF assms, of c] obtain w d1 where d1: "decode_char c d = Ret (w, d1)" "length (b_group d1) = 4"
    "\<forall>i < b_next d1. b_group d1 ! i \<noteq> None" "length (b_table d1) = 256" "0 \<le> b_padding d1" "b_next d1 \<le> 4" "b_next d1 \<le> b_next d + 1" by blast
  consider "b_next d1 \<noteq> 4" | "b_next d1 = 4" "b_after d1" | "b_next d1 = 4" "\<not> b_after d1" by blast
  then show ?thesis
  proof cases
    case 1
    with d1 have "feed c d = Ret ([], w, d1)" "good d1" by (simp_all add: feed_def good_def)
    then show ?thesis by (rule feed_goodI [where g = 0]) (use d1(7) in simp_all)
  next
    case 2
    define d2 where "d2 = d1\<lparr>b_errored := b_errored d1 + 1, b_next := 0\<rparr>"
    from 2 d1 have "\<exists>w'. feed c d = Ret ([], w', d2)" "good d2" "b_next d2 = 0" by (simp_all add: feed_def good_def Let_def d2_def)
    then obtain w' where "feed c d = Ret ([], w', d2)" "good d2" by blast
    then show ?thesis by (rule feed_goodI [where g = 0]) (simp_all add: d2_def)
  next
    case 3
    define d2 where "d2 = d1\<lparr>b_after := b_after d1 \<or> b_padding d1 > 0, b_next := 0, b_padding := 0\<rparr>"
    from 3 flush_group_full [of d1] d1(2,3) obtain out where f: "flush_group d1 = Ret (out, d2)" "length out \<le> 3"
      unfolding d2_def by (metis length_take min.cobounded1 length_Cons list.size(3) min.cobounded2 numeral_3_eq_3)
    from 3 d1 f have "feed c d = Ret (out, w, d2)" "good d2" by (simp_all add: feed_def good_def d2_def)
    then show ?thesis by (rule feed_goodI [where g = 1]) (use f(2) 3 d1(7) in \<open>simp_all add: d2_def\<close>)
  qed
qed

lemma feeds_good:
  "good d \<Longrightarrow> \<exists>out w d' g. feeds cs d = Ret (out, w, d') \<and> good d' \<and> length out \<le> 3 * g \<and> b_next d' + 4 * g \<le> b_next d + length cs"
proof (induction cs arbitrary: d)
  case Nil
  then show ?case by auto
next
  case (Cons c cs)
  from feed_good [OF Cons.prems, of c] obtain out w d1 g where d1: "feed c d = Ret (out, w, d1)" "good d1" "length out \<le> 3 * g"
    "b_next d1 + 4 * g \<le> b_next d + 1" by blast
  from Cons.IH [OF d1(2)] obtain out2 w2 d2 g2 where "feeds cs d1 = Ret (out2, w2, d2)" "good d2" "length out2 \<le> 3 * g2"
    "b_next d2 + 4 * g2 \<le> b_next d1 + length cs" by blast
  with d1 show ?case by (intro exI [of _ "out @ out2"] exI [of _ "w @ w2"] exI [of _ d2] exI [of _ "g + g2"]) auto
qed

section \<open>The loop\<close>

lemma decode_loop_flush:
  assumes "b_next d = 4" "\<not> b_after d" "int (length out) + (3 - b_padding d) \<le> blen" "flush_group d = Ret (octets, d2)"
  shows "decode_loop blen d cs out w = decode_loop blen d2 cs (out @ octets) w"
  using assms flush_group_next [OF assms(4)] by (subst (1 2) decode_loop.simps) (cases cs; simp)

lemma decode_loop_drop:
  assumes "b_next d = 4" "b_after d"
  shows "decode_loop blen d cs out w =
    decode_loop blen (d\<lparr>b_errored := b_errored d + 1, b_next := 0\<rparr>) cs out (if b_errored d + 1 = 1 then w @ [ExtraGroups] else w)"
  using assms by (subst decode_loop.simps) (simp add: Let_def)

text \<open>With room for all groups the loop takes all characters.\<close>

lemma decode_loop_feeds:
  assumes "good d" "feeds cs d = Ret (o1, w1, d1)" "int (length out) + int (3 * ((length cs + b_next d) div 4)) \<le> blen"
  shows "decode_loop blen d cs out w = Ret ([], out @ o1, w @ w1, d1)"
  using assms
proof (induction cs arbitrary: d out w o1 w1)
  case Nil
  then show ?case by (subst decode_loop.simps) (simp add: good_def)
next
  case (Cons c cs)
  from decode_char_good [OF Cons.prems(1), of c] obtain m d2 where c: "decode_char c d = Ret (m, d2)" "length (b_group d2) = 4"
    "\<forall>i < b_next d2. b_group d2 ! i \<noteq> None" "length (b_table d2) = 256" "0 \<le> b_padding d2" "b_next d2 \<le> 4" "b_next d2 \<le> b_next d + 1" by blast
  from feed_good [OF Cons.prems(1), of c] obtain o2 w2 d3 g where f: "feed c d = Ret (o2, w2, d3)" "good d3" "length o2 \<le> 3 * g"
    "b_next d3 + 4 * g \<le> b_next d + 1" by blast
  from Cons.prems(2) f(1) obtain o3 w3 where f3: "feeds cs d3 = Ret (o3, w3, d1)" "o1 = o2 @ o3" "w1 = w2 @ w3" by (auto simp: run_bind_eq_Ret)
  have "3 * g + 3 * ((length cs + b_next d3) div 4) \<le> 3 * ((length (c # cs) + b_next d) div 4)"
    using div_le_mono [of "(length cs + b_next d3) + g * 4" "length (c # cs) + b_next d" 4] f(4) by simp
  with f(3) Cons.prems(3) have room: "int (length (out @ o2)) + int (3 * ((length cs + b_next d3) div 4)) \<le> blen" by simp
  have ih: "decode_loop blen d3 cs (out @ o2) (w @ w2) = Ret ([], (out @ o2) @ o3, (w @ w2) @ w3, d1)"
    by (rule Cons.IH [OF f(2) f3(1) room])
  have step: "decode_loop blen d (c # cs) out w = decode_loop blen d2 cs out (w @ m)"
    using Cons.prems(1) c(1) by (subst decode_loop.simps) (simp add: good_def)
  have "decode_loop blen d2 cs out (w @ m) = decode_loop blen d3 cs (out @ o2) (w @ w2)"
  proof (cases "b_next d2 = 4")
    case False
    with c(1) f(1) show ?thesis by (simp add: feed_def)
  next
    case True
    show ?thesis
    proof (cases "b_after d2")
      case after: True
      with True c(1) f(1) show ?thesis by (auto simp: feed_def decode_loop_drop Let_def)
    next
      case after: False
      with True c(1) f(1) have fl: "flush_group d2 = Ret (o2, d3)" "w2 = m" by (auto simp: feed_def run_bind_eq_Ret)
      have "4 \<le> length (c # cs) + b_next d" using True c(7) by simp
      then have "1 \<le> (length (c # cs) + b_next d) div 4" by simp
      with Cons.prems(3) c(5) have "int (length out) + (3 - b_padding d2) \<le> blen" by linarith
      from decode_loop_flush [OF True after this fl(1)] fl(2) show ?thesis by simp
    qed
  qed
  with ih step f3 show ?case by simp
qed

lemma feeds_append:
  "feeds (xs @ ys) d = run_bind (feeds xs d) (\<lambda>(o1, w1, d). run_bind (feeds ys d) (\<lambda>(o2, w2, d). Ret (o1 @ o2, w1 @ w2, d)))"
proof (induction xs arbitrary: d)
  case Nil
  then show ?case by (cases "feeds ys d") auto
next
  case (Cons x xs)
  show ?case
  proof (cases "feed x d")
    case (Ret r)
    then obtain o1 w1 d1 where "feed x d = Ret (o1, w1, d1)" by (cases r) auto
    with Cons show ?thesis by (cases "feeds xs d1"; auto simp: split_beta run_bind_assoc)
  qed simp_all
qed

lemma Decode_feeds:
  assumes "good d" "feeds data d = Ret (out, w, d')"
    and "\<And>n. pbuf = Some n \<Longrightarrow> int (3 * ((length data + b_next d) div 4)) \<le> n"
  shows "Decode pbuf data d = Ret (length data, out, w, d')"
proof -
  define blen where "blen = (case pbuf of Some n \<Rightarrow> n | None \<Rightarrow> int ((length data + b_next d + 3) div 4) * 3 + 1)"
  have "(length data + b_next d) div 4 \<le> (length data + b_next d + 3) div 4" by (rule div_le_mono) simp
  then have "int (length []) + int (3 * ((length data + b_next d) div 4)) \<le> blen"
    using assms(3) by (cases pbuf) (simp_all add: blen_def)
  from decode_loop_feeds [OF assms(1,2) this, of "[]"] show ?thesis by (simp add: Decode_def blen_def [symmetric])
qed

section \<open>The alphabet\<close>

lemma set_entries_ok:
  assumes "\<forall>c \<in> fst ` set es. char_signed P \<longrightarrow> c < 128" "length t = 256"
  shows "\<exists>t'. set_entries P es t = Ret t' \<and> length t' = 256 \<and> (\<forall>x. x \<notin> fst ` set es \<longrightarrow> t' ! unat x = t ! unat x) \<and>
    (distinct (List.map fst es) \<longrightarrow> (\<forall>(c, v) \<in> set es. t' ! unat c = v))"
  using assms
proof (induction es arbitrary: t)
  case (Cons e es)
  obtain c v where e: "e = (c, v)" by fastforce
  have "unat c < 256" using unsigned_less [of c, where ?'a = nat] by simp
  with Cons.prems e have s: "set_entry P c v t = Ret (t[unat c := v])" by (auto simp: set_entry_def not_le)
  from Cons.IH [of "t[unat c := v]"] Cons.prems obtain t' where t': "set_entries P es (t[unat c := v]) = Ret t'" "length t' = 256"
    "\<forall>x. x \<notin> fst ` set es \<longrightarrow> t' ! unat x = t[unat c := v] ! unat x" "distinct (List.map fst es) \<longrightarrow> (\<forall>(c, v) \<in> set es. t' ! unat c = v)" by auto
  with s e Cons.prems(2) \<open>unat c < 256\<close> show ?case by (auto simp: nth_list_update word_unat_eq_iff)
qed simp

lemma entry_in_table:
  assumes "length alphabet = 64" "i < 64"
  shows "(alphabet ! i, int i) \<in> set (table_entries_of alphabet)"
proof -
  consider "i < 26" | "26 \<le> i" "i < 52" | "52 \<le> i" "i < 62" | "i = 62" | "i = 63" using assms(2) by linarith
  then show ?thesis
  proof cases
    case 2
    then obtain j where "i = 26 + j" "j < 26" using le_Suc_ex [of 26 i] by auto
    then show ?thesis by (auto simp: table_entries_of_def)
  next
    case 3
    then obtain j where "i = 52 + j" "j < 10" using le_Suc_ex [of 52 i] by auto
    then show ?thesis by (auto simp: table_entries_of_def image_iff intro!: bexI [of _ j])
  qed (auto simp: table_entries_of_def)
qed

lemma fst_table_entries_of:
  assumes "length alphabet = 64"
  shows "fst ` set (table_entries_of alphabet) = insert PAD (set alphabet)" and "length (table_entries_of alphabet) = 65"
proof -
  show "length (table_entries_of alphabet) = 65" by (simp add: table_entries_of_def comp_def sum_list_triv length_concat)
  show "fst ` set (table_entries_of alphabet) = insert PAD (set alphabet)"
  proof (intro set_eqI iffI)
    fix c assume "c \<in> fst ` set (table_entries_of alphabet)"
    with assms show "c \<in> insert PAD (set alphabet)" by (auto simp: table_entries_of_def)
  next
    fix c assume c: "c \<in> insert PAD (set alphabet)"
    show "c \<in> fst ` set (table_entries_of alphabet)"
    proof (cases "c = PAD")
      case True
      then show ?thesis by (simp add: table_entries_of_def)
    next
      case False
      with c obtain i where "i < 64" "c = alphabet ! i" using assms by (auto simp: in_set_conv_nth)
      with entry_in_table [OF assms] show ?thesis by force
    qed
  qed
qed

text \<open>An alphabet of plain characters: as many as there are numbers, none of them the padding.\<close>

definition alphabet_ok :: "bytes \<Rightarrow> bool" where
  "alphabet_ok alphabet \<longleftrightarrow> length alphabet = 64 \<and> distinct alphabet \<and> (\<forall>c \<in> set alphabet. 0 < c \<and> c < 128 \<and> c \<noteq> PAD)"

definition table_for :: "bytes \<Rightarrow> int list \<Rightarrow> bool" where
  "table_for alphabet table \<longleftrightarrow> length table = 256 \<and> (\<forall>i < 64. table ! unat (alphabet ! i) = int i) \<and> table ! unat PAD = 0"

lemma default_alphabet_ok: "alphabet_ok default_alphabet"
  by code_simp

lemma InitBase64Table_table:
  assumes "alphabet_ok alphabet"
  shows "\<exists>table. InitBase64Table P alphabet = Ret table \<and> table_for alphabet table"
proof -
  have len: "length alphabet = 64" using assms by (simp add: alphabet_ok_def)
  have "card (fst ` set (table_entries_of alphabet)) = 65"
    using assms distinct_card [of alphabet] by (auto simp: fst_table_entries_of(1) [OF len] alphabet_ok_def)
  then have dist: "distinct (List.map fst (table_entries_of alphabet))"
    using fst_table_entries_of(2) [OF len] by (intro card_distinct) simp
  have "\<forall>c \<in> fst ` set (table_entries_of alphabet). char_signed P \<longrightarrow> c < 128"
    using assms fst_table_entries_of(1) [OF len] by (auto simp: alphabet_ok_def PAD_def)
  from set_entries_ok [OF this, of "replicate 256 (-1)"] dist obtain t where t: "set_entries P (table_entries_of alphabet) (replicate 256 (-1)) = Ret t"
    "length t = 256" "\<forall>(c, v) \<in> set (table_entries_of alphabet). t ! unat c = v" by auto
  moreover have "(PAD, 0) \<in> set (table_entries_of alphabet)" by (simp add: table_entries_of_def)
  ultimately have "table_for alphabet t" using entry_in_table [OF len] by (fastforce simp: table_for_def)
  with t(1) len show ?thesis by (simp add: InitBase64Table_def)
qed

lemma set_entries_length: "set_entries P es t = Ret t' \<Longrightarrow> length t' = length t"
  by (induction P es t rule: set_entries.induct) (auto simp: run_bind_eq_Ret set_entry_def split: if_splits)

lemma InitBase64Table_length: "InitBase64Table P alphabet = Ret table \<Longrightarrow> length table = 256"
  by (auto simp: InitBase64Table_def dest: set_entries_length split: if_splits)

text \<open>A start state between two groups.\<close>

definition idle :: "int list \<Rightarrow> Base64Decoder \<Rightarrow> bool" where
  "idle table d \<longleftrightarrow> length (b_group d) = 4 \<and> b_next d = 0 \<and> b_padding d = 0 \<and> \<not> b_after d \<and> b_table d = table"

lemma idle_good: "idle table d \<Longrightarrow> length table = 256 \<Longrightarrow> good d"
  by (simp add: idle_def good_def)

lemma new_Base64Decoder_idle:
  assumes "alphabet_ok alphabet"
  shows "\<exists>d table. new_Base64Decoder P alphabet = Ret d \<and> idle table d \<and> table_for alphabet table"
proof -
  have "alphabet \<noteq> []" using assms by (auto simp: alphabet_ok_def)
  with InitBase64Table_table [OF assms, of P] show ?thesis by (auto simp: new_Base64Decoder_def idle_def)
qed

section \<open>Encoding and decoding\<close>

text \<open>The encoding of RFC 4648 over an alphabet.\<close>

fun b64_encode :: "bytes \<Rightarrow> bytes \<Rightarrow> bytes" where
  "b64_encode al [] = []"
| "b64_encode al [a] = [al ! unat (sextet0 a), al ! unat (sextet1 a 0), PAD, PAD]"
| "b64_encode al [a, b] = [al ! unat (sextet0 a), al ! unat (sextet1 a b), al ! unat (sextet2 b 0), PAD]"
| "b64_encode al (a # b # c # cs) =
     [al ! unat (sextet0 a), al ! unat (sextet1 a b), al ! unat (sextet2 b c), al ! unat (sextet3 c)] @ b64_encode al cs"

lemma decode_char_letter:
  assumes "alphabet_ok al" "table_for al (b_table d)" "unat x < 64" "b_next d < length (b_group d)"
  shows "decode_char (al ! unat x) d = Ret ([], d\<lparr>b_group := (b_group d)[b_next d := Some x], b_next := b_next d + 1\<rparr>)"
proof -
  have "al ! unat x \<in> set al" using assms(1,3) by (simp add: alphabet_ok_def)
  then have "al ! unat x \<noteq> PAD" using assms(1) by (auto simp: alphabet_ok_def)
  moreover have "unat (al ! unat x) < 256" using unsigned_less [of "al ! unat x", where ?'a = nat] by simp
  ultimately show ?thesis
    using assms(2-4) by (simp add: decode_char_def Let_def table_for_def arr_set_def)
qed

lemma decode_char_PAD:
  assumes "table_for al (b_table d)" "b_next d < length (b_group d)"
  shows "decode_char PAD d = Ret ([], d\<lparr>b_padding := b_padding d + 1, b_group := (b_group d)[b_next d := Some 0], b_next := b_next d + 1\<rparr>)"
proof -
  have "unat PAD < 256" by (simp add: PAD_def)
  with assms show ?thesis by (simp add: decode_char_def Let_def table_for_def arr_set_def)
qed

text \<open>A whole group, with \<open>n\<close> padding characters.\<close>

lemma feeds_group:
  assumes "alphabet_ok al" "table_for al table" "idle table d" "unat x0 < 64" "unat x1 < 64" "unat x2 < 64" "unat x3 < 64"
    and q: "q = [al ! unat x0, al ! unat x1, al ! unat x2, al ! unat x3] \<and> n = 0 \<or>
      q = [al ! unat x0, al ! unat x1, al ! unat x2, PAD] \<and> n = 1 \<and> x3 = 0 \<or>
      q = [al ! unat x0, al ! unat x1, PAD, PAD] \<and> n = 2 \<and> x2 = 0 \<and> x3 = 0"
  shows "\<exists>d'. feeds q d = Ret (take (3 - n) [ucast (drop_bit 16 (bits24 x0 x1 x2 x3)), ucast (drop_bit 8 (bits24 x0 x1 x2 x3)),
      ucast (bits24 x0 x1 x2 x3)], [], d') \<and> b_next d' = 0 \<and> (n = 0 \<longrightarrow> idle table d')"
proof -
  from assms(3) obtain g0 g1 g2 g3 where g: "b_group d = [g0, g1, g2, g3]"
    by (auto simp: idle_def length_Suc_conv numeral_eq_Suc)
  have d: "b_next d = 0" "b_padding d = 0" "\<not> b_after d" "b_table d = table" using assms(3) by (simp_all add: idle_def)
  note letter = decode_char_letter [OF assms(1)] decode_char_PAD [where al = al]
  from q show ?thesis
  proof (elim disjE conjE)
    assume "q = [al ! unat x0, al ! unat x1, al ! unat x2, al ! unat x3]" "n = 0"
    then show ?thesis
      using assms(2,4-7) g d by (simp add: feed_def letter flush_group_def arr_get_def bits24_def [symmetric] Let_def idle_def)
  next
    assume "q = [al ! unat x0, al ! unat x1, al ! unat x2, PAD]" "n = 1" "x3 = 0"
    then show ?thesis
      using assms(2,4-7) g d by (simp add: feed_def letter flush_group_def arr_get_def bits24_def [symmetric] Let_def)
  next
    assume "q = [al ! unat x0, al ! unat x1, PAD, PAD]" "n = 2" "x2 = 0" "x3 = 0"
    then show ?thesis
      using assms(2,4-7) g d by (simp add: feed_def letter flush_group_def arr_get_def bits24_def [symmetric] Let_def)
  qed
qed

lemma feeds_encode:
  "alphabet_ok al \<Longrightarrow> table_for al table \<Longrightarrow> idle table d \<Longrightarrow> \<exists>d'. feeds (b64_encode al s) d = Ret (s, [], d') \<and> b_next d' = 0"
proof (induction al s arbitrary: d rule: b64_encode.induct)
  case (2 al a)
  from feeds_group [of al table d "sextet0 a" "sextet1 a 0" 0 0 "b64_encode al [a]" 2] 2 sextet_less_64(1) [of a] sextet_less_64(2) [of a 0]
  show ?case using octets_of_sextets(1) [of a 0 0 0] by (auto simp: numeral_2_eq_2)
next
  case (3 al a b)
  from feeds_group [of al table d "sextet0 a" "sextet1 a b" "sextet2 b 0" 0 "b64_encode al [a, b]" 1] 3
    sextet_less_64(1) [of a] sextet_less_64(2) [of a b] sextet_less_64(3) [of b 0]
  show ?case using octets_of_sextets(1) [of a b "sextet2 b 0" 0] octets_of_sextets(2) [of "sextet0 a" a b 0 0] by auto
next
  case (4 al a b c cs)
  from feeds_group [OF 4(2-4) sextet_less_64(1) [of a] sextet_less_64(2) [of a b] sextet_less_64(3) [of b c] sextet_less_64(4) [of c],
      of "[al ! unat (sextet0 a), al ! unat (sextet1 a b), al ! unat (sextet2 b c), al ! unat (sextet3 c)]" 0]
  obtain d1 where q: "feeds [al ! unat (sextet0 a), al ! unat (sextet1 a b), al ! unat (sextet2 b c), al ! unat (sextet3 c)] d = Ret ([a, b, c], [], d1)"
    "idle table d1" by (auto simp: octets_of_sextets)
  from 4(1) [OF 4(2,3) q(2)] obtain d2 where "feeds (b64_encode al cs) d1 = Ret (cs, [], d2)" "b_next d2 = 0" by blast
  with q(1) show ?case unfolding b64_encode.simps(4) feeds_append by simp
qed (auto simp: idle_def)

lemma length_b64_encode: "length (b64_encode al s) = 4 * ((length s + 2) div 3)"
  by (induction al s rule: b64_encode.induct) (simp_all, presburger)

text \<open>C28. Decoding with \<^verbatim>\<open>decode_base64\<close> what RFC 4648 encodes gives the bytes back, with no message, for every alphabet
  of 64 different ASCII characters without NUL and the padding character; no byte is written outside the buffer.
\<close>

theorem bro_base64_roundtrip:
  assumes "alphabet_ok alphabet"
  shows "decode_base64 P (b64_encode alphabet s) (Some alphabet) = Ret (Some s, [])"
proof -
  from new_Base64Decoder_idle [OF assms, of P] obtain d table where d: "new_Base64Decoder P alphabet = Ret d" "idle table d" "table_for alphabet table"
    by blast
  from feeds_encode [OF assms d(3,2), of s] obtain d' where f: "feeds (b64_encode alphabet s) d = Ret (s, [], d')" "b_next d' = 0" by blast
  define len where "len = length (b64_encode alphabet s)"
  have "good d" using d(2,3) idle_good by (simp add: table_for_def)
  have "b_next d = 0" using d(2) by (simp add: idle_def)
  moreover have "len div 4 \<le> (len + 3) div 4" by (rule div_le_mono) simp
  ultimately have "Decode (Some (int ((len + 3) div 4) * 3 + 1)) (b64_encode alphabet s) d = Ret (len, s, [], d')"
    unfolding len_def by (intro Decode_feeds [OF \<open>good d\<close> f(1)]) auto
  moreover have "int (length s) < int ((len + 3) div 4) * 3 + 1" unfolding len_def length_b64_encode by simp
  moreover have "CheckString alphabet = alphabet" "length alphabet = 64" using assms by (auto simp: alphabet_ok_def CheckString_def)
  ultimately show ?thesis using d(1) f(2) by (simp add: decode_base64_def Let_def len_def [symmetric] b64_Done_def)
qed

theorem bro_base64_roundtrip_witness:
  "b64_encode default_alphabet [0x4F, 0x46, 0x4D, 0xFF] = List.map (\<lambda>c. word_of_nat (of_char c)) ''T0ZN/w=='' \<and>
   decode_base64 demo_P (b64_encode default_alphabet [0x4F, 0x46, 0x4D, 0xFF]) (Some default_alphabet) = Ret (Some [0x4F, 0x46, 0x4D, 0xFF], [])"
proof
  show "b64_encode default_alphabet [0x4F, 0x46, 0x4D, 0xFF] = List.map (\<lambda>c. word_of_nat (of_char c)) ''T0ZN/w==''" by code_simp
qed (rule bro_base64_roundtrip [OF default_alphabet_ok])

section \<open>Streams that move\<close>

text \<open>A stream in pieces; after each the decoder is archived and goes on in another process.\<close>

fun decode_stream :: "bytes list \<Rightarrow> Base64Decoder \<Rightarrow> (bytes \<times> b64_weird list \<times> Base64Decoder) run" where
  "decode_stream [] d = Ret ([], [], d)"
| "decode_stream (c # cs) d =
     run_bind (Decode None c d) (\<lambda>(_, out, w, d).
       run_bind (decode_stream cs (b64_load (b64_save d))) (\<lambda>(out2, w2, d). Ret (out @ out2, w @ w2, d)))"

lemma load_save: "b64_load (b64_save d) = d"
  by (simp add: b64_load_def b64_save_def)

lemma decode_stream_feeds:
  "good d \<Longrightarrow> decode_stream cs d = feeds (concat cs) d"
proof (induction cs arbitrary: d)
  case (Cons c cs)
  from feeds_good [OF Cons.prems, of c] obtain out w d1 where f: "feeds c d = Ret (out, w, d1)" "good d1" by blast
  have "Decode None c d = Ret (length c, out, w, d1)" by (rule Decode_feeds [OF Cons.prems f(1)]) simp
  with f Cons.IH [OF f(2)] show ?case by (simp add: load_save feeds_append)
qed simp

text \<open>C17. However a stream is cut, and wherever its decoder is archived and taken up by another process, the pieces
  decode to the same bytes, messages and final state as the whole stream in one call, which takes all characters.
\<close>

theorem base64_stream_moves:
  assumes "new_Base64Decoder P alphabet = Ret d"
  shows "\<exists>out w d'. Decode None (concat chunks) d = Ret (length (concat chunks), out, w, d') \<and> decode_stream chunks d = Ret (out, w, d')"
proof -
  have g: "good d" using assms by (auto simp: new_Base64Decoder_def run_bind_eq_Ret good_def dest: InitBase64Table_length)
  from feeds_good [OF g, of "concat chunks"] obtain out w d' where f: "feeds (concat chunks) d = Ret (out, w, d')" by blast
  have "Decode None (concat chunks) d = Ret (length (concat chunks), out, w, d')" by (rule Decode_feeds [OF g f]) simp
  with f decode_stream_feeds [OF g, of chunks] show ?thesis by auto
qed

theorem base64_stream_moves_witness:
  "\<exists>d out w d'. new_Base64Decoder demo_P default_alphabet = Ret d \<and>
     Decode None (concat [[0x54, 0x30], [0x5A, 0x4E, 0x2F], [0x77, PAD, PAD]]) d = Ret (8, out, w, d') \<and>
     decode_stream [[0x54, 0x30], [0x5A, 0x4E, 0x2F], [0x77, PAD, PAD]] d = Ret (out, w, d')"
proof -
  obtain d where d: "new_Base64Decoder demo_P default_alphabet = Ret d" using new_Base64Decoder_idle [OF default_alphabet_ok] by blast
  from base64_stream_moves [OF d, of "[[0x54, 0x30], [0x5A, 0x4E, 0x2F], [0x77, PAD, PAD]]"] d show ?thesis by auto
qed

section \<open>The buffer\<close>

lemma ascii_decoder:
  assumes "length alphabet = 64" "\<forall>c \<in> set alphabet. c < 128"
  shows "\<exists>d. new_Base64Decoder P alphabet = Ret d \<and> good d \<and> b_next d = 0"
proof -
  have "alphabet \<noteq> []" using assms(1) by auto
  have "\<forall>c \<in> fst ` set (table_entries_of alphabet). char_signed P \<longrightarrow> c < 128"
    using assms fst_table_entries_of(1) [OF assms(1)] by (auto simp: PAD_def)
  from set_entries_ok [OF this, of "replicate 256 (-1)"] assms(1) \<open>alphabet \<noteq> []\<close> show ?thesis
    by (auto simp: new_Base64Decoder_def InitBase64Table_def good_def)
qed

text \<open>What \<open>Done\<close> adds for an incomplete group has room behind the bytes written so far.\<close>

lemma b64_Done_room:
  assumes g: "good d" "length out \<le> 3 * g" "b_next d + 4 * g \<le> n" and q: "q = (n + 3) div 4"
  shows "\<exists>k out2 w2 d2. b64_Done (Some (int q * 3 + 1 - int (length out))) d = Ret (k, out2, w2, d2) \<and> length out + length out2 \<le> 3 * q"
proof (cases "b_next d = 0")
  case True
  have "g \<le> q" using g(3) unfolding q by linarith
  with True g(2) show ?thesis by (simp add: b64_Done_def)
next
  case False
  then have room: "g + 1 \<le> q" using g(3) unfolding q by linarith
  from g(1) have less: "b_next d < 4" by (simp add: good_def)
  from feeds_good [OF g(1), of "replicate (4 - b_next d) PAD"] obtain out2 w2 d2 g2 where f2:
    "feeds (replicate (4 - b_next d) PAD) d = Ret (out2, w2, d2)" "length out2 \<le> 3 * g2" "b_next d2 + 4 * g2 \<le> b_next d + (4 - b_next d)" by auto
  have "Decode (Some (int q * 3 + 1 - int (length out))) (replicate (4 - b_next d) PAD) d
      = Ret (length (replicate (4 - b_next d) PAD), out2, w2, d2)"
    by (rule Decode_feeds [OF g(1) f2(1)]) (use room g(2) less in simp)
  moreover have "length out + length out2 \<le> 3 * q" using g(2) f2(2,3) less room by simp
  ultimately show ?thesis using False less by (simp add: b64_Done_def Let_def)
qed

text \<open>For any input, \<^verbatim>\<open>decode_base64\<close> with the default alphabet or any 64 ASCII characters without NUL returns a string;
  with its final NUL it fits the buffer of three bytes for every started group of four characters and one more,
  also when the last group is incomplete and \<open>Done\<close> completes it behind the first result.
\<close>

theorem decode_base64_in_buffer:
  assumes "case a of None \<Rightarrow> True | Some alphabet \<Rightarrow> length alphabet = 64 \<and> (\<forall>c \<in> set alphabet. 0 < c \<and> c < 128)"
  shows "\<exists>r w. decode_base64 P s a = Ret (Some r, w) \<and> length r + 1 \<le> 3 * ((length s + 3) div 4) + 1"
proof -
  define arg where "arg = (case a of None \<Rightarrow> [] | Some a \<Rightarrow> CheckString a)"
  have "\<exists>d. new_Base64Decoder P arg = Ret d \<and> good d \<and> b_next d = 0"
  proof (cases a)
    case None
    have "new_Base64Decoder P [] = new_Base64Decoder P default_alphabet" by (simp add: new_Base64Decoder_def)
    moreover have "length default_alphabet = 64" "\<forall>c \<in> set default_alphabet. c < 128" by code_simp+
    ultimately show ?thesis using ascii_decoder [of default_alphabet P] None by (simp add: arg_def)
  next
    case (Some al)
    with assms have "arg = al" by (auto simp: arg_def CheckString_def)
    with Some assms ascii_decoder [of al P] show ?thesis by auto
  qed
  then obtain d where d: "new_Base64Decoder P arg = Ret d" "good d" "b_next d = 0" by blast
  from feeds_good [OF d(2), of s] d(3) obtain out w d1 g where f: "feeds s d = Ret (out, w, d1)" "good d1" "length out \<le> 3 * g"
    "b_next d1 + 4 * g \<le> length s" by auto
  define q where "q = (length s + 3) div 4"
  have "length s div 4 \<le> q" unfolding q_def by (rule div_le_mono) simp
  then have D1: "Decode (Some (int q * 3 + 1)) s d = Ret (length s, out, w, d1)"
    by (intro Decode_feeds [OF d(2) f(1)]) (simp add: d(3))
  from b64_Done_room [OF f(2,3,4) q_def]
  obtain n out2 w2 d2 where D2: "b64_Done (Some (int q * 3 + 1 - int (length out))) d1 = Ret (n, out2, w2, d2)"
    "length out + length out2 \<le> 3 * q" by blast
  have "\<not> (a \<noteq> None \<and> length (the a) \<noteq> 64)" using assms by (cases a) simp_all
  moreover have "\<not> int (length (out @ out2)) \<ge> int q * 3 + 1" using D2(2) by simp
  ultimately have "decode_base64 P s a = Ret (Some (out @ out2), w @ w2)"
    using d(1) D1 D2(1) by (simp add: decode_base64_def Let_def arg_def [symmetric] q_def [symmetric])
  with D2(2) show ?thesis by (simp add: q_def)
qed

theorem decode_base64_in_buffer_witness:
  "\<exists>r w. decode_base64 demo_P [0x54, 0x30, 0x5A] None = Ret (Some r, w) \<and> length r + 1 \<le> 4"
  using decode_base64_in_buffer [of None demo_P "[0x54, 0x30, 0x5A]"] by simp

text \<open>An alphabet with a NUL is not refused by the length test; it stops the process.\<close>

lemma nul_alphabet_aborts: "length a = 64 \<Longrightarrow> 0 \<in> set a \<Longrightarrow> decode_base64 P s (Some a) = Aborted"
  by (simp add: decode_base64_def CheckString_def new_Base64Decoder_def InitBase64Table_def Let_def)

end
