(* ===== verification/Bro_IntSet.thy ===== *)
theory Bro_IntSet
  imports OFM_Refine
begin

text \<open>
  The bitmap set of \<^verbatim>\<open>bro-2.1/src/IntSet.h\<close> and \<^verbatim>\<open>IntSet.cc\<close>, and that it refines sets of numbers.  The bytes
  are a list; \<open>size\<close> is its length.  The multiplication of a byte index by eight does not occur in the code, so the
  32-bit numbers need no bound.
\<close>

section \<open>Operations\<close>

definition new_IntSet :: "u32 \<Rightarrow> bytes" where
  "new_IntSet n = replicate (unat n div 8 + 1) 0"

text \<open>\<open>memcpy\<close> copies the old bytes, which must fit.\<close>

definition intset_Expand :: "u32 \<Rightarrow> bytes \<Rightarrow> bytes run" where
  "intset_Expand i bm =
     (let newsize = unat i div 8 + 1
      in if length bm > newsize then Undef else Ret (bm @ replicate (newsize - length bm) 0))"

definition bit_in_byte :: "u32 \<Rightarrow> u8" where
  "bit_in_byte i = push_bit (unat i mod 8) 1"

definition intset_Insert :: "u32 \<Rightarrow> bytes \<Rightarrow> bytes run" where
  "intset_Insert i bm =
     run_bind (if unat i div 8 \<ge> length bm then intset_Expand i bm else Ret bm) (\<lambda>bm.
       if unat i div 8 < length bm then Ret (bm[unat i div 8 := bm ! (unat i div 8) OR bit_in_byte i]) else Undef)"

definition intset_Remove :: "u32 \<Rightarrow> bytes \<Rightarrow> bytes run" where
  "intset_Remove i bm =
     (if unat i div 8 \<ge> length bm then intset_Expand i bm
      else Ret (bm[unat i div 8 := bm ! (unat i div 8) AND NOT (bit_in_byte i)]))"

definition intset_Contains :: "u32 \<Rightarrow> bytes \<Rightarrow> bool" where
  "intset_Contains i bm \<longleftrightarrow> unat i div 8 < length bm \<and> bm ! (unat i div 8) AND bit_in_byte i \<noteq> 0"

definition intset_Clear :: "bytes \<Rightarrow> bytes" where
  "intset_Clear bm = replicate (length bm) 0"

section \<open>The set in the bitmap\<close>

lemma bit_in_byte_iff: "bit (bit_in_byte i) k \<longleftrightarrow> k = unat i mod 8"
  by (auto simp: bit_in_byte_def bit_simps)

lemma Contains_bit: "intset_Contains i bm \<longleftrightarrow> unat i div 8 < length bm \<and> bit (bm ! (unat i div 8)) (unat i mod 8)"
proof -
  have "x AND bit_in_byte i \<noteq> 0 \<longleftrightarrow> bit x (unat i mod 8)" for x :: u8
    by (auto simp: bit_eq_iff [of "x AND bit_in_byte i" 0] bit_and_iff bit_in_byte_iff)
  then show ?thesis by (simp add: intset_Contains_def)
qed

text \<open>Two numbers have the same byte and the same bit only if they are the same.\<close>

lemma same_place: "unat i div 8 = unat j div 8 \<Longrightarrow> unat i mod 8 = unat j mod 8 \<Longrightarrow> i = (j :: u32)"
  by (metis div_mult_mod_eq word_unat_eq_iff)

definition intset_rep :: "bytes \<Rightarrow> u32 set \<Rightarrow> bool" where
  "intset_rep s A \<longleftrightarrow> (\<forall>i. intset_Contains i s \<longleftrightarrow> i \<in> A)"

lemma new_IntSet_rep: "intset_rep (new_IntSet n) {}"
  by (simp add: intset_rep_def Contains_bit new_IntSet_def del: replicate_Suc)

lemma intset_Clear_rep: "intset_rep (intset_Clear s) {}"
  by (simp add: intset_rep_def Contains_bit intset_Clear_def)

lemma intset_Expand_rep:
  assumes "intset_rep s A" "unat i div 8 \<ge> length s"
  shows "\<exists>s'. intset_Expand i s = Ret s' \<and> intset_rep s' A \<and> unat i div 8 < length s'"
proof -
  let ?s = "s @ replicate (unat i div 8 + 1 - length s) 0"
  have "intset_Contains j ?s \<longleftrightarrow> intset_Contains j s" for j
    by (auto simp: Contains_bit nth_append)
  with assms show ?thesis by (simp add: intset_Expand_def intset_rep_def Let_def)
qed

lemma intset_Insert_rep:
  assumes "intset_rep s A"
  shows "\<exists>s'. intset_Insert i s = Ret s' \<and> intset_rep s' (insert i A)"
proof -
  obtain r where r: "(if unat i div 8 \<ge> length s then intset_Expand i s else Ret s) = Ret r" "intset_rep r A" "unat i div 8 < length r"
    using intset_Expand_rep [OF assms, of i] assms by (cases "unat i div 8 \<ge> length s") auto
  have "intset_Contains j (r[unat i div 8 := r ! (unat i div 8) OR bit_in_byte i]) \<longleftrightarrow> j = i \<or> intset_Contains j r" for j
  proof (cases "unat i div 8 = unat j div 8")
    case True
    then have "unat j mod 8 = unat i mod 8 \<longleftrightarrow> j = i" by (metis same_place)
    with True r(3) show ?thesis by (simp add: Contains_bit bit_or_iff bit_in_byte_iff disj_commute)
  next
    case False
    then have "j \<noteq> i" by metis
    with False show ?thesis by (simp add: Contains_bit)
  qed
  with r show ?thesis by (simp add: intset_Insert_def intset_rep_def)
qed

lemma intset_Remove_rep:
  assumes "intset_rep s A"
  shows "\<exists>s'. intset_Remove i s = Ret s' \<and> intset_rep s' (A - {i})"
proof (cases "unat i div 8 \<ge> length s")
  case True
  then have "\<not> intset_Contains i s" by (simp add: Contains_bit)
  with assms have "i \<notin> A" by (simp add: intset_rep_def)
  with True intset_Expand_rep [OF assms True] show ?thesis by (auto simp: intset_Remove_def)
next
  case False
  have clr: "bit (NOT (bit_in_byte i)) k \<longleftrightarrow> k < 8 \<and> k \<noteq> unat i mod 8" for k
    by (auto simp: bit_not_iff bit_in_byte_iff)
  have "intset_Contains j (s[unat i div 8 := s ! (unat i div 8) AND NOT (bit_in_byte i)]) \<longleftrightarrow> j \<noteq> i \<and> intset_Contains j s" for j
  proof (cases "unat i div 8 = unat j div 8")
    case True
    then have "unat j mod 8 = unat i mod 8 \<longleftrightarrow> j = i" by (metis same_place)
    with True False clr show ?thesis by (simp add: Contains_bit bit_and_iff conj_commute)
  next
    case False
    then have "j \<noteq> i" by metis
    with False show ?thesis by (simp add: Contains_bit)
  qed
  with assms False show ?thesis by (auto simp: intset_Remove_def intset_rep_def)
qed

section \<open>Sequences of operations\<close>

datatype intset_op = SInsert u32 | SRemove u32 | SContains u32 | SClear

definition intset_step :: "intset_op \<Rightarrow> bytes \<Rightarrow> (bool option \<times> bytes) run" where
  "intset_step op s =
     (case op of
        SInsert i \<Rightarrow> run_bind (intset_Insert i s) (\<lambda>s. Ret (None, s))
      | SRemove i \<Rightarrow> run_bind (intset_Remove i s) (\<lambda>s. Ret (None, s))
      | SContains i \<Rightarrow> Ret (Some (intset_Contains i s), s)
      | SClear \<Rightarrow> Ret (None, intset_Clear s))"

definition set_step :: "intset_op \<Rightarrow> u32 set \<Rightarrow> bool option \<times> u32 set" where
  "set_step op A =
     (case op of
        SInsert i \<Rightarrow> (None, insert i A)
      | SRemove i \<Rightarrow> (None, A - {i})
      | SContains i \<Rightarrow> (Some (i \<in> A), A)
      | SClear \<Rightarrow> (None, {}))"

interpretation ints: refines intset_rep "\<lambda>_. True" intset_step set_step
proof unfold_locales
  fix s :: bytes and A op
  assume rep: "intset_rep s A"
  show "\<exists>s'. intset_step op s = Ret (fst (set_step op A), s') \<and> intset_rep s' (snd (set_step op A))"
  proof (cases op)
    case (SInsert i)
    with intset_Insert_rep [OF rep, of i] show ?thesis by (auto simp: intset_step_def set_step_def)
  next
    case (SRemove i)
    with intset_Remove_rep [OF rep, of i] show ?thesis by (auto simp: intset_step_def set_step_def)
  next
    case (SContains i)
    with rep show ?thesis by (simp add: intset_step_def set_step_def intset_rep_def)
  next
    case SClear
    with intset_Clear_rep show ?thesis by (simp add: intset_step_def set_step_def)
  qed
qed

text \<open>Any sequence of operations on a bitmap of any initial size has the results of the same operations on a set, with no
  access outside the bitmap.
\<close>

theorem int_set_is_set:
  "\<exists>s'. run_ops intset_step ops (new_IntSet n) = Ret (fst (spec_ops set_step ops {}), s') \<and>
     intset_rep s' (snd (spec_ops set_step ops {}))"
  by (rule ints.ops_simulated [OF new_IntSet_rep]) simp

end
