(* ===== verification/Bro_Tcp.thy ===== *)
theory Bro_Tcp
  imports Bro_Reassem_Props
begin

text \<open>
  Bro's reassembly of TCP streams, \<^verbatim>\<open>bro-2.1/src/TCP_Reassembler.cc\<close> and \<^verbatim>\<open>TCP_Reassembler.h\<close>, on top of the
  reassembler, and the part of \<^verbatim>\<open>TCP_Endpoint.cc\<close> and \<^verbatim>\<open>TCP_Endpoint.h\<close> it rests on.  OpenNF archives these objects
  to move a connection.  What the class adds to a reassembler is the record \<open>TCP_ext\<close>; what it hands to analyzers,
  events, rules and the contents file is the list \<open>tx_out\<close>, in order.  Analyzers do not call back.  Script variables
  are the record \<open>tcp_conf\<close>; the endpoints and what the analyzer answers are the record \<open>tcp_env\<close>.
  \<open>in_delivery\<close>, which only a disabled option reads, and the debugging output are left out.
\<close>

section \<open>Endpoints\<close>

datatype EndpointState =
  TCP_ENDPOINT_INACTIVE | TCP_ENDPOINT_SYN_SENT | TCP_ENDPOINT_SYN_ACK_SENT | TCP_ENDPOINT_PARTIAL
  | TCP_ENDPOINT_ESTABLISHED | TCP_ENDPOINT_CLOSED | TCP_ENDPOINT_RESET

text \<open>\<open>contents_file\<close> is the data written to the file, by position, when there is one.\<close>

record TCP_Endpoint =
  ep_state :: EndpointState
  start_seq :: u32
  last_seq :: u32
  ack_seq :: u32
  last_seq_high :: u32
  ack_seq_high :: u32
  FIN_seq :: u32
  FIN_cnt :: int
  RST_cnt :: int
  done_something :: bool
  contents_start_seq :: u32
  contents_file :: "(int \<times> bytes) list option"

definition UpdateLastSeq :: "u32 \<Rightarrow> 'e TCP_Endpoint_scheme \<Rightarrow> 'e TCP_Endpoint_scheme" where
  "UpdateLastSeq sq e =
     (let e = (if sq < last_seq e then e\<lparr>last_seq_high := last_seq_high e + 1\<rparr> else e) in e\<lparr>last_seq := sq\<rparr>)"

definition UpdateAckSeq :: "u32 \<Rightarrow> 'e TCP_Endpoint_scheme \<Rightarrow> 'e TCP_Endpoint_scheme" where
  "UpdateAckSeq sq e =
     (let e = (if sq < ack_seq e then e\<lparr>ack_seq_high := ack_seq_high e + 1\<rparr> else e) in e\<lparr>ack_seq := sq\<rparr>)"

definition NoDataAcked :: "'e TCP_Endpoint_scheme \<Rightarrow> bool" where
  "NoDataAcked e \<longleftrightarrow> ack_seq e = start_seq e \<or> ack_seq e = start_seq e + 1"

text \<open>The number of bytes sent or acknowledged, without the octets of SYN and FIN.\<close>

definition endpoint_Size :: "'e TCP_Endpoint_scheme \<Rightarrow> u64" where
  "endpoint_Size e =
     (let last_seq_64 = push_bit 32 (ucast (last_seq_high e)) OR ucast (last_seq e) :: u64;
          ack_seq_64 = push_bit 32 (ucast (ack_seq_high e)) OR ucast (ack_seq e);
          sz = (if last_seq_64 > ack_seq_64 then last_seq_64 else ack_seq_64) - ucast (start_seq e);
          sz = (if sz \<noteq> 0 then sz - 1 else sz)
      in if FIN_cnt e > 0 \<and> sz \<noteq> 0 then sz - 1 else sz)"

section \<open>The reassembler of a stream\<close>

datatype tcp_type = Direct | Forward

text \<open>What leaves the reassembler.\<close>

datatype tcp_out =
    StreamOut tcp_type bytes
  | UndeliveredOut tcp_type u32 int
  | ContentsEvent u32 bytes
  | ContentGapEvent u32 int
  | RexmitInconsistency bytes bytes
  | AckAboveHole
  | GapReport u64 u64 u64 u64
  | EndpointEOF
  | AboveHoleWithoutAcks
  | ExcessiveWithoutAcks
  | RuleMatch bytes
  | FileWrite bytes
  | FileGap int
  | FileClose
  | NoSuchFile

text \<open>The counters are globals of the program.\<close>

record gap_stats =
  tot_ack_events :: u64
  tot_ack_bytes :: u64
  tot_gap_events :: u64
  tot_gap_bytes :: u64
  last_ack_events :: u64
  last_ack_bytes :: u64
  last_gap_events :: u64
  last_gap_bytes :: u64

record TCP_ext =
  deliver_tcp_contents :: bool
  had_gap :: bool
  did_EOF :: bool
  skip_deliveries :: bool
  recording :: bool
  tx_type :: tcp_type
  tx_is_orig :: bool
  tx_stats :: gap_stats
  tx_out :: "tcp_out list"

type_synonym tcp = "TCP_ext Reassembler"

record tcp_conf =
  content_gap :: bool
  report_gaps_for_partial :: bool
  tcp_match_undelivered :: bool
  rule_matcher :: bool
  rexmit_inconsistency :: bool
  tcp_contents :: bool
  deliver_all_orig :: bool
  deliver_all_resp :: bool
  port_listed :: bool
  tcp_max_initial_window :: int
  tcp_max_above_hole_without_any_acks :: int
  tcp_excessive_data_without_further_acks :: int

text \<open>
  \<open>peer_blocks\<close> are the blocks of the reassembler of the peer, if it has one.  \<open>report_due\<close>: a gap report is wanted
  and the time since the last one is up.  \<open>write_ok\<close>: writing to the contents file succeeds.
\<close>

record tcp_env =
  endp :: TCP_Endpoint
  peer :: TCP_Endpoint
  peer_blocks :: "DataBlock list option"
  is_partial :: bool
  skipping :: bool
  report_due :: bool
  write_ok :: bool

definition HasContents :: "tcp_env \<Rightarrow> bool" where
  "HasContents env \<longleftrightarrow> peer_blocks env \<noteq> None"

definition HasUndeliveredData :: "tcp_env \<Rightarrow> bool" where
  "HasUndeliveredData env \<longleftrightarrow> (case peer_blocks env of None \<Rightarrow> False | Some bs \<Rightarrow> bs \<noteq> [])"

definition both_established :: "tcp_env \<Rightarrow> bool" where
  "both_established env \<longleftrightarrow>
     ep_state (endp env) = TCP_ENDPOINT_ESTABLISHED \<and> ep_state (peer env) = TCP_ENDPOINT_ESTABLISHED"

definition emit :: "tcp_out \<Rightarrow> TCP_ext \<Rightarrow> TCP_ext" where
  "emit e x = x\<lparr>tx_out := tx_out x @ [e]\<rparr>"

definition upd_ext :: "('x \<Rightarrow> 'x) \<Rightarrow> 'x Reassembler \<Rightarrow> 'x Reassembler" where
  "upd_ext f R = R\<lparr>r_ext := f (r_ext R)\<rparr>"

definition new_TCP_Reassembler :: "tcp_conf \<Rightarrow> tcp_type \<Rightarrow> bool \<Rightarrow> gap_stats \<Rightarrow> nat \<Rightarrow> tcp" where
  "new_TCP_Reassembler C ty is_orig stats overhead =
     new_Reassembler 1 overhead
       \<lparr>deliver_tcp_contents = tcp_contents C \<and> ((is_orig \<and> deliver_all_orig C) \<or> (\<not> is_orig \<and> deliver_all_resp C) \<or> port_listed C),
        had_gap = False, did_EOF = False, skip_deliveries = False, recording = False, tx_type = ty, tx_is_orig = is_orig,
        tx_stats = stats, tx_out = []\<rparr>"

section \<open>The contents file and the rules\<close>

text \<open>The bytes of a block as the callers pass them on, by pointer and size.\<close>

definition block_bytes :: "DataBlock \<Rightarrow> bytes run" where
  "block_bytes b =
     (let sz = unat (upper b - seq b) in if sz > length (block b) then Undef else Ret (take sz (block b)))"

definition RecordBlock :: "tcp_env \<Rightarrow> DataBlock \<Rightarrow> tcp \<Rightarrow> tcp run" where
  "RecordBlock env b R =
     run_bind (block_bytes b) (\<lambda>bs. if write_ok env then Ret (upd_ext (emit (FileWrite bs)) R) else Aborted)"

definition RecordGap :: "tcp_env \<Rightarrow> u32 \<Rightarrow> u32 \<Rightarrow> tcp \<Rightarrow> tcp run" where
  "RecordGap env start_sq upper_seq R =
     (if write_ok env then Ret (upd_ext (emit (FileGap (seq_delta upper_seq start_sq))) R) else Aborted)"

text \<open>The loop of \<open>RecordToSeq\<close>; the results are the blocks that are left, \<open>last_seq\<close> and the reassembler.\<close>

fun record_loop :: "tcp_env \<Rightarrow> u32 \<Rightarrow> DataBlock list \<Rightarrow> u32 \<Rightarrow> tcp \<Rightarrow> (DataBlock list \<times> u32 \<times> tcp) run" where
  "record_loop env stop_seq [] lst R = Ret ([], lst, R)"
| "record_loop env stop_seq (b # bs) lst R =
     (if seq_delta (upper b) stop_seq \<le> 0 then
        run_bind (if seq_delta (seq b) lst > 0 then RecordGap env lst (seq b) R else Ret R) (\<lambda>R.
        run_bind (RecordBlock env b R) (\<lambda>R. record_loop env stop_seq bs (upper b) R))
      else Ret (b # bs, lst, R))"

definition RecordToSeq :: "tcp_env \<Rightarrow> u32 \<Rightarrow> u32 \<Rightarrow> tcp \<Rightarrow> tcp run" where
  "RecordToSeq env start_sq stop_seq R =
     (let bs = dropWhile (\<lambda>b. seq_delta (upper b) start_sq \<le> 0) (blocks R) in
      if bs = [] then Ret R
      else run_bind (record_loop env stop_seq bs start_sq R) (\<lambda>(rest, lst, R).
        if rest \<noteq> [] \<and> seq_delta lst stop_seq < 0 then RecordGap env lst stop_seq R else Ret R))"

definition last_upper_of :: "'x Reassembler \<Rightarrow> u32 run" where
  "last_upper_of R =
     (case last_block R of
        None \<Rightarrow> Undef
      | Some a \<Rightarrow> (case block_pos a (blocks R) of None \<Rightarrow> Undef | Some n \<Rightarrow> Ret (upper (blocks R ! n))))"

text \<open>Each block that the loop passes over goes to the rules.\<close>

fun match_blocks :: "DataBlock list \<Rightarrow> tcp \<Rightarrow> tcp run" where
  "match_blocks [] R = Ret R"
| "match_blocks (b # bs) R =
     (if seq_delta (upper b) (last_reassem_seq R) \<le> 0 then
        run_bind (block_bytes b) (\<lambda>d. match_blocks bs (upd_ext (emit (RuleMatch d)) R))
      else Ret R)"

definition MatchUndelivered :: "tcp_conf \<Rightarrow> u32 \<Rightarrow> tcp \<Rightarrow> tcp run" where
  "MatchUndelivered C up_to_seq R =
     (if blocks R = [] \<or> \<not> rule_matcher C then Ret R
      else run_bind (last_upper_of R) (\<lambda>lu.
        let up_to_seq = (if up_to_seq = -1 then lu else up_to_seq)
        in if seq_delta up_to_seq (last_reassem_seq R) \<le> 0 \<or> seq_delta lu (last_reassem_seq R) \<le> 0 then Ret R
           else match_blocks (blocks R) R))"

section \<open>The callbacks of the reassembler\<close>

definition ending :: "tcp_env \<Rightarrow> bool" where
  "ending env \<longleftrightarrow> FIN_cnt (endp env) > 0 \<or> RST_cnt (endp env) > 0 \<or> FIN_cnt (peer env) > 0 \<or> RST_cnt (peer env) > 0"

text \<open>Telling the analyzers, or giving up on a stream whose handshake was not seen.\<close>

definition report_undelivered :: "tcp_conf \<Rightarrow> tcp_env \<Rightarrow> u32 \<Rightarrow> tcp \<Rightarrow> tcp" where
  "report_undelivered C env up_to_seq R =
     (let sq = last_reassem_seq R;
          len = seq_delta up_to_seq sq
      in if sq = 1 \<and> ending env then upd_ext (\<lambda>x. x\<lparr>skip_deliveries := True\<rparr>) R
         else
           let R = (if skip_deliveries (r_ext R) then R
                    else
                      let R = (if content_gap C \<and> (report_gaps_for_partial C \<or> both_established env)
                               then upd_ext (emit (ContentGapEvent sq len)) R else R)
                      in upd_ext (\<lambda>x. emit (UndeliveredOut (tx_type x) sq len) x) R)
           in upd_ext (\<lambda>x. x\<lparr>had_gap := True\<rparr>) R)"

definition tcp_Undelivered :: "tcp_conf \<Rightarrow> tcp_env \<Rightarrow> u32 \<Rightarrow> tcp \<Rightarrow> tcp run" where
  "tcp_Undelivered C env up_to_seq R =
     (if sint up_to_seq \<le> 2 \<and> is_partial env \<and> sint up_to_seq \<ge> 0 then Ret R
      else if seq_delta up_to_seq (last_reassem_seq R) \<le> 0 then Aborted
      else
        let R = report_undelivered C env up_to_seq R in
        run_bind (if recording (r_ext R) then RecordToSeq env (last_reassem_seq R) up_to_seq R else Ret R) (\<lambda>R.
        run_bind (if tcp_match_undelivered C then MatchUndelivered C up_to_seq R else Ret R) (\<lambda>R.
        Ret (R\<lparr>last_reassem_seq := up_to_seq\<rparr>))))"

definition DeliverBlock :: "u32 \<Rightarrow> bytes \<Rightarrow> tcp \<Rightarrow> tcp" where
  "DeliverBlock sq data R =
     (let R = (if deliver_tcp_contents (r_ext R) then upd_ext (emit (ContentsEvent sq data)) R else R)
      in if skip_deliveries (r_ext R) then R
         else upd_ext (\<lambda>x. emit (StreamOut (tx_type x) data) x) R)"

text \<open>The loop of \<open>BlockInserted\<close> over the chain from the new block on.\<close>

fun deliver_loop :: "tcp_env \<Rightarrow> DataBlock list \<Rightarrow> tcp \<Rightarrow> tcp run" where
  "deliver_loop env [] R = Ret R"
| "deliver_loop env (b # bs) R =
     (if seq_delta (seq b) (last_reassem_seq R) \<le> 0 then
        run_bind
          (if seq b = last_reassem_seq R then
             (let sq = last_reassem_seq R; R = R\<lparr>last_reassem_seq := sq + (upper b - seq b)\<rparr> in
              run_bind (if recording (r_ext R) then RecordBlock env b R else Ret R) (\<lambda>R.
              run_bind (block_bytes b) (\<lambda>d. Ret (DeliverBlock sq d R))))
           else Ret R)
          (deliver_loop env bs)
      else Ret R)"

text \<open>\<open>BlockInserted\<close> and \<open>TrimToSeq\<close> call each other; the first argument bounds the depth.\<close>

fun tcp_BlockInserted :: "nat \<Rightarrow> tcp_conf \<Rightarrow> tcp_env \<Rightarrow> nat \<Rightarrow> tcp \<Rightarrow> tcp run" where
  "tcp_BlockInserted 0 C env a R = Undef"
| "tcp_BlockInserted (Suc depth) C env a R =
     (case block_pos a (blocks R) of
        None \<Rightarrow> Undef
      | Some n \<Rightarrow>
          let b = blocks R ! n in
          if seq_delta (seq b) (last_reassem_seq R) > 0 \<or> seq_delta (upper b) (last_reassem_seq R) \<le> 0 then Ret R
          else run_bind (deliver_loop env (drop n (blocks R)) R) (\<lambda>R.
            if \<not> HasContents env
               \<or> (NoDataAcked (endp env) \<and> tcp_max_initial_window C \<noteq> 0
                  \<and> sint (endpoint_Size (endp env)) > tcp_max_initial_window C)
            then run_bind (TrimToSeq (tcp_BlockInserted depth C env) (tcp_Undelivered C env) (last_reassem_seq R) R)
                   (\<lambda>(_, R). Ret R)
            else Ret R))"

definition tcp_Overlap :: "tcp_conf \<Rightarrow> tcp_env \<Rightarrow> bytes \<Rightarrow> bytes \<Rightarrow> TCP_ext \<Rightarrow> TCP_ext" where
  "tcp_Overlap C env b1 b2 x =
     (if rexmit_inconsistency C \<and> b1 \<noteq> b2 \<and> (length b1 > 1 \<or> done_something (peer env))
      then emit (RexmitInconsistency b1 b2) x else x)"

section \<open>Operations\<close>

definition NumUndeliveredBytes :: "'x Reassembler \<Rightarrow> int run" where
  "NumUndeliveredBytes R =
     (if last_block R = None then Ret 0 else run_bind (last_upper_of R) (\<lambda>u. Ret (sint (u - last_reassem_seq R))))"

text \<open>Giving up when too much data waits.\<close>

definition drop_if_excessive :: "bool \<Rightarrow> int \<Rightarrow> tcp_out \<Rightarrow> tcp \<Rightarrow> tcp run" where
  "drop_if_excessive cond limit weird R =
     (if cond \<and> limit \<noteq> 0 then
        run_bind (NumUndeliveredBytes R) (\<lambda>n.
          if n > limit
          then Ret (upd_ext (\<lambda>x. x\<lparr>skip_deliveries := True\<rparr>) (ClearBlocks (upd_ext (emit weird) R)))
          else Ret R)
      else Ret R)"

definition max_depth :: nat where "max_depth = 2"

definition tcp_DataSent :: "tcp_conf \<Rightarrow> tcp_env \<Rightarrow> u32 \<Rightarrow> int \<Rightarrow> bytes \<Rightarrow> bool \<Rightarrow> tcp \<Rightarrow> (int \<times> tcp) run" where
  "tcp_DataSent C env sq len data replaying R =
     (let ack = ack_seq (endp env) - start_seq (endp env);
          upper_seq = sq + word_of_int len;
          acked = seq_delta sq ack < 0 \<and> \<not> replaying
      in if skip_deliveries (r_ext R) then Ret (0, R)
         else if acked \<and> seq_delta upper_seq ack \<le> 0 then Ret (0, R)
         else
           let amount_acked = (if acked then seq_delta ack sq else 0) in
           run_bind (NewBlock (tcp_BlockInserted max_depth C env) (tcp_Overlap C env) (sq + word_of_int amount_acked)
               (len - amount_acked) (drop (nat amount_acked) data) R) (\<lambda>R.
           run_bind (drop_if_excessive (NoDataAcked (endp env)) (tcp_max_above_hole_without_any_acks C) AboveHoleWithoutAcks R) (\<lambda>R.
           run_bind (drop_if_excessive True (tcp_excessive_data_without_further_acks C) ExcessiveWithoutAcks R) (\<lambda>R.
           Ret (1, R)))))"

definition DataPending :: "tcp_env \<Rightarrow> tcp \<Rightarrow> bool" where
  "DataPending env R \<longleftrightarrow>
     \<not> skip_deliveries (r_ext R)
     \<and> (let delivered_seq = start_seq (endp env) + last_reassem_seq R in
        (delivered_seq \<noteq> last_seq (endp env) - 1 \<and> delivered_seq \<noteq> last_seq (endp env))
        \<or> (ep_state (endp env) \<noteq> TCP_ENDPOINT_RESET \<and> HasUndeliveredData env))"

definition CheckEOF :: "tcp_env \<Rightarrow> tcp \<Rightarrow> tcp" where
  "CheckEOF env R =
     (if \<not> did_EOF (r_ext R)
         \<and> (FIN_cnt (endp env) > 0 \<or> ep_state (endp env) = TCP_ENDPOINT_CLOSED \<or> ep_state (endp env) = TCP_ENDPOINT_RESET)
         \<and> \<not> DataPending env R
      then upd_ext (\<lambda>x. emit EndpointEOF (x\<lparr>did_EOF := True\<rparr>)) R else R)"

text \<open>The counters of acknowledgements and gaps, and the report about them.\<close>

definition count_ack :: "int \<Rightarrow> int \<Rightarrow> TCP_ext \<Rightarrow> TCP_ext" where
  "count_ack bytes_covered num_missing x =
     (let x = x\<lparr>tx_stats := (tx_stats x)\<lparr>tot_ack_events := tot_ack_events (tx_stats x) + 1,
                  tot_ack_bytes := tot_ack_bytes (tx_stats x) + word_of_int bytes_covered\<rparr>\<rparr>
      in if num_missing > 0
         then emit AckAboveHole (x\<lparr>tx_stats := (tx_stats x)\<lparr>tot_gap_events := tot_gap_events (tx_stats x) + 1,
                tot_gap_bytes := tot_gap_bytes (tx_stats x) + word_of_int num_missing\<rparr>\<rparr>)
         else x)"

definition report_gaps :: "TCP_ext \<Rightarrow> TCP_ext" where
  "report_gaps x =
     (let s = tx_stats x in
      emit (GapReport (tot_ack_events s - last_ack_events s) (tot_ack_bytes s - last_ack_bytes s)
              (tot_gap_events s - last_gap_events s) (tot_gap_bytes s - last_gap_bytes s))
        (x\<lparr>tx_stats := s\<lparr>last_ack_events := tot_ack_events s, last_ack_bytes := tot_ack_bytes s,
             last_gap_events := tot_gap_events s, last_gap_bytes := tot_gap_bytes s\<rparr>\<rparr>))"

definition tcp_AckReceived :: "tcp_conf \<Rightarrow> tcp_env \<Rightarrow> u32 \<Rightarrow> tcp \<Rightarrow> tcp run" where
  "tcp_AckReceived C env sq R =
     (let sq = (if FIN_cnt (endp env) > 0 \<and> seq_delta sq (FIN_seq (endp env)) \<ge> 0 then FIN_seq (endp env) - 1 else sq);
          bytes_covered = seq_delta sq (trim_seq R)
      in if bytes_covered \<le> 0 then Ret R
         else
           let test_active = (\<not> skip_deliveries (r_ext R) \<and> \<not> skipping env
                 \<and> (report_gaps_for_partial C \<or> both_established env))
           in run_bind (TrimToSeq (tcp_BlockInserted max_depth C env) (tcp_Undelivered C env) sq R) (\<lambda>(num_missing, R).
             let R = (if test_active then
                        (let R = upd_ext (count_ack bytes_covered num_missing) R
                         in if report_due env then upd_ext report_gaps R else R)
                      else R)
             in Ret (CheckEOF env R)))"

definition tcp_Done :: "tcp_conf \<Rightarrow> tcp_env \<Rightarrow> tcp \<Rightarrow> tcp run" where
  "tcp_Done C env R =
     run_bind (MatchUndelivered C (-1) R) (\<lambda>R.
       if recording (r_ext R) then
         run_bind (if blocks R \<noteq> [] then
             run_bind (last_upper_of R) (\<lambda>u.
               if seq_delta (last_reassem_seq R) u < 0 then RecordToSeq env (last_reassem_seq R) u R else Ret R)
           else Ret R) (\<lambda>R. Ret (upd_ext (emit FileClose) R))
       else Ret R)"

definition tcp_SetContentsFile :: "tcp_env \<Rightarrow> bool \<Rightarrow> tcp \<Rightarrow> tcp run" where
  "tcp_SetContentsFile env is_open R =
     (if \<not> is_open then Ret (upd_ext (emit NoSuchFile) R)
      else
        run_bind (if \<not> recording (r_ext R) \<and> blocks R \<noteq> []
                  then RecordToSeq env (seq (hd (blocks R))) (last_reassem_seq R) R else Ret R)
          (\<lambda>R. Ret (upd_ext (\<lambda>x. x\<lparr>recording := True\<rparr>) R)))"

fun SizeBufferedData :: "u32 \<Rightarrow> DataBlock list \<Rightarrow> int \<times> int" where
  "SizeBufferedData lst [] = (0, 0)"
| "SizeBufferedData lst (b # bs) =
     (case SizeBufferedData lst bs of (on_hole, on_ack) \<Rightarrow>
        if seq_delta (seq b) lst \<le> 0 then (on_hole, on_ack + sint (upper b - seq b))
        else (on_hole + sint (upper b - seq b), on_ack))"

section \<open>The endpoint's side\<close>

text \<open>
  \<open>TCP_Endpoint::DataSent\<close>: \<open>data\<close> are the \<open>caplen\<close> captured bytes.  Without a reassembler the data goes to the
  contents file, and then bytes beyond those captured would be read.
\<close>

definition endpoint_DataSent ::
  "tcp_conf \<Rightarrow> tcp_env \<Rightarrow> u32 \<Rightarrow> int \<Rightarrow> int \<Rightarrow> bytes \<Rightarrow> tcp option \<Rightarrow> (int \<times> TCP_Endpoint \<times> tcp option) run" where
  "endpoint_DataSent C env sq len caplen data proc =
     run_bind (case proc of
         Some R \<Rightarrow> if caplen \<ge> len then run_bind (tcp_DataSent C env sq len data True R) (\<lambda>(st, R). Ret (st, Some R))
                   else Ret (0, proc)
       | None \<Rightarrow> Ret (0, None)) (\<lambda>(status, proc).
       let e = endp env in
       if caplen \<le> 0 then Ret (status, e, proc)
       else case contents_file e of
           Some out \<Rightarrow>
             if proc = None \<and> sint (sq + word_of_int len) > sint (contents_start_seq e) then
               (let under_seq = sint (contents_start_seq e - sq);
                    skipped = (if under_seq > 0 then under_seq else 0);
                    len = len - skipped
                in if len < 0 \<or> nat (skipped + len) > length data then Undef
                   else if \<not> write_ok env then Aborted
                   else Ret (status, e\<lparr>contents_file := Some (out @ [(sint (sq + word_of_int skipped - contents_start_seq e),
                              take (nat len) (drop (nat skipped) data))])\<rparr>, proc))
             else Ret (status, e, proc)
         | None \<Rightarrow> Ret (status, e, proc))"

definition endpoint_AckReceived :: "tcp_conf \<Rightarrow> tcp_env \<Rightarrow> u32 \<Rightarrow> tcp option \<Rightarrow> tcp option run" where
  "endpoint_AckReceived C env sq proc =
     (case proc of None \<Rightarrow> Ret None | Some R \<Rightarrow> run_bind (tcp_AckReceived C env sq R) (\<lambda>R. Ret (Some R)))"

section \<open>Archives\<close>

text \<open>
  A block: the bytes follow only when the size is positive.  Loading does not count the block in \<open>total_size\<close>,
  the counter of the loading process.  The order of the chain and \<open>last_block\<close> survive as the archive tracks
  pointers; the contents file is given up.
\<close>

definition save_block :: "DataBlock \<Rightarrow> (nat \<times> u32 \<times> u32 \<times> bytes option) run" where
  "save_block b =
     (let sz = sint (upper b - seq b) in
      if sz > 0 then run_bind (block_bytes b) (\<lambda>d. Ret (db_addr b, seq b, upper b, Some d))
      else Ret (db_addr b, seq b, upper b, None))"

definition load_block :: "nat \<times> u32 \<times> u32 \<times> bytes option \<Rightarrow> DataBlock" where
  "load_block s = (case s of (a, sq, up, d) \<Rightarrow> \<lparr>db_addr = a, seq = sq, upper = up, block = (case d of None \<Rightarrow> [] | Some d \<Rightarrow> d)\<rparr>)"

fun save_blocks :: "DataBlock list \<Rightarrow> (nat \<times> u32 \<times> u32 \<times> bytes option) list run" where
  "save_blocks [] = Ret []"
| "save_blocks (b # bs) = run_bind (save_block b) (\<lambda>s. run_bind (save_blocks bs) (\<lambda>ss. Ret (s # ss)))"

definition tcp_bitfields :: "TCP_ext \<Rightarrow> u32" where
  "tcp_bitfields x =
     of_bool (deliver_tcp_contents x) OR push_bit 1 (of_bool (had_gap x)) OR push_bit 2 (of_bool (did_EOF x))
       OR push_bit 3 (of_bool (skip_deliveries x))"

record tcp_archive =
  ar_blocks :: "(nat \<times> u32 \<times> u32 \<times> bytes option) list"
  ar_last_block :: "nat option"
  ar_last_reassem_seq :: u32
  ar_trim_seq :: u32
  ar_bitfields :: u32
  ar_type :: tcp_type
  ar_is_orig :: bool

text \<open>The analyzers, and those that can be archived.\<close>

datatype AnalyzerTag =
    Tag_Error | Tag_PIA_TCP | Tag_PIA_UDP | Tag_ICMP | Tag_TCP | Tag_UDP | Tag_BitTorrent
    | Tag_BitTorrentTracker | Tag_DCE_RPC | Tag_DNS | Tag_Finger | Tag_FTP | Tag_Gnutella | Tag_HTTP | Tag_Ident
    | Tag_IRC | Tag_Login | Tag_NCP | Tag_NetbiosSSN | Tag_NFS | Tag_NTP | Tag_POP3 | Tag_Portmapper
    | Tag_Rlogin | Tag_RPC | Tag_Rsh | Tag_SMB | Tag_SMTP | Tag_SSH | Tag_Telnet | Tag_DHCP_BINPAC
    | Tag_DNS_TCP_BINPAC | Tag_DNS_UDP_BINPAC | Tag_HTTP_BINPAC | Tag_SSL | Tag_SYSLOG_BINPAC | Tag_AYIYA
    | Tag_SOCKS | Tag_Teredo | Tag_File | Tag_Backdoor | Tag_InterConn | Tag_SteppingStone | Tag_TCPStats
    | Tag_ConnSize | Tag_Contents | Tag_ContentLine | Tag_NVT | Tag_Zip | Tag_Contents_DNS | Tag_Contents_NCP
    | Tag_Contents_NetbiosSSN | Tag_Contents_Rlogin | Tag_Contents_Rsh | Tag_Contents_DCE_RPC | Tag_Contents_SMB
    | Tag_Contents_RPC | Tag_Contents_NFS

definition sdmbn_can_serialize :: "AnalyzerTag \<Rightarrow> bool" where
  "sdmbn_can_serialize tag \<longleftrightarrow> tag \<in>
     {Tag_PIA_TCP, Tag_PIA_UDP, Tag_ICMP, Tag_TCP, Tag_UDP, Tag_DNS, Tag_FTP, Tag_HTTP, Tag_SMTP, Tag_SSH,
      Tag_SSL, Tag_Teredo, Tag_File, Tag_ConnSize, Tag_ContentLine, Tag_NVT, Tag_Zip}"

text \<open>The assertions about the tags of the two analyzers, which may be absent, end the process.\<close>

definition tcp_save :: "AnalyzerTag option \<Rightarrow> AnalyzerTag option \<Rightarrow> tcp \<Rightarrow> tcp_archive run" where
  "tcp_save dst_tag tcp_tag R =
     run_bind (save_blocks (blocks R)) (\<lambda>bs.
       if (case dst_tag of None \<Rightarrow> False | Some t \<Rightarrow> \<not> sdmbn_can_serialize t)
          \<or> (case tcp_tag of None \<Rightarrow> False | Some t \<Rightarrow> \<not> sdmbn_can_serialize t)
       then Aborted
       else Ret \<lparr>ar_blocks = bs, ar_last_block = last_block R, ar_last_reassem_seq = last_reassem_seq R, ar_trim_seq = trim_seq R,
            ar_bitfields = tcp_bitfields (r_ext R), ar_type = tx_type (r_ext R), ar_is_orig = tx_is_orig (r_ext R)\<rparr>)"

text \<open>Loading into a process with these counters, whose next free address is \<open>addr\<close>.\<close>

definition tcp_load :: "u32 \<Rightarrow> nat \<Rightarrow> nat \<Rightarrow> gap_stats \<Rightarrow> tcp_out list \<Rightarrow> tcp_archive \<Rightarrow> tcp" where
  "tcp_load total_sz addr overhead stats out s =
     \<lparr>blocks = List.map load_block (ar_blocks s), last_block = ar_last_block s, last_reassem_seq = ar_last_reassem_seq s,
      trim_seq = ar_trim_seq s, total_size = total_sz, next_addr = addr, block_overhead = overhead,
      r_ext = \<lparr>deliver_tcp_contents = drop_bit 0 (ar_bitfields s) AND 1 = 1, had_gap = drop_bit 1 (ar_bitfields s) AND 1 = 1,
        did_EOF = drop_bit 2 (ar_bitfields s) AND 1 = 1, skip_deliveries = drop_bit 3 (ar_bitfields s) AND 1 = 1,
        recording = False, tx_type = ar_type s, tx_is_orig = ar_is_orig s, tx_stats = stats, tx_out = out\<rparr>\<rparr>"

end
