(* ===== verification/Bro_Tcp_Props.thy ===== *)
theory Bro_Tcp_Props
  imports Bro_Tcp
begin

text \<open>
  What the analyzers of a TCP stream see.  Sequence numbers are relative, so the base of positions is 0.  The
  invariant ties the stream handed out so far to the position \<open>last_reassem_seq\<close> and to the bytes that arrived.
\<close>

abbreviation pos :: "u32 \<Rightarrow> nat" where "pos \<equiv> seq_off 0"

section \<open>The stream in the output\<close>

text \<open>The bytes handed to the analyzers in order, \<open>None\<close> for each byte declared undelivered.\<close>

fun stream_of :: "tcp_out list \<Rightarrow> u8 option list" where
  "stream_of [] = []"
| "stream_of (StreamOut ty d # es) = List.map Some d @ stream_of es"
| "stream_of (UndeliveredOut ty sq len # es) = replicate (nat len) None @ stream_of es"
| "stream_of (_ # es) = stream_of es"

text \<open>Each declared gap names the position it is at; the first argument is the position reached so far.\<close>

fun gaps_placed :: "nat \<Rightarrow> tcp_out list \<Rightarrow> bool" where
  "gaps_placed p [] = True"
| "gaps_placed p (StreamOut ty d # es) = gaps_placed (p + length d) es"
| "gaps_placed p (UndeliveredOut ty sq len # es) = (pos sq = p \<and> 0 < len \<and> gaps_placed (p + nat len) es)"
| "gaps_placed p (_ # es) = gaps_placed p es"

definition silent :: "tcp_out \<Rightarrow> bool" where
  "silent e \<longleftrightarrow> (case e of StreamOut ty d \<Rightarrow> False | UndeliveredOut ty sq len \<Rightarrow> False | _ \<Rightarrow> True)"

lemma silent_simps [simp]:
  "silent (ContentsEvent sq d)" "silent (ContentGapEvent sq len)" "silent (RexmitInconsistency a b)" "silent AckAboveHole"
  "silent (GapReport i j k l)" "silent EndpointEOF" "silent AboveHoleWithoutAcks" "silent ExcessiveWithoutAcks"
  "silent (RuleMatch d)" "silent (FileWrite d)" "silent (FileGap n)" "silent FileClose" "silent NoSuchFile"
  by (simp_all add: silent_def)

lemma stream_of_append [simp]: "stream_of (es @ fs) = stream_of es @ stream_of fs"
  by (induction es rule: stream_of.induct) simp_all

lemma gaps_placed_append [simp]:
  "gaps_placed p (es @ fs) \<longleftrightarrow> gaps_placed p es \<and> gaps_placed (p + length (stream_of es)) fs"
  by (induction p es rule: gaps_placed.induct) (auto simp: add.assoc)

lemma silent_stream: "list_all silent es \<Longrightarrow> stream_of es = []"
  by (induction es rule: stream_of.induct) (simp_all add: silent_def)

lemma silent_gaps: "list_all silent es \<Longrightarrow> gaps_placed p es"
  by (induction es rule: stream_of.induct) (simp_all add: silent_def)

section \<open>States that differ in the output only\<close>

definition put :: "tcp_out list \<Rightarrow> tcp \<Rightarrow> tcp" where
  "put es R = R\<lparr>r_ext := (r_ext R)\<lparr>tx_out := tx_out (r_ext R) @ es\<rparr>\<rparr>"

lemma put_simps [simp]:
  "blocks (put es R) = blocks R" "last_block (put es R) = last_block R" "last_reassem_seq (put es R) = last_reassem_seq R"
  "trim_seq (put es R) = trim_seq R" "total_size (put es R) = total_size R" "next_addr (put es R) = next_addr R"
  "block_overhead (put es R) = block_overhead R" "tx_out (r_ext (put es R)) = tx_out (r_ext R) @ es"
  "skip_deliveries (r_ext (put es R)) = skip_deliveries (r_ext R)" "recording (r_ext (put es R)) = recording (r_ext R)"
  "tx_type (r_ext (put es R)) = tx_type (r_ext R)" "deliver_tcp_contents (r_ext (put es R)) = deliver_tcp_contents (r_ext R)"
  "reasm_ok base (put es R) = reasm_ok base R"
  by (simp_all add: put_def)

lemma put_put [simp]: "put fs (put es R) = put (es @ fs) R"
  by (simp add: put_def)

lemma put_Nil [simp]: "put [] R = R"
  by (simp add: put_def)

lemma upd_emit: "upd_ext (emit e) R = put [e] R" "upd_ext (\<lambda>x. emit (f x) x) R = put [f (r_ext R)] R"
  by (simp_all add: upd_ext_def emit_def put_def)

lemma put_last [simp]: "(put es R)\<lparr>last_reassem_seq := l\<rparr> = put es (R\<lparr>last_reassem_seq := l\<rparr>)"
  by (simp add: put_def)

lemma reasm_ok_seqs [simp]:
  "reasm_ok base (R\<lparr>last_reassem_seq := l\<rparr>) = reasm_ok base R" "reasm_ok base (R\<lparr>trim_seq := t\<rparr>) = reasm_ok base R"
  by (simp_all add: reasm_ok_def accounted_def)

section \<open>The contents file and the rules only add silent output\<close>

lemma block_size: "block_ok base b \<Longrightarrow> unat (upper b - seq b) = length (block b)"
  by (simp add: block_ok_def unat_of_nat take_bit_nat_eq_self)

lemma block_bytes_ok: "block_ok base b \<Longrightarrow> block_bytes b = Ret (block b)"
  by (simp add: block_bytes_def block_size Let_def)

lemma RecordBlock_ok: "block_ok base b \<Longrightarrow> write_ok env \<Longrightarrow> RecordBlock env b R = Ret (put [FileWrite (block b)] R)"
  by (simp add: RecordBlock_def block_bytes_ok upd_emit)

lemma RecordGap_ok: "write_ok env \<Longrightarrow> RecordGap env p q R = Ret (put [FileGap (seq_delta q p)] R)"
  by (simp add: RecordGap_def upd_emit)

lemma record_loop_ok:
  "\<forall>b \<in> set bs. block_ok base b \<Longrightarrow> write_ok env \<Longrightarrow>
   \<exists>rest lst' es. record_loop env stop bs lst R = Ret (rest, lst', put es R) \<and> list_all silent es"
proof (induction bs arbitrary: lst R)
  case Nil
  then show ?case by (auto intro: exI [of _ "[]"])
next
  case (Cons b bs)
  define pre where "pre = (if seq_delta (seq b) lst > 0 then [FileGap (seq_delta (seq b) lst)] else [])"
  have pre: "(if seq_delta (seq b) lst > 0 then RecordGap env lst (seq b) R else Ret R) = Ret (put pre R)" "list_all silent pre"
    using Cons.prems(2) by (simp_all add: pre_def RecordGap_ok)
  have "block_ok base b" using Cons.prems(1) by simp
  note rec = RecordBlock_ok [OF this Cons.prems(2)]
  show ?case
  proof (cases "seq_delta (upper b) stop \<le> 0")
    case True
    from Cons.IH [of "upper b" "put (pre @ [FileWrite (block b)]) R"] Cons.prems obtain rest lst' es where
      "record_loop env stop bs (upper b) (put (pre @ [FileWrite (block b)]) R) = Ret (rest, lst', put (pre @ [FileWrite (block b)] @ es) R)"
      "list_all silent es" by auto
    with True pre show ?thesis by (auto simp: rec intro!: exI [of _ "pre @ [FileWrite (block b)] @ es"])
  next
    case False
    then show ?thesis by (auto intro: exI [of _ "[]"])
  qed
qed

lemma RecordToSeq_ok:
  assumes "reasm_ok base R" "write_ok env"
  shows "\<exists>es. RecordToSeq env p q R = Ret (put es R) \<and> list_all silent es"
proof (cases "dropWhile (\<lambda>b. seq_delta (upper b) p \<le> 0) (blocks R) = []")
  case True
  then show ?thesis by (auto simp: RecordToSeq_def Let_def intro: exI [of _ "[]"])
next
  case False
  let ?bs = "dropWhile (\<lambda>b. seq_delta (upper b) p \<le> 0) (blocks R)"
  have "\<forall>b \<in> set ?bs. block_ok base b"
    using assms(1) by (auto simp: reasm_ok_def chain_ok_def dest: set_dropWhileD)
  from record_loop_ok [OF this assms(2), of q p R] obtain rest lst' es where
    es: "record_loop env q ?bs p R = Ret (rest, lst', put es R)" "list_all silent es" by blast
  define post where "post = (if rest \<noteq> [] \<and> seq_delta lst' q < 0 then [FileGap (seq_delta q lst')] else [])"
  have "RecordToSeq env p q R = Ret (put (es @ post) R)"
    using False es(1) assms(2) by (auto simp: RecordToSeq_def Let_def RecordGap_ok post_def)
  moreover have "list_all silent (es @ post)" using es(2) by (simp add: post_def)
  ultimately show ?thesis by blast
qed

lemma last_upper_ok:
  assumes "reasm_ok base R" "blocks R \<noteq> []"
  shows "last_upper_of R = Ret (upper (last (blocks R)))"
proof -
  have "block_pos (db_addr (last (blocks R))) (blocks R) = Some (length (blocks R) - 1)"
    using block_pos_nth [of "blocks R" "length (blocks R) - 1"] assms by (simp add: reasm_ok_def chain_ok_def last_conv_nth)
  with assms show ?thesis by (simp add: last_upper_of_def reasm_ok_def last_conv_nth)
qed

lemma match_blocks_ok:
  "\<forall>b \<in> set bs. block_ok base b \<Longrightarrow>
   match_blocks bs R = Ret (put (List.map (\<lambda>b. RuleMatch (block b))
     (takeWhile (\<lambda>b. seq_delta (upper b) (last_reassem_seq R) \<le> 0) bs)) R)"
proof (induction bs arbitrary: R)
  case (Cons b bs)
  then have "block_bytes b = Ret (block b)" "\<forall>b \<in> set bs. block_ok base b" by (simp_all add: block_bytes_ok [of base])
  with Cons.IH [of "put [RuleMatch (block b)] R"] show ?case by (simp add: upd_emit)
qed simp

lemma MatchUndelivered_silent:
  assumes "reasm_ok base R"
  shows "\<exists>es. MatchUndelivered C up R = Ret (put es R) \<and> list_all silent es"
proof -
  have "match_blocks (blocks R) R = Ret (put (List.map (\<lambda>b. RuleMatch (block b))
     (takeWhile (\<lambda>b. seq_delta (upper b) (last_reassem_seq R) \<le> 0) (blocks R))) R)"
    using assms by (intro match_blocks_ok [of _ base]) (simp add: reasm_ok_def chain_ok_def)
  moreover have "list_all silent (List.map (\<lambda>b. RuleMatch (block b)) bs)" for bs by (simp add: list_all_iff)
  ultimately show ?thesis
    using last_upper_ok [OF assms] by (auto simp: MatchUndelivered_def Let_def intro: exI [of _ "[]"])
qed

section \<open>Declaring data undelivered\<close>

definition undelivered_post :: "nat \<Rightarrow> nat \<Rightarrow> TCP_ext \<Rightarrow> TCP_ext \<Rightarrow> bool" where
  "undelivered_post p q x x' \<longleftrightarrow>
     (\<exists>es. tx_out x' = tx_out x @ es \<and> (skip_deliveries x \<longrightarrow> skip_deliveries x')
        \<and> gaps_placed p es \<and> (skip_deliveries x' \<longrightarrow> (\<forall>q. gaps_placed q es))
        \<and> stream_of es = (if skip_deliveries x' then [] else replicate (q - p) None))"

lemma report_undelivered_ok:
  assumes "reasm_ok 0 R" "pos (last_reassem_seq R) < pos up" "pos up < half_space"
  shows "\<exists>x. report_undelivered C env up R = R\<lparr>r_ext := x\<rparr>
    \<and> undelivered_post (pos (last_reassem_seq R)) (pos up) (r_ext R) x"
proof -
  have d: "seq_delta up (last_reassem_seq R) = int (pos up) - int (pos (last_reassem_seq R))"
    using assms(2,3) by (intro seq_delta_off) simp_all
  define sq where "sq = last_reassem_seq R"
  define ended where "ended = (sq = 1 \<and> ending env)"
  define gap where "gap = (if content_gap C \<and> (report_gaps_for_partial C \<or> both_established env) then [ContentGapEvent sq (seq_delta up sq)] else [])"
  define fs where "fs = (if ended \<or> skip_deliveries (r_ext R) then [] else gap @ [UndeliveredOut (tx_type (r_ext R)) sq (seq_delta up sq)])"
  define x where "x = (if ended then (r_ext R)\<lparr>skip_deliveries := True\<rparr> else (r_ext R)\<lparr>tx_out := tx_out (r_ext R) @ fs, had_gap := True\<rparr>)"
  have "report_undelivered C env up R = R\<lparr>r_ext := x\<rparr>"
    by (simp add: report_undelivered_def Let_def sq_def [symmetric] ended_def [symmetric] x_def fs_def gap_def upd_ext_def emit_def)
  moreover have "undelivered_post (pos sq) (pos up) (r_ext R) x"
    using d assms(2) unfolding undelivered_post_def
    by (intro exI [of _ fs]) (auto simp: x_def fs_def gap_def sq_def nat_diff_distrib)
  ultimately show ?thesis by (auto simp: sq_def)
qed

lemma undelivered_post_silent:
  assumes "undelivered_post p q x x'" "list_all silent es"
  shows "undelivered_post p q x (x'\<lparr>tx_out := tx_out x' @ es\<rparr>)"
proof -
  obtain fs where "tx_out x' = tx_out x @ fs" "skip_deliveries x \<longrightarrow> skip_deliveries x'" "gaps_placed p fs"
      "skip_deliveries x' \<longrightarrow> (\<forall>q. gaps_placed q fs)"
      "stream_of fs = (if skip_deliveries x' then [] else replicate (q - p) None)"
    using assms(1) unfolding undelivered_post_def by blast
  with silent_stream [OF assms(2)] silent_gaps [OF assms(2)] show ?thesis
    unfolding undelivered_post_def by (intro exI [of _ "fs @ es"]) simp
qed

lemma tcp_Undelivered_ok:
  assumes "reasm_ok 0 R" "write_ok env" "pos (last_reassem_seq R) < pos up" "pos up < half_space"
  shows "(tcp_Undelivered C env up R = Ret R \<and> is_partial env \<and> pos up \<le> 2)
    \<or> (\<exists>x. tcp_Undelivered C env up R = Ret (R\<lparr>last_reassem_seq := up, r_ext := x\<rparr>)
         \<and> undelivered_post (pos (last_reassem_seq R)) (pos up) (r_ext R) x)"
proof (cases "is_partial env \<and> pos up \<le> 2")
  case True
  have "sint up = int (pos up)" using assms(4) sint_diff [of up 0] by (simp add: seq_off_def)
  with True show ?thesis by (simp add: tcp_Undelivered_def)
next
  case False
  have "seq_delta up (last_reassem_seq R) = int (pos up) - int (pos (last_reassem_seq R))"
    using assms(3,4) by (intro seq_delta_off) simp_all
  moreover have "sint up = int (pos up)" using assms(4) sint_diff [of up 0] by (simp add: seq_off_def)
  moreover define R1 where "R1 = report_undelivered C env up R"
  ultimately have unf: "tcp_Undelivered C env up R =
        run_bind (if recording (r_ext R1) then RecordToSeq env (last_reassem_seq R1) up R1 else Ret R1) (\<lambda>R.
        run_bind (if tcp_match_undelivered C then MatchUndelivered C up R else Ret R) (\<lambda>R. Ret (R\<lparr>last_reassem_seq := up\<rparr>)))"
    using False assms(3) by (auto simp: tcp_Undelivered_def Let_def)
  obtain x where x: "R1 = R\<lparr>r_ext := x\<rparr>" "undelivered_post (pos (last_reassem_seq R)) (pos up) (r_ext R) x"
    using report_undelivered_ok [OF assms(1,3,4), of C env] unfolding R1_def by blast
  have R1ok: "reasm_ok 0 R1" using assms(1) x(1) by simp
  obtain es1 where es1: "(if recording (r_ext R1) then RecordToSeq env (last_reassem_seq R1) up R1 else Ret R1) = Ret (put es1 R1)"
      "list_all silent es1"
    using RecordToSeq_ok [OF R1ok assms(2), of "last_reassem_seq R1" up] that [of "[]"] by (cases "recording (r_ext R1)") auto
  obtain es2 where es2: "(if tcp_match_undelivered C then MatchUndelivered C up (put es1 R1) else Ret (put es1 R1)) = Ret (put (es1 @ es2) R1)"
      "list_all silent es2"
    using MatchUndelivered_silent [of 0 "put es1 R1" C up] R1ok that [of "[]"] by (cases "tcp_match_undelivered C") auto
  have "tcp_Undelivered C env up R = Ret ((put (es1 @ es2) R1)\<lparr>last_reassem_seq := up\<rparr>)" using unf es1(1) es2(1) by simp
  then have run: "tcp_Undelivered C env up R = Ret (R\<lparr>last_reassem_seq := up, r_ext := x\<lparr>tx_out := tx_out x @ es1 @ es2\<rparr>\<rparr>)"
    by (simp add: x(1) put_def)
  with undelivered_post_silent [OF x(2), of "es1 @ es2"] es1(2) es2(2) show ?thesis by auto
qed

section \<open>Delivering\<close>

lemma sorted_seqs:
  assumes "chain_ok 0 (b # bs)" "c \<in> set bs"
  shows "pos (upper b) \<le> pos (seq c)"
  using assms by (simp add: chain_ok_def before_def)

lemma chain_ok_tl: "chain_ok base (b # bs) \<Longrightarrow> chain_ok base bs"
  by (simp add: chain_ok_def)

lemma content_hd:
  assumes "chain_ok 0 (b # bs)"
  shows "pos (seq b) \<le> p \<Longrightarrow> p < pos (upper b) \<Longrightarrow> content 0 (b # bs) p = Some (block b ! (p - pos (seq b)))"
    and "pos (upper b) \<le> p \<Longrightarrow> content 0 (b # bs) p = content 0 bs p"
proof -
  have ok: "block_ok 0 b" using assms by (simp add: chain_ok_def)
  note up = block_upper [OF ok]
  show "content 0 (b # bs) p = Some (block b ! (p - pos (seq b)))" if "pos (seq b) \<le> p" "p < pos (upper b)"
    using that up by (simp add: data_map_def)
  show "content 0 (b # bs) p = content 0 bs p" if "pos (upper b) \<le> p"
    using that up by (simp add: map_add_def data_map_def)
qed

text \<open>The output of the loop for one block.\<close>

lemma deliver_one:
  assumes "block_ok base b" "write_ok env"
  shows "\<exists>es. run_bind (if recording (r_ext R) then RecordBlock env b R else Ret R) (\<lambda>R.
      run_bind (block_bytes b) (\<lambda>d. Ret (DeliverBlock sq d R))) = Ret (put es R)
    \<and> stream_of es = (if skip_deliveries (r_ext R) then [] else List.map Some (block b)) \<and> (\<forall>p. gaps_placed p es)"
proof -
  define es where "es = (if recording (r_ext R) then [FileWrite (block b)] else [])
    @ (if deliver_tcp_contents (r_ext R) then [ContentsEvent sq (block b)] else [])
    @ (if skip_deliveries (r_ext R) then [] else [StreamOut (tx_type (r_ext R)) (block b)])"
  have "run_bind (if recording (r_ext R) then RecordBlock env b R else Ret R) (\<lambda>R.
      run_bind (block_bytes b) (\<lambda>d. Ret (DeliverBlock sq d R))) = Ret (put es R)"
    using assms by (simp add: RecordBlock_ok block_bytes_ok DeliverBlock_def Let_def upd_emit es_def)
  moreover have "stream_of es = (if skip_deliveries (r_ext R) then [] else List.map Some (block b)) \<and> (\<forall>p. gaps_placed p es)"
    by (simp add: es_def)
  ultimately show ?thesis by blast
qed

lemma deliver_loop_ok:
  assumes "chain_ok 0 bs" "\<forall>b \<in> set bs. pos (last_reassem_seq R) \<le> pos (seq b)" "write_ok env"
    and "pos (last_reassem_seq R) < half_space"
  shows "\<exists>l es. deliver_loop env bs R = Ret (put es (R\<lparr>last_reassem_seq := l\<rparr>))
    \<and> pos (last_reassem_seq R) \<le> pos l \<and> pos l < half_space
    \<and> (\<forall>p. pos (last_reassem_seq R) \<le> p \<and> p < pos l \<longrightarrow> p \<in> dom (content 0 bs)) \<and> pos l \<notin> dom (content 0 bs)
    \<and> stream_of es = (if skip_deliveries (r_ext R) then [] else List.map (content 0 bs) [pos (last_reassem_seq R)..<pos l])
    \<and> (\<forall>p. gaps_placed p es)"
  using assms
proof (induction bs arbitrary: R)
  case Nil
  then show ?case by (intro exI [of _ "last_reassem_seq R"] exI [of _ "[]"]) (simp add: seq_off_def)
next
  case (Cons b bs)
  let ?l = "last_reassem_seq R"
  have ok: "block_ok 0 b" using Cons.prems(1) by (simp add: chain_ok_def)
  note bd = block_bounds [OF ok] and up = block_upper [OF ok] and chain = Cons.prems(1)
  have d: "seq_delta (seq b) ?l = int (pos (seq b)) - int (pos ?l)"
    using bd Cons.prems(4) by (intro seq_delta_off) simp_all
  show ?case
  proof (cases "pos (seq b) = pos ?l")
    case False
    with Cons.prems(2) have less: "pos ?l < pos (seq b)" by (simp add: order_less_le)
    have "pos ?l < pos (seq c)" if "c \<in> set bs" for c
      using sorted_seqs [OF chain that] less bd by simp
    with less have "pos ?l \<notin> dom (content 0 (b # bs))"
      using chain by (intro content_None) (auto simp: chain_ok_def)
    moreover have "deliver_loop env (b # bs) R = Ret (put [] (R\<lparr>last_reassem_seq := ?l\<rparr>))" using d less by simp
    ultimately show ?thesis using Cons.prems(4)
      by (intro exI [of _ ?l] exI [of _ "[]"]) (auto simp del: content.simps)
  next
    case True
    then have sb: "seq b = ?l" by (simp add: seq_off_inj)
    define R1 where "R1 = R\<lparr>last_reassem_seq := upper b\<rparr>"
    from deliver_one [OF ok Cons.prems(3), of R1 ?l] obtain es1 where
      es1: "run_bind (if recording (r_ext R1) then RecordBlock env b R1 else Ret R1) (\<lambda>R.
        run_bind (block_bytes b) (\<lambda>d. Ret (DeliverBlock ?l d R))) = Ret (put es1 R1)"
        "stream_of es1 = (if skip_deliveries (r_ext R) then [] else List.map Some (block b))" "\<forall>p. gaps_placed p es1"
      by (auto simp: R1_def)
    have "\<forall>c \<in> set bs. pos (upper b) \<le> pos (seq c)" using sorted_seqs [OF chain] by blast
    moreover have R1s: "last_reassem_seq (put es1 R1) = upper b" "skip_deliveries (r_ext (put es1 R1)) = skip_deliveries (r_ext R)"
      by (simp_all add: R1_def)
    ultimately obtain l es2 where
      IH: "deliver_loop env bs (put es1 R1) = Ret (put (es1 @ es2) (R1\<lparr>last_reassem_seq := l\<rparr>))" "pos (upper b) \<le> pos l" "pos l < half_space"
        "\<forall>p. pos (upper b) \<le> p \<and> p < pos l \<longrightarrow> p \<in> dom (content 0 bs)" "pos l \<notin> dom (content 0 bs)"
        "stream_of es2 = (if skip_deliveries (r_ext R) then [] else List.map (content 0 bs) [pos (upper b)..<pos l])" "\<forall>p. gaps_placed p es2"
      using Cons.IH [of "put es1 R1", unfolded R1s] chain_ok_tl [OF chain] Cons.prems(3) bd by auto
    have "deliver_loop env (b # bs) R = run_bind (run_bind (if recording (r_ext R1) then RecordBlock env b R1 else Ret R1) (\<lambda>R.
        run_bind (block_bytes b) (\<lambda>d. Ret (DeliverBlock ?l d R)))) (deliver_loop env bs)"
      using d True sb by (simp add: Let_def R1_def)
    then have "deliver_loop env (b # bs) R = Ret (put (es1 @ es2) (R\<lparr>last_reassem_seq := l\<rparr>))"
      using IH(1) by (simp only: es1(1) run_bind.simps) (simp add: R1_def)
    moreover have "\<forall>p. pos ?l \<le> p \<and> p < pos l \<longrightarrow> p \<in> dom (content 0 (b # bs))"
    proof (intro allI impI)
      fix p assume p: "pos ?l \<le> p \<and> p < pos l"
      show "p \<in> dom (content 0 (b # bs))"
      proof (cases "p < pos (upper b)")
        case False
        with p IH(4) have "p \<in> dom (content 0 bs)" by simp
        with False content_hd(2) [OF chain, of p] show ?thesis by (simp add: domIff del: content.simps)
      qed (use p True content_hd(1) [OF chain, of p] in \<open>simp add: domIff del: content.simps\<close>)
    qed
    moreover have "pos l \<notin> dom (content 0 (b # bs))"
      using content_hd(2) [OF chain IH(2)] IH(5) by (simp add: domIff del: content.simps)
    moreover have "List.map (content 0 (b # bs)) [pos ?l..<pos l] = List.map Some (block b) @ List.map (content 0 bs) [pos (upper b)..<pos l]"
    proof -
      have "[pos ?l..<pos l] = [pos ?l..<pos (upper b)] @ [pos (upper b)..<pos l]"
        using IH(2) bd(1) True by (metis le_add_diff_inverse less_imp_le_nat upt_add_eq_append)
      moreover have "List.map (content 0 (b # bs)) [pos ?l..<pos (upper b)] = List.map Some (block b)"
        using content_hd(1) [OF chain] True up by (intro nth_equalityI) (simp_all del: content.simps)
      moreover have "List.map (content 0 (b # bs)) [pos (upper b)..<pos l] = List.map (content 0 bs) [pos (upper b)..<pos l]"
        using content_hd(2) [OF chain] by (simp del: content.simps)
      ultimately show ?thesis by (simp del: content.simps)
    qed
    ultimately show ?thesis
      using IH(2,3,6,7) es1(2,3) bd(1) True by (intro exI [of _ l] exI [of _ "es1 @ es2"]) (auto simp del: content.simps)
  qed
qed

end
