(* ===== verification/Bro_Tcp_Stream.thy ===== *)
theory Bro_Tcp_Stream
  imports Bro_Tcp_Props
begin

text \<open>
  The invariant of a TCP reassembler and its callbacks.  \<open>tcp_inv\<close> relates the map of the bytes that arrived, where
  the first copy of each byte wins, to the blocks held and to the stream handed out.
\<close>

section \<open>Trimming keeps what it leaves\<close>

lemma content_suffix:
  assumes "chain_ok 0 (xs @ ys)"
  shows "content 0 ys \<subseteq>\<^sub>m content 0 (xs @ ys)"
  unfolding map_le_def
proof
  fix p assume "p \<in> dom (content 0 ys)"
  then obtain c where c: "c \<in> set ys" "p \<in> dom (data_map 0 (seq c) (block c))" by (auto simp: content_dom)
  then have "pos (seq c) \<le> p" by (simp only: data_map_dom atLeastLessThan_iff)
  moreover have "pos (upper b) \<le> pos (seq c)" if "b \<in> set xs" for b
    using assms c(1) that by (simp add: chain_ok_def sorted_wrt_append before_def)
  ultimately have "p \<notin> dom (content 0 xs)"
    using assms by (intro content_None) (auto simp: chain_ok_def intro: le_trans)
  then have "content 0 xs p = None" by (simp add: domIff)
  then show "content 0 ys p = content 0 (xs @ ys) p" by (simp add: content_append map_add_def split: option.split)
qed

lemma trimmed_le: "chain_ok 0 bs \<Longrightarrow> content 0 (trimmed 0 sq bs) \<subseteq>\<^sub>m content 0 bs"
  by (metis content_suffix trimmed_suffix)

lemma trimmed_keeps: "b \<in> set bs \<Longrightarrow> pos sq < pos (upper b) \<Longrightarrow> b \<in> set (trimmed 0 sq bs)"
  using trimmed_suffix [of bs 0 sq] by (metis Un_iff leD set_append)

lemma content_within: "chain_ok 0 bs \<Longrightarrow> p \<in> dom (content 0 bs) \<Longrightarrow> p < half_space"
proof -
  assume ok: "chain_ok 0 bs" and "p \<in> dom (content 0 bs)"
  then obtain b where b: "b \<in> set bs" "p \<in> dom (data_map 0 (seq b) (block b))" by (auto simp: content_dom)
  with ok have "block_ok 0 b" by (simp add: chain_ok_def)
  with b(2) show ?thesis unfolding data_map_dom block_ok_def by simp
qed

lemma seq_held: "chain_ok 0 bs \<Longrightarrow> b \<in> set bs \<Longrightarrow> pos (seq b) \<in> dom (content 0 bs)"
  using block_covers [of 0 bs] block_bounds [of 0 b] by (metis chain_ok_def in_set_conv_nth order_refl)

section \<open>Delivering from a block on\<close>

text \<open>What \<open>BlockInserted\<close> does: the bytes from \<open>last_reassem_seq\<close> on are handed out as far as they are held.\<close>

definition inserted_post :: "tcp \<Rightarrow> tcp \<Rightarrow> bool" where
  "inserted_post R R' \<longleftrightarrow> reasm_ok 0 R'
     \<and> pos (last_reassem_seq R) \<le> pos (last_reassem_seq R') \<and> pos (last_reassem_seq R') < half_space
     \<and> (\<forall>p. pos (last_reassem_seq R) \<le> p \<and> p < pos (last_reassem_seq R') \<longrightarrow> p \<in> dom (content 0 (blocks R)))
     \<and> pos (trim_seq R) \<le> pos (trim_seq R') \<and> pos (trim_seq R') \<le> max (pos (trim_seq R)) (pos (last_reassem_seq R'))
     \<and> (\<forall>p. pos (trim_seq R') \<le> p \<longrightarrow> content 0 (blocks R') p = content 0 (blocks R) p)
     \<and> content 0 (blocks R') \<subseteq>\<^sub>m content 0 (blocks R)
     \<and> skip_deliveries (r_ext R') = skip_deliveries (r_ext R)
     \<and> (\<exists>es. tx_out (r_ext R') = tx_out (r_ext R) @ es \<and> (\<forall>p. gaps_placed p es)
          \<and> stream_of es = (if skip_deliveries (r_ext R) then []
              else List.map (content 0 (blocks R)) [pos (last_reassem_seq R)..<pos (last_reassem_seq R')]))"

lemma inserted_post_refl:
  "reasm_ok 0 R \<Longrightarrow> pos (last_reassem_seq R) < half_space \<Longrightarrow> inserted_post R R"
  by (auto simp: inserted_post_def intro: exI [of _ "[]"])

lemma chain_parts:
  assumes "chain_ok 0 bs" "n < length bs"
  shows "chain_ok 0 (bs ! n # drop (Suc n) bs)"
    and "\<And>c. c \<in> set (take n bs) \<Longrightarrow> pos (upper c) \<le> pos (seq (bs ! n))"
    and "\<And>c. c \<in> set (drop (Suc n) bs) \<Longrightarrow> pos (upper (bs ! n)) \<le> pos (seq c)"
    and "\<And>c. c \<in> set bs \<Longrightarrow> c \<in> set (take n bs) \<or> c = bs ! n \<or> c \<in> set (drop (Suc n) bs)"
    and "\<And>p. pos (seq (bs ! n)) \<le> p \<Longrightarrow> content 0 bs p = content 0 (bs ! n # drop (Suc n) bs) p"
proof -
  define ys where "ys = bs ! n # drop (Suc n) bs"
  have split: "bs = take n bs @ ys" unfolding ys_def using assms(2) by (rule id_take_nth_drop)
  have "chain_ok 0 (take n bs @ ys)" using assms(1) split by simp
  then have suf: "chain_ok 0 ys" and pre: "\<And>c d. c \<in> set (take n bs) \<Longrightarrow> d \<in> set ys \<Longrightarrow> pos (upper c) \<le> pos (seq d)"
    and ok: "\<forall>b \<in> set (take n bs). block_ok 0 b"
    by (simp_all add: chain_ok_def sorted_wrt_append before_def)
  show "chain_ok 0 (bs ! n # drop (Suc n) bs)" using suf by (simp add: ys_def)
  then show "\<And>c. c \<in> set (drop (Suc n) bs) \<Longrightarrow> pos (upper (bs ! n)) \<le> pos (seq c)" by (rule sorted_seqs)
  show pre1: "\<And>c. c \<in> set (take n bs) \<Longrightarrow> pos (upper c) \<le> pos (seq (bs ! n))" using pre by (simp add: ys_def)
  have "set bs = set (take n bs) \<union> set ys" by (subst split) simp
  then show "\<And>c. c \<in> set bs \<Longrightarrow> c \<in> set (take n bs) \<or> c = bs ! n \<or> c \<in> set (drop (Suc n) bs)" by (auto simp: ys_def)
  fix p assume p: "pos (seq (bs ! n)) \<le> p"
  have "\<forall>c \<in> set (take n bs). pos (upper c) \<le> p \<or> p < pos (seq c)" using pre1 p le_trans by blast
  from content_None [OF ok this] have "content 0 (take n bs @ ys) p = content 0 ys p"
    by (simp add: content_append map_add_def domIff split: option.split)
  then show "content 0 bs p = content 0 (bs ! n # drop (Suc n) bs) p" using split by (simp add: ys_def)
qed

text \<open>The chain from a block that holds \<open>last_reassem_seq\<close>: nothing is handed out unless the block begins there.\<close>

lemma deliver_from_ok:
  assumes "reasm_ok 0 R" "n < length (blocks R)" "write_ok env" "pos (last_reassem_seq R) < half_space"
    and "pos (seq (blocks R ! n)) \<le> pos (last_reassem_seq R)" "pos (last_reassem_seq R) < pos (upper (blocks R ! n))"
  shows "\<exists>R'. deliver_loop env (drop n (blocks R)) R = Ret R' \<and> inserted_post R R'
    \<and> blocks R' = blocks R \<and> trim_seq R' = trim_seq R
    \<and> (\<forall>b \<in> set (blocks R). seq b \<noteq> last_reassem_seq R')
    \<and> (if seq (blocks R ! n) = last_reassem_seq R then pos (last_reassem_seq R') \<notin> dom (content 0 (blocks R))
         else R' = R)"
proof -
  let ?b = "blocks R ! n" and ?l = "last_reassem_seq R"
  have chain: "chain_ok 0 (blocks R)" using assms(1) by (simp add: reasm_ok_def)
  note suf = chain_parts(1) [OF chain assms(2)] and pre = chain_parts(2) [OF chain assms(2)]
    and rest = chain_parts(3) [OF chain assms(2)]
  have drop_n: "drop n (blocks R) = ?b # drop (Suc n) (blocks R)" using assms(2) by (rule Cons_nth_drop_Suc [symmetric])
  have ok: "block_ok 0 ?b" using chain assms(2) by (simp add: chain_ok_def)
  have d: "seq_delta (seq ?b) ?l = int (pos (seq ?b)) - int (pos ?l)"
    using block_bounds [OF ok] assms(4) by (intro seq_delta_off) simp_all
  show ?thesis
  proof (cases "seq ?b = ?l")
    case False
    then have less: "pos (seq ?b) < pos ?l" using assms(5) by (simp add: order_less_le seq_off_inj)
    have "deliver_loop env (drop (Suc n) (blocks R)) R = Ret R"
    proof (cases "drop (Suc n) (blocks R)")
      case (Cons c cs)
      then have c: "c \<in> set (drop (Suc n) (blocks R))" by simp
      then have "block_ok 0 c" using chain by (auto simp: chain_ok_def dest: in_set_dropD)
      then have "seq_delta (seq c) ?l = int (pos (seq c)) - int (pos ?l)"
        using block_bounds [of 0 c] assms(4) by (intro seq_delta_off) simp_all
      with rest [OF c] assms(6) Cons show ?thesis by simp
    qed simp
    then have "deliver_loop env (drop n (blocks R)) R = Ret R" using False d less by (simp add: drop_n)
    moreover have "seq c \<noteq> ?l" if "c \<in> set (blocks R)" for c
    proof -
      have "block_ok 0 c" using chain that by (simp add: chain_ok_def)
      from chain_parts(4) [OF chain assms(2) that] block_bounds [OF this] show ?thesis
        using pre [of c] rest [of c] less assms(6) by auto
    qed
    ultimately show ?thesis using inserted_post_refl [OF assms(1,4)] False by auto
  next
    case True
    have "\<forall>c \<in> set (?b # drop (Suc n) (blocks R)). pos ?l \<le> pos (seq c)"
      using rest block_bounds [OF ok] True by fastforce
    from deliver_loop_ok [OF suf this assms(3,4)] obtain l es where
      run: "deliver_loop env (?b # drop (Suc n) (blocks R)) R = Ret (put es (R\<lparr>last_reassem_seq := l\<rparr>))"
      and l: "pos ?l \<le> pos l" "pos l < half_space" "pos l \<notin> dom (content 0 (?b # drop (Suc n) (blocks R)))"
      and held: "\<forall>p. pos ?l \<le> p \<and> p < pos l \<longrightarrow> p \<in> dom (content 0 (?b # drop (Suc n) (blocks R)))"
      and es: "stream_of es = (if skip_deliveries (r_ext R) then []
          else List.map (content 0 (?b # drop (Suc n) (blocks R))) [pos ?l..<pos l])" "\<forall>p. gaps_placed p es" by blast
    have eq: "content 0 (blocks R) p = content 0 (?b # drop (Suc n) (blocks R)) p" if "pos ?l \<le> p" for p
      using chain_parts(5) [OF chain assms(2), of p] True that by simp
    let ?R' = "put es (R\<lparr>last_reassem_seq := l\<rparr>)"
    have "inserted_post R ?R'"
      unfolding inserted_post_def
    proof (intro conjI)
      show "\<forall>p. pos ?l \<le> p \<and> p < pos (last_reassem_seq ?R') \<longrightarrow> p \<in> dom (content 0 (blocks R))"
        using held eq by (simp add: domIff del: content.simps)
      have "List.map (content 0 (blocks R)) [pos ?l..<pos l] = List.map (content 0 (?b # drop (Suc n) (blocks R))) [pos ?l..<pos l]"
        using eq by (simp del: content.simps)
      with es show "\<exists>es. tx_out (r_ext ?R') = tx_out (r_ext R) @ es \<and> (\<forall>p. gaps_placed p es)
          \<and> stream_of es = (if skip_deliveries (r_ext R) then []
              else List.map (content 0 (blocks R)) [pos ?l..<pos (last_reassem_seq ?R')])"
        by (intro exI [of _ es]) (simp del: content.simps)
    qed (use assms(1) l in simp_all)
    moreover have "pos l \<notin> dom (content 0 (blocks R))" using l(1,3) eq by (simp add: domIff del: content.simps)
    moreover from this have "\<forall>c \<in> set (blocks R). seq c \<noteq> l" using seq_held [OF chain] by blast
    ultimately show ?thesis using run True by (intro exI [of _ ?R']) (simp add: drop_n)
  qed
qed

lemma tcp_BlockInserted_ok:
  assumes "reasm_ok 0 R" "a \<in> db_addr ` set (blocks R)" "write_ok env" "pos (last_reassem_seq R) < half_space"
    and "pos (trim_seq R) < half_space"
  shows "\<exists>R'. tcp_BlockInserted (Suc depth) C env a R = Ret R' \<and> inserted_post R R'
    \<and> (if starts_at 0 R a (pos (last_reassem_seq R)) then pos (last_reassem_seq R') \<notin> dom (content 0 (blocks R))
         else last_reassem_seq R' = last_reassem_seq R \<and> tx_out (r_ext R') = tx_out (r_ext R))
    \<and> (\<forall>b \<in> set (blocks R). pos (last_reassem_seq R') < pos (upper b) \<longrightarrow> b \<in> set (blocks R'))"
proof -
  let ?l = "last_reassem_seq R"
  have chain: "chain_ok 0 (blocks R)" using assms(1) by (simp add: reasm_ok_def)
  from block_pos_in [OF assms(2)] obtain n where n: "n < length (blocks R)" "block_pos a (blocks R) = Some n"
    "db_addr (blocks R ! n) = a" by blast
  let ?b = "blocks R ! n"
  have ok: "block_ok 0 ?b" using chain n(1) by (simp add: chain_ok_def)
  note bd = block_bounds [OF ok]
  have d: "seq_delta (seq ?b) ?l = int (pos (seq ?b)) - int (pos ?l)" "seq_delta (upper ?b) ?l = int (pos (upper ?b)) - int (pos ?l)"
    using bd assms(4) by (simp_all add: seq_delta_off [of 0])
  have start: "starts_at 0 R a (pos ?l) \<longleftrightarrow> seq ?b = ?l"
  proof -
    have "c = ?b" if "c \<in> set (blocks R)" "db_addr c = a" for c
      using that n(1,3) chain unfolding chain_ok_def distinct_map inj_on_def by simp
    with n(1,3) show ?thesis unfolding starts_at_def seq_off_inj by force
  qed
  show ?thesis
  proof (cases "pos ?l < pos (seq ?b) \<or> pos (upper ?b) \<le> pos ?l")
    case True
    then have "tcp_BlockInserted (Suc depth) C env a R = Ret R" using n(2) d by (auto simp: Let_def)
    moreover have "seq ?b \<noteq> ?l" using True bd by auto
    ultimately show ?thesis
      using inserted_post_refl [OF assms(1,4)] start by (intro exI [of _ R]) (simp del: tcp_BlockInserted.simps)
  next
    case False
    then have "pos (seq ?b) \<le> pos ?l" "pos ?l < pos (upper ?b)" by simp_all
    from deliver_from_ok [OF assms(1) n(1) assms(3,4) this] obtain R1 where R1:
      "deliver_loop env (drop n (blocks R)) R = Ret R1" "inserted_post R R1" "blocks R1 = blocks R" "trim_seq R1 = trim_seq R"
      "\<forall>b \<in> set (blocks R). seq b \<noteq> last_reassem_seq R1"
      "if seq ?b = ?l then pos (last_reassem_seq R1) \<notin> dom (content 0 (blocks R)) else R1 = R" by blast
    note post = R1(2) [unfolded inserted_post_def]
    define trim where "trim = TrimToSeq (tcp_BlockInserted depth C env) (tcp_Undelivered C env) (last_reassem_seq R1) R1"
    have "(if seq_delta (last_reassem_seq R1) (last_reassem_seq R1) > 0 then tcp_Undelivered C env (last_reassem_seq R1) R1 else Ret R1)
        = Ret (R1\<lparr>last_reassem_seq := last_reassem_seq R1, r_ext := r_ext R1\<rparr>)" by simp
    from TrimToSeq_parts [where undelivered = "tcp_Undelivered C env", OF _ _ this, of 0 "tcp_BlockInserted depth C env"] post
    obtain m R2 where R2: "trim = run_bind (if blocks R2 \<noteq> [] \<and> seq (hd (blocks R2)) = last_reassem_seq R1
          then tcp_BlockInserted depth C env (db_addr (hd (blocks R2))) R2 else Ret R2)
        (\<lambda>R. Ret (m, if seq_delta (last_reassem_seq R1) (trim_seq R) > 0 then R\<lparr>trim_seq := last_reassem_seq R1\<rparr> else R))"
      "reasm_ok 0 R2" "blocks R2 = trimmed 0 (last_reassem_seq R1) (blocks R1)" "last_reassem_seq R2 = last_reassem_seq R1"
      "r_ext R2 = r_ext R1" "trim_seq R2 = trim_seq R1" unfolding trim_def by auto
    have "set (blocks R2) \<subseteq> set (blocks R)" using R2(3) R1(3) by (auto dest: set_dropWhileD)
    then have "\<not> (blocks R2 \<noteq> [] \<and> seq (hd (blocks R2)) = last_reassem_seq R1)" using R1(5) by (meson hd_in_set subsetD)
    define R3 where "R3 = (if seq_delta (last_reassem_seq R1) (trim_seq R2) > 0 then R2\<lparr>trim_seq := last_reassem_seq R1\<rparr> else R2)"
    with R2(1) \<open>\<not> (blocks R2 \<noteq> [] \<and> _)\<close> have trim: "trim = Ret (m, R3)" by auto
    have "seq_delta (last_reassem_seq R1) (trim_seq R2) = int (pos (last_reassem_seq R1)) - int (pos (trim_seq R))"
      using post assms(5) R2(6) R1(4) by (simp add: seq_delta_off [of 0])
    then have R3: "pos (trim_seq R3) = max (pos (trim_seq R)) (pos (last_reassem_seq R1))" "blocks R3 = blocks R2" "reasm_ok 0 R3"
      "last_reassem_seq R3 = last_reassem_seq R1" "r_ext R3 = r_ext R1"
      using R2 R1(4) by (auto simp: R3_def)
    have "content 0 (blocks R3) \<subseteq>\<^sub>m content 0 (blocks R)" using trimmed_le [OF chain] R3(2) R2(3) R1(3) by simp
    moreover have "content 0 (blocks R3) p = content 0 (blocks R) p" if "pos (trim_seq R3) \<le> p" for p
      using that R3(1,2) R2(3) R1(3) trimmed_content [of "blocks R" 0 "last_reassem_seq R1" p] chain by (simp add: chain_ok_def)
    ultimately have post3: "inserted_post R R3" using post R3 R1(3) unfolding inserted_post_def
      by (cases "skip_deliveries (r_ext R)") simp_all
    define good where "good S \<longleftrightarrow> inserted_post R S
      \<and> (if starts_at 0 R a (pos ?l) then pos (last_reassem_seq S) \<notin> dom (content 0 (blocks R))
           else last_reassem_seq S = last_reassem_seq R \<and> tx_out (r_ext S) = tx_out (r_ext R))
      \<and> (\<forall>b \<in> set (blocks R). pos (last_reassem_seq S) < pos (upper b) \<longrightarrow> b \<in> set (blocks S))" for S
    have "good R1" using R1(2,3,6) start unfolding good_def by simp
    moreover have "good R3" if "inserted_post R R3"
    proof -
      have "b \<in> set (blocks R3)" if "b \<in> set (blocks R)" "pos (last_reassem_seq R3) < pos (upper b)" for b
        using that R3(2,4) R2(3) R1(3) trimmed_keeps by simp
      with that R1(6) start R3(4,5) show ?thesis unfolding good_def by (cases "seq ?b = ?l") simp_all
    qed
    moreover have "tcp_BlockInserted (Suc depth) C env a R = Ret R1 \<or> tcp_BlockInserted (Suc depth) C env a R = Ret R3"
      using trim n(2) d False R1(1) by (auto simp: Let_def trim_def)
    ultimately show ?thesis using post3 unfolding good_def [symmetric] by blast
  qed
qed

section \<open>The invariant\<close>

definition stream_ok :: "(nat \<rightharpoonup> u8) \<Rightarrow> u8 option list \<Rightarrow> bool" where
  "stream_ok A s \<longleftrightarrow> (\<forall>i < length s. \<forall>c. s ! i = Some c \<longrightarrow> A (i + 1) = Some c)"

text \<open>\<open>t\<close> is the position below which bytes may have been trimmed.\<close>

definition holds_from :: "(nat \<rightharpoonup> u8) \<Rightarrow> nat \<Rightarrow> tcp \<Rightarrow> bool" where
  "holds_from A t R \<longleftrightarrow> content 0 (blocks R) \<subseteq>\<^sub>m A \<and> (\<forall>p. t \<le> p \<longrightarrow> content 0 (blocks R) p = A p)
     \<and> (\<forall>p. t \<le> p \<and> p < pos (last_reassem_seq R) \<longrightarrow> p \<in> dom (content 0 (blocks R)))"

definition inv_at :: "(nat \<rightharpoonup> u8) \<Rightarrow> nat \<Rightarrow> tcp \<Rightarrow> bool" where
  "inv_at A t R \<longleftrightarrow> reasm_ok 0 R \<and> 1 \<le> pos (last_reassem_seq R) \<and> pos (last_reassem_seq R) < half_space
     \<and> pos (trim_seq R) < half_space \<and> pos (trim_seq R) \<le> t
     \<and> gaps_placed 1 (tx_out (r_ext R)) \<and> stream_ok A (stream_of (tx_out (r_ext R)))
     \<and> (\<not> skip_deliveries (r_ext R) \<longrightarrow>
          length (stream_of (tx_out (r_ext R))) + 1 = pos (last_reassem_seq R) \<and> holds_from A t R)"

definition tcp_inv :: "(nat \<rightharpoonup> u8) \<Rightarrow> tcp \<Rightarrow> bool" where
  "tcp_inv A R \<longleftrightarrow> inv_at A (pos (trim_seq R)) R"

lemma stream_ok_append:
  assumes "stream_ok A s" "\<forall>i < length s'. \<forall>c. s' ! i = Some c \<longrightarrow> A (length s + i + 1) = Some c"
  shows "stream_ok A (s @ s')"
  unfolding stream_ok_def
proof (intro allI impI)
  fix i c assume i: "i < length (s @ s')" "(s @ s') ! i = Some c"
  show "A (i + 1) = Some c"
  proof (cases "i < length s")
    case False
    then obtain j where "i = length s + j" by (metis le_add_diff_inverse not_less)
    with i assms(2) show ?thesis by simp
  qed (use i assms(1) in \<open>simp add: stream_ok_def nth_append\<close>)
qed

lemma inserted_inv:
  assumes "inv_at A t R" "inserted_post R R'"
  shows "inv_at A (max t (pos (trim_seq R'))) R'"
proof -
  let ?l = "pos (last_reassem_seq R)" and ?l' = "pos (last_reassem_seq R')"
  note inv = assms(1) [unfolded inv_at_def] and post = assms(2) [unfolded inserted_post_def]
  obtain es where es: "tx_out (r_ext R') = tx_out (r_ext R) @ es" "\<forall>p. gaps_placed p es"
    "stream_of es = (if skip_deliveries (r_ext R) then [] else List.map (content 0 (blocks R)) [?l..<?l'])" using post by blast
  have "stream_ok A (stream_of (tx_out (r_ext R)) @ stream_of es)"
  proof (rule stream_ok_append)
    show "\<forall>i < length (stream_of es). \<forall>c. stream_of es ! i = Some c \<longrightarrow> A (length (stream_of (tx_out (r_ext R))) + i + 1) = Some c"
    proof (intro allI impI)
      fix i c assume i: "i < length (stream_of es)" "stream_of es ! i = Some c"
      then have "\<not> skip_deliveries (r_ext R)" using es(3) by (auto split: if_splits)
      with inv i es(3) have "content 0 (blocks R) (length (stream_of (tx_out (r_ext R))) + i + 1) = Some c" "holds_from A t R"
        by (auto simp: add.commute add.left_commute)
      then show "A (length (stream_of (tx_out (r_ext R))) + i + 1) = Some c"
        unfolding holds_from_def map_le_def by (metis domI)
    qed
  qed (use inv in blast)
  moreover have "holds_from A (max t (pos (trim_seq R'))) R'" if "holds_from A t R"
  proof -
    have "p \<in> dom (content 0 (blocks R'))" if "max t (pos (trim_seq R')) \<le> p" "p < ?l'" for p
    proof -
      have "p \<in> dom (content 0 (blocks R))"
        using that post \<open>holds_from A t R\<close> by (cases "p < ?l") (simp_all add: holds_from_def)
      moreover have "content 0 (blocks R') p = content 0 (blocks R) p" using that(1) post by simp
      ultimately show ?thesis by (simp add: domIff)
    qed
    moreover have "content 0 (blocks R') \<subseteq>\<^sub>m A" using that post map_le_trans unfolding holds_from_def by blast
    ultimately show ?thesis using that post unfolding holds_from_def by simp
  qed
  ultimately show ?thesis using inv post es unfolding inv_at_def by auto
qed

end
