(* ===== verification/Bro_Tcp_Run.thy ===== *)
theory Bro_Tcp_Run
  imports Bro_Tcp_Stream
begin

text \<open>
  Runs of a TCP reassembler: any sequence of segments, acknowledgements, checks for the end and contents files keeps
  the invariant, so that the stream handed out is in order and made of first copies; and when acknowledgements follow
  the data, it is complete.
\<close>

section \<open>Acknowledgements\<close>

lemma undelivered_inv:
  assumes "inv_at A t R" "undelivered_post (pos (last_reassem_seq R)) (pos up) (r_ext R) x"
    and "pos (last_reassem_seq R) < pos up" "pos up < half_space" "t \<le> pos up"
  shows "inv_at A (pos up) (R\<lparr>last_reassem_seq := up, r_ext := x\<rparr>)"
proof -
  note inv = assms(1) [unfolded inv_at_def]
  obtain es where es: "tx_out x = tx_out (r_ext R) @ es" "skip_deliveries (r_ext R) \<longrightarrow> skip_deliveries x"
    "gaps_placed (pos (last_reassem_seq R)) es" "skip_deliveries x \<longrightarrow> (\<forall>q. gaps_placed q es)"
    "stream_of es = (if skip_deliveries x then [] else replicate (pos up - pos (last_reassem_seq R)) None)"
    using assms(2) unfolding undelivered_post_def by blast
  have "stream_ok A (stream_of (tx_out (r_ext R)) @ stream_of es)"
    using inv es(5) by (intro stream_ok_append) auto
  moreover have "holds_from A (pos up) (R\<lparr>last_reassem_seq := up, r_ext := x\<rparr>)" if "holds_from A t R"
    using that assms(5) by (simp add: holds_from_def)
  ultimately show ?thesis
    using inv es assms(3-5) unfolding inv_at_def by (cases "skip_deliveries x") (auto simp: add.commute)
qed

text \<open>What an acknowledgement leaves alone when everything it covers was handed out.\<close>

definition only_trimmed :: "tcp \<Rightarrow> tcp \<Rightarrow> bool" where
  "only_trimmed R R' \<longleftrightarrow> last_reassem_seq R' = last_reassem_seq R \<and> content 0 (blocks R') \<subseteq>\<^sub>m content 0 (blocks R)
     \<and> r_ext R' = r_ext R \<and> pos (trim_seq R') \<le> pos (last_reassem_seq R)"

lemma tcp_Trim_ok:
  assumes "tcp_inv A R" "write_ok env" "pos (trim_seq R) < pos sq" "pos sq < half_space"
  shows "\<exists>m R'. TrimToSeq (tcp_BlockInserted (Suc depth) C env) (tcp_Undelivered C env) sq R = Ret (m, R') \<and> tcp_inv A R'
    \<and> (skip_deliveries (r_ext R) \<longrightarrow> skip_deliveries (r_ext R'))
    \<and> (pos sq \<le> pos (last_reassem_seq R) \<and> pos (last_reassem_seq R) \<notin> dom (content 0 (blocks R)) \<longrightarrow> only_trimmed R R')"
proof -
  let ?t = "pos (trim_seq R)" and ?l = "last_reassem_seq R"
  have inv: "inv_at A ?t R" using assms(1) by (simp add: tcp_inv_def)
  note fields = inv [unfolded inv_at_def]
  have chain: "chain_ok 0 (blocks R)" using fields by (simp add: reasm_ok_def)
  have "seq_delta sq ?l = int (pos sq) - int (pos ?l)" using fields assms(4) by (intro seq_delta_off) simp_all
  then have d: "seq_delta sq ?l > 0 \<longleftrightarrow> pos ?l < pos sq" by simp
  have later: "inv_at A (pos sq) R"
    using inv assms(3) unfolding inv_at_def holds_from_def by auto
  obtain l x where first: "(if seq_delta sq ?l > 0 then tcp_Undelivered C env sq R else Ret R) = Ret (R\<lparr>last_reassem_seq := l, r_ext := x\<rparr>)"
    and mid: "inv_at A (pos sq) (R\<lparr>last_reassem_seq := l, r_ext := x\<rparr>)" and same: "pos sq \<le> pos ?l \<longrightarrow> l = ?l \<and> x = r_ext R"
    and skip: "skip_deliveries (r_ext R) \<longrightarrow> skip_deliveries x"
  proof (cases "pos ?l < pos sq")
    case True
    from tcp_Undelivered_ok [OF _ assms(2) True assms(4), of C] fields
    consider "tcp_Undelivered C env sq R = Ret R"
      | x where "tcp_Undelivered C env sq R = Ret (R\<lparr>last_reassem_seq := sq, r_ext := x\<rparr>)"
          "undelivered_post (pos ?l) (pos sq) (r_ext R) x" by blast
    then show thesis
    proof cases
      case 1
      then show thesis using that [of "r_ext R" ?l] True d later by simp
    next
      case 2
      moreover from 2(2) have "skip_deliveries (r_ext R) \<longrightarrow> skip_deliveries x" unfolding undelivered_post_def by blast
      ultimately show thesis
        using that [of x sq] True d undelivered_inv [OF inv 2(2) True assms(4)] assms(3) by simp
    qed
  next
    case False
    then show thesis using that [of "r_ext R" ?l] d later by simp
  qed
  from TrimToSeq_parts [where undelivered = "tcp_Undelivered C env", OF _ assms(4) first, of "tcp_BlockInserted (Suc depth) C env"] fields
  obtain m R2 where R2: "TrimToSeq (tcp_BlockInserted (Suc depth) C env) (tcp_Undelivered C env) sq R =
        run_bind (if blocks R2 \<noteq> [] \<and> seq (hd (blocks R2)) = l then tcp_BlockInserted (Suc depth) C env (db_addr (hd (blocks R2))) R2 else Ret R2)
        (\<lambda>R. Ret (m, if seq_delta sq (trim_seq R) > 0 then R\<lparr>trim_seq := sq\<rparr> else R))"
      "reasm_ok 0 R2" "blocks R2 = trimmed 0 sq (blocks R)" "last_reassem_seq R2 = l" "r_ext R2 = x" "trim_seq R2 = trim_seq R" by blast
  have eq: "content 0 (blocks R2) p = content 0 (blocks R) p" if "pos sq \<le> p" for p
    using trimmed_content [of "blocks R" 0 sq p] that chain R2(3) by (simp add: chain_ok_def)
  have le: "content 0 (blocks R2) \<subseteq>\<^sub>m content 0 (blocks R)" using trimmed_le [OF chain] R2(3) by simp
  have "holds_from A (pos sq) R2" if "holds_from A (pos sq) (R\<lparr>last_reassem_seq := l, r_ext := x\<rparr>)"
    using that eq le R2(4) unfolding holds_from_def by (auto simp: domIff intro: map_le_trans)
  then have inv2: "inv_at A (pos sq) R2"
    using mid R2(2,4,5,6) unfolding inv_at_def by simp
  obtain R3 where R3: "(if blocks R2 \<noteq> [] \<and> seq (hd (blocks R2)) = l then tcp_BlockInserted (Suc depth) C env (db_addr (hd (blocks R2))) R2 else Ret R2) = Ret R3"
    "inserted_post R2 R3" "l = seq (hd (blocks R2)) \<and> blocks R2 \<noteq> [] \<or> R3 = R2"
  proof (cases "blocks R2 \<noteq> [] \<and> seq (hd (blocks R2)) = l")
    case True
    then have "db_addr (hd (blocks R2)) \<in> db_addr ` set (blocks R2)" by simp
    from tcp_BlockInserted_ok [OF R2(2) this assms(2), of depth C] inv2 True show thesis
      using that unfolding inv_at_def by auto
  next
    case False
    then have "inserted_post R2 R2" using inserted_post_refl [OF R2(2)] inv2 unfolding inv_at_def by auto
    with False show thesis by (intro that [of R2]) auto
  qed
  define R' where "R' = (if seq_delta sq (trim_seq R3) > 0 then R3\<lparr>trim_seq := sq\<rparr> else R3)"
  have inv3: "inv_at A (max (pos sq) (pos (trim_seq R3))) R3" by (rule inserted_inv [OF inv2 R3(2)])
  then have "seq_delta sq (trim_seq R3) = int (pos sq) - int (pos (trim_seq R3))"
    using assms(4) unfolding inv_at_def by (intro seq_delta_off) simp_all
  then have R': "pos (trim_seq R') = max (pos sq) (pos (trim_seq R3))" "blocks R' = blocks R3" "last_reassem_seq R' = last_reassem_seq R3"
    "r_ext R' = r_ext R3" "reasm_ok 0 R' = reasm_ok 0 R3" by (auto simp: R'_def)
  have "tcp_inv A R'"
    using inv3 R' assms(4) unfolding tcp_inv_def inv_at_def holds_from_def by simp
  moreover have "skip_deliveries (r_ext R) \<longrightarrow> skip_deliveries (r_ext R')"
    using skip R3(2) R'(4) R2(5) by (simp add: inserted_post_def)
  moreover have "only_trimmed R R'" if "pos sq \<le> pos ?l" "pos ?l \<notin> dom (content 0 (blocks R))"
  proof -
    have "\<not> (l = seq (hd (blocks R2)) \<and> blocks R2 \<noteq> [])"
    proof
      assume "l = seq (hd (blocks R2)) \<and> blocks R2 \<noteq> []"
      then have "pos l \<in> dom (content 0 (blocks R2))"
        using seq_held [of "blocks R2" "hd (blocks R2)"] R2(2) by (simp add: reasm_ok_def)
      with eq [of "pos ?l"] that same show False by (simp add: domIff)
    qed
    with R3(3) have "R3 = R2" by blast
    with R' R2(4-6) le same that assms(3) show ?thesis by (simp add: only_trimmed_def)
  qed
  moreover have "TrimToSeq (tcp_BlockInserted (Suc depth) C env) (tcp_Undelivered C env) sq R = Ret (m, R')"
    unfolding R2(1) R3(1) by (simp add: R'_def)
  ultimately show ?thesis by blast
qed

lemma inv_put:
  assumes "inv_at A t R" "list_all silent es" "tx_out x = tx_out (r_ext R) @ es" "skip_deliveries x = skip_deliveries (r_ext R)"
  shows "inv_at A t (R\<lparr>r_ext := x\<rparr>)"
  using assms unfolding inv_at_def holds_from_def by (simp add: silent_stream silent_gaps)

lemma CheckEOF_ok: "\<exists>es x. CheckEOF env R = R\<lparr>r_ext := x\<rparr> \<and> list_all silent es \<and> tx_out x = tx_out (r_ext R) @ es
    \<and> skip_deliveries x = skip_deliveries (r_ext R)"
proof (cases "CheckEOF env R = R")
  case True
  then show ?thesis by (intro exI [of _ "[]"] exI [of _ "r_ext R"]) simp
next
  case False
  then have "CheckEOF env R = upd_ext (\<lambda>x. emit EndpointEOF (x\<lparr>did_EOF := True\<rparr>)) R" by (auto simp: CheckEOF_def)
  then show ?thesis
    by (intro exI [of _ "[EndpointEOF]"] exI [of _ "emit EndpointEOF ((r_ext R)\<lparr>did_EOF := True\<rparr>)"]) (simp add: upd_ext_def emit_def)
qed

text \<open>The counting changes counters and adds silent output.\<close>

lemma counting_ok:
  "\<exists>es. list_all silent es \<and> tx_out (count_ack n m x) = tx_out x @ es \<and> skip_deliveries (count_ack n m x) = skip_deliveries x"
  "\<exists>es. list_all silent es \<and> tx_out (report_gaps x) = tx_out x @ es \<and> skip_deliveries (report_gaps x) = skip_deliveries x"
  by (auto simp: count_ack_def report_gaps_def Let_def emit_def intro: exI [of _ "[]"])

definition ack_target :: "tcp_env \<Rightarrow> u32 \<Rightarrow> u32" where
  "ack_target env sq = (if FIN_cnt (endp env) > 0 \<and> seq_delta sq (FIN_seq (endp env)) \<ge> 0 then FIN_seq (endp env) - 1 else sq)"

text \<open>The calls differ in their extension only by silent output from what the trimming leaves.\<close>

definition silently :: "tcp \<Rightarrow> tcp \<Rightarrow> bool" where
  "silently R R' \<longleftrightarrow> (\<exists>x es. R' = R\<lparr>r_ext := x\<rparr> \<and> list_all silent es \<and> tx_out x = tx_out (r_ext R) @ es
     \<and> skip_deliveries x = skip_deliveries (r_ext R))"

lemma silently_refl [simp]: "silently R R"
  unfolding silently_def by (intro exI [of _ "r_ext R"] exI [of _ "[]"]) simp

lemma silently_trans:
  assumes "silently R S" "silently S T"
  shows "silently R T"
proof -
  obtain x es y fs where "S = R\<lparr>r_ext := x\<rparr>" "list_all silent es" "tx_out x = tx_out (r_ext R) @ es"
    "skip_deliveries x = skip_deliveries (r_ext R)" "T = S\<lparr>r_ext := y\<rparr>" "list_all silent fs" "tx_out y = tx_out (r_ext S) @ fs"
    "skip_deliveries y = skip_deliveries (r_ext S)" using assms unfolding silently_def by blast
  then show ?thesis unfolding silently_def by (intro exI [of _ y] exI [of _ "es @ fs"]) simp
qed

lemma silently_upd:
  "list_all silent es \<Longrightarrow> tx_out (f (r_ext R)) = tx_out (r_ext R) @ es \<Longrightarrow> skip_deliveries (f (r_ext R)) = skip_deliveries (r_ext R)
    \<Longrightarrow> silently R (upd_ext f R)"
  unfolding silently_def upd_ext_def by blast

lemma silently_put: "list_all silent es \<Longrightarrow> silently R (put es R)"
  unfolding silently_def put_def by (intro exI) auto

lemma silently_inv: "silently R R' \<Longrightarrow> inv_at A t R \<Longrightarrow> inv_at A t R'"
  unfolding silently_def by (auto intro: inv_put)

lemma silently_same:
  "silently R R' \<Longrightarrow> blocks R' = blocks R \<and> last_reassem_seq R' = last_reassem_seq R \<and> trim_seq R' = trim_seq R
     \<and> stream_of (tx_out (r_ext R')) = stream_of (tx_out (r_ext R)) \<and> skip_deliveries (r_ext R') = skip_deliveries (r_ext R)"
  unfolding silently_def by (auto simp: silent_stream)

lemma tcp_AckReceived_ok:
  assumes "tcp_inv A R" "write_ok env" "pos (ack_target env sq) < half_space"
  shows "\<exists>R1 R'. tcp_AckReceived C env sq R = Ret R' \<and> silently R1 R' \<and> tcp_inv A R1
    \<and> (skip_deliveries (r_ext R) \<longrightarrow> skip_deliveries (r_ext R'))
    \<and> (pos (ack_target env sq) \<le> pos (last_reassem_seq R) \<and> pos (last_reassem_seq R) \<notin> dom (content 0 (blocks R))
         \<longrightarrow> R1 = R \<or> only_trimmed R R1)"
proof -
  have "pos (trim_seq R) < half_space" using assms(1) by (simp add: tcp_inv_def inv_at_def)
  then have d: "seq_delta (ack_target env sq) (trim_seq R) = int (pos (ack_target env sq)) - int (pos (trim_seq R))"
    using assms(3) by (intro seq_delta_off) simp_all
  show ?thesis
  proof (cases "pos (ack_target env sq) \<le> pos (trim_seq R)")
    case True
    then have "tcp_AckReceived C env sq R = Ret R"
      using d by (simp add: tcp_AckReceived_def Let_def ack_target_def [symmetric])
    with assms(1) show ?thesis by (intro exI [of _ R]) simp
  next
    case False
    then have "pos (trim_seq R) < pos (ack_target env sq)" by simp
    from tcp_Trim_ok [OF assms(1,2) this assms(3), of 1 C] obtain m R1 where
      R1: "TrimToSeq (tcp_BlockInserted max_depth C env) (tcp_Undelivered C env) (ack_target env sq) R = Ret (m, R1)" "tcp_inv A R1" "skip_deliveries (r_ext R) \<longrightarrow> skip_deliveries (r_ext R1)"
        "pos (ack_target env sq) \<le> pos (last_reassem_seq R) \<and> pos (last_reassem_seq R) \<notin> dom (content 0 (blocks R)) \<longrightarrow> only_trimmed R R1"
      unfolding max_depth_def numeral_2_eq_2 One_nat_def by blast
    define R2 where "R2 = (if \<not> skip_deliveries (r_ext R) \<and> \<not> skipping env \<and> (report_gaps_for_partial C \<or> both_established env) then
        (let R = upd_ext (count_ack (seq_delta (ack_target env sq) (trim_seq R)) m) R1
         in if report_due env then upd_ext report_gaps R else R) else R1)"
    have counted: "silently R1 (upd_ext (count_ack k m) R1)" "silently S (upd_ext report_gaps S)" for k S
      using counting_ok silently_upd by metis+
    have "silently R1 (upd_ext report_gaps (upd_ext (count_ack k m) R1))" for k by (rule silently_trans [OF counted])
    with counted(1) have "silently R1 R2" unfolding R2_def Let_def by simp
    moreover have "silently R2 (CheckEOF env R2)" using CheckEOF_ok [of env R2] unfolding silently_def by blast
    ultimately have sil: "silently R1 (CheckEOF env R2)" by (rule silently_trans)
    moreover have "tcp_AckReceived C env sq R = Ret (CheckEOF env R2)"
      using False d R1(1) by (simp add: tcp_AckReceived_def Let_def ack_target_def [symmetric] R2_def)
    moreover have "skip_deliveries (r_ext R) \<longrightarrow> skip_deliveries (r_ext (CheckEOF env R2))"
      using R1(3) silently_same [OF sil] by simp
    ultimately show ?thesis using R1(2,4) by blast
  qed
qed

section \<open>Segments\<close>

lemma stream_ok_mono: "stream_ok A s \<Longrightarrow> A \<subseteq>\<^sub>m B \<Longrightarrow> stream_ok B s"
  unfolding stream_ok_def map_le_def by (metis domI)

lemma delete_all: "\<exists>n. foldl (\<lambda>R b. delete_DataBlock b R) S bs = S\<lparr>total_size := n\<rparr>"
proof (induction bs arbitrary: S)
  case Nil
  show ?case by (intro exI [of _ "total_size S"]) simp
next
  case (Cons b bs)
  from Cons.IH [of "delete_DataBlock b S"] show ?case by (auto simp: delete_DataBlock_def)
qed

lemma ClearBlocks_fields:
  fixes S :: tcp
  shows "r_ext (ClearBlocks S) = r_ext S" "trim_seq (ClearBlocks S) = trim_seq S" "last_reassem_seq (ClearBlocks S) = last_reassem_seq S"
    "blocks (ClearBlocks S) = []"
proof -
  have "\<exists>n. ClearBlocks S = S\<lparr>total_size := n, blocks := [], last_block := None\<rparr>"
    using delete_all [of S "blocks S"] by (auto simp: ClearBlocks_def)
  then show "r_ext (ClearBlocks S) = r_ext S" "trim_seq (ClearBlocks S) = trim_seq S"
    "last_reassem_seq (ClearBlocks S) = last_reassem_seq S" "blocks (ClearBlocks S) = []" by auto
qed

lemma drop_if_excessive_ok:
  assumes "inv_at A t R" "silent weird"
  shows "\<exists>R'. drop_if_excessive c limit weird R = Ret R' \<and> inv_at A t R' \<and> (\<not> skip_deliveries (r_ext R') \<longrightarrow> R' = R)"
proof -
  note inv = assms(1) [unfolded inv_at_def]
  have "\<exists>n. NumUndeliveredBytes R = Ret n"
    using inv last_upper_ok [of 0 R] by (cases "blocks R = []") (auto simp: NumUndeliveredBytes_def reasm_ok_def)
  then obtain n where n: "NumUndeliveredBytes R = Ret n" ..
  let ?R' = "upd_ext (\<lambda>x. x\<lparr>skip_deliveries := True\<rparr>) (ClearBlocks (put [weird] R))"
  have "reasm_ok 0 (ClearBlocks (put [weird] R))"
    using ClearBlocks_ok [of 0 "put [weird] R"] inv by (simp add: reasm_ok_def chain_ok_def accounted_def)
  moreover note ClearBlocks_fields [of "put [weird] R"]
  ultimately have "inv_at A t ?R'"
    using inv assms(2) silent_stream [of "[weird]"] silent_gaps [of "[weird]"]
    unfolding inv_at_def upd_ext_def by simp
  then show ?thesis using n assms(1) by (auto simp: drop_if_excessive_def upd_emit upd_ext_def)
qed

text \<open>What inserting a segment leaves.\<close>

definition tight :: "tcp \<Rightarrow> bool" where
  "tight R \<longleftrightarrow> pos (last_reassem_seq R) \<notin> dom (content 0 (blocks R)) \<and> pos (trim_seq R) \<le> pos (last_reassem_seq R)
     \<and> None \<notin> set (stream_of (tx_out (r_ext R)))"

lemma overlap_silently:
  assumes "kept_by (tcp_Overlap C env) x x'"
  shows "\<exists>es. list_all silent es \<and> tx_out x' = tx_out x @ es \<and> skip_deliveries x' = skip_deliveries x"
proof -
  define Q where "Q y \<longleftrightarrow> (\<exists>es. list_all silent es \<and> tx_out y = tx_out x @ es \<and> skip_deliveries y = skip_deliveries x)" for y :: TCP_ext
  have "Q (tcp_Overlap C env b c y)" if "Q y" for b c y
  proof -
    from that obtain es where "list_all silent es" "tx_out y = tx_out x @ es" "skip_deliveries y = skip_deliveries x"
      unfolding Q_def by blast
    then have "Q (emit (RexmitInconsistency b c) y)"
      unfolding Q_def by (intro exI [of _ "es @ [RexmitInconsistency b c]"]) (simp add: emit_def)
    with that show ?thesis by (simp add: tcp_Overlap_def)
  qed
  moreover have "Q x" unfolding Q_def by (intro exI [of _ "[]"]) simp
  ultimately have "Q x'" using assms unfolding kept_by_def by blast
  then show ?thesis unfolding Q_def .
qed

lemma new_bytes_held:
  assumes h: "holds_from A t R" and c: "content 0 (blocks R1) = (d |` {t..}) ++ content 0 (blocks R)"
    and l: "last_reassem_seq R1 = last_reassem_seq R"
  shows "holds_from (d ++ A) t R1"
  unfolding holds_from_def l
proof (intro conjI allI impI)
  have above: "content 0 (blocks R1) p = (d ++ A) p" if "t \<le> p" for p
    using that h unfolding c holds_from_def by (simp add: map_add_def restrict_map_def)
  then show "content 0 (blocks R1) p = (d ++ A) p" if "t \<le> p" for p using that .
  show "content 0 (blocks R1) \<subseteq>\<^sub>m d ++ A"
    unfolding map_le_def
  proof
    fix p assume p: "p \<in> dom (content 0 (blocks R1))"
    show "content 0 (blocks R1) p = (d ++ A) p"
    proof (cases "t \<le> p")
      case False
      with p have "p \<in> dom (content 0 (blocks R))" unfolding c by simp
      then obtain v where v: "content 0 (blocks R) p = Some v" by blast
      with h have "A p = Some v" unfolding holds_from_def map_le_def by (metis domI)
      with v show ?thesis unfolding c by simp
    qed (rule above)
  qed
  fix p assume "t \<le> p \<and> p < pos (last_reassem_seq R)"
  with h have "p \<in> dom (content 0 (blocks R))" unfolding holds_from_def by blast
  then show "p \<in> dom (content 0 (blocks R1))" unfolding c by simp
qed

lemma new_bytes_inv:
  assumes "tcp_inv A R" "reasm_ok 0 R1" "\<not> skip_deliveries (r_ext R)"
    and "content 0 (blocks R1) = (d |` {pos (trim_seq R)..}) ++ content 0 (blocks R)"
    and "trim_seq R1 = trim_seq R" "last_reassem_seq R1 = last_reassem_seq R"
    and "list_all silent es" "tx_out (r_ext R1) = tx_out (r_ext R) @ es" "skip_deliveries (r_ext R1) = skip_deliveries (r_ext R)"
  shows "tcp_inv (d ++ A) R1"
proof -
  have inv: "inv_at A (pos (trim_seq R)) R" using assms(1) unfolding tcp_inv_def .
  then have h: "holds_from A (pos (trim_seq R)) R" and len: "length (stream_of (tx_out (r_ext R))) + 1 = pos (last_reassem_seq R)"
    using assms(3) unfolding inv_at_def by blast+
  have "holds_from (d ++ A) (pos (trim_seq R)) R1" by (rule new_bytes_held [OF h assms(4,6)])
  moreover have "stream_ok (d ++ A) (stream_of (tx_out (r_ext R)))"
    using inv unfolding inv_at_def by (intro stream_ok_mono [of A _ "d ++ A"] map_le_map_add) blast
  moreover have "stream_of (tx_out (r_ext R1)) = stream_of (tx_out (r_ext R))" using assms(7,8) by (simp add: silent_stream)
  moreover have "gaps_placed 1 (tx_out (r_ext R1))"
    using inv assms(7) unfolding assms(8) inv_at_def by (simp add: silent_gaps)
  ultimately show ?thesis
    using inv len assms(2) unfolding tcp_inv_def inv_at_def assms(5,6) by metis
qed

lemma tight_inserted:
  assumes "inserted_post R R'" "pos (last_reassem_seq R') \<notin> dom (content 0 (blocks R))" "pos (trim_seq R) \<le> pos (last_reassem_seq R)"
    and "None \<notin> set (stream_of (tx_out (r_ext R)))"
  shows "tight R'"
proof -
  note post = assms(1) [unfolded inserted_post_def]
  obtain es where es: "tx_out (r_ext R') = tx_out (r_ext R) @ es"
    "stream_of es = (if skip_deliveries (r_ext R) then [] else List.map (content 0 (blocks R)) [pos (last_reassem_seq R)..<pos (last_reassem_seq R')])"
    using post by blast
  have "None \<notin> set (stream_of es)" using es(2) post by (auto simp: domIff)
  moreover have "pos (last_reassem_seq R') \<notin> dom (content 0 (blocks R'))"
    using assms(2) post map_le_implies_dom_le by blast
  moreover have "pos (trim_seq R') \<le> pos (last_reassem_seq R')"
  proof -
    have "pos (trim_seq R') \<le> max (pos (trim_seq R)) (pos (last_reassem_seq R'))" "pos (last_reassem_seq R) \<le> pos (last_reassem_seq R')"
      using post by blast+
    with assms(3) show ?thesis by linarith
  qed
  ultimately show ?thesis using assms(4) es(1) unfolding tight_def by simp
qed

lemma NewBlock_tcp:
  assumes "tcp_inv A R" "write_ok env" "pos sq + length data < half_space" "\<not> skip_deliveries (r_ext R)"
  shows "\<exists>R'. NewBlock (tcp_BlockInserted max_depth C env) (tcp_Overlap C env) sq (int (length data)) data R = Ret R'
    \<and> tcp_inv (data_map 0 sq data ++ A) R' \<and> (tight R \<longrightarrow> tight R')"
proof (cases "data = []")
  case True
  then have "data_map 0 sq data = Map.empty" by (simp add: data_map_def fun_eq_iff)
  then show ?thesis using assms(1) True by (simp add: NewBlock_def)
next
  case False
  let ?d = "data_map 0 sq data" and ?t = "pos (trim_seq R)" and ?l = "last_reassem_seq R"
  note inv = assms(1) [unfolded tcp_inv_def inv_at_def]
  have ok: "reasm_ok 0 R" and t: "?t < half_space" and h: "holds_from A ?t R" using inv assms(4) by blast+
  note NB = NewBlock_ok [OF ok False assms(3) t, of "tcp_BlockInserted max_depth C env" "tcp_Overlap C env" "[]", simplified append_Nil2]
  show ?thesis
  proof (cases "pos sq + length data \<le> ?t")
    case True
    then have "?d |` {?t..} = Map.empty" by (auto simp: restrict_map_def data_map_def fun_eq_iff)
    then have "tcp_inv (?d ++ A) R"
      using new_bytes_inv [OF assms(1) ok assms(4), of ?d "[]"] by simp
    then show ?thesis using NB True by simp
  next
    case False
    then obtain a R1 where R1: "NewBlock (tcp_BlockInserted max_depth C env) (tcp_Overlap C env) sq (int (length data)) data R
          = tcp_BlockInserted max_depth C env a R1" "reasm_ok 0 R1"
        "content 0 (blocks R1) = (?d |` {?t..}) ++ content 0 (blocks R)" "a \<in> db_addr ` set (blocks R1)"
        "trim_seq R1 = trim_seq R" "last_reassem_seq R1 = ?l" "kept_by (tcp_Overlap C env) (r_ext R) (r_ext R1)"
        "\<forall>p. first_new (?d |` {?t..}) (content 0 (blocks R)) p \<longrightarrow> starts_at 0 R1 a p"
      using NB by auto
    from overlap_silently [OF R1(7)] obtain es where es: "list_all silent es" "tx_out (r_ext R1) = tx_out (r_ext R) @ es"
      "skip_deliveries (r_ext R1) = skip_deliveries (r_ext R)" by blast
    have inv1: "tcp_inv (?d ++ A) R1" by (rule new_bytes_inv [OF assms(1) R1(2) assms(4) R1(3,5,6) es])
    then have "pos (last_reassem_seq R1) < half_space" "pos (trim_seq R1) < half_space" by (simp_all add: tcp_inv_def inv_at_def)
    from tcp_BlockInserted_ok [OF R1(2,4) assms(2) this, of 1 C] obtain R' where
      R': "tcp_BlockInserted max_depth C env a R1 = Ret R'" "inserted_post R1 R'"
        "if starts_at 0 R1 a (pos ?l) then pos (last_reassem_seq R') \<notin> dom (content 0 (blocks R1))
         else last_reassem_seq R' = last_reassem_seq R1 \<and> tx_out (r_ext R') = tx_out (r_ext R1)"
      unfolding max_depth_def numeral_2_eq_2 One_nat_def R1(6) by blast
    have "tcp_inv (?d ++ A) R'"
    proof -
      have "pos (trim_seq R1) \<le> pos (trim_seq R')" using R'(2) by (simp add: inserted_post_def)
      then show ?thesis using inserted_inv [OF inv1 [unfolded tcp_inv_def] R'(2)] unfolding tcp_inv_def by (simp add: max_absorb2)
    qed
    moreover have "tight R'" if "tight R"
    proof (rule tight_inserted [OF R'(2)])
      have l: "pos ?l \<notin> dom (content 0 (blocks R))" using that by (simp add: tight_def)
      show "pos (last_reassem_seq R') \<notin> dom (content 0 (blocks R1))"
      proof (cases "pos ?l \<in> dom (content 0 (blocks R1))")
        case True
        then have "pos ?l \<in> dom (?d |` {?t..})" using l unfolding R1(3) by simp
        moreover have "q \<in> dom (content 0 (blocks R))" if "q \<in> dom (?d |` {?t..})" "q < pos ?l" for q
          using that h unfolding holds_from_def by simp
        ultimately have "first_new (?d |` {?t..}) (content 0 (blocks R)) (pos ?l)" using l by (simp add: first_new_def)
        with R1(8) R'(3) show ?thesis by simp
      next
        case False
        have "pos (last_reassem_seq R') = pos ?l"
        proof (rule ccontr)
          assume "pos (last_reassem_seq R') \<noteq> pos ?l"
          then have "pos ?l < pos (last_reassem_seq R')" using R'(2) R1(6) by (simp add: inserted_post_def)
          then have "pos ?l \<in> dom (content 0 (blocks R1))" using R'(2) R1(6) by (simp add: inserted_post_def)
          with False show False by blast
        qed
        with False show ?thesis by simp
      qed
    qed (use that R1(5,6) es in \<open>simp_all add: tight_def silent_stream\<close>)
    ultimately show ?thesis using R1(1) R'(1) by auto
  qed
qed

lemma tcp_DataSent_ok:
  assumes "tcp_inv A R" "write_ok env" "pos sq + length data < half_space"
  shows "\<exists>k R'. tcp_DataSent C env sq (int (length data)) data True R = Ret (k, R') \<and> tcp_inv (data_map 0 sq data ++ A) R'
    \<and> (skip_deliveries (r_ext R) \<longrightarrow> skip_deliveries (r_ext R'))
    \<and> (tight R \<and> \<not> skip_deliveries (r_ext R') \<longrightarrow> tight R')"
proof (cases "skip_deliveries (r_ext R)")
  case True
  have "stream_ok (data_map 0 sq data ++ A) (stream_of (tx_out (r_ext R)))"
    using assms(1) unfolding tcp_inv_def inv_at_def by (intro stream_ok_mono [of A _ "data_map 0 sq data ++ A"] map_le_map_add) blast
  then have "tcp_inv (data_map 0 sq data ++ A) R" using assms(1) True by (simp add: tcp_inv_def inv_at_def)
  then show ?thesis using True by (simp add: tcp_DataSent_def)
next
  case False
  from NewBlock_tcp [OF assms False, of C] obtain R1 where
    R1: "NewBlock (tcp_BlockInserted max_depth C env) (tcp_Overlap C env) sq (int (length data)) data R = Ret R1"
      "tcp_inv (data_map 0 sq data ++ A) R1" "tight R \<longrightarrow> tight R1" by blast
  from drop_if_excessive_ok [OF R1(2) [unfolded tcp_inv_def], of AboveHoleWithoutAcks "NoDataAcked (endp env)"] obtain R2 where
    R2: "drop_if_excessive (NoDataAcked (endp env)) (tcp_max_above_hole_without_any_acks C) AboveHoleWithoutAcks R1 = Ret R2"
      "inv_at (data_map 0 sq data ++ A) (pos (trim_seq R1)) R2" "\<not> skip_deliveries (r_ext R2) \<longrightarrow> R2 = R1" by fastforce
  from drop_if_excessive_ok [OF R2(2), of ExcessiveWithoutAcks True] obtain R3 where
    R3: "drop_if_excessive True (tcp_excessive_data_without_further_acks C) ExcessiveWithoutAcks R2 = Ret R3"
      "inv_at (data_map 0 sq data ++ A) (pos (trim_seq R1)) R3" "\<not> skip_deliveries (r_ext R3) \<longrightarrow> R3 = R2" by fastforce
  have "tcp_DataSent C env sq (int (length data)) data True R = Ret (1, R3)"
    using False R1(1) R2(1) R3(1) by (simp add: tcp_DataSent_def)
  moreover have "tcp_inv (data_map 0 sq data ++ A) R3"
  proof (cases "skip_deliveries (r_ext R3)")
    case True
    then show ?thesis using R3(2) by (simp add: tcp_inv_def inv_at_def)
  next
    case False
    with R2(3) R3(3) R1(2) show ?thesis by auto
  qed
  ultimately show ?thesis using False R1(3) R2(3) R3(3) by auto
qed

section \<open>Runs\<close>

text \<open>
  The calls of the endpoint, each with what it sees at the time.  All callers in the program leave \<open>replaying\<close> true.
\<close>

datatype endpoint_call = CallData u32 bytes | CallAck u32 | CallEOF | CallFile bool

fun tcp_call :: "tcp_conf \<Rightarrow> tcp_env \<times> endpoint_call \<Rightarrow> tcp \<Rightarrow> tcp run" where
  "tcp_call C (env, CallData sq data) R = run_bind (tcp_DataSent C env sq (int (length data)) data True R) (\<lambda>(_, R). Ret R)"
| "tcp_call C (env, CallAck sq) R = tcp_AckReceived C env sq R"
| "tcp_call C (env, CallEOF) R = Ret (CheckEOF env R)"
| "tcp_call C (env, CallFile is_open) R = tcp_SetContentsFile env is_open R"

fun tcp_calls :: "tcp_conf \<Rightarrow> (tcp_env \<times> endpoint_call) list \<Rightarrow> tcp \<Rightarrow> tcp run" where
  "tcp_calls C [] R = Ret R"
| "tcp_calls C (c # cs) R = run_bind (tcp_call C c R) (tcp_calls C cs)"

text \<open>The bytes that arrive, the first copy of each.\<close>

definition call_bytes :: "tcp_env \<times> endpoint_call \<Rightarrow> nat \<rightharpoonup> u8" where
  "call_bytes c = (case snd c of CallData sq data \<Rightarrow> data_map 0 sq data | _ \<Rightarrow> Map.empty)"

fun arrived :: "(tcp_env \<times> endpoint_call) list \<Rightarrow> nat \<rightharpoonup> u8" where
  "arrived [] = Map.empty"
| "arrived (c # cs) = arrived cs ++ call_bytes c"

text \<open>All positions lie below \<open>2 ^ 31\<close>, and writing to a contents file works.\<close>

definition in_window :: "tcp_env \<times> endpoint_call \<Rightarrow> bool" where
  "in_window c \<longleftrightarrow> write_ok (fst c) \<and>
     (case snd c of
        CallData sq data \<Rightarrow> unat sq + length data < 2 ^ 31
      | CallAck sq \<Rightarrow> unat (ack_target (fst c) sq) < 2 ^ 31
      | _ \<Rightarrow> True)"

text \<open>Acknowledgements come after the data they cover.\<close>

fun acks_follow :: "tcp_conf \<Rightarrow> (tcp_env \<times> endpoint_call) list \<Rightarrow> tcp \<Rightarrow> bool" where
  "acks_follow C [] R \<longleftrightarrow> True"
| "acks_follow C (c # cs) R \<longleftrightarrow>
     (case snd c of CallAck sq \<Rightarrow> unat (ack_target (fst c) sq) \<le> unat (last_reassem_seq R) | _ \<Rightarrow> True)
     \<and> (case tcp_call C c R of Ret R' \<Rightarrow> acks_follow C cs R' | _ \<Rightarrow> False)"

lemma tight_silently: "silently R R' \<Longrightarrow> tight R \<Longrightarrow> tight R'"
  unfolding tight_def using silently_same [of R R'] by simp

lemma SetContentsFile_ok:
  assumes "reasm_ok 0 R" "write_ok env"
  shows "\<exists>R'. tcp_SetContentsFile env is_open R = Ret R' \<and> silently R R'"
proof (cases "is_open")
  case False
  then show ?thesis using silently_put [of "[NoSuchFile]" R] by (simp add: tcp_SetContentsFile_def upd_emit)
next
  case True
  have "\<exists>es. (if \<not> recording (r_ext R) \<and> blocks R \<noteq> [] then RecordToSeq env (seq (hd (blocks R))) (last_reassem_seq R) R else Ret R)
      = Ret (put es R) \<and> list_all silent es"
  proof (cases "\<not> recording (r_ext R) \<and> blocks R \<noteq> []")
    case True
    then show ?thesis using RecordToSeq_ok [OF assms, of "seq (hd (blocks R))" "last_reassem_seq R"] by simp
  next
    case False
    then show ?thesis by (intro exI [of _ "[]"]) auto
  qed
  then obtain es where es: "(if \<not> recording (r_ext R) \<and> blocks R \<noteq> [] then RecordToSeq env (seq (hd (blocks R))) (last_reassem_seq R) R else Ret R)
      = Ret (put es R)" "list_all silent es" by blast
  have "silently (put es R) (upd_ext (\<lambda>x. x\<lparr>recording := True\<rparr>) (put es R))" by (rule silently_upd [of "[]"]) simp_all
  then have "silently R (upd_ext (\<lambda>x. x\<lparr>recording := True\<rparr>) (put es R))" by (rule silently_trans [OF silently_put [OF es(2)]])
  with True es(1) show ?thesis by (simp add: tcp_SetContentsFile_def)
qed

lemma tcp_call_ok:
  assumes "tcp_inv A R" "in_window c"
  shows "\<exists>R'. tcp_call C c R = Ret R' \<and> tcp_inv (call_bytes c ++ A) R'
    \<and> (skip_deliveries (r_ext R) \<longrightarrow> skip_deliveries (r_ext R'))
    \<and> (tight R \<and> (\<forall>sq. snd c = CallAck sq \<longrightarrow> unat (ack_target (fst c) sq) \<le> unat (last_reassem_seq R))
         \<and> \<not> skip_deliveries (r_ext R') \<longrightarrow> tight R')"
proof -
  obtain env call where c: "c = (env, call)" by (cases c)
  have w: "write_ok env" using assms(2) c by (simp add: in_window_def)
  have quiet: "\<exists>R''. Ret R' = Ret R'' \<and> tcp_inv (call_bytes c ++ A) R''
      \<and> (skip_deliveries (r_ext R) \<longrightarrow> skip_deliveries (r_ext R'')) \<and> (tight R \<and> P \<and> \<not> skip_deliveries (r_ext R'') \<longrightarrow> tight R'')"
    if "silently R R'" "call_bytes c = Map.empty" for R' P
    using that silently_inv [OF that(1)] silently_same [OF that(1)] tight_silently [OF that(1)] assms(1)
    by (auto simp: tcp_inv_def)
  show ?thesis
  proof (cases call)
    case (CallData sq data)
    then have "pos sq + length data < half_space" using assms(2) c by (simp add: in_window_def seq_off_def)
    from tcp_DataSent_ok [OF assms(1) w this, of C] show ?thesis
      using c CallData by (auto simp: call_bytes_def)
  next
    case (CallAck sq)
    then have "pos (ack_target env sq) < half_space" using assms(2) c by (simp add: in_window_def seq_off_def)
    from tcp_AckReceived_ok [OF assms(1) w this, of C] obtain R1 R' where
      R1: "tcp_AckReceived C env sq R = Ret R'" "silently R1 R'" "tcp_inv A R1"
        "skip_deliveries (r_ext R) \<longrightarrow> skip_deliveries (r_ext R')"
        "pos (ack_target env sq) \<le> pos (last_reassem_seq R) \<and> pos (last_reassem_seq R) \<notin> dom (content 0 (blocks R))
         \<longrightarrow> R1 = R \<or> only_trimmed R R1" by blast
    have "tcp_inv A R'" using R1(3) silently_inv [OF R1(2)] silently_same [OF R1(2)] unfolding tcp_inv_def by simp
    moreover have "tight R'" if t: "tight R" "unat (ack_target env sq) \<le> unat (last_reassem_seq R)"
    proof -
      have "R1 = R \<or> only_trimmed R R1" using R1(5) t by (simp add: tight_def seq_off_def)
      then have "tight R1"
      proof
        assume "only_trimmed R R1"
        then have "dom (content 0 (blocks R1)) \<subseteq> dom (content 0 (blocks R))" unfolding only_trimmed_def by (intro map_le_implies_dom_le) blast
        with t(1) \<open>only_trimmed R R1\<close> show ?thesis unfolding tight_def only_trimmed_def by auto
      qed (use t(1) in simp)
      then show ?thesis by (rule tight_silently [OF R1(2)])
    qed
    ultimately show ?thesis using c CallAck R1(1,4) by (simp add: call_bytes_def)
  next
    case CallEOF
    have "silently R (CheckEOF env R)" using CheckEOF_ok [of env R] unfolding silently_def by blast
    from quiet [OF this] show ?thesis using c CallEOF by (simp add: call_bytes_def)
  next
    case (CallFile is_open)
    have "reasm_ok 0 R" using assms(1) by (simp add: tcp_inv_def inv_at_def)
    from SetContentsFile_ok [OF this w, of is_open] obtain R' where "tcp_SetContentsFile env is_open R = Ret R'" "silently R R'" by blast
    with quiet [OF this(2)] show ?thesis using c CallFile by (simp add: call_bytes_def)
  qed
qed

lemma tcp_calls_ok:
  assumes "tcp_inv A R" "\<forall>c \<in> set cs. in_window c"
  shows "\<exists>R'. tcp_calls C cs R = Ret R' \<and> tcp_inv (arrived cs ++ A) R' \<and> (skip_deliveries (r_ext R) \<longrightarrow> skip_deliveries (r_ext R'))
    \<and> (tight R \<and> acks_follow C cs R \<and> \<not> skip_deliveries (r_ext R') \<longrightarrow> tight R')"
  using assms
proof (induction cs arbitrary: A R)
  case (Cons c cs)
  from Cons.prems(2) have "in_window c" by simp
  from tcp_call_ok [OF Cons.prems(1) this, of C] obtain R1 where
    R1: "tcp_call C c R = Ret R1" "tcp_inv (call_bytes c ++ A) R1" "skip_deliveries (r_ext R) \<longrightarrow> skip_deliveries (r_ext R1)"
      "tight R \<and> (\<forall>sq. snd c = CallAck sq \<longrightarrow> unat (ack_target (fst c) sq) \<le> unat (last_reassem_seq R))
         \<and> \<not> skip_deliveries (r_ext R1) \<longrightarrow> tight R1" by blast
  from Cons.IH [OF R1(2)] Cons.prems(2) obtain R' where
    R': "tcp_calls C cs R1 = Ret R'" "tcp_inv (arrived cs ++ (call_bytes c ++ A)) R'" "skip_deliveries (r_ext R1) \<longrightarrow> skip_deliveries (r_ext R')"
      "tight R1 \<and> acks_follow C cs R1 \<and> \<not> skip_deliveries (r_ext R') \<longrightarrow> tight R'" by auto
  have "tight R'" if "tight R" "acks_follow C (c # cs) R" "\<not> skip_deliveries (r_ext R')"
    using that R1(1,4) R'(3,4) by auto
  with R1(1,3) R'(1-3) show ?case by auto
qed simp

lemma new_tcp_inv: "tcp_inv Map.empty (new_TCP_Reassembler C ty orig stats overhead)"
  by (simp add: tcp_inv_def inv_at_def new_TCP_Reassembler_def new_Reassembler_ok stream_ok_def holds_from_def)
    (simp add: new_Reassembler_def seq_off_def)

lemma new_tcp_tight: "tight (new_TCP_Reassembler C ty orig stats overhead)"
  by (simp add: tight_def new_TCP_Reassembler_def new_Reassembler_def)

text \<open>C11. For any sequence of segments, acknowledgements, checks for the end and contents files within half of the
  sequence space, in any order and with any overlap, the reassembler never fails or leaves its memory.  What it hands
  to the analyzers is a stream in order: each byte at its position, none twice, each declared gap at the place where
  it is; every byte handed out is the first copy of it that arrived.  Unless it has given up, the stream reaches
  exactly to \<open>last_reassem_seq\<close>.\<close>

theorem tcp_stream_in_order:
  assumes "\<forall>c \<in> set cs. in_window c"
  shows "\<exists>R. tcp_calls C cs (new_TCP_Reassembler C ty orig stats overhead) = Ret R \<and> reasm_ok 0 R
    \<and> gaps_placed 1 (tx_out (r_ext R))
    \<and> (\<forall>i < length (stream_of (tx_out (r_ext R))). \<forall>c. stream_of (tx_out (r_ext R)) ! i = Some c \<longrightarrow> arrived cs (i + 1) = Some c)
    \<and> (\<not> skip_deliveries (r_ext R) \<longrightarrow> length (stream_of (tx_out (r_ext R))) + 1 = unat (last_reassem_seq R))"
proof -
  from tcp_calls_ok [OF new_tcp_inv assms, of C C ty orig stats overhead] obtain R where
    "tcp_calls C cs (new_TCP_Reassembler C ty orig stats overhead) = Ret R" "tcp_inv (arrived cs) R" by auto
  then show ?thesis by (simp add: tcp_inv_def inv_at_def stream_ok_def seq_off_def)
qed

text \<open>C12. When every acknowledgement comes after the data it covers, and the reassembler does not give up, nothing is
  held back and nothing is lost: the stream handed out is exactly the first copies of the bytes from position one to
  the first position that has not arrived.\<close>

theorem tcp_stream_complete:
  assumes "\<forall>c \<in> set cs. in_window c" "acks_follow C cs (new_TCP_Reassembler C ty orig stats overhead)"
    and "tcp_calls C cs (new_TCP_Reassembler C ty orig stats overhead) = Ret R" "\<not> skip_deliveries (r_ext R)"
  shows "stream_of (tx_out (r_ext R)) = List.map (arrived cs) [1..<unat (last_reassem_seq R)]
    \<and> (\<forall>p \<in> {1..<unat (last_reassem_seq R)}. arrived cs p \<noteq> None) \<and> arrived cs (unat (last_reassem_seq R)) = None"
proof -
  let ?s = "stream_of (tx_out (r_ext R))" and ?l = "unat (last_reassem_seq R)"
  from tcp_calls_ok [OF new_tcp_inv assms(1), of C C ty orig stats overhead] assms(2-4) new_tcp_tight [of C ty orig stats overhead]
  have inv: "tcp_inv (arrived cs) R" and t: "tight R" by auto
  have len: "length ?s + 1 = ?l" and ok: "\<And>i c. i < length ?s \<Longrightarrow> ?s ! i = Some c \<Longrightarrow> arrived cs (i + 1) = Some c"
    and held: "holds_from (arrived cs) (pos (trim_seq R)) R"
    using inv assms(4) by (simp_all add: tcp_inv_def inv_at_def stream_ok_def seq_off_def)
  have at: "?s ! i = arrived cs (i + 1) \<and> arrived cs (i + 1) \<noteq> None" if "i < length ?s" for i
  proof -
    have "?s ! i \<noteq> None" using t that unfolding tight_def by (metis nth_mem)
    then obtain c where "?s ! i = Some c" by blast
    with ok [OF that this] show ?thesis by simp
  qed
  have "?s = List.map (arrived cs) [1..<?l]"
    using at len by (intro nth_equalityI) auto
  moreover have "arrived cs p \<noteq> None" if "p \<in> {1..<?l}" for p
  proof -
    have "p - 1 < length ?s" "p - 1 + 1 = p" using that len by auto
    with at [of "p - 1"] show ?thesis by simp
  qed
  moreover have "arrived cs ?l = None"
  proof -
    have "pos (trim_seq R) \<le> pos (last_reassem_seq R)" "content 0 (blocks R) (pos (last_reassem_seq R)) = None"
      using t by (simp_all add: tight_def domIff)
    with held have "arrived cs (pos (last_reassem_seq R)) = None" unfolding holds_from_def by metis
    then show ?thesis by (simp add: seq_off_def)
  qed
  ultimately show ?thesis by blast
qed

section \<open>A run\<close>

abbreviation demo_endpoint where "demo_endpoint \<equiv> \<lparr>ep_state = TCP_ENDPOINT_ESTABLISHED, start_seq = 100, last_seq = 108, ack_seq = 101,
  last_seq_high = 0, ack_seq_high = 0, FIN_seq = 0, FIN_cnt = 0, RST_cnt = 0, done_something = True,
  contents_start_seq = 1, contents_file = None\<rparr>"
abbreviation demo_env where "demo_env \<equiv> \<lparr>endp = demo_endpoint, peer = demo_endpoint, peer_blocks = Some [], is_partial = False,
  skipping = False, report_due = False, write_ok = True\<rparr>"
abbreviation demo_conf where "demo_conf \<equiv> \<lparr>content_gap = True, report_gaps_for_partial = False, tcp_match_undelivered = True, rule_matcher = True,
  rexmit_inconsistency = True, tcp_contents = False, deliver_all_orig = False, deliver_all_resp = False, port_listed = False,
  tcp_max_initial_window = 0, tcp_max_above_hole_without_any_acks = 0, tcp_excessive_data_without_further_acks = 0\<rparr>"
abbreviation demo_stats where "demo_stats \<equiv> \<lparr>tot_ack_events = 0, tot_ack_bytes = 0, tot_gap_events = 0, tot_gap_bytes = 0,
  last_ack_events = 0, last_ack_bytes = 0, last_gap_events = 0, last_gap_bytes = 0\<rparr>"
abbreviation demo_run where "demo_run \<equiv> [(demo_env, CallData 4 [14, 15, 16]), (demo_env, CallData 1 [11, 12]), (demo_env, CallAck 3),
  (demo_env, CallData 2 [99, 13, 99]), (demo_env, CallAck 6), (demo_env, CallEOF)]"
abbreviation demo_new where "demo_new \<equiv> new_TCP_Reassembler demo_conf Direct True demo_stats 48"

lemma max_depth_Suc: "max_depth = Suc (Suc 0)"
  by (simp add: max_depth_def)

lemmas tcp_eval = tcp_DataSent_def NewBlock_def new_DataBlock_def max_depth_Suc seq_delta_def Let_def
  new_TCP_Reassembler_def new_Reassembler_def tcp_Overlap_def NoDataAcked_def HasContents_def DeliverBlock_def upd_ext_def
  emit_def block_bytes_def drop_if_excessive_def tcp_AckReceived_def TrimToSeq_def tcp_Undelivered_def report_undelivered_def
  delete_DataBlock_def CheckEOF_def count_ack_def both_established_def add_step_def append_after_def search_place_def
  skip_before.simps insert_before_def insert_at_def MatchUndelivered_def last_upper_of_def ack_target_def ending_def AddAndCheck.simps

lemma tcp_stream_in_order_witness:
  "\<exists>R. tcp_calls demo_conf demo_run demo_new = Ret R \<and> reasm_ok 0 R \<and> gaps_placed 1 (tx_out (r_ext R))
    \<and> (\<forall>i < length (stream_of (tx_out (r_ext R))). \<forall>c. stream_of (tx_out (r_ext R)) ! i = Some c \<longrightarrow> arrived demo_run (i + 1) = Some c)
    \<and> (\<not> skip_deliveries (r_ext R) \<longrightarrow> length (stream_of (tx_out (r_ext R))) + 1 = unat (last_reassem_seq R))"
  by (rule tcp_stream_in_order) (simp add: in_window_def ack_target_def)

abbreviation demo_short where "demo_short \<equiv> [(demo_env, CallData 3 [13]), (demo_env, CallData 1 [11, 12]), (demo_env, CallAck 3)]"

lemma acks_follow_last:
  assumes "\<forall>c \<in> set cs. \<forall>sq. snd c \<noteq> CallAck sq" "tcp_calls C (cs @ [c]) R = Ret R'" "tcp_calls C cs R = Ret mid"
    and "snd c = CallAck sq" "unat (ack_target (fst c) sq) \<le> unat (last_reassem_seq mid)"
  shows "acks_follow C (cs @ [c]) R"
  using assms
proof (induction cs arbitrary: R)
  case Nil
  then show ?case by (cases "tcp_call C c R") simp_all
next
  case (Cons d cs)
  then obtain R0 where "tcp_call C d R = Ret R0" "tcp_calls C cs R0 = Ret mid" "tcp_calls C (cs @ [c]) R0 = Ret R'"
    by (auto simp: run_bind_eq_Ret)
  moreover from this Cons have "acks_follow C (cs @ [c]) R0" by simp
  ultimately show ?case using Cons.prems(1) by (cases "snd d") simp_all
qed

lemma demo_short_first: "\<exists>R. tcp_calls demo_conf (take 2 demo_short) demo_new = Ret R \<and> last_reassem_seq R = 4"
  by (simp add: tcp_eval cong: run_bind_weak)

lemma demo_short_all:
  "\<exists>R. tcp_calls demo_conf demo_short demo_new = Ret R \<and> last_reassem_seq R = 4 \<and> \<not> skip_deliveries (r_ext R)"
  by (simp add: tcp_eval cong: run_bind_weak)

lemma tcp_stream_complete_witness:
  "\<exists>R. tcp_calls demo_conf demo_short demo_new = Ret R \<and> last_reassem_seq R = 4
     \<and> stream_of (tx_out (r_ext R)) = List.map (arrived demo_short) [1..<unat (last_reassem_seq R)]"
proof -
  obtain R1 where R1: "tcp_calls demo_conf (take 2 demo_short) demo_new = Ret R1" "last_reassem_seq R1 = 4"
    using demo_short_first by blast
  obtain R where R: "tcp_calls demo_conf demo_short demo_new = Ret R" "last_reassem_seq R = 4" "\<not> skip_deliveries (r_ext R)"
    using demo_short_all by blast
  have split: "demo_short = take 2 demo_short @ [(demo_env, CallAck 3)]" by simp
  have "acks_follow demo_conf (take 2 demo_short @ [(demo_env, CallAck 3)]) demo_new"
    using R(1) R1 split by (intro acks_follow_last [where R' = R and mid = R1 and sq = 3]) (simp_all add: ack_target_def del: tcp_calls.simps)
  then have "acks_follow demo_conf demo_short demo_new" unfolding split [symmetric] .
  moreover have "\<forall>c \<in> set demo_short. in_window c" by (simp add: in_window_def ack_target_def)
  ultimately show ?thesis using tcp_stream_complete [of demo_short demo_conf Direct True demo_stats 48 R] R by blast
qed

end
