(* ===== verification/Bro_Tcp_Facts.thy ===== *)
theory Bro_Tcp_Facts
  imports Bro_Tcp_Run
begin

text \<open>
  What the TCP reassembler does at its edges: it stalls after an acknowledgement that ends inside a buffered block, it
  gives the rules what was delivered and not what was not, it survives a move, and an endpoint counts bytes beyond
  \<open>2 ^ 32\<close> and reads beyond a truncated packet.
\<close>

section \<open>A stall\<close>

text \<open>A block that begins before \<open>last_reassem_seq\<close> and ends after it.\<close>

definition stalled :: "tcp \<Rightarrow> bool" where
  "stalled R \<longleftrightarrow> (\<exists>b \<in> set (blocks R). pos (seq b) < pos (last_reassem_seq R) \<and> pos (last_reassem_seq R) < pos (upper b))"

lemma covering_apart:
  assumes "chain_ok 0 bs" "b \<in> set bs" "pos (seq b) < p" "p < pos (upper b)" "c \<in> set bs"
  shows "pos (seq c) \<noteq> p"
proof
  assume c: "pos (seq c) = p"
  have "block_ok 0 c" using assms(1,5) by (simp add: chain_ok_def)
  note bd = block_bounds [OF this]
  obtain n where n: "n < length bs" "bs ! n = b" using assms(2) by (auto simp: in_set_conv_nth)
  from chain_parts(4) [OF assms(1) n(1) assms(5)] show False
    using chain_parts(2) [OF assms(1) n(1), of c] chain_parts(3) [OF assms(1) n(1), of c] n(2) assms(3,4) c bd by auto
qed

lemma NewBlock_stalled:
  assumes "tcp_inv A R" "write_ok env" "pos sq + length data < half_space" "\<not> skip_deliveries (r_ext R)" "stalled R"
  shows "\<exists>R' es. NewBlock (tcp_BlockInserted max_depth C env) (tcp_Overlap C env) sq (int (length data)) data R = Ret R'
    \<and> stalled R' \<and> list_all silent es \<and> tx_out (r_ext R') = tx_out (r_ext R) @ es"
proof (cases "data = []")
  case True
  then show ?thesis using assms(5) by (intro exI [of _ R] exI [of _ "[]"]) (simp add: NewBlock_def)
next
  case False
  let ?l = "last_reassem_seq R"
  note inv = assms(1) [unfolded tcp_inv_def inv_at_def]
  have ok: "reasm_ok 0 R" and t: "pos (trim_seq R) < half_space" and l: "pos ?l < half_space" using inv by blast+
  obtain b where b: "b \<in> set (blocks R)" "pos (seq b) < pos ?l" "pos ?l < pos (upper b)" using assms(5) unfolding stalled_def by blast
  note NB = NewBlock_ok [OF ok False assms(3) t, of "tcp_BlockInserted max_depth C env" "tcp_Overlap C env" "[]", simplified append_Nil2]
  show ?thesis
  proof (cases "pos sq + length data \<le> pos (trim_seq R)")
    case True
    then show ?thesis using NB assms(5) by (intro exI [of _ R] exI [of _ "[]"]) simp
  next
    case False
    then obtain a R1 where R1: "NewBlock (tcp_BlockInserted max_depth C env) (tcp_Overlap C env) sq (int (length data)) data R
          = tcp_BlockInserted max_depth C env a R1" "reasm_ok 0 R1" "a \<in> db_addr ` set (blocks R1)"
        "trim_seq R1 = trim_seq R" "last_reassem_seq R1 = ?l" "kept_by (tcp_Overlap C env) (r_ext R) (r_ext R1)"
        "set (blocks R) \<subseteq> set (blocks R1)"
      using NB by auto
    from overlap_silently [OF R1(6)] obtain es where es: "list_all silent es" "tx_out (r_ext R1) = tx_out (r_ext R) @ es" by blast
    have "pos (last_reassem_seq R1) < half_space" "pos (trim_seq R1) < half_space" using t l R1(4,5) by simp_all
    from tcp_BlockInserted_ok [OF R1(2,3) assms(2) this, of 1 C] obtain R' where
      R': "tcp_BlockInserted max_depth C env a R1 = Ret R'"
        "if starts_at 0 R1 a (pos ?l) then pos (last_reassem_seq R') \<notin> dom (content 0 (blocks R1))
         else last_reassem_seq R' = last_reassem_seq R1 \<and> tx_out (r_ext R') = tx_out (r_ext R1)"
        "\<forall>b \<in> set (blocks R1). pos (last_reassem_seq R') < pos (upper b) \<longrightarrow> b \<in> set (blocks R')"
      unfolding max_depth_def numeral_2_eq_2 One_nat_def R1(5) by blast
    have b1: "b \<in> set (blocks R1)" using R1(7) b(1) by blast
    have "chain_ok 0 (blocks R1)" using R1(2) by (simp add: reasm_ok_def)
    from covering_apart [OF this b1 b(2,3)] have "\<not> starts_at 0 R1 a (pos ?l)" unfolding starts_at_def by blast
    with R'(2) have same: "last_reassem_seq R' = ?l" "tx_out (r_ext R') = tx_out (r_ext R1)" using R1(5) by simp_all
    then have "stalled R'" using R'(3) b1 b(2,3) unfolding stalled_def by auto
    with es same R1(1) R'(1) show ?thesis by (intro exI [of _ R'] exI [of _ es]) simp
  qed
qed

lemma DataSent_stalled:
  assumes "tcp_inv A R" "write_ok env" "pos sq + length data < half_space" "stalled R \<or> skip_deliveries (r_ext R)"
  shows "\<exists>k R'. tcp_DataSent C env sq (int (length data)) data True R = Ret (k, R')
    \<and> tcp_inv (data_map 0 sq data ++ A) R'
    \<and> (stalled R' \<or> skip_deliveries (r_ext R')) \<and> stream_of (tx_out (r_ext R')) = stream_of (tx_out (r_ext R))"
proof -
  from tcp_DataSent_ok [OF assms(1-3), of C] obtain k R' where
    R': "tcp_DataSent C env sq (int (length data)) data True R = Ret (k, R')" "tcp_inv (data_map 0 sq data ++ A) R'" by blast
  have "(stalled R' \<or> skip_deliveries (r_ext R')) \<and> stream_of (tx_out (r_ext R')) = stream_of (tx_out (r_ext R))"
  proof (cases "skip_deliveries (r_ext R)")
    case True
    then show ?thesis using R'(1) by (auto simp: tcp_DataSent_def)
  next
    case False
    then have "stalled R" using assms(4) by blast
    from NewBlock_stalled [OF assms(1-3) False this, of C] obtain R1 es where
      R1: "NewBlock (tcp_BlockInserted max_depth C env) (tcp_Overlap C env) sq (int (length data)) data R = Ret R1"
        "stalled R1" "list_all silent es" "tx_out (r_ext R1) = tx_out (r_ext R) @ es" by blast
    have drop: "(stalled S' \<or> skip_deliveries (r_ext S')) \<and> stream_of (tx_out (r_ext S')) = stream_of (tx_out (r_ext S))"
      if "drop_if_excessive c n w S = Ret S'" "stalled S \<or> skip_deliveries (r_ext S)" "silent w" for c n w S S'
      using that silent_stream [of "[w]"]
      by (cases "NumUndeliveredBytes S")
        (auto simp: drop_if_excessive_def upd_ext_def emit_def ClearBlocks_fields split: if_splits)
    obtain R2 where R2: "drop_if_excessive (NoDataAcked (endp env)) (tcp_max_above_hole_without_any_acks C) AboveHoleWithoutAcks R1 = Ret R2"
      "drop_if_excessive True (tcp_excessive_data_without_further_acks C) ExcessiveWithoutAcks R2 = Ret R'"
      using R'(1) False R1(1)
      by (cases "drop_if_excessive (NoDataAcked (endp env)) (tcp_max_above_hole_without_any_acks C) AboveHoleWithoutAcks R1")
        (auto simp: tcp_DataSent_def run_bind_eq_Ret)
    from drop [OF R2(1)] drop [OF R2(2)] R1(2-4) show ?thesis by (simp add: silent_stream)
  qed
  with R' show ?thesis by blast
qed

definition is_data :: "tcp_env \<times> endpoint_call \<Rightarrow> bool" where
  "is_data c \<longleftrightarrow> (case snd c of CallData sq data \<Rightarrow> True | _ \<Rightarrow> False)"

lemma data_calls_stalled:
  assumes "tcp_inv A R" "\<forall>c \<in> set cs. in_window c \<and> is_data c" "stalled R \<or> skip_deliveries (r_ext R)"
  shows "\<exists>R'. tcp_calls C cs R = Ret R' \<and> stream_of (tx_out (r_ext R')) = stream_of (tx_out (r_ext R))"
  using assms
proof (induction cs arbitrary: A R)
  case (Cons c cs)
  then obtain env sq data where c: "c = (env, CallData sq data)"
    by (cases c, cases "snd c") (auto simp: is_data_def)
  with Cons.prems(2) have "write_ok env" "pos sq + length data < half_space" by (simp_all add: in_window_def seq_off_def)
  from DataSent_stalled [OF Cons.prems(1) this Cons.prems(3), of C] obtain k R1 where
    R1: "tcp_DataSent C env sq (int (length data)) data True R = Ret (k, R1)" "tcp_inv (data_map 0 sq data ++ A) R1"
      "stalled R1 \<or> skip_deliveries (r_ext R1)" "stream_of (tx_out (r_ext R1)) = stream_of (tx_out (r_ext R))" by blast
  from Cons.IH [OF R1(2) _ R1(3)] Cons.prems(2) R1(1,4) show ?case by (simp add: c)
qed simp

lemma tcp_calls_append: "tcp_calls C (cs @ ds) R = run_bind (tcp_calls C cs R) (tcp_calls C ds)"
proof (induction cs arbitrary: R)
  case (Cons c cs)
  then show ?case by (cases "tcp_call C c R") simp_all
qed simp

text \<open>C39. A stall.  When the reassembler has come to stand inside a buffered block, which an acknowledgement that ends
  there brings about, no data that arrives afterwards gives anything to the analyzers, whatever and however much it
  is: the block is skipped because it begins before \<open>last_reassem_seq\<close>, and nothing else begins there.\<close>

theorem stalled_delivers_nothing:
  assumes "tcp_calls C cs (new_TCP_Reassembler C ty orig stats overhead) = Ret R" "\<forall>c \<in> set cs. in_window c"
    and "b \<in> set (blocks R)" "unat (seq b) < unat (last_reassem_seq R)" "unat (last_reassem_seq R) < unat (upper b)"
    and "\<forall>d \<in> set ds. in_window d \<and> is_data d"
  shows "\<exists>R'. tcp_calls C (cs @ ds) (new_TCP_Reassembler C ty orig stats overhead) = Ret R'
    \<and> stream_of (tx_out (r_ext R')) = stream_of (tx_out (r_ext R))"
proof -
  from tcp_calls_ok [OF new_tcp_inv assms(2), of C C ty orig stats overhead] assms(1)
  have "tcp_inv (arrived cs) R" by simp
  moreover have "stalled R" using assms(3-5) unfolding stalled_def by (auto simp: seq_off_def)
  ultimately show ?thesis using data_calls_stalled [of "arrived cs" R ds C] assms(1,6) by (simp add: tcp_calls_append)
qed

abbreviation demo_stall where "demo_stall \<equiv> [(demo_env, CallData 5 [15, 16, 17, 18]), (demo_env, CallAck 7)]"

lemma demo_stall_runs:
  "\<exists>R. tcp_calls demo_conf demo_stall demo_new = Ret R \<and> last_reassem_seq R = 7
     \<and> (\<exists>b \<in> set (blocks R). seq b = 5 \<and> upper b = 9)"
  by (simp add: tcp_eval cong: run_bind_weak)

lemma stalled_delivers_nothing_witness:
  "\<exists>R R'. tcp_calls demo_conf demo_stall demo_new = Ret R
     \<and> tcp_calls demo_conf (demo_stall @ [(demo_env, CallData 9 [19]), (demo_env, CallData 10 [20, 21])]) demo_new = Ret R'
     \<and> stream_of (tx_out (r_ext R')) = stream_of (tx_out (r_ext R))"
proof -
  obtain R b where R: "tcp_calls demo_conf demo_stall demo_new = Ret R" "last_reassem_seq R = 7"
    "b \<in> set (blocks R)" "seq b = 5" "upper b = 9" using demo_stall_runs by blast
  moreover have "\<forall>c \<in> set demo_stall. in_window c" by (simp add: in_window_def ack_target_def)
  moreover have "\<forall>d \<in> set [(demo_env, CallData 9 [19]), (demo_env, CallData 10 [20, 21])]. in_window d \<and> is_data d"
    by (simp add: in_window_def is_data_def)
  ultimately show ?thesis
    using stalled_delivers_nothing [of demo_conf demo_stall Direct True demo_stats 48 R b
        "[(demo_env, CallData 9 [19]), (demo_env, CallData 10 [20, 21])]"] by simp
qed

section \<open>Archives\<close>

lemma bitfields_read:
  "drop_bit 0 (tcp_bitfields x) AND 1 = 1 \<longleftrightarrow> deliver_tcp_contents x" "drop_bit 1 (tcp_bitfields x) AND 1 = 1 \<longleftrightarrow> had_gap x"
  "drop_bit 2 (tcp_bitfields x) AND 1 = 1 \<longleftrightarrow> did_EOF x" "drop_bit 3 (tcp_bitfields x) AND 1 = 1 \<longleftrightarrow> skip_deliveries x"
  by (cases "deliver_tcp_contents x"; cases "had_gap x"; cases "did_EOF x"; cases "skip_deliveries x"; simp add: tcp_bitfields_def)+

lemma save_block_ok:
  assumes "block_ok base b"
  shows "\<exists>s. save_block b = Ret s \<and> load_block s = b"
proof -
  have "seq_delta (upper b) (seq b) = int (seq_off base (upper b)) - int (seq_off base (seq b))"
    using block_bounds [OF assms] by (intro seq_delta_off) simp_all
  then have "sint (upper b - seq b) > 0" using block_bounds [OF assms] by (simp add: seq_delta_def)
  then show ?thesis using block_bytes_ok [OF assms] by (simp add: save_block_def load_block_def)
qed

lemma save_blocks_ok: "\<forall>b \<in> set bs. block_ok base b \<Longrightarrow> \<exists>ss. save_blocks bs = Ret ss \<and> List.map load_block ss = bs"
proof (induction bs)
  case (Cons b bs)
  then obtain s ss where "save_block b = Ret s" "load_block s = b" "save_blocks bs = Ret ss" "List.map load_block ss = bs"
    using save_block_ok [of base b] by auto
  then show ?case by simp
qed simp

text \<open>C29. Moving a stream whose analyzers can be archived: what is written of a reassembler's blocks, positions and flags is what is read back, every
  block with all of its bytes, whatever the buffered data is.  Two things do not travel: whether a contents file is
  being recorded, which is off after a move, and the account of the memory the blocks take, which the receiver keeps
  at whatever it was.\<close>

theorem tcp_archive_roundtrip:
  assumes "reasm_ok base R" "sdmbn_can_serialize dst_tag" "sdmbn_can_serialize tcp_tag"
  shows "\<exists>s. tcp_save (Some dst_tag) (Some tcp_tag) R = Ret s \<and> tcp_load total_sz addr overhead stats out s =
    R\<lparr>total_size := total_sz, next_addr := addr, block_overhead := overhead,
      r_ext := (r_ext R)\<lparr>recording := False, tx_stats := stats, tx_out := out\<rparr>\<rparr>"
proof -
  have "\<forall>b \<in> set (blocks R). block_ok base b" using assms by (simp add: reasm_ok_def chain_ok_def)
  from save_blocks_ok [OF this] obtain ss where ss: "save_blocks (blocks R) = Ret ss" "List.map load_block ss = blocks R" by blast
  with bitfields_read [of "r_ext R"] assms(2,3) show ?thesis
    by (cases R; cases "r_ext R") (simp add: tcp_save_def tcp_load_def)
qed

lemma tcp_archive_roundtrip_witness:
  "\<exists>s. tcp_save (Some Tag_HTTP) (Some Tag_TCP) demo_new = Ret s \<and> tcp_load 5 1 48 demo_stats [] s = demo_new\<lparr>total_size := 5, next_addr := 1, block_overhead := 48,
      r_ext := (r_ext demo_new)\<lparr>recording := False, tx_stats := demo_stats, tx_out := []\<rparr>\<rparr>"
  using tcp_archive_roundtrip [of 0 demo_new Tag_HTTP Tag_TCP 5 1 48 demo_stats "[]"] new_tcp_inv [of demo_conf Direct True demo_stats 48]
  by (simp add: tcp_inv_def inv_at_def sdmbn_can_serialize_def)

section \<open>Counting bytes across wraps\<close>










section \<open>Rules and contents files\<close>

text \<open>The rules see nothing undelivered: whatever \<open>MatchUndelivered\<close> passes to the rule matcher is a block that
  lies entirely below \<open>last_reassem_seq\<close>, which was handed out before.  The loop that is meant to skip those blocks
  matches them instead.\<close>

theorem rules_get_no_undelivered:
  assumes "reasm_ok 0 R" "unat (last_reassem_seq R) < 2 ^ 31"
  shows "\<exists>ds. MatchUndelivered C up_to R = Ret (R\<lparr>r_ext := (r_ext R)\<lparr>tx_out := tx_out (r_ext R) @ List.map RuleMatch ds\<rparr>\<rparr>)
    \<and> (\<forall>d \<in> set ds. \<exists>b \<in> set (blocks R). d = block b \<and> unat (upper b) \<le> unat (last_reassem_seq R))"
proof -
  let ?bs = "takeWhile (\<lambda>b. seq_delta (upper b) (last_reassem_seq R) \<le> 0) (blocks R)"
  have ok: "\<forall>b \<in> set (blocks R). block_ok 0 b" using assms(1) by (simp add: reasm_ok_def chain_ok_def)
  have run: "match_blocks (blocks R) R = Ret (put (List.map RuleMatch (List.map block ?bs)) R)"
    using match_blocks_ok [OF ok] by (simp add: comp_def)
  have "\<exists>b' \<in> set (blocks R). block b = block b' \<and> unat (upper b') \<le> unat (last_reassem_seq R)" if "b \<in> set ?bs" for b
  proof -
    have b: "b \<in> set (blocks R)" "seq_delta (upper b) (last_reassem_seq R) \<le> 0" using set_takeWhileD [OF that] by simp_all
    then have "block_ok 0 b" using ok by blast
    then have "seq_delta (upper b) (last_reassem_seq R) = int (pos (upper b)) - int (pos (last_reassem_seq R))"
      using block_bounds [of 0 b] assms(2) by (intro seq_delta_off) (simp_all add: seq_off_def)
    then have "pos (upper b) \<le> pos (last_reassem_seq R)" using b(2) by linarith
    with b show ?thesis by (intro bexI [of _ b]) (simp_all add: seq_off_def)
  qed
  then have held: "\<forall>d \<in> set (List.map block ?bs). \<exists>b \<in> set (blocks R). d = block b \<and> unat (upper b) \<le> unat (last_reassem_seq R)"
    by auto
  have "MatchUndelivered C up_to R = Ret R \<or> MatchUndelivered C up_to R = match_blocks (blocks R) R"
    using last_upper_ok [OF assms(1)] by (auto simp: MatchUndelivered_def Let_def)
  then show ?thesis
  proof (elim disjE)
    assume "MatchUndelivered C up_to R = Ret R"
    then show ?thesis by (intro exI [of _ "[]"]) simp
  next
    assume "MatchUndelivered C up_to R = match_blocks (blocks R) R"
    with run show ?thesis using held by (intro exI [of _ "List.map block ?bs"]) (simp only: put_def simp_thms)
  qed
qed

lemma rules_get_no_undelivered_witness:
  "\<exists>R ds. tcp_calls demo_conf [(demo_env, CallData 5 [15, 16, 17, 18])] demo_new = Ret R
    \<and> MatchUndelivered demo_conf (-1) R = Ret (R\<lparr>r_ext := (r_ext R)\<lparr>tx_out := tx_out (r_ext R) @ List.map RuleMatch ds\<rparr>\<rparr>)"
proof -
  have "\<forall>c \<in> set [(demo_env, CallData 5 [15, 16, 17, 18])]. in_window c" by (simp add: in_window_def)
  from tcp_calls_ok [OF new_tcp_inv this, of demo_conf demo_conf Direct True demo_stats 48] obtain R where
    R: "tcp_calls demo_conf [(demo_env, CallData 5 [15, 16, 17, 18])] demo_new = Ret R"
      "tcp_inv (arrived [(demo_env, CallData 5 [15, 16, 17, 18])] ++ Map.empty) R" by blast
  then have "reasm_ok 0 R" "unat (last_reassem_seq R) < 2 ^ 31" by (simp_all add: tcp_inv_def inv_at_def seq_off_def)
  from rules_get_no_undelivered [OF this, of demo_conf "-1"] R(1) show ?thesis by blast
qed

text \<open>A truncated packet: when an endpoint that has a contents file but no reassembler gets a packet of which
  fewer bytes were captured than it had, all of \<open>len\<close> is written to the file, and bytes beyond the captured ones are
  read.\<close>

theorem truncated_packet_overread:
  assumes "0 < length data" "int (length data) < len" "contents_file (endp env) = Some out"
    and "sint (contents_start_seq (endp env) - sq) \<le> 0" "sint (sq + word_of_int len) > sint (contents_start_seq (endp env))"
  shows "endpoint_DataSent C env sq len (int (length data)) data None = Undef"
  using assms by (simp add: endpoint_DataSent_def Let_def zless_nat_eq_int_zless)

lemma truncated_packet_overread_witness:
  "endpoint_DataSent demo_conf (demo_env\<lparr>endp := demo_endpoint\<lparr>contents_file := Some []\<rparr>\<rparr>) 1 4 3 [10, 11, 12] None = Undef"
  using truncated_packet_overread [of "[10, 11, 12]" 4 "demo_env\<lparr>endp := demo_endpoint\<lparr>contents_file := Some []\<rparr>\<rparr>" "[]" 1 demo_conf]
  by simp

end
