(* ===== verification/Bro_TcpState.thy ===== *)
theory Bro_TcpState
  imports Complex_Main Bro_Tcp
begin

text \<open>
  Bro's analyzer of TCP connections, \<^verbatim>\<open>bro-2.1/src/TCP.cc\<close> and \<^verbatim>\<open>TCP.h\<close>: the state machine of the two endpoints,
  which drives the reassemblers of \<open>Bro_Tcp\<close> and whose state OpenNF moves with a connection.  The endpoints live at the
  two addresses \<open>True\<close> and \<open>False\<close>; \<open>orig_at\<close> is the address of the originator, which changes when the roles flip.
  What leaves the analyzer is the list \<open>an_out\<close>, in order: events, reports of weird behaviour, timers, calls of child
  analyzers, and the outputs of the reassemblers.  Times are real numbers.  Child analyzers do not call back.
\<close>

section \<open>State\<close>

record tcp_end = TCP_Endpoint +
  prev_state :: EndpointState
  window :: u32
  window_scale :: int
  window_ack_seq :: u32
  window_seq :: u32
  did_close :: bool
  ep_is_orig :: bool
  hist_last_SYN :: u32
  hist_last_FIN :: u32
  hist_last_RST :: u32
  start_time :: real
  last_time :: real
  proc :: "tcp option"

datatype tcp_timer = AttemptTimer | PartialCloseTimer | ExpireTimer | ResetTimer | DeleteTimer | ConnDeleteTimer

datatype an_output =
    Event string
  | WeirdOut string
  | FromReassembler bool tcp_out
  | AddTimer tcp_timer real bool
  | SetInactivityTimeout real
  | StatusUpdateTimer
  | CancelTimers
  | RemoveConn
  | SynPacket bool int int bool
  | OsFingerprint
  | PacketContents bytes
  | TcpPacket bool string u32 u32 int bytes
  | TcpOption bool u8 u8
  | ConnectionEOF bool
  | ChildClosed bool bool
  | ChildFinished bool
  | ChildReset
  | ChildRST
  | ChildEOF bool
  | ChildPacket int bytes bool u32
  | ForwardPacket int bytes bool u32
  | FirstPacket bool

text \<open>
  The analyzer with the fields of its connection that it uses; \<open>first_orig\<close> and \<open>first_resp\<close> are the bits of
  \<open>first_packet_seen\<close>, \<open>an_stats\<close> the counters of the reassemblers, which are globals.
\<close>

record tcp_an =
  ends :: "bool \<Rightarrow> tcp_end"
  orig_at :: bool
  first_orig :: bool
  first_resp :: bool
  reassembling :: bool
  an_is_partial :: bool
  is_active :: bool
  finished :: bool
  close_deferred :: bool
  deferred_gen_event :: bool
  seen_first_ACK :: bool
  an_skip :: bool
  packet_children :: bool
  an_stats :: gap_stats
  orig_addr :: bytes
  resp_addr :: bytes
  orig_port :: u32
  resp_port :: u32
  hist_seen :: u32
  history :: string
  did_weird :: bool
  conn_last_time :: real
  current_content :: bool
  current_packet :: bool
  an_out :: "an_output list"

text \<open>Script variables: which events have handlers, and the intervals and limits.\<close>

record tcp_an_conf =
  reasm_conf :: tcp_conf
  has_connection_attempt :: bool
  has_connection_reset :: bool
  has_connection_partial_close :: bool
  has_connection_pending :: bool
  has_connection_EOF :: bool
  has_connection_SYN_packet :: bool
  has_new_connection_contents :: bool
  has_tcp_packet :: bool
  has_tcp_option :: bool
  has_packet_contents :: bool
  wants_fingerprint :: "bytes \<Rightarrow> bool"
  status_updates :: bool
  ignore_checksums :: bool
  record_contents :: bool
  record_packets :: bool
  tcp_SYN_timeout :: real
  tcp_attempt_delay :: real
  tcp_reset_delay :: real
  tcp_close_delay :: real
  tcp_partial_close_delay :: real
  tcp_session_timer :: real
  tcp_connection_linger :: real
  tcp_inactivity_timeout :: real
  tcp_storm_interarrival_thresh :: real
  tcp_storm_thresh :: int

text \<open>
  A packet: its time, its direction, the captured bytes from the TCP header on and its length on the wire; then the
  verdict on its checksum, what the fingerprint library finds, and what the reassemblers see at the time.
\<close>

record tcp_pkt =
  pkt_time :: real
  pkt_orig :: bool
  pkt_data :: bytes
  pkt_len :: int
  checksum_ok :: bool
  os_found :: bool
  due_report :: bool
  file_ok :: bool

definition put_out :: "an_output list \<Rightarrow> tcp_an \<Rightarrow> tcp_an" where
  "put_out es s = s\<lparr>an_out := an_out s @ es\<rparr>"

definition upd_end :: "bool \<Rightarrow> (tcp_end \<Rightarrow> tcp_end) \<Rightarrow> tcp_an \<Rightarrow> tcp_an" where
  "upd_end a f s = s\<lparr>ends := (ends s)(a := f (ends s a))\<rparr>"

definition Weird :: "string \<Rightarrow> tcp_an \<Rightarrow> tcp_an" where
  "Weird name s = put_out [WeirdOut name] (s\<lparr>did_weird := True\<rparr>)"

definition weird_if :: "bool \<Rightarrow> string \<Rightarrow> tcp_an \<Rightarrow> tcp_an" where
  "weird_if c name s = (if c then Weird name s else s)"

definition new_tcp_end :: "bool \<Rightarrow> tcp_end" where
  "new_tcp_end is_orig =
     \<lparr>ep_state = TCP_ENDPOINT_INACTIVE, start_seq = 0, last_seq = 0, ack_seq = 0, last_seq_high = 0, ack_seq_high = 0,
      FIN_seq = 0, FIN_cnt = 0, RST_cnt = 0, done_something = False, contents_start_seq = 0, contents_file = None,
      prev_state = TCP_ENDPOINT_INACTIVE, window = 0, window_scale = 0, window_ack_seq = 0, window_seq = 0,
      did_close = False, ep_is_orig = is_orig, hist_last_SYN = 0, hist_last_FIN = 0, hist_last_RST = 0,
      start_time = 0, last_time = 0, proc = None\<rparr>"

text \<open>The analyzer of a new connection between these addresses and ports.\<close>

definition new_TCP_Analyzer ::
  "tcp_an_conf \<Rightarrow> real \<Rightarrow> bool \<Rightarrow> gap_stats \<Rightarrow> bytes \<Rightarrow> bytes \<Rightarrow> u32 \<Rightarrow> u32 \<Rightarrow> tcp_an" where
  "new_TCP_Analyzer C now children stats oaddr raddr oport rport =
     \<lparr>ends = (\<lambda>a. new_tcp_end a), orig_at = True, first_orig = False, first_resp = False, reassembling = False,
      an_is_partial = False, is_active = True, finished = False, close_deferred = False, deferred_gen_event = False,
      seen_first_ACK = False, an_skip = False, packet_children = children, an_stats = stats, orig_addr = oaddr,
      resp_addr = raddr, orig_port = oport, resp_port = rport, hist_seen = 0, history = '''', did_weird = False,
      conn_last_time = now, current_content = False, current_packet = False,
      an_out = [AddTimer ExpireTimer (now + tcp_SYN_timeout C) False]\<rparr>"

definition IsClosed :: "tcp_an \<Rightarrow> bool" where
  "IsClosed s \<longleftrightarrow> did_close (ends s (orig_at s)) \<or> did_close (ends s (\<not> orig_at s))"

definition BothClosed :: "tcp_an \<Rightarrow> bool" where
  "BothClosed s \<longleftrightarrow> did_close (ends s (orig_at s)) \<and> did_close (ends s (\<not> orig_at s))"

section \<open>Flags\<close>

definition TH_FIN :: u8 where "TH_FIN = 1"
definition TH_SYN :: u8 where "TH_SYN = 2"
definition TH_RST :: u8 where "TH_RST = 4"
definition TH_PUSH :: u8 where "TH_PUSH = 8"
definition TH_ACK :: u8 where "TH_ACK = 16"
definition TH_URG :: u8 where "TH_URG = 32"

abbreviation SYN :: "u8 \<Rightarrow> bool" where "SYN fl \<equiv> flag_set fl TH_SYN"
abbreviation FIN :: "u8 \<Rightarrow> bool" where "FIN fl \<equiv> flag_set fl TH_FIN"
abbreviation RST :: "u8 \<Rightarrow> bool" where "RST fl \<equiv> flag_set fl TH_RST"
abbreviation ACK :: "u8 \<Rightarrow> bool" where "ACK fl \<equiv> flag_set fl TH_ACK"
abbreviation URG :: "u8 \<Rightarrow> bool" where "URG fl \<equiv> flag_set fl TH_URG"
abbreviation PUSH :: "u8 \<Rightarrow> bool" where "PUSH fl \<equiv> flag_set fl TH_PUSH"

section \<open>Endpoints\<close>

definition is_handshake :: "EndpointState \<Rightarrow> bool" where
  "is_handshake st \<longleftrightarrow> st = TCP_ENDPOINT_INACTIVE \<or> st = TCP_ENDPOINT_SYN_SENT \<or> st = TCP_ENDPOINT_SYN_ACK_SENT"

definition IsActive :: "tcp_end \<Rightarrow> bool" where
  "IsActive e \<longleftrightarrow> ep_state e \<noteq> TCP_ENDPOINT_INACTIVE \<and> \<not> did_close e"

text \<open>The statistics of all connections' states, which \<open>SetState\<close> also updates, are left out.\<close>

definition SetState :: "tcp_an_conf \<Rightarrow> bool \<Rightarrow> EndpointState \<Rightarrow> tcp_an \<Rightarrow> tcp_an" where
  "SetState C a new_state s =
     (let e = ends s a in
      if new_state = ep_state e then s
      else
        let s = (if \<not> is_handshake new_state \<and> is_handshake (ep_state e) \<and> is_handshake (ep_state (ends s (\<not> a)))
                 then put_out [SetInactivityTimeout (tcp_inactivity_timeout C)] s else s)
        in upd_end a (\<lambda>e. e\<lparr>prev_state := ep_state e, ep_state := new_state\<rparr>) s)"

text \<open>\<open>Connection::AddHistory\<close> and \<open>CheckHistory\<close>, called through the endpoint; responders use small letters.\<close>

definition lower_code :: "bool \<Rightarrow> char \<Rightarrow> char" where
  "lower_code is_orig c = (if is_orig then c else char_of (of_char c + 32 :: nat))"

definition AddHistory :: "bool \<Rightarrow> char \<Rightarrow> tcp_an \<Rightarrow> tcp_an" where
  "AddHistory a code s = s\<lparr>history := history s @ [lower_code (ep_is_orig (ends s a)) code]\<rparr>"

definition CheckHistory :: "bool \<Rightarrow> u32 \<Rightarrow> char \<Rightarrow> tcp_an \<Rightarrow> bool \<times> tcp_an" where
  "CheckHistory a m code s =
     (let m = (if ep_is_orig (ends s a) then m else push_bit 16 m) in
      if hist_seen s AND m = 0 then (False, AddHistory a code (s\<lparr>hist_seen := hist_seen s OR m\<rparr>))
      else (True, s))"

section \<open>The header\<close>

text \<open>The fields of the header; reading beyond the captured bytes is undefined.\<close>

definition th_seq :: "bytes \<Rightarrow> u32" where "th_seq d = be32 (d ! 4) (d ! 5) (d ! 6) (d ! 7)"
definition th_ack :: "bytes \<Rightarrow> u32" where "th_ack d = be32 (d ! 8) (d ! 9) (d ! 10) (d ! 11)"
definition th_off :: "bytes \<Rightarrow> nat" where "th_off d = unat (drop_bit 4 (d ! 12))"
definition th_flags :: "bytes \<Rightarrow> u8" where "th_flags d = d ! 13"
definition th_win :: "bytes \<Rightarrow> u16" where "th_win d = be16 (d ! 14) (d ! 15)"

text \<open>The length of the header, when it is acceptable.\<close>

definition ExtractTCP_Header :: "tcp_pkt \<Rightarrow> tcp_an \<Rightarrow> (int option \<times> tcp_an) run" where
  "ExtractTCP_Header p s =
     (if length (pkt_data p) < 13 then Undef
      else
        let tcp_hdr_len = int (th_off (pkt_data p)) * 4 in
        if tcp_hdr_len < 20 then Ret (None, Weird ''bad_TCP_header_len'' s)
        else if tcp_hdr_len > pkt_len p \<or> length (pkt_data p) < 20 then Ret (None, Weird ''truncated_header'' s)
        else Ret (Some tcp_hdr_len, s))"

text \<open>Bro's own constants of the history.\<close>

definition HIST_SYN_PKT :: u32 where "HIST_SYN_PKT = 1"
definition HIST_FIN_PKT :: u32 where "HIST_FIN_PKT = 2"
definition HIST_RST_PKT :: u32 where "HIST_RST_PKT = 4"
definition HIST_FIN_RST_PKT :: u32 where "HIST_FIN_RST_PKT = 8"
definition HIST_DATA_PKT :: u32 where "HIST_DATA_PKT = 16"
definition HIST_ACK_PKT :: u32 where "HIST_ACK_PKT = 32"
definition HIST_MULTI_FLAG_PKT :: u32 where "HIST_MULTI_FLAG_PKT = 64"
definition HIST_CORRUPT_PKT :: u32 where "HIST_CORRUPT_PKT = 128"

definition ValidateChecksum :: "tcp_an_conf \<Rightarrow> tcp_pkt \<Rightarrow> bool \<Rightarrow> int \<Rightarrow> int \<Rightarrow> tcp_an \<Rightarrow> bool \<times> tcp_an" where
  "ValidateChecksum C p a len caplen s =
     (if \<not> ignore_checksums C \<and> caplen \<ge> len \<and> \<not> checksum_ok p
      then (False, snd (CheckHistory a HIST_CORRUPT_PKT CHR ''C'' (Weird ''bad_TCP_checksum'' s)))
      else (True, s))"

text \<open>A control packet in the history: again when the sequence number differs from the last one.\<close>

definition control_history :: "bool \<Rightarrow> u32 \<Rightarrow> char \<Rightarrow> bool \<Rightarrow> tcp_an \<Rightarrow> tcp_an" where
  "control_history a m code differs s =
     (case CheckHistory a m code s of (seen, s) \<Rightarrow> if seen \<and> differs then AddHistory a code s else s)"

definition CheckFlagCombos :: "u8 \<Rightarrow> bool \<Rightarrow> u32 \<Rightarrow> int \<Rightarrow> tcp_an \<Rightarrow> tcp_an" where
  "CheckFlagCombos fl a base_seq len s =
     (let e = ends s a;
          is_orig = ep_is_orig e;
          s = (if is_orig \<and> \<not> first_orig s then s\<lparr>an_is_partial := \<not> SYN fl \<or> ACK fl\<rparr> else s);
          s = (if \<not> is_orig \<and> \<not> first_resp s \<and> \<not> an_is_partial s then s\<lparr>an_is_partial := \<not> SYN fl\<rparr> else s);
          bits_set = (of_bool (SYN fl) + of_bool (FIN fl) + of_bool (RST fl) :: nat)
      in if bits_set > 1 then
           snd (if FIN fl \<and> RST fl then CheckHistory a HIST_FIN_RST_PKT CHR ''I'' s
                else CheckHistory a HIST_MULTI_FLAG_PKT CHR ''Q'' s)
         else if bits_set = 1 then
           let s = (if SYN fl
                    then upd_end a (\<lambda>e. e\<lparr>hist_last_SYN := base_seq\<rparr>)
                      (control_history a HIST_SYN_PKT (if ACK fl then CHR ''H'' else CHR ''S'') (base_seq \<noteq> hist_last_SYN e) s)
                    else s);
               fin_seq = base_seq + word_of_int len;
               s = (if FIN fl
                    then upd_end a (\<lambda>e. e\<lparr>hist_last_FIN := fin_seq\<rparr>)
                      (control_history a HIST_FIN_PKT CHR ''F'' (fin_seq \<noteq> hist_last_FIN e) s)
                    else s)
           in if RST fl
              then upd_end a (\<lambda>e. e\<lparr>hist_last_RST := base_seq\<rparr>)
                (control_history a HIST_RST_PKT CHR ''R'' (base_seq \<noteq> hist_last_RST e) s)
              else s
         else if len \<noteq> 0 then snd (CheckHistory a HIST_DATA_PKT CHR ''D'' s)
         else if ACK fl then snd (CheckHistory a HIST_ACK_PKT CHR ''A'' s)
         else s)"

text \<open>Shifts by a scale beyond the width are undefined, as is the negation of the least integer.\<close>

definition UpdateWindow :: "bool \<Rightarrow> u32 \<Rightarrow> u32 \<Rightarrow> u32 \<Rightarrow> u8 \<Rightarrow> tcp_an \<Rightarrow> tcp_an run" where
  "UpdateWindow a win base_seq acks fl s =
     (let e = ends s a; scale = window_scale e in
      if scale < 0 \<or> scale \<ge> 32 then Undef
      else
        let win = push_bit (nat scale) win in
        if \<not> SYN fl \<and> sint (base_seq - window_seq e) \<ge> 0 \<and> sint (acks - window_ack_seq e) \<ge> 0 then
          let new_edge = acks + win;
              old_edge = window_ack_seq e + window e;
              advance = sint (new_edge - old_edge);
              check = advance < 0 \<and> \<not> FIN fl \<and> \<not> RST fl
                \<and> ep_state e \<noteq> TCP_ENDPOINT_CLOSED \<and> ep_state e \<noteq> TCP_ENDPOINT_RESET
          in if check \<and> (advance = - (2 ^ 31) \<or> scale = 31) then Undef
             else Ret (upd_end a (\<lambda>e. e\<lparr>window := win, window_ack_seq := acks, window_seq := base_seq\<rparr>)
                    (weird_if (check \<and> - advance \<ge> 2 ^ nat scale) ''window_recision'' s))
        else Ret s)"

section \<open>Options\<close>

text \<open>
  The options of a SYN lie between \<open>i\<close> and the end \<open>e\<close> of the header, which need not have been captured.  The results
  are the window scale, the segment size and whether selective acknowledgements are permitted.
\<close>

function syn_options :: "bytes \<Rightarrow> nat \<Rightarrow> nat \<Rightarrow> int \<times> int \<times> bool \<Rightarrow> (int \<times> int \<times> bool) run" where
  "syn_options d e i (winscale, MSS, SACK) =
     (if i \<ge> e then Ret (winscale, MSS, SACK)
      else if i \<ge> length d then Undef
      else if d ! i = 0 then Ret (winscale, MSS, SACK)
      else if d ! i = 1 then syn_options d e (i + 1) (winscale, MSS, SACK)
      else if i + 1 \<ge> e then Ret (winscale, MSS, SACK)
      else if i + 1 \<ge> length d then Undef
      else
        let opt_len = unat (d ! (i + 1)) in
        if i + opt_len > e \<or> opt_len = 0 then Ret (winscale, MSS, SACK)
        else if d ! i = 4 then syn_options d e (i + opt_len) (winscale, MSS, True)
        else if d ! i = 2 \<and> opt_len \<ge> 4 then
          (if i + 3 \<ge> length d then Undef
           else syn_options d e (i + opt_len) (winscale, int (unat (be16 (d ! (i + 2)) (d ! (i + 3)))), SACK))
        else if d ! i = 3 \<and> opt_len \<ge> 3 then
          (if i + 2 \<ge> length d then Undef
           else syn_options d e (i + opt_len) (int (unat (d ! (i + 2))), MSS, SACK))
        else syn_options d e (i + opt_len) (winscale, MSS, SACK))"
  by pat_completeness auto
termination
  by (relation "measure (\<lambda>(d, e, i, acc). e - i)") auto

definition BuildSYNPacketVal :: "tcp_pkt \<Rightarrow> (int \<times> int \<times> bool) run" where
  "BuildSYNPacketVal p = syn_options (pkt_data p) (th_off (pkt_data p) * 4) 20 (-1, 0, False)"

text \<open>The events of \<open>ParseTCPOptions\<close> with \<open>TCPOptionEvent\<close>.\<close>

function option_events :: "bool \<Rightarrow> bytes \<Rightarrow> nat \<Rightarrow> nat \<Rightarrow> an_output list run" where
  "option_events is_orig d e i =
     (if i \<ge> e then Ret []
      else if i \<ge> length d then Undef
      else if \<not> d ! i < 2 \<and> i + 1 \<ge> e then Ret []
      else if \<not> d ! i < 2 \<and> i + 1 \<ge> length d then Undef
      else
        let opt_len = (if d ! i < 2 then 1 else d ! (i + 1)) in
        if opt_len = 0 \<or> i + unat opt_len > e then Ret []
        else if d ! i = 0 then Ret [TcpOption is_orig (d ! i) opt_len]
        else run_bind (option_events is_orig d e (i + unat opt_len)) (\<lambda>es. Ret (TcpOption is_orig (d ! i) opt_len # es)))"
  by pat_completeness auto
termination
  by (relation "measure (\<lambda>(is_orig, d, e, i). e - i)") (auto simp: diff_less_mono2 unat_gt_0)

declare syn_options.simps [simp del] option_events.simps [simp del]

section \<open>The end of a connection\<close>

text \<open>What the reassembler of an endpoint sees.\<close>

definition env_of :: "tcp_pkt \<Rightarrow> bool \<Rightarrow> tcp_an \<Rightarrow> tcp_env" where
  "env_of p a s =
     \<lparr>endp = TCP_Endpoint.truncate (ends s a), peer = TCP_Endpoint.truncate (ends s (\<not> a)),
      peer_blocks = map_option blocks (proc (ends s (\<not> a))), is_partial = an_is_partial s, skipping = an_skip s,
      report_due = due_report p, write_ok = file_ok p\<rparr>"

definition ConnectionFinished :: "bool \<Rightarrow> tcp_an \<Rightarrow> tcp_an" where
  "ConnectionFinished half_finished s =
     (put_out [ChildFinished half_finished,
        Event (if half_finished then ''connection_half_finished'' else ''connection_finished'')] s)\<lparr>is_active := False\<rparr>"

definition ConnectionReset :: "tcp_an \<Rightarrow> tcp_an" where
  "ConnectionReset s = (put_out [Event ''connection_reset'', ChildReset] s)\<lparr>is_active := False\<rparr>"

definition an_DataPending :: "tcp_pkt \<Rightarrow> bool \<Rightarrow> tcp_an \<Rightarrow> bool" where
  "an_DataPending p a s \<longleftrightarrow>
     \<not> an_skip s \<and> (case proc (ends s a) of None \<Rightarrow> False | Some R \<Rightarrow> DataPending (env_of p a s) R)"

text \<open>The events and timers of a complete close, and the timers of one that is not complete.\<close>

definition close_completed :: "tcp_an_conf \<Rightarrow> bool \<Rightarrow> bool \<Rightarrow> tcp_an \<Rightarrow> tcp_an" where
  "close_completed C a gen_event s =
     (let no_peer = ep_state (ends s (\<not> a)) = TCP_ENDPOINT_INACTIVE;
          s = (if prev_state (ends s a) \<noteq> TCP_ENDPOINT_INACTIVE \<or> \<not> no_peer then
                 (let gen_event = (gen_event \<or> deferred_gen_event s);
                      s = s\<lparr>deferred_gen_event := False\<rparr>
                  in if gen_event then ConnectionFinished no_peer s else s)
               else s)
      in put_out [CancelTimers,
           if tcp_close_delay C \<noteq> 0 then AddTimer ConnDeleteTimer (conn_last_time s + tcp_close_delay C) False
           else AddTimer DeleteTimer (conn_last_time s) False] s)"

definition close_incomplete :: "tcp_an_conf \<Rightarrow> bool \<Rightarrow> tcp_an \<Rightarrow> tcp_an" where
  "close_incomplete C a s =
     (if prev_state (ends s a) = TCP_ENDPOINT_INACTIVE then
        (if has_connection_partial_close C
         then put_out [AddTimer PartialCloseTimer (conn_last_time s + tcp_partial_close_delay C) False] s else s)
      else put_out [AddTimer ExpireTimer (conn_last_time s + tcp_session_timer C) False] s)"

definition ConnectionClosed :: "tcp_an_conf \<Rightarrow> tcp_pkt \<Rightarrow> bool \<Rightarrow> bool \<Rightarrow> tcp_an \<Rightarrow> tcp_an" where
  "ConnectionClosed C p a gen_event s =
     (let s = put_out [ChildClosed a gen_event] s in
      if an_DataPending p a s
      then s\<lparr>close_deferred := True, deferred_gen_event := deferred_gen_event s \<or> gen_event\<rparr>
      else
        let s = s\<lparr>close_deferred := False\<rparr> in
        if did_close (ends s a) then s
        else
          let s = upd_end a (\<lambda>e. e\<lparr>did_close := True\<rparr>) s in
          if ep_state (ends s a) = TCP_ENDPOINT_RESET \<or> did_close (ends s (\<not> a))
             \<or> ep_state (ends s (\<not> a)) = TCP_ENDPOINT_INACTIVE
          then close_completed C a gen_event s
          else close_incomplete C a s)"

definition an_EndpointEOF :: "tcp_an_conf \<Rightarrow> tcp_pkt \<Rightarrow> bool \<Rightarrow> tcp_an \<Rightarrow> tcp_an" where
  "an_EndpointEOF C p a s =
     (let s = (if has_connection_EOF C then put_out [ConnectionEOF (ep_is_orig (ends s a))] s else s);
          s = put_out [ChildEOF (ep_is_orig (ends s a))] s
      in if close_deferred s then
           let s = weird_if (an_DataPending p a s \<and> BothClosed s) ''pending_data_when_closed'' s
           in (ConnectionClosed C p a (deferred_gen_event s) s)\<lparr>close_deferred := False\<rparr>
         else s)"

section \<open>The reassemblers\<close>

text \<open>A call of a reassembler: it sees the global counters, and what it reports comes out in order.\<close>

definition with_stats :: "tcp_an \<Rightarrow> tcp \<Rightarrow> tcp" where
  "with_stats s R = upd_ext (\<lambda>x. x\<lparr>tx_stats := an_stats s\<rparr>) R"

definition take_outputs :: "bool \<Rightarrow> tcp \<Rightarrow> tcp \<Rightarrow> tcp_an \<Rightarrow> tcp_an" where
  "take_outputs a R R' s =
     put_out (List.map (FromReassembler a) (drop (length (tx_out (r_ext R))) (tx_out (r_ext R'))))
       (upd_end a (\<lambda>e. e\<lparr>proc := Some R'\<rparr>) (s\<lparr>an_stats := tx_stats (r_ext R')\<rparr>))"

text \<open>When the reassembler finds the end of its stream, the last thing it does is to call \<open>EndpointEOF\<close>.\<close>

definition reasm_call ::
  "tcp_an_conf \<Rightarrow> tcp_pkt \<Rightarrow> bool \<Rightarrow> (tcp_env \<Rightarrow> tcp \<Rightarrow> tcp run) \<Rightarrow> tcp_an \<Rightarrow> tcp_an run" where
  "reasm_call C p a f s =
     (case proc (ends s a) of
        None \<Rightarrow> Ret s
      | Some R \<Rightarrow>
          run_bind (f (env_of p a s) (with_stats s R)) (\<lambda>R'.
            let s = take_outputs a R R' s
            in Ret (if did_EOF (r_ext R') \<and> \<not> did_EOF (r_ext R) then an_EndpointEOF C p a s else s)))"

definition DeliverData :: "tcp_an_conf \<Rightarrow> tcp_pkt \<Rightarrow> bool \<Rightarrow> u32 \<Rightarrow> int \<Rightarrow> bytes \<Rightarrow> u8 \<Rightarrow> tcp_an \<Rightarrow> (int \<times> tcp_an) run" where
  "DeliverData C p a base_seq len data fl s =
     (let e = ends s a;
          data_seq = base_seq - start_seq e + of_bool (SYN fl)
      in run_bind (endpoint_DataSent (reasm_conf C) (env_of p a s) data_seq len (int (length data)) data
             (map_option (with_stats s) (proc e))) (\<lambda>(need_contents, e', proc').
           let s = upd_end a (\<lambda>e. e\<lparr>contents_file := contents_file e'\<rparr>) s
           in Ret (need_contents, case (proc e, proc') of (Some R, Some R') \<Rightarrow> take_outputs a R R' s | _ \<Rightarrow> s)))"

section \<open>Control flags\<close>

definition ProcessSYN ::
  "tcp_an_conf \<Rightarrow> tcp_pkt \<Rightarrow> bool \<Rightarrow> int \<Rightarrow> u32 \<Rightarrow> u32 \<Rightarrow> u8 \<Rightarrow> tcp_an \<Rightarrow> (int \<times> tcp_an) run" where
  "ProcessSYN C p a seq_len base_seq acks fl s =
     (let s = weird_if (RST fl) ''TCP_christmas'' s;
          s = weird_if (URG fl) ''baroque_SYN'' s;
          s = weird_if (seq_len > 0) ''SYN_with_data'' s
      in run_bind (BuildSYNPacketVal p) (\<lambda>(scale, MSS, SACK).
           let s = (if scale < 0 then
                      upd_end a (\<lambda>e. e\<lparr>window_scale := 0\<rparr>)
                        (if ACK fl then upd_end (\<not> a) (\<lambda>e. e\<lparr>window_scale := 0\<rparr>) s else s)
                    else
                      upd_end (\<not> a) (\<lambda>e. e\<lparr>window_seq := acks, window_ack_seq := base_seq\<rparr>)
                        (upd_end a (\<lambda>e. e\<lparr>window_scale := scale, window_seq := base_seq, window_ack_seq := acks\<rparr>) s));
               s = (if has_connection_SYN_packet C then put_out [SynPacket (pkt_orig p) scale MSS SACK] s else s);
               s = (if pkt_orig p \<and> wants_fingerprint C (orig_addr s) \<and> os_found p then put_out [OsFingerprint] s else s)
           in Ret (seq_len + 1, s)))"

definition ProcessFIN :: "tcp_an_conf \<Rightarrow> real \<Rightarrow> bool \<Rightarrow> int \<Rightarrow> u32 \<Rightarrow> tcp_an \<Rightarrow> int \<times> tcp_an" where
  "ProcessFIN C t a seq_len base_seq s =
     (let e = ends s a;
          storm = FIN_cnt e \<noteq> 0 \<and> t < last_time e + tcp_storm_interarrival_thresh C;
          cnt = (if FIN_cnt e = 0 \<or> storm then FIN_cnt e + 1 else FIN_cnt e);
          s = weird_if (storm \<and> cnt = tcp_storm_thresh C) ''FIN_storm'' (upd_end a (\<lambda>e. e\<lparr>FIN_cnt := cnt\<rparr>) s);
          seq_len = (if FIN_cnt e = 0 then seq_len + 1 else seq_len)
      in (seq_len, upd_end a (\<lambda>e. e\<lparr>FIN_seq := base_seq - start_seq e + word_of_int seq_len\<rparr>) s))"

definition ProcessRST :: "tcp_an_conf \<Rightarrow> real \<Rightarrow> bool \<Rightarrow> int \<Rightarrow> int \<Rightarrow> tcp_an \<Rightarrow> int \<times> tcp_an" where
  "ProcessRST C t a len seq_len s =
     (let e = ends s a;
          storm = t < last_time e + tcp_storm_interarrival_thresh C;
          cnt = (if storm then RST_cnt e + 1 else RST_cnt e);
          s = (if storm \<and> cnt = tcp_storm_thresh C then Weird ''RST_storm'' (upd_end a (\<lambda>e. e\<lparr>RST_cnt := cnt\<rparr>) s)
               else upd_end a (\<lambda>e. e\<lparr>RST_cnt := (if cnt = 0 then 1 else cnt)\<rparr>) s)
      in (if len > 0 then 0 else seq_len, put_out [ChildRST] s))"

definition TOO_LARGE_SEQ_DELTA :: int where "TOO_LARGE_SEQ_DELTA = 1048576"

definition ProcessACK :: "tcp_an_conf \<Rightarrow> tcp_pkt \<Rightarrow> bool \<Rightarrow> u32 \<Rightarrow> u8 \<Rightarrow> tcp_an \<Rightarrow> tcp_an run" where
  "ProcessACK C p a acks fl s =
     (let e = ends s a; pe = ends s (\<not> a);
          s = (if pkt_orig p \<and> \<not> seen_first_ACK s
                  \<and> (ep_state e = TCP_ENDPOINT_ESTABLISHED \<or> ep_state e = TCP_ENDPOINT_SYN_SENT)
               then put_out [Event ''connection_first_ACK''] (s\<lparr>seen_first_ACK := True\<rparr>) else s);
          s = (if ep_state pe = TCP_ENDPOINT_INACTIVE then
                 upd_end (\<not> a) (\<lambda>e. e\<lparr>start_seq := acks - 1, ack_seq := acks - 1, last_seq := acks - 1\<rparr>)
                   (weird_if (\<not> SYN fl \<and> \<not> FIN fl \<and> \<not> RST fl
                       \<and> (ep_state e = TCP_ENDPOINT_SYN_SENT \<or> ep_state e = TCP_ENDPOINT_SYN_ACK_SENT
                           \<or> ep_state e = TCP_ENDPOINT_ESTABLISHED)
                       \<and> \<not> did_weird s) ''possible_split_routing'' s)
               else if \<not> RST fl then
                 (let delta_ack = seq_delta acks (ack_seq pe) in
                  if acks = 0 \<and> delta_ack > TOO_LARGE_SEQ_DELTA then s
                  else if delta_ack > 0 then upd_end (\<not> a) (UpdateAckSeq acks) s
                  else s)
               else s)
      in reasm_call C p (\<not> a) (\<lambda>env. tcp_AckReceived (reasm_conf C) env (acks - start_seq (ends s (\<not> a)))) s)"

text \<open>The result is the length in sequence space.\<close>

definition ProcessFlags ::
  "tcp_an_conf \<Rightarrow> tcp_pkt \<Rightarrow> bool \<Rightarrow> int \<Rightarrow> u32 \<Rightarrow> u32 \<Rightarrow> u8 \<Rightarrow> tcp_an \<Rightarrow> (int \<times> tcp_an) run" where
  "ProcessFlags C p a len base_seq acks fl s =
     run_bind (if SYN fl then ProcessSYN C p a len base_seq acks fl s else Ret (len, s)) (\<lambda>(seq_len, s).
       let (seq_len, s) = (if FIN fl then ProcessFIN C (pkt_time p) a seq_len base_seq s else (seq_len, s));
           (seq_len, s) = (if RST fl then ProcessRST C (pkt_time p) a len seq_len s else (seq_len, s))
       in run_bind (if ACK fl then ProcessACK C p a acks fl s else Ret s) (\<lambda>s. Ret (seq_len, s)))"

definition TransitionFromInactive :: "real \<Rightarrow> bool \<Rightarrow> u32 \<Rightarrow> u32 \<Rightarrow> bool \<Rightarrow> tcp_an \<Rightarrow> tcp_an" where
  "TransitionFromInactive t a base_seq lst syn s =
     (let first = (if syn then base_seq else base_seq - 1)
      in upd_end a (\<lambda>e. e\<lparr>ack_seq := first, start_seq := first, last_seq := lst, start_time := t\<rparr>) s)"

definition an_UpdateLastSeq :: "bool \<Rightarrow> u32 \<Rightarrow> u8 \<Rightarrow> tcp_an \<Rightarrow> int \<times> tcp_an" where
  "an_UpdateLastSeq a lst fl s =
     (let e = ends s a; delta_last = seq_delta lst (last_seq e)
      in (delta_last,
          if (SYN fl \<or> RST fl) \<and> (delta_last > TOO_LARGE_SEQ_DELTA \<or> delta_last < - TOO_LARGE_SEQ_DELTA) then s
          else if FIN fl \<and> last_seq e = start_seq e + 1 then upd_end a (UpdateLastSeq lst) s
          else if ep_state e = TCP_ENDPOINT_RESET then s
          else if delta_last > 0 then upd_end a (UpdateLastSeq lst) s
          else s))"

section \<open>The state machine\<close>

text \<open>
  \<open>Connection::FlipRoles\<close> with the analyzer's own; the connection's packet marks and flow labels, and the flip of
  child analyzers, are left out.
\<close>

definition FlipRoles :: "tcp_an \<Rightarrow> tcp_an" where
  "FlipRoles s =
     (let tmp_addr = resp_addr s; s = s\<lparr>orig_addr := resp_addr s\<rparr>; s = s\<lparr>resp_addr := tmp_addr\<rparr>;
          tmp_port = resp_port s; s = s\<lparr>resp_port := orig_port s\<rparr>; s = s\<lparr>orig_port := tmp_port\<rparr>
      in s\<lparr>orig_at := \<not> orig_at s, ends := (\<lambda>a. (ends s a)\<lparr>ep_is_orig := \<not> ep_is_orig (ends s a)\<rparr>)\<rparr>)"

definition EnableStatusUpdateTimer :: "tcp_an_conf \<Rightarrow> tcp_an \<Rightarrow> tcp_an" where
  "EnableStatusUpdateTimer C s = (if status_updates C then put_out [StatusUpdateTimer] s else s)"

definition seq_between :: "u32 \<Rightarrow> u32 \<Rightarrow> u32 \<Rightarrow> bool" where
  "seq_between a b c \<longleftrightarrow> (if b \<le> c then a \<ge> b \<and> a \<le> c else a \<ge> b \<or> a \<le> c)"

text \<open>The first packet of a side, by its flags.\<close>

definition inactive_SYN :: "tcp_an_conf \<Rightarrow> tcp_pkt \<Rightarrow> bool \<Rightarrow> u32 \<Rightarrow> u32 \<Rightarrow> u8 \<Rightarrow> tcp_an \<Rightarrow> tcp_an" where
  "inactive_SYN C p a base_seq acks fl s =
     (if pkt_orig p then
        (let s = (if ACK fl then SetState C a TCP_ENDPOINT_SYN_ACK_SENT (Weird ''connection_originator_SYN_ack'' s)
                  else SetState C a TCP_ENDPOINT_SYN_SENT s)
         in if has_connection_attempt C then put_out [AddTimer AttemptTimer (pkt_time p + tcp_attempt_delay C) True] s else s)
      else
        let pe = ends s (\<not> a);
            s = (if ACK fl then
                   weird_if (ep_state pe \<noteq> TCP_ENDPOINT_INACTIVE \<and> ep_state pe \<noteq> TCP_ENDPOINT_PARTIAL
                       \<and> \<not> seq_between acks (start_seq pe) (last_seq pe)) ''bad_SYN_ack'' s
                 else if ep_state pe = TCP_ENDPOINT_SYN_ACK_SENT \<and> base_seq = start_seq (ends s a)
                 then SetState C (\<not> a) TCP_ENDPOINT_ESTABLISHED (FlipRoles s)
                 else Weird ''simultaneous_open'' s);
            s = (if ep_state (ends s (\<not> a)) = TCP_ENDPOINT_SYN_SENT then SetState C (\<not> a) TCP_ENDPOINT_ESTABLISHED s
                 else weird_if (ep_state (ends s (\<not> a)) = TCP_ENDPOINT_INACTIVE) ''unsolicited_SYN_response'' s);
            s = SetState C a TCP_ENDPOINT_ESTABLISHED s
        in if ep_state (ends s (\<not> a)) \<noteq> TCP_ENDPOINT_PARTIAL
           then EnableStatusUpdateTimer C (put_out [Event ''connection_established''] s) else s)"

definition inactive_RST :: "tcp_an_conf \<Rightarrow> tcp_pkt \<Rightarrow> bool \<Rightarrow> tcp_an \<Rightarrow> bool \<times> tcp_an" where
  "inactive_RST C p a s =
     (let s = SetState C a TCP_ENDPOINT_RESET s;
          pst = ep_state (ends s (\<not> a));
          is_reject = (if pkt_orig p then pst = TCP_ENDPOINT_ESTABLISHED
                       else pst = TCP_ENDPOINT_SYN_SENT \<or> pst = TCP_ENDPOINT_SYN_ACK_SENT)
      in (\<not> is_reject,
          if is_reject then put_out [Event ''connection_rejected''] s
          else weird_if (pst = TCP_ENDPOINT_INACTIVE) ''spontaneous_RST'' s))"

definition inactive_other :: "tcp_an_conf \<Rightarrow> tcp_pkt \<Rightarrow> bool \<Rightarrow> int \<Rightarrow> tcp_an \<Rightarrow> tcp_an" where
  "inactive_other C p a len s =
     (if ep_state (ends s a) \<noteq> TCP_ENDPOINT_INACTIVE then s
      else if \<not> pkt_orig p \<and> len = 0 \<and> ep_state (ends s (orig_at s)) = TCP_ENDPOINT_SYN_SENT then s
      else
        let s = EnableStatusUpdateTimer C (SetState C a TCP_ENDPOINT_PARTIAL s)
        in if ep_state (ends s (\<not> a)) = TCP_ENDPOINT_PARTIAL then put_out [Event ''partial_connection''] s else s)"

text \<open>The results of the next functions are \<open>do_close\<close>, \<open>gen_event\<close> and the state.\<close>

definition UpdateInactiveState ::
  "tcp_an_conf \<Rightarrow> tcp_pkt \<Rightarrow> bool \<Rightarrow> u32 \<Rightarrow> u32 \<Rightarrow> int \<Rightarrow> u8 \<Rightarrow> tcp_an \<Rightarrow> bool \<times> bool \<times> tcp_an" where
  "UpdateInactiveState C p a base_seq acks len fl s =
     (let s = (if SYN fl then inactive_SYN C p a base_seq acks fl s else s);
          s = (if FIN fl
               then (let s = SetState C a TCP_ENDPOINT_CLOSED s
                     in weird_if (ep_state (ends s (\<not> a)) \<noteq> TCP_ENDPOINT_PARTIAL \<and> \<not> SYN fl) ''spontaneous_FIN'' s)
               else s);
          (gen_event, s) = (if RST fl then inactive_RST C p a s else (FIN fl, s))
      in (FIN fl \<or> RST fl, gen_event, inactive_other C p a len s))"

definition restart_seq :: "u32 \<Rightarrow> u32 \<Rightarrow> tcp_end \<Rightarrow> tcp_end" where
  "restart_seq base_seq lst e = e\<lparr>start_seq := base_seq, ack_seq := base_seq, last_seq := lst\<rparr>"

definition UpdateSYN_SentState ::
  "tcp_an_conf \<Rightarrow> tcp_pkt \<Rightarrow> bool \<Rightarrow> u32 \<Rightarrow> u32 \<Rightarrow> int \<Rightarrow> u8 \<Rightarrow> tcp_an \<Rightarrow> bool \<times> bool \<times> tcp_an" where
  "UpdateSYN_SentState C p a base_seq lst len fl s =
     (let s = (if SYN fl then
                 (let st = ep_state (ends s a);
                      s = (if pkt_orig p
                           then weird_if (ACK fl \<and> \<not> FIN fl \<and> \<not> RST fl \<and> st \<noteq> TCP_ENDPOINT_SYN_ACK_SENT)
                             ''repeated_SYN_with_ack'' s
                           else weird_if (\<not> ACK fl \<and> st \<noteq> TCP_ENDPOINT_SYN_SENT) ''repeated_SYN_reply_wo_ack'' s)
                  in if base_seq \<noteq> start_seq (ends s a)
                     then upd_end a (restart_seq base_seq lst) (Weird ''SYN_seq_jump'' s) else s)
               else s);
          s = (if FIN fl then
                 (let pst = ep_state (ends s (\<not> a))
                  in SetState C a TCP_ENDPOINT_CLOSED
                       (weird_if (pst = TCP_ENDPOINT_INACTIVE \<or> pst = TCP_ENDPOINT_SYN_SENT) ''inappropriate_FIN'' s))
               else s);
          s = (if RST fl then ConnectionReset (SetState C a TCP_ENDPOINT_RESET s)
               else weird_if (len > 0) ''data_before_established'' s)
      in (FIN fl \<or> RST fl, FIN fl, s))"

definition UpdateEstablishedState ::
  "tcp_an_conf \<Rightarrow> bool \<Rightarrow> u32 \<Rightarrow> u32 \<Rightarrow> u8 \<Rightarrow> tcp_an \<Rightarrow> bool \<times> bool \<times> tcp_an" where
  "UpdateEstablishedState C a base_seq lst fl s =
     (let s = (if SYN fl then
                 (let s = (if ep_state (ends s a) = TCP_ENDPOINT_PARTIAL
                              \<and> ep_state (ends s (\<not> a)) = TCP_ENDPOINT_INACTIVE \<and> \<not> ACK fl
                           then SetState C a TCP_ENDPOINT_SYN_SENT (Weird ''SYN_after_partial'' s) else s);
                      s = weird_if (sint (endpoint_Size (ends s a)) > 0) ''SYN_inside_connection'' s;
                      s = weird_if (base_seq \<noteq> start_seq (ends s a)) ''SYN_seq_jump'' s
                  in upd_end a (restart_seq base_seq lst) s)
               else s);
          fin = FIN fl \<and> \<not> RST fl;
          s = (if fin then
                 (let s = SetState C a TCP_ENDPOINT_CLOSED s; pe = ends s (\<not> a)
                  in if ep_state pe = TCP_ENDPOINT_RESET \<and> prev_state pe = TCP_ENDPOINT_CLOSED
                     then SetState C (\<not> a) TCP_ENDPOINT_CLOSED s else s)
               else s);
          s = (if RST fl then
                 (let s = SetState C a TCP_ENDPOINT_RESET s; pe = ends s (\<not> a)
                  in if ep_state pe \<noteq> TCP_ENDPOINT_RESET \<or> prev_state pe \<noteq> TCP_ENDPOINT_ESTABLISHED
                     then ConnectionReset s else s)
               else s)
      in (fin \<or> RST fl, fin, s))"

definition UpdateClosedState :: "tcp_an_conf \<Rightarrow> real \<Rightarrow> bool \<Rightarrow> int \<Rightarrow> u8 \<Rightarrow> tcp_an \<Rightarrow> bool \<times> bool \<times> tcp_an" where
  "UpdateClosedState C t a delta_last fl s =
     (let s = weird_if (SYN fl) ''SYN_after_close'' s;
          s = weird_if (FIN fl \<and> delta_last > 0) ''FIN_advanced_last_seq'' s
      in if RST fl \<and> ep_state (ends s (\<not> a)) \<noteq> TCP_ENDPOINT_CLOSED then
           let s = SetState C a TCP_ENDPOINT_RESET s
           in (\<not> did_close (ends s a), False,
               if has_connection_reset C then put_out [AddTimer ResetTimer (t + tcp_reset_delay C) True] s else s)
         else (False, False, s))"

definition UpdateResetState :: "int \<Rightarrow> u8 \<Rightarrow> tcp_an \<Rightarrow> tcp_an" where
  "UpdateResetState len fl s =
     weird_if (len > 0 \<and> \<not> RST fl) ''data_after_reset''
       (weird_if (FIN fl) ''FIN_after_reset'' (weird_if (SYN fl) ''SYN_after_reset'' s))"

definition UpdateStateMachine ::
  "tcp_an_conf \<Rightarrow> tcp_pkt \<Rightarrow> bool \<Rightarrow> u32 \<Rightarrow> u32 \<Rightarrow> u32 \<Rightarrow> int \<Rightarrow> int \<Rightarrow> u8 \<Rightarrow> tcp_an \<Rightarrow> bool \<times> bool \<times> tcp_an" where
  "UpdateStateMachine C p a base_seq acks lst len delta_last fl s =
     (case ep_state (ends s a) of
        TCP_ENDPOINT_INACTIVE \<Rightarrow> UpdateInactiveState C p a base_seq acks len fl s
      | TCP_ENDPOINT_SYN_SENT \<Rightarrow> UpdateSYN_SentState C p a base_seq lst len fl s
      | TCP_ENDPOINT_SYN_ACK_SENT \<Rightarrow> UpdateSYN_SentState C p a base_seq lst len fl s
      | TCP_ENDPOINT_ESTABLISHED \<Rightarrow> UpdateEstablishedState C a base_seq lst fl s
      | TCP_ENDPOINT_PARTIAL \<Rightarrow> UpdateEstablishedState C a base_seq lst fl s
      | TCP_ENDPOINT_CLOSED \<Rightarrow> UpdateClosedState C (pkt_time p) a delta_last fl s
      | TCP_ENDPOINT_RESET \<Rightarrow> (False, False, UpdateResetState len fl s))"

section \<open>Packets\<close>

definition flag_text :: "u8 \<Rightarrow> string" where
  "flag_text fl =
     (if SYN fl then ''S'' else []) @ (if FIN fl then ''F'' else []) @ (if RST fl then ''R'' else [])
     @ (if ACK fl then ''A'' else []) @ (if PUSH fl then ''P'' else []) @ (if URG fl then ''U'' else [])"

text \<open>The payload is cut to the smaller of the two lengths, which is negative when options were not captured.\<close>

definition GeneratePacketEvent :: "bool \<Rightarrow> u32 \<Rightarrow> u32 \<Rightarrow> int \<Rightarrow> int \<Rightarrow> bytes \<Rightarrow> bool \<Rightarrow> u8 \<Rightarrow> tcp_an \<Rightarrow> tcp_an run" where
  "GeneratePacketEvent a base_seq acks len caplen data is_orig fl s =
     (if min caplen len < 0 then Undef
      else Ret (put_out [TcpPacket is_orig (flag_text fl) (base_seq - start_seq (ends s a))
                  (if ACK fl then acks - start_seq (ends s (\<not> a)) else 0) len (take (nat (min caplen len)) data)] s))"

definition CheckRecording :: "tcp_an_conf \<Rightarrow> int \<Rightarrow> u8 \<Rightarrow> tcp_an \<Rightarrow> tcp_an" where
  "CheckRecording C need_contents fl s =
     s\<lparr>current_content := need_contents \<noteq> 0 \<or> record_contents C,
       current_packet := record_packets C \<or> SYN fl \<or> FIN fl \<or> RST fl\<rparr>"

definition CheckPIA_FirstPacket :: "bool \<Rightarrow> tcp_an \<Rightarrow> tcp_an" where
  "CheckPIA_FirstPacket is_orig s =
     (let s = (if is_orig \<and> \<not> first_orig s then put_out [FirstPacket is_orig] (s\<lparr>first_orig := True\<rparr>) else s)
      in if \<not> is_orig \<and> \<not> first_resp s then put_out [FirstPacket is_orig] (s\<lparr>first_resp := True\<rparr>) else s)"

text \<open>What is told about a packet before its data is delivered.\<close>

definition packet_events ::
  "tcp_an_conf \<Rightarrow> tcp_pkt \<Rightarrow> bool \<Rightarrow> u32 \<Rightarrow> u32 \<Rightarrow> int \<Rightarrow> int \<Rightarrow> bytes \<Rightarrow> int \<Rightarrow> u8 \<Rightarrow> tcp_an \<Rightarrow> tcp_an run" where
  "packet_events C p a base_seq acks len caplen data hdr_len fl s =
     run_bind (if has_tcp_packet C then GeneratePacketEvent a base_seq acks len caplen data (pkt_orig p) fl s else Ret s) (\<lambda>s.
     run_bind (if has_tcp_option C \<and> hdr_len > 20 \<and> (word_of_int hdr_len :: u32) \<le> word_of_int caplen
               then option_events (pkt_orig p) (pkt_data p) (nat hdr_len) 20 else Ret []) (\<lambda>es. Ret (put_out es s)))"

text \<open>The data, the check for the end of the stream, and the close of the connection.\<close>

definition deliver_and_close ::
  "tcp_an_conf \<Rightarrow> tcp_pkt \<Rightarrow> bool \<Rightarrow> u32 \<Rightarrow> int \<Rightarrow> int \<Rightarrow> bytes \<Rightarrow> u8 \<Rightarrow> bool \<Rightarrow> bool \<Rightarrow> tcp_an \<Rightarrow> tcp_an run" where
  "deliver_and_close C p a base_seq len caplen data fl do_close gen_event s =
     run_bind (if len > 0 \<and> (caplen \<ge> len \<or> packet_children s) \<and> \<not> RST fl \<and> \<not> an_skip s
               then DeliverData C p a base_seq len data fl s else Ret (0, s)) (\<lambda>(need_contents, s).
     run_bind (reasm_call C p a (\<lambda>env R. Ret (CheckEOF env R)) s) (\<lambda>s.
       let s = (if do_close then ConnectionClosed C p a gen_event s else s);
           s = CheckRecording C need_contents fl s;
           rel = base_seq - start_seq (ends s a);
           s = (if packet_children s then put_out [ChildPacket len data (pkt_orig p) rel] s else s);
           s = (if \<not> reassembling s then put_out [ForwardPacket len data (pkt_orig p) rel] s else s)
       in Ret (CheckPIA_FirstPacket (pkt_orig p) s)))"

text \<open>The sequence numbers and the step of the state machine; \<open>seq_len\<close> is the length in sequence space.\<close>

definition advance_machine ::
  "tcp_an_conf \<Rightarrow> tcp_pkt \<Rightarrow> bool \<Rightarrow> int \<Rightarrow> u32 \<Rightarrow> u32 \<Rightarrow> u8 \<Rightarrow> int \<Rightarrow> tcp_an \<Rightarrow> bool \<times> bool \<times> tcp_an" where
  "advance_machine C p a len base_seq acks fl seq_len s =
     (let lst = base_seq + word_of_int seq_len;
          s = (if ep_state (ends s a) = TCP_ENDPOINT_INACTIVE
               then TransitionFromInactive (pkt_time p) a base_seq lst (SYN fl) s else s);
          (delta_last, s) = an_UpdateLastSeq a lst fl s;
          s = upd_end a (\<lambda>e. e\<lparr>last_time := pkt_time p, done_something := pkt_time p \<noteq> 0\<rparr>) s
      in UpdateStateMachine C p a base_seq acks lst len delta_last fl s)"

text \<open>A packet with a good checksum.\<close>

definition accept_packet :: "tcp_an_conf \<Rightarrow> tcp_pkt \<Rightarrow> bool \<Rightarrow> int \<Rightarrow> tcp_an \<Rightarrow> tcp_an run" where
  "accept_packet C p a hdr_len s =
     (let d = pkt_data p; len = pkt_len p - hdr_len; caplen = int (length d) - hdr_len; data = drop (nat hdr_len) d;
          fl = th_flags d; base_seq = th_seq d; acks = th_ack d
      in run_bind (UpdateWindow a (ucast (th_win d)) base_seq acks fl (CheckFlagCombos fl a base_seq len s)) (\<lambda>s.
           let s = (if \<not> BothClosed s then s\<lparr>conn_last_time := pkt_time p\<rparr> else s)
           in run_bind (ProcessFlags C p a len base_seq acks fl s) (\<lambda>(seq_len, s).
           let (do_close, gen_event, s) = advance_machine C p a len base_seq acks fl seq_len s
           in run_bind (packet_events C p a base_seq acks len caplen data hdr_len fl s)
                (deliver_and_close C p a base_seq len caplen data fl do_close gen_event))))"

text \<open>A packet whose header was accepted.\<close>

definition process_packet :: "tcp_an_conf \<Rightarrow> tcp_pkt \<Rightarrow> int \<Rightarrow> tcp_an \<Rightarrow> tcp_an run" where
  "process_packet C p hdr_len s =
     (let d = pkt_data p; len = pkt_len p - hdr_len; caplen = int (length d) - hdr_len; data = drop (nat hdr_len) d;
          s = (if has_packet_contents C \<and> min len caplen > 0
               then put_out [PacketContents (take (nat (min len caplen)) data)] s else s);
          a = (pkt_orig p \<longleftrightarrow> orig_at s);
          (valid, s) = ValidateChecksum C p a len caplen s
      in if valid then accept_packet C p a hdr_len s else Ret s)"

definition DeliverPacket :: "tcp_an_conf \<Rightarrow> tcp_pkt \<Rightarrow> tcp_an \<Rightarrow> tcp_an run" where
  "DeliverPacket C p s =
     run_bind (ExtractTCP_Header p s) (\<lambda>(h, s). case h of None \<Rightarrow> Ret s | Some hdr_len \<Rightarrow> process_packet C p hdr_len s)"

section \<open>Timers\<close>

definition an_AttemptTimer :: "tcp_an \<Rightarrow> tcp_an" where
  "an_AttemptTimer s =
     (let ost = ep_state (ends s (orig_at s))
      in if is_active s \<and> (ost = TCP_ENDPOINT_SYN_SENT \<or> ost = TCP_ENDPOINT_SYN_ACK_SENT)
            \<and> ep_state (ends s (\<not> orig_at s)) = TCP_ENDPOINT_INACTIVE
         then put_out [RemoveConn] ((put_out [Event ''connection_attempt''] s)\<lparr>is_active := False\<rparr>)
         else s)"

definition an_PartialCloseTimer :: "tcp_an \<Rightarrow> tcp_an" where
  "an_PartialCloseTimer s =
     (let ost = ep_state (ends s (orig_at s)); rst = ep_state (ends s (\<not> orig_at s))
      in if is_active s \<and> ost \<noteq> TCP_ENDPOINT_INACTIVE \<and> rst \<noteq> TCP_ENDPOINT_INACTIVE \<and> \<not> BothClosed s
            \<and> ost \<noteq> TCP_ENDPOINT_RESET \<and> rst \<noteq> TCP_ENDPOINT_RESET
         then put_out [Event ''connection_partial_close'', RemoveConn] s
         else s)"

definition an_timeout :: "tcp_an \<Rightarrow> tcp_an" where
  "an_timeout s = put_out [RemoveConn] ((put_out [Event ''connection_timeout''] s)\<lparr>is_active := False\<rparr>)"

definition an_ExpireTimer :: "tcp_an_conf \<Rightarrow> real \<Rightarrow> tcp_an \<Rightarrow> tcp_an" where
  "an_ExpireTimer C t s =
     (let oe = ends s (orig_at s); re = ends s (\<not> orig_at s);
          again = put_out [AddTimer ExpireTimer (t + tcp_session_timer C) False] s
      in if \<not> is_active s then s
         else if \<not> conn_last_time s + tcp_connection_linger C < t then again
         else if IsClosed s \<and> (BothClosed s
                \<or> ep_state oe = TCP_ENDPOINT_RESET \<or> ep_state re = TCP_ENDPOINT_RESET
                \<or> ep_state oe = TCP_ENDPOINT_INACTIVE \<or> ep_state re = TCP_ENDPOINT_INACTIVE)
         then an_timeout s
         else if ep_state re = TCP_ENDPOINT_INACTIVE then
           (if ep_state oe = TCP_ENDPOINT_SYN_SENT \<or> ep_state oe = TCP_ENDPOINT_SYN_ACK_SENT
            then if \<not> has_connection_attempt C then an_timeout s else again
            else if ep_state oe = TCP_ENDPOINT_INACTIVE
            then put_out [Event ''connection_timeout'', RemoveConn] s
            else again)
         else again)"

definition an_ResetTimer :: "tcp_an \<Rightarrow> tcp_an" where
  "an_ResetTimer s =
     (if \<not> is_active s then s else put_out [RemoveConn] (if BothClosed s then s else ConnectionReset s))"

definition an_DeleteTimer :: "tcp_an \<Rightarrow> tcp_an" where
  "an_DeleteTimer s = put_out [RemoveConn] s"

section \<open>The life of an analyzer\<close>

text \<open>A contents file; \<open>None\<close> is the null pointer, which \<open>Ref\<close> follows, and \<open>Some\<close> tells whether the file is open.\<close>

definition endpoint_SetContentsFile :: "tcp_an_conf \<Rightarrow> tcp_pkt \<Rightarrow> bool \<Rightarrow> bool option \<Rightarrow> tcp_an \<Rightarrow> tcp_an run" where
  "endpoint_SetContentsFile C p a f s =
     (case f of
        None \<Rightarrow> Undef
      | Some is_open \<Rightarrow>
          reasm_call C p a (\<lambda>env. tcp_SetContentsFile env is_open)
            (upd_end a (\<lambda>e. e\<lparr>contents_file := Some [],
               contents_start_seq := (if last_seq e = start_seq e then 1 else last_seq e - start_seq e)\<rparr>) s))"

definition an_SetContentsFile :: "tcp_an_conf \<Rightarrow> tcp_pkt \<Rightarrow> nat \<Rightarrow> bool option \<Rightarrow> tcp_an \<Rightarrow> tcp_an run" where
  "an_SetContentsFile C p direction f s =
     (if direction = 0 then
        run_bind (endpoint_SetContentsFile C p (orig_at s) None s) (\<lambda>s. endpoint_SetContentsFile C p (\<not> orig_at s) None s)
      else
        run_bind (if direction = 1 \<or> direction = 3 then endpoint_SetContentsFile C p (orig_at s) f s else Ret s) (\<lambda>s.
        if direction = 2 \<or> direction = 3 then endpoint_SetContentsFile C p (\<not> orig_at s) f s else Ret s))"

text \<open>A new reassembler for an endpoint, which takes over its contents file.\<close>

definition AddReassembler :: "tcp_an_conf \<Rightarrow> tcp_pkt \<Rightarrow> bool \<Rightarrow> tcp \<Rightarrow> tcp_an \<Rightarrow> tcp_an run" where
  "AddReassembler C p a R s =
     (let s = upd_end a (\<lambda>e. e\<lparr>proc := Some R\<rparr>) s
      in if contents_file (ends s a) = None then Ret s else reasm_call C p a (\<lambda>env. tcp_SetContentsFile env True) s)"

definition SetReassembler :: "tcp_an_conf \<Rightarrow> tcp_pkt \<Rightarrow> tcp \<Rightarrow> tcp \<Rightarrow> tcp_an \<Rightarrow> tcp_an run" where
  "SetReassembler C p rorig rresp s =
     run_bind (AddReassembler C p (orig_at s) rorig s) (\<lambda>s.
     run_bind (AddReassembler C p (\<not> orig_at s) rresp s) (\<lambda>s.
       let s = s\<lparr>reassembling := True\<rparr>
       in Ret (if has_new_connection_contents C then put_out [Event ''new_connection_contents''] s else s)))"

definition EnableReassembly :: "tcp_an_conf \<Rightarrow> tcp_pkt \<Rightarrow> nat \<Rightarrow> tcp_an \<Rightarrow> tcp_an run" where
  "EnableReassembly C p overhead s =
     run_bind (SetReassembler C p (new_TCP_Reassembler (reasm_conf C) Forward True (an_stats s) overhead)
         (new_TCP_Reassembler (reasm_conf C) Forward False (an_stats s) overhead) s) (\<lambda>s.
       let s = s\<lparr>reassembling := True\<rparr>
       in Ret (if has_new_connection_contents C then put_out [Event ''new_connection_contents''] s else s))"

definition an_Done :: "tcp_an_conf \<Rightarrow> tcp_pkt \<Rightarrow> tcp_an \<Rightarrow> tcp_an run" where
  "an_Done C p s =
     (let s = (if has_connection_pending C \<and> is_active s \<and> \<not> BothClosed s then put_out [Event ''connection_pending''] s else s)
      in run_bind (reasm_call C p (orig_at s) (tcp_Done (reasm_conf C)) s) (\<lambda>s.
         run_bind (reasm_call C p (\<not> orig_at s) (tcp_Done (reasm_conf C)) s) (\<lambda>s. Ret (s\<lparr>finished := True\<rparr>))))"

text \<open>
  A packet that hits an existing connection: is it the start of another one?  The results are the answer and the
  state, which changes by reports only.
\<close>

definition IsReuse :: "tcp_an_conf \<Rightarrow> real \<Rightarrow> bytes \<Rightarrow> tcp_an \<Rightarrow> (bool \<times> tcp_an) run" where
  "IsReuse C t pkt s =
     (if length pkt < 13 then Undef
      else if th_off pkt < 5 then Ret (False, s)
      else if length pkt < 14 then Undef
      else
        let fl = th_flags pkt; base_seq = th_seq pkt;
            o_at = (if ACK fl then \<not> orig_at s else orig_at s);
            oe = ends s (orig_at s); re = ends s (\<not> orig_at s); ce = ends s o_at;
            quiet = ep_state oe \<noteq> TCP_ENDPOINT_RESET \<and> ep_state re \<noteq> TCP_ENDPOINT_RESET
        in if \<not> SYN fl \<or> (ACK fl \<and> ep_state oe \<noteq> TCP_ENDPOINT_INACTIVE) then Ret (False, s)
           else if \<not> IsClosed s then
             (if base_seq = start_seq ce
                \<or> (\<not> ACK fl \<and> ep_state ce = TCP_ENDPOINT_SYN_ACK_SENT \<and> ep_state re = TCP_ENDPOINT_INACTIVE
                    \<and> base_seq = start_seq re)
              then Ret (False, s)
              else Ret (True, Weird (if ep_state ce = TCP_ENDPOINT_SYN_SENT then ''SYN_seq_jump'' else ''active_connection_reuse'') s))
           else if (IsActive oe \<or> IsActive re) \<and> quiet then Ret (True, Weird ''active_connection_reuse'' s)
           else if t - conn_last_time s < tcp_connection_linger C \<and> quiet
           then Ret (True, Weird ''premature_connection_reuse'' s)
           else Ret (True, s))"

section \<open>The archive\<close>

definition an_bitfields :: "tcp_an \<Rightarrow> u32" where
  "an_bitfields s =
     (of_bool (first_orig s) OR push_bit 1 (of_bool (first_resp s))) OR push_bit 2 (of_bool (reassembling s))
       OR push_bit 3 (of_bool (an_is_partial s)) OR push_bit 4 (of_bool (is_active s)) OR push_bit 5 (of_bool (finished s))
       OR push_bit 6 (of_bool (close_deferred s)) OR push_bit 7 (of_bool (deferred_gen_event s))
       OR push_bit 8 (of_bool (seen_first_ACK s))"

text \<open>The bits as loaded into an analyzer.\<close>

definition load_bitfields :: "u32 \<Rightarrow> tcp_an \<Rightarrow> tcp_an" where
  "load_bitfields b s =
     s\<lparr>first_orig := (drop_bit 0 b AND 3) AND 1 \<noteq> 0, first_resp := (drop_bit 0 b AND 3) AND 2 \<noteq> 0,
       reassembling := drop_bit 2 b AND 1 = 1, an_is_partial := drop_bit 3 b AND 1 = 1, is_active := drop_bit 4 b AND 1 = 1,
       finished := drop_bit 5 b AND 1 = 1, close_deferred := drop_bit 6 b AND 1 = 1,
       deferred_gen_event := drop_bit 7 b AND 1 = 1, seen_first_ACK := drop_bit 8 b AND 1 = 1\<rparr>"

end
