(* ===== verification/Bro_TcpState_Props.thy ===== *)
theory Bro_TcpState_Props
  imports Bro_TcpState
begin

text \<open>
  The state machine of TCP connections.  Most of a packet's processing settles: it leaves the states of the endpoints
  alone, announces no connection, and finishes one only when it closes an endpoint.  The rest is the step of the state
  machine itself.  Together they give the order of states, that a connection is announced once and that it is finished
  at most once for each side.
\<close>

section \<open>What most of the code leaves alone\<close>

definition establishing :: "an_output \<Rightarrow> bool" where
  "establishing e \<longleftrightarrow> e = Event ''connection_established''"

definition finishing :: "an_output \<Rightarrow> bool" where
  "finishing e \<longleftrightarrow> e = Event ''connection_finished'' \<or> e = Event ''connection_half_finished''"

definition quiet :: "an_output \<Rightarrow> bool" where
  "quiet e \<longleftrightarrow> \<not> establishing e \<and> \<not> finishing e"

definition closes :: "tcp_an \<Rightarrow> nat" where
  "closes s = of_bool (did_close (ends s True)) + of_bool (did_close (ends s False))"

definition settles :: "tcp_an \<Rightarrow> tcp_an \<Rightarrow> bool" where
  "settles s s' \<longleftrightarrow> orig_at s' = orig_at s
     \<and> (\<forall>a. ep_state (ends s' a) = ep_state (ends s a) \<and> prev_state (ends s' a) = prev_state (ends s a)
           \<and> (did_close (ends s a) \<longrightarrow> did_close (ends s' a)))
     \<and> (\<exists>es. an_out s' = an_out s @ es \<and> filter establishing es = []
           \<and> length (filter finishing es) + closes s \<le> closes s')"

named_theorems settle \<open>what a step that settles is made of\<close>

lemma settles_refl [settle]: "settles s s"
  unfolding settles_def by auto

lemma settles_trans:
  assumes "settles s t" "settles t u"
  shows "settles s u"
proof -
  obtain es where es: "an_out t = an_out s @ es" "filter establishing es = []" "length (filter finishing es) + closes s \<le> closes t"
    using assms(1) unfolding settles_def by blast
  obtain fs where fs: "an_out u = an_out t @ fs" "filter establishing fs = []" "length (filter finishing fs) + closes t \<le> closes u"
    using assms(2) unfolding settles_def by blast
  have "an_out u = an_out s @ (es @ fs) \<and> filter establishing (es @ fs) = [] \<and> length (filter finishing (es @ fs)) + closes s \<le> closes u"
    using es fs by simp
  with assms show ?thesis unfolding settles_def by (intro conjI) (auto intro: exI [of _ "es @ fs"])
qed

text \<open>The same endpoints up to what the state machine does not look at.\<close>

definition same_view :: "tcp_end \<Rightarrow> tcp_end \<Rightarrow> bool" where
  "same_view e e' \<longleftrightarrow> ep_state e' = ep_state e \<and> prev_state e' = prev_state e \<and> did_close e' = did_close e"

lemma settles_same:
  assumes "settles s t" "orig_at u = orig_at t" "\<And>a. same_view (ends t a) (ends u a)" "an_out u = an_out t @ es" "list_all quiet es"
  shows "settles s u"
proof -
  have "filter establishing es = []" "filter finishing es = []"
    using assms(5) by (auto simp: filter_empty_conv list_all_iff quiet_def)
  moreover have "closes u = closes t" using assms(3) by (simp add: closes_def same_view_def)
  ultimately have "settles t u" using assms(2-4) unfolding settles_def same_view_def by simp
  with assms(1) show ?thesis by (rule settles_trans)
qed

lemma settles_put [settle]: "settles s t \<Longrightarrow> list_all quiet es \<Longrightarrow> settles s (put_out es t)"
  by (rule settles_same [where es = es]) (simp_all add: put_out_def same_view_def)

lemma settles_Weird [settle]: "settles s t \<Longrightarrow> settles s (Weird n t)"
  unfolding Weird_def
  by (rule settles_same [where es = "[WeirdOut n]"]) (simp_all add: put_out_def same_view_def quiet_def establishing_def finishing_def)

lemma settles_weird_if [settle]: "settles s t \<Longrightarrow> settles s (weird_if c n t)"
  by (simp add: weird_if_def settle)

lemma settles_upd [settle]: "settles s t \<Longrightarrow> same_view (ends t a) (f (ends t a)) \<Longrightarrow> settles s (upd_end a f t)"
  by (rule settles_same [where es = "[]"]) (simp_all add: upd_end_def same_view_def)

lemma settles_if [settle]: "settles s t \<Longrightarrow> settles s u \<Longrightarrow> settles s (if c then t else u)"
  by simp

lemma settles_fields [settle]:
  assumes "settles s t"
  shows "settles s (t\<lparr>hist_seen := h\<rparr>)" "settles s (t\<lparr>history := hs\<rparr>)" "settles s (t\<lparr>an_is_partial := b\<rparr>)"
    "settles s (t\<lparr>is_active := b\<rparr>)" "settles s (t\<lparr>close_deferred := b\<rparr>)" "settles s (t\<lparr>deferred_gen_event := b\<rparr>)"
    "settles s (t\<lparr>seen_first_ACK := b\<rparr>)" "settles s (t\<lparr>first_orig := b\<rparr>)" "settles s (t\<lparr>first_resp := b\<rparr>)"
    "settles s (t\<lparr>reassembling := b\<rparr>)" "settles s (t\<lparr>finished := b\<rparr>)" "settles s (t\<lparr>conn_last_time := d\<rparr>)"
    "settles s (t\<lparr>an_stats := g\<rparr>)" "settles s (t\<lparr>current_content := b\<rparr>)" "settles s (t\<lparr>current_packet := b\<rparr>)"
  by (rule settles_same [OF assms, where es = "[]"]; simp add: same_view_def)+

lemma quiet_simps [simp]:
  "quiet (WeirdOut n)" "quiet (FromReassembler a o')" "quiet (AddTimer k r b)" "quiet (SetInactivityTimeout r)"
  "quiet StatusUpdateTimer" "quiet CancelTimers" "quiet RemoveConn" "quiet (SynPacket b i j k')" "quiet OsFingerprint"
  "quiet (PacketContents bs)" "quiet (TcpPacket b str u v i bs)" "quiet (TcpOption b x y)" "quiet (ConnectionEOF b)"
  "quiet (ChildClosed b c)" "quiet (ChildFinished b)" "quiet ChildReset" "quiet ChildRST" "quiet (ChildEOF b)"
  "quiet (ChildPacket i bs b u)" "quiet (ForwardPacket i bs b u)" "quiet (FirstPacket b)"
  "quiet (Event n) \<longleftrightarrow> n \<noteq> ''connection_established'' \<and> n \<noteq> ''connection_finished'' \<and> n \<noteq> ''connection_half_finished''"
  by (simp_all add: quiet_def establishing_def finishing_def)

lemma same_view_simps [simp]:
  "same_view e e" "same_view e (e\<lparr>window_scale := i\<rparr>)" "same_view e (e\<lparr>window_seq := u, window_ack_seq := v\<rparr>)"
  "same_view e (e\<lparr>window_scale := i, window_seq := u, window_ack_seq := v\<rparr>)"
  "same_view e (e\<lparr>window := u, window_ack_seq := v, window_seq := x\<rparr>)" "same_view e (e\<lparr>FIN_cnt := i\<rparr>)"
  "same_view e (e\<lparr>FIN_seq := u\<rparr>)" "same_view e (e\<lparr>RST_cnt := i\<rparr>)" "same_view e (e\<lparr>hist_last_SYN := u\<rparr>)"
  "same_view e (e\<lparr>hist_last_FIN := u\<rparr>)" "same_view e (e\<lparr>hist_last_RST := u\<rparr>)" "same_view e (UpdateLastSeq u e)"
  "same_view e (UpdateAckSeq u e)" "same_view e (e\<lparr>start_seq := u, ack_seq := v, last_seq := x\<rparr>)"
  "same_view e (e\<lparr>ack_seq := u, start_seq := v, last_seq := x, start_time := d\<rparr>)"
  "same_view e (e\<lparr>last_time := d, done_something := b\<rparr>)" "same_view e (e\<lparr>proc := R\<rparr>)" "same_view e (e\<lparr>contents_file := cf\<rparr>)"
  "same_view e (e\<lparr>contents_file := cf, contents_start_seq := u\<rparr>)"
  by (simp_all add: same_view_def UpdateLastSeq_def UpdateAckSeq_def Let_def)

section \<open>The parts of a packet's processing\<close>

lemma settles_AddHistory [settle]: "settles s t \<Longrightarrow> settles s (AddHistory a c t)"
  by (simp add: AddHistory_def settle)

lemma settles_CheckHistory [settle]: "settles s t \<Longrightarrow> settles s (snd (CheckHistory a m c t))"
  by (simp add: CheckHistory_def Let_def settle)

lemma settles_control [settle]: "settles s t \<Longrightarrow> settles s (control_history a m c d t)"
  using settles_CheckHistory [of s t a m c]
  by (cases "CheckHistory a m c t") (simp add: control_history_def settle)

lemma settles_Extract: "ExtractTCP_Header p s = Ret (h, s') \<Longrightarrow> settles s s'"
  by (auto simp: ExtractTCP_Header_def Let_def settle split: if_splits)

lemma settles_Checksum: "settles s (snd (ValidateChecksum C p a len caplen s))"
  by (simp add: ValidateChecksum_def settle)

lemma settles_Flags: "settles s (CheckFlagCombos fl a base_seq len s)"
  unfolding CheckFlagCombos_def Let_def if_distrib [where f = snd] by (intro settle; simp)

lemma settles_Window: "UpdateWindow a w b k fl s = Ret s' \<Longrightarrow> settles s s'"
  by (auto simp: UpdateWindow_def Let_def split: if_splits intro!: settle)

lemma settles_SYN: "ProcessSYN C p a n b k fl s = Ret (m, s') \<Longrightarrow> settles s s'"
  by (auto simp: ProcessSYN_def Let_def run_bind_eq_Ret split: prod.splits intro!: settle)

lemma settles_FIN: "settles s (snd (ProcessFIN C t a n b s))"
  by (auto simp: ProcessFIN_def Let_def intro!: settle)

lemma settles_RST: "settles s (snd (ProcessRST C t a l n s))"
  by (auto simp: ProcessRST_def Let_def intro!: settle)

lemma settles_Transition: "settles s (TransitionFromInactive t a b l y s)"
  by (auto simp: TransitionFromInactive_def Let_def intro!: settle)

lemma settles_LastSeq: "settles s (snd (an_UpdateLastSeq a l fl s))"
  by (auto simp: an_UpdateLastSeq_def Let_def intro!: settle)

lemma settles_Status [settle]: "settles s t \<Longrightarrow> settles s (EnableStatusUpdateTimer C t)"
  by (auto simp: EnableStatusUpdateTimer_def intro!: settle)

lemma settles_Recording [settle]: "settles s t \<Longrightarrow> settles s (CheckRecording C n fl t)"
  unfolding CheckRecording_def by (intro settles_fields)

lemma settles_PIA [settle]: "settles s t \<Longrightarrow> settles s (CheckPIA_FirstPacket b t)"
  by (auto simp: CheckPIA_FirstPacket_def Let_def intro!: settle)

lemma settles_outputs [settle]: "settles s t \<Longrightarrow> settles s (take_outputs a R R' t)"
  by (auto simp: take_outputs_def list_all_iff intro!: settle)

section \<open>Closing\<close>

text \<open>Reporting a close finishes at most one connection.\<close>

definition reports_one :: "tcp_an \<Rightarrow> tcp_an \<Rightarrow> bool" where
  "reports_one s s' \<longleftrightarrow> ends s' = ends s \<and> orig_at s' = orig_at s
     \<and> (\<exists>es. an_out s' = an_out s @ es \<and> filter establishing es = [] \<and> length (filter finishing es) \<le> 1)"

lemma close_completed_reports: "reports_one s (close_completed C a g s)"
  by (auto simp: reports_one_def close_completed_def ConnectionFinished_def put_out_def Let_def establishing_def finishing_def)

lemma close_incomplete_reports: "reports_one s (close_incomplete C a s)"
  by (auto simp: reports_one_def close_incomplete_def put_out_def Let_def establishing_def finishing_def)

lemma settles_close:
  assumes "settles s t" "\<not> did_close (ends t a)" "reports_one (upd_end a (\<lambda>e. e\<lparr>did_close := True\<rparr>) t) u"
  shows "settles s u"
proof -
  obtain es where "an_out u = an_out t @ es" "filter establishing es = []" "length (filter finishing es) \<le> 1"
    "ends u = (ends t)(a := (ends t a)\<lparr>did_close := True\<rparr>)" "orig_at u = orig_at t"
    using assms(3) by (auto simp: reports_one_def upd_end_def)
  moreover from this(4) have "closes u = closes t + 1" using assms(2) by (cases a) (simp_all add: closes_def)
  ultimately have "settles t u" unfolding settles_def by (auto intro: exI [of _ es])
  with assms(1) show ?thesis by (rule settles_trans)
qed

lemma settles_Closed [settle]:
  assumes "settles s t"
  shows "settles s (ConnectionClosed C p a g t)"
proof -
  let ?t = "put_out [ChildClosed a g] t"
  have t: "settles s (?t\<lparr>close_deferred := False\<rparr>)" using assms by (intro settle) simp_all
  have t0: "settles s ?t" using assms by (intro settle) simp_all
  show ?thesis
  proof (cases "an_DataPending p a ?t \<or> did_close (ends t a)")
    case True
    then have "ConnectionClosed C p a g t = ?t\<lparr>close_deferred := True, deferred_gen_event := deferred_gen_event ?t \<or> g\<rparr>
        \<or> ConnectionClosed C p a g t = ?t\<lparr>close_deferred := False\<rparr>"
      by (auto simp: ConnectionClosed_def Let_def put_out_def)
    moreover have "settles s (?t\<lparr>close_deferred := True, deferred_gen_event := deferred_gen_event ?t \<or> g\<rparr>)"
      by (intro settles_fields t0)
    ultimately show ?thesis using t by (elim disjE) (simp_all only:)
  next
    case False
    then have no: "\<not> did_close (ends (?t\<lparr>close_deferred := False\<rparr>) a)" by (simp add: put_out_def)
    have "ConnectionClosed C p a g t = (let u = upd_end a (\<lambda>e. e\<lparr>did_close := True\<rparr>) (?t\<lparr>close_deferred := False\<rparr>)
        in if ep_state (ends u a) = TCP_ENDPOINT_RESET \<or> did_close (ends u (\<not> a)) \<or> ep_state (ends u (\<not> a)) = TCP_ENDPOINT_INACTIVE
           then close_completed C a g u else close_incomplete C a u)"
      using False by (simp add: ConnectionClosed_def Let_def put_out_def)
    then show ?thesis
      using settles_close [OF t no close_completed_reports] settles_close [OF t no close_incomplete_reports]
      by (simp add: Let_def)
  qed
qed

lemma settles_EOF [settle]: "settles s t \<Longrightarrow> settles s (an_EndpointEOF C p a t)"
  unfolding an_EndpointEOF_def Let_def by (intro settle; simp)

lemma settles_reasm:
  assumes "reasm_call C p a f t = Ret u" "settles s t"
  shows "settles s u"
  using assms by (auto simp: reasm_call_def run_bind_eq_Ret Let_def split: option.splits intro!: settle)

lemma settles_ACK: "ProcessACK C p a k fl s = Ret s' \<Longrightarrow> settles s s'"
  unfolding ProcessACK_def Let_def by (erule settles_reasm) (auto intro!: settle)

lemma settles_ProcessFlags:
  assumes "ProcessFlags C p a len b k fl s = Ret (n, s')"
  shows "settles s s'"
proof -
  obtain n1 s1 where 1: "(if SYN fl then ProcessSYN C p a len b k fl s else Ret (len, s)) = Ret (n1, s1)"
    and 2: "(let (seq_len, s) = (if FIN fl then ProcessFIN C (pkt_time p) a n1 b s1 else (n1, s1));
           (seq_len, s) = (if RST fl then ProcessRST C (pkt_time p) a len seq_len s else (seq_len, s))
       in run_bind (if ACK fl then ProcessACK C p a k fl s else Ret s) (\<lambda>s. Ret (seq_len, s))) = Ret (n, s')"
    using assms by (auto simp: ProcessFlags_def run_bind_eq_Ret)
  have s1: "settles s s1" using 1 settles_SYN by (auto simp: settle split: if_splits)
  define s2 where "s2 = snd (if FIN fl then ProcessFIN C (pkt_time p) a n1 b s1 else (n1, s1))"
  define n2 where "n2 = fst (if FIN fl then ProcessFIN C (pkt_time p) a n1 b s1 else (n1, s1))"
  define s3 where "s3 = snd (if RST fl then ProcessRST C (pkt_time p) a len n2 s2 else (n2, s2))"
  have s2: "settles s1 s2" by (simp add: s2_def settles_FIN settle)
  have s3: "settles s2 s3" by (simp add: s3_def settles_RST settle)
  have "(if ACK fl then ProcessACK C p a k fl s3 else Ret s3) = Ret s'"
    using 2 by (auto simp: Let_def case_prod_beta run_bind_eq_Ret s3_def n2_def s2_def)
  then have "settles s3 s'" using settles_ACK by (auto simp: settle split: if_splits)
  with s1 s2 s3 show ?thesis by (blast intro: settles_trans)
qed

lemma option_events_quiet: "option_events b d e i = Ret es \<Longrightarrow> list_all quiet es"
proof (induction "e - i" arbitrary: i es rule: less_induct)
  case less
  have one: "list_all quiet x" if "option_events b d e (Suc i) = Ret x" "\<not> e \<le> i" for x
    using less.hyps [of "Suc i" x] that by simp
  have more: "list_all quiet x" if "option_events b d e (i + unat w) = Ret x" "w \<noteq> 0" "\<not> e \<le> Suc i" for w :: u8 and x
    using less.hyps [of "i + unat w" x] that by (simp add: diff_less_mono2 unat_gt_0)
  show ?case using less.prems
    by (auto simp: option_events.simps [of b d e i] Let_def run_bind_eq_Ret split: if_splits intro: one more)
qed

lemma settles_events: "packet_events C p a b k len caplen data hl fl s = Ret s' \<Longrightarrow> settles s s'"
  by (auto simp: packet_events_def run_bind_eq_Ret GeneratePacketEvent_def split: if_splits
      intro!: settle dest: option_events_quiet)

lemma settles_Data:
  assumes "DeliverData C p a b len data fl s = Ret (n, s')"
  shows "settles s s'"
proof -
  obtain r where r: "endpoint_DataSent (reasm_conf C) (env_of p a s) (b - start_seq (ends s a) + of_bool (SYN fl)) len (int (length data))
      data (map_option (with_stats s) (proc (ends s a))) = Ret r"
    using assms by (auto simp: DeliverData_def Let_def run_bind_eq_Ret)
  obtain n' e' proc' where "r = (n', e', proc')" by (cases r)
  with r have "s' = (case (proc (ends s a), proc') of
      (Some R, Some R') \<Rightarrow> take_outputs a R R' (upd_end a (\<lambda>e. e\<lparr>contents_file := contents_file e'\<rparr>) s)
    | _ \<Rightarrow> upd_end a (\<lambda>e. e\<lparr>contents_file := contents_file e'\<rparr>) s)"
    using assms by (simp add: DeliverData_def Let_def)
  moreover have "settles s (upd_end a (\<lambda>e. e\<lparr>contents_file := contents_file e'\<rparr>) s)" by (intro settle) simp
  ultimately show ?thesis by (cases "proc (ends s a)"; cases proc') (simp_all add: settle)
qed

lemma settles_deliver:
  assumes "deliver_and_close C p a b len caplen data fl do_close g s = Ret s'"
  shows "settles s s'"
proof -
  obtain n s1 s2 where 1: "(if len > 0 \<and> (caplen \<ge> len \<or> packet_children s) \<and> \<not> RST fl \<and> \<not> an_skip s
               then DeliverData C p a b len data fl s else Ret (0, s)) = Ret (n, s1)"
    and 2: "reasm_call C p a (\<lambda>env R. Ret (CheckEOF env R)) s1 = Ret s2"
    and 3: "s' = (let s = (if do_close then ConnectionClosed C p a g s2 else s2);
           s = CheckRecording C n fl s; rel = b - start_seq (ends s a);
           s = (if packet_children s then put_out [ChildPacket len data (pkt_orig p) rel] s else s);
           s = (if \<not> reassembling s then put_out [ForwardPacket len data (pkt_orig p) rel] s else s)
       in CheckPIA_FirstPacket (pkt_orig p) s)"
    using assms by (auto simp: deliver_and_close_def run_bind_eq_Ret Let_def)
  have "settles s s1" using 1 settles_Data by (auto simp: settle split: if_splits)
  from settles_reasm [OF 2 this] show ?thesis unfolding 3 Let_def by (intro settle; simp)
qed

section \<open>The step of the state machine\<close>

text \<open>How one packet moves the state of its sender and the state of the other side.\<close>

inductive sender_moves :: "EndpointState \<Rightarrow> EndpointState \<Rightarrow> bool" where
  stays: "sender_moves st st"
| wakes: "sender_moves TCP_ENDPOINT_INACTIVE st"
| restarts: "sender_moves TCP_ENDPOINT_PARTIAL TCP_ENDPOINT_SYN_SENT"
| fins: "st \<noteq> TCP_ENDPOINT_RESET \<Longrightarrow> sender_moves st TCP_ENDPOINT_CLOSED"
| resets: "sender_moves st TCP_ENDPOINT_RESET"

inductive peer_moves :: "EndpointState \<Rightarrow> EndpointState \<Rightarrow> bool" where
  peer_stays: "peer_moves st st"
| answered: "peer_moves TCP_ENDPOINT_SYN_SENT TCP_ENDPOINT_ESTABLISHED"
| reversed: "peer_moves TCP_ENDPOINT_SYN_ACK_SENT TCP_ENDPOINT_ESTABLISHED"
| fin_after_reset: "peer_moves TCP_ENDPOINT_RESET TCP_ENDPOINT_CLOSED"

inductive_simps sender_moves_simps: "sender_moves st st'"
inductive_simps peer_moves_simps: "peer_moves st st'"

lemma SetState_simps [simp]:
  "ep_state (ends (SetState C a st s) b) = (if b = a then st else ep_state (ends s b))"
  "prev_state (ends (SetState C a st s) b) = (if b = a \<and> st \<noteq> ep_state (ends s a) then ep_state (ends s a) else prev_state (ends s b))"
  "did_close (ends (SetState C a st s) b) = did_close (ends s b)" "orig_at (SetState C a st s) = orig_at s"
  "start_seq (ends (SetState C a st s) b) = start_seq (ends s b)"
  by (auto simp: SetState_def Let_def upd_end_def put_out_def)

lemma frame_simps [simp]:
  "ends (put_out es s) = ends s" "orig_at (put_out es s) = orig_at s"
  "ends (Weird n s) = ends s" "orig_at (Weird n s) = orig_at s"
  "ends (weird_if c n s) = ends s" "orig_at (weird_if c n s) = orig_at s"
  "ends (EnableStatusUpdateTimer C s) = ends s" "orig_at (EnableStatusUpdateTimer C s) = orig_at s"
  "ends (ConnectionReset s) = ends s" "orig_at (ConnectionReset s) = orig_at s"
  "ends (upd_end a f s) = (ends s)(a := f (ends s a))" "orig_at (upd_end a f s) = orig_at s"
  "ep_state (ends (FlipRoles s) b) = ep_state (ends s b)" "did_close (ends (FlipRoles s) b) = did_close (ends s b)"
  "start_seq (ends (FlipRoles s) b) = start_seq (ends s b)" "orig_at (FlipRoles s) = (\<not> orig_at s)"
  by (simp_all add: put_out_def Weird_def weird_if_def EnableStatusUpdateTimer_def ConnectionReset_def upd_end_def FlipRoles_def Let_def)

text \<open>Output that neither announces nor finishes.\<close>

definition hushed :: "tcp_an \<Rightarrow> tcp_an \<Rightarrow> bool" where
  "hushed s t \<longleftrightarrow> (\<exists>es. an_out t = an_out s @ es \<and> list_all quiet es)"

named_theorems hush \<open>what adds no announcement\<close>

lemma hushed_same: "hushed s t \<Longrightarrow> an_out u = an_out t @ es \<Longrightarrow> list_all quiet es \<Longrightarrow> hushed s u"
  unfolding hushed_def by auto

lemma hushed_trans: "hushed s t \<Longrightarrow> hushed t u \<Longrightarrow> hushed s u"
  unfolding hushed_def by auto

lemma hushed_basic [hush]:
  "hushed s s"
  "hushed s t \<Longrightarrow> list_all quiet es \<Longrightarrow> hushed s (put_out es t)"
  "hushed s t \<Longrightarrow> hushed s (Weird n t)" "hushed s t \<Longrightarrow> hushed s (weird_if c n t)"
  "hushed s t \<Longrightarrow> hushed s (upd_end a f t)" "hushed s t \<Longrightarrow> hushed s (EnableStatusUpdateTimer C t)"
  "hushed s t \<Longrightarrow> hushed s (SetState C a st t)" "hushed s t \<Longrightarrow> hushed s (FlipRoles t)"
  "hushed s t \<Longrightarrow> hushed s (ConnectionReset t)" "hushed s t \<Longrightarrow> hushed s u \<Longrightarrow> hushed s (if c then t else u)"
  unfolding hushed_def
  by (auto simp: put_out_def Weird_def weird_if_def upd_end_def EnableStatusUpdateTimer_def SetState_def FlipRoles_def ConnectionReset_def Let_def)

definition announcements :: "tcp_an \<Rightarrow> nat" where
  "announcements s = length (filter establishing (an_out s))"

definition finishes :: "tcp_an \<Rightarrow> nat" where
  "finishes s = length (filter finishing (an_out s))"

lemma hushed_counts: "hushed s t \<Longrightarrow> announcements t = announcements s \<and> finishes t = finishes s"
  unfolding hushed_def announcements_def finishes_def
  by (auto simp: filter_empty_conv list_all_iff quiet_def)

text \<open>What the step does, for a packet from the endpoint \<open>a\<close>.\<close>

definition machine_step :: "bool \<Rightarrow> tcp_an \<Rightarrow> tcp_an \<Rightarrow> bool" where
  "machine_step a s s' \<longleftrightarrow>
     sender_moves (ep_state (ends s a)) (ep_state (ends s' a))
     \<and> peer_moves (ep_state (ends s (\<not> a))) (ep_state (ends s' (\<not> a)))
     \<and> (\<forall>b. did_close (ends s' b) = did_close (ends s b))
     \<and> finishes s' = finishes s
     \<and> (announcements s' = announcements s \<and> orig_at s' = orig_at s
         \<or> announcements s' \<le> announcements s + 1 \<and> a \<noteq> orig_at s \<and> ep_state (ends s a) = TCP_ENDPOINT_INACTIVE
           \<and> ep_state (ends s' (\<not> orig_at s')) \<noteq> TCP_ENDPOINT_INACTIVE)"

lemma machine_step_quiet:
  assumes "hushed s s'" "orig_at s' = orig_at s" "\<And>b. did_close (ends s' b) = did_close (ends s b)"
    and "sender_moves (ep_state (ends s a)) (ep_state (ends s' a))" "peer_moves (ep_state (ends s (\<not> a))) (ep_state (ends s' (\<not> a)))"
  shows "machine_step a s s'"
  using assms hushed_counts [OF assms(1)] by (simp add: machine_step_def)

lemma restart_simps [simp]:
  "ep_state (restart_seq b l e) = ep_state e" "prev_state (restart_seq b l e) = prev_state e" "did_close (restart_seq b l e) = did_close e"
  by (simp_all add: restart_seq_def)

lemma machine_SYN_Sent:
  assumes "UpdateSYN_SentState C p a b l len fl s = (c, g, s')" "ep_state (ends s a) \<noteq> TCP_ENDPOINT_RESET"
  shows "machine_step a s s'"
proof -
  have s': "s' = snd (snd (UpdateSYN_SentState C p a b l len fl s))" using assms by simp
  show ?thesis
    unfolding s' UpdateSYN_SentState_def Let_def
    by (rule machine_step_quiet) (use assms(2) in \<open>auto simp: sender_moves_simps peer_moves_simps intro!: hush\<close>)
qed

lemma machine_Established:
  assumes "UpdateEstablishedState C a b l fl s = (c, g, s')" "ep_state (ends s a) \<noteq> TCP_ENDPOINT_RESET"
  shows "machine_step a s s'"
proof -
  have s': "s' = snd (snd (UpdateEstablishedState C a b l fl s))" using assms by simp
  show ?thesis
    unfolding s' UpdateEstablishedState_def Let_def
    by (rule machine_step_quiet) (use assms(2) in \<open>auto simp: sender_moves_simps peer_moves_simps intro!: hush\<close>)
qed

lemma machine_Closed:
  assumes "UpdateClosedState C t a d fl s = (c, g, s')"
  shows "machine_step a s s'"
proof -
  have s': "s' = snd (snd (UpdateClosedState C t a d fl s))" using assms by simp
  show ?thesis
    unfolding s' UpdateClosedState_def Let_def
    by (rule machine_step_quiet) (auto simp: sender_moves_simps peer_moves_simps intro!: hush)
qed

lemma machine_Reset: "machine_step a s (UpdateResetState len fl s)"
  unfolding UpdateResetState_def
  by (rule machine_step_quiet) (auto simp: sender_moves_simps peer_moves_simps intro!: hush)

text \<open>The first packet of a side: only the answer to a SYN announces a connection.\<close>

lemma inactive_SYN_orig: "pkt_orig p \<Longrightarrow> hushed s (inactive_SYN C p a b k fl s)"
  by (auto simp: inactive_SYN_def Let_def intro!: hush)

lemma inactive_SYN_out:
  assumes "ep_state (ends s a) = TCP_ENDPOINT_INACTIVE" "pkt_orig p \<longleftrightarrow> a = orig_at s"
  shows "finishes (inactive_SYN C p a b k fl s) = finishes s"
    and "announcements (inactive_SYN C p a b k fl s) \<le> announcements s + of_bool (a \<noteq> orig_at s)"
proof -
  define t where "t = (let pe = ends s (\<not> a);
            s = (if ACK fl then
                   weird_if (ep_state pe \<noteq> TCP_ENDPOINT_INACTIVE \<and> ep_state pe \<noteq> TCP_ENDPOINT_PARTIAL
                       \<and> \<not> seq_between k (start_seq pe) (last_seq pe)) ''bad_SYN_ack'' s
                 else if ep_state pe = TCP_ENDPOINT_SYN_ACK_SENT \<and> b = start_seq (ends s a)
                 then SetState C (\<not> a) TCP_ENDPOINT_ESTABLISHED (FlipRoles s)
                 else Weird ''simultaneous_open'' s);
            s = (if ep_state (ends s (\<not> a)) = TCP_ENDPOINT_SYN_SENT then SetState C (\<not> a) TCP_ENDPOINT_ESTABLISHED s
                 else weird_if (ep_state (ends s (\<not> a)) = TCP_ENDPOINT_INACTIVE) ''unsolicited_SYN_response'' s)
        in SetState C a TCP_ENDPOINT_ESTABLISHED s)"
  have t: "hushed s t" unfolding t_def Let_def by (intro hush)
  have resp: "inactive_SYN C p a b k fl s =
      (if ep_state (ends t (\<not> a)) \<noteq> TCP_ENDPOINT_PARTIAL
       then EnableStatusUpdateTimer C (put_out [Event ''connection_established''] t) else t)" if "\<not> pkt_orig p"
    using that by (simp add: inactive_SYN_def t_def Let_def)
  have one: "announcements (put_out [Event ''connection_established''] t) = announcements t + 1"
    "finishes (put_out [Event ''connection_established''] t) = finishes t"
    by (simp_all add: announcements_def finishes_def put_out_def establishing_def finishing_def)
  note orig = inactive_SYN_orig [of p s C a b k fl]
  have status: "hushed u (EnableStatusUpdateTimer C u)" for u by (intro hush)
  show "finishes (inactive_SYN C p a b k fl s) = finishes s"
    "announcements (inactive_SYN C p a b k fl s) \<le> announcements s + of_bool (a \<noteq> orig_at s)"
    using hushed_counts [OF t] hushed_counts [OF status] resp orig [THEN hushed_counts] one assms(2)
    by (cases "pkt_orig p"; simp)+
qed

lemma inactive_SYN_states:
  assumes "ep_state (ends s a) = TCP_ENDPOINT_INACTIVE"
  shows "peer_moves (ep_state (ends s (\<not> a))) (ep_state (ends (inactive_SYN C p a b k fl s) (\<not> a)))"
    and "did_close (ends (inactive_SYN C p a b k fl s) c) = did_close (ends s c)"
    and "ep_state (ends (inactive_SYN C p a b k fl s) a) \<noteq> TCP_ENDPOINT_INACTIVE"
    and "pkt_orig p \<Longrightarrow> orig_at (inactive_SYN C p a b k fl s) = orig_at s"
    and "orig_at (inactive_SYN C p a b k fl s) = orig_at s
      \<or> ep_state (ends (inactive_SYN C p a b k fl s) (\<not> a)) \<noteq> TCP_ENDPOINT_INACTIVE"
  using assms by (auto simp: inactive_SYN_def Let_def peer_moves_simps)

lemma inactive_rest:
  assumes "UpdateInactiveState C p a b k len fl s = (c, g, s')"
  defines "t \<equiv> (if SYN fl then inactive_SYN C p a b k fl s else s)"
  shows "hushed t s'" "orig_at s' = orig_at t" "did_close (ends s' d) = did_close (ends t d)"
    and "ep_state (ends s' (\<not> a)) = ep_state (ends t (\<not> a))"
    and "ep_state (ends t a) \<noteq> TCP_ENDPOINT_INACTIVE \<Longrightarrow> ep_state (ends s' a) \<noteq> TCP_ENDPOINT_INACTIVE"
proof -
  define u where "u = (if FIN fl
               then (let s = SetState C a TCP_ENDPOINT_CLOSED t
                     in weird_if (ep_state (ends s (\<not> a)) \<noteq> TCP_ENDPOINT_PARTIAL \<and> \<not> SYN fl) ''spontaneous_FIN'' s)
               else t)"
  define v where "v = (if RST fl then snd (inactive_RST C p a u) else u)"
  have s': "s' = inactive_other C p a len v"
    using assms(1) by (auto simp: UpdateInactiveState_def Let_def t_def u_def v_def case_prod_beta)
  have "hushed t u" by (auto simp: u_def Let_def intro!: hush)
  moreover have "hushed u v" by (auto simp: v_def inactive_RST_def Let_def intro!: hush)
  moreover have "hushed v s'" by (auto simp: s' inactive_other_def Let_def intro!: hush)
  ultimately show "hushed t s'" by (blast intro: hushed_trans)
  show "orig_at s' = orig_at t" "did_close (ends s' d) = did_close (ends t d)"
    "ep_state (ends s' (\<not> a)) = ep_state (ends t (\<not> a))"
    "ep_state (ends t a) \<noteq> TCP_ENDPOINT_INACTIVE \<Longrightarrow> ep_state (ends s' a) \<noteq> TCP_ENDPOINT_INACTIVE"
    by (auto simp: s' inactive_other_def v_def inactive_RST_def u_def Let_def)
qed

lemma machine_Inactive:
  assumes "UpdateInactiveState C p a b k len fl s = (c, g, s')" "ep_state (ends s a) = TCP_ENDPOINT_INACTIVE"
    and "pkt_orig p \<longleftrightarrow> a = orig_at s"
  shows "machine_step a s s'"
proof -
  define t where "t = (if SYN fl then inactive_SYN C p a b k fl s else s)"
  note rest = inactive_rest [OF assms(1), folded t_def] and syn = inactive_SYN_states [OF assms(2)]
    and out = inactive_SYN_out [OF assms(2,3)]
  have moves: "sender_moves (ep_state (ends s a)) (ep_state (ends s' a))" using assms(2) by (simp add: sender_moves_simps)
  have peer: "peer_moves (ep_state (ends s (\<not> a))) (ep_state (ends s' (\<not> a)))"
    using syn(1) rest(4) by (auto simp: t_def peer_moves_simps)
  have counts: "announcements s' = announcements t" "finishes s' = finishes t" using hushed_counts [OF rest(1)] by simp_all
  have rest': "finishes s' = finishes s" "\<forall>d. did_close (ends s' d) = did_close (ends s d)"
    using counts out(1) rest(3) syn(2) by (simp_all add: t_def)
  show ?thesis
  proof (cases "SYN fl \<and> \<not> pkt_orig p")
    case False
    then have "hushed s t" "orig_at t = orig_at s" using inactive_SYN_orig syn(4) by (auto simp: t_def intro!: hush)
    then show ?thesis using moves peer rest' counts rest(2) hushed_counts [of s t] unfolding machine_step_def by simp
  next
    case True
    then have resp: "announcements s' \<le> announcements s + 1" "a \<noteq> orig_at s" using out(2) counts assms(3) by (auto simp: t_def)
    have awake: "ep_state (ends s' a) \<noteq> TCP_ENDPOINT_INACTIVE" using rest(5) syn(3) True by (simp add: t_def)
    have "ep_state (ends s' (\<not> orig_at s')) \<noteq> TCP_ENDPOINT_INACTIVE"
    proof (cases "orig_at s' = orig_at s")
      case True
      with resp(2) have "(\<not> orig_at s') = a" by blast
      with awake show ?thesis by simp
    next
      case flipped: False
      with resp(2) have "orig_at s' = a" by blast
      moreover have "ep_state (ends s' (\<not> a)) \<noteq> TCP_ENDPOINT_INACTIVE" using rest(2,4) syn(5) [where C = C and p = p and b = b and k = k and fl = fl] True flipped by (auto simp: t_def)
      ultimately show ?thesis by simp
    qed
    then show ?thesis using moves peer rest' assms(2) resp unfolding machine_step_def by blast
  qed
qed

lemma machine_step_ok:
  assumes "UpdateStateMachine C p a b k l len d fl s = (c, g, s')" "pkt_orig p \<longleftrightarrow> a = orig_at s"
  shows "machine_step a s s'"
  using assms machine_Inactive [of C p a b k len fl s c g s'] machine_SYN_Sent [of C p a b l len fl s c g s']
    machine_Established [of C a b l fl s c g s'] machine_Closed [of C "pkt_time p" a d fl s c g s'] machine_Reset [of a s len fl]
  by (cases "ep_state (ends s a)") (simp_all add: UpdateStateMachine_def)

section \<open>A packet\<close>

text \<open>
  A packet settles, takes the step of the state machine, and settles again.  Packets with a bad header or checksum only
  settle.
\<close>

definition accepted :: "tcp_an_conf \<Rightarrow> tcp_pkt \<Rightarrow> bool" where
  "accepted C p \<longleftrightarrow>
     (let hl = int (th_off (pkt_data p)) * 4
      in 20 \<le> hl \<and> hl \<le> pkt_len p \<and> 20 \<le> length (pkt_data p)
         \<and> (ignore_checksums C \<or> int (length (pkt_data p)) < pkt_len p \<or> checksum_ok p))"

definition packet_machine :: "tcp_an_conf \<Rightarrow> tcp_pkt \<Rightarrow> bool \<Rightarrow> tcp_an \<Rightarrow> tcp_an \<Rightarrow> bool" where
  "packet_machine C p a s s' \<longleftrightarrow>
     (\<exists>b k l len d t c g u. settles s t \<and> UpdateStateMachine C p a b k l len d (th_flags (pkt_data p)) t = (c, g, u) \<and> settles u s'
        \<and> (pkt_orig p \<longleftrightarrow> a = orig_at t))"

definition packet_step :: "tcp_an_conf \<Rightarrow> tcp_pkt \<Rightarrow> tcp_an \<Rightarrow> tcp_an \<Rightarrow> bool" where
  "packet_step C p s s' \<longleftrightarrow> (if accepted C p then \<exists>a. packet_machine C p a s s' else settles s s')"

lemma advance_step:
  assumes "advance_machine C p a len b k (th_flags (pkt_data p)) n s = (c, g, u)" "pkt_orig p \<longleftrightarrow> a = orig_at s" "settles u s'"
  shows "packet_machine C p a s s'"
proof -
  let ?l = "b + word_of_int n" and ?fl = "th_flags (pkt_data p)"
  define s1 where "s1 = (if ep_state (ends s a) = TCP_ENDPOINT_INACTIVE
      then TransitionFromInactive (pkt_time p) a b ?l (SYN ?fl) s else s)"
  define s2 where "s2 = upd_end a (\<lambda>e. e\<lparr>last_time := pkt_time p, done_something := pkt_time p \<noteq> 0\<rparr>) (snd (an_UpdateLastSeq a ?l ?fl s1))"
  have "settles s s1" by (simp add: s1_def settles_Transition settle)
  moreover have "settles s1 s2" unfolding s2_def by (intro settle settles_LastSeq) simp
  ultimately have t: "settles s s2" by (rule settles_trans)
  then have "orig_at s2 = orig_at s" by (simp add: settles_def)
  with assms(2) have p: "pkt_orig p \<longleftrightarrow> a = orig_at s2" by simp
  have "UpdateStateMachine C p a b k ?l len (fst (an_UpdateLastSeq a ?l ?fl s1)) ?fl s2 = (c, g, u)"
    using assms(1) by (simp add: advance_machine_def Let_def case_prod_beta s1_def s2_def)
  with t p assms(3) show ?thesis unfolding packet_machine_def by blast
qed

lemma machine_after: "settles s t \<Longrightarrow> packet_machine C p a t u \<Longrightarrow> packet_machine C p a s u"
  unfolding packet_machine_def by (blast intro: settles_trans)

lemma accept_step:
  assumes "accept_packet C p a hl s = Ret s'" "pkt_orig p \<longleftrightarrow> a = orig_at s"
  shows "packet_machine C p a s s'"
proof -
  define d where "d = pkt_data p"
  define len where "len = pkt_len p - hl"
  define s1 where "s1 = CheckFlagCombos (th_flags d) a (th_seq d) len s"
  obtain s2 where s2: "UpdateWindow a (ucast (th_win d)) (th_seq d) (th_ack d) (th_flags d) s1 = Ret s2"
    and r2: "run_bind (ProcessFlags C p a len (th_seq d) (th_ack d) (th_flags d) (if \<not> BothClosed s2 then s2\<lparr>conn_last_time := pkt_time p\<rparr> else s2))
      (\<lambda>(seq_len, s). let (do_close, gen_event, s) = advance_machine C p a len (th_seq d) (th_ack d) (th_flags d) seq_len s
           in run_bind (packet_events C p a (th_seq d) (th_ack d) len (int (length d) - hl) (drop (nat hl) d) hl (th_flags d) s)
                (deliver_and_close C p a (th_seq d) len (int (length d) - hl) (drop (nat hl) d) (th_flags d) do_close gen_event)) = Ret s'"
    using assms(1) unfolding accept_packet_def Let_def d_def [symmetric] len_def [symmetric] s1_def [symmetric] run_bind_eq_Ret by blast
  define s3 where "s3 = (if \<not> BothClosed s2 then s2\<lparr>conn_last_time := pkt_time p\<rparr> else s2)"
  obtain n s4 where s4: "ProcessFlags C p a len (th_seq d) (th_ack d) (th_flags d) s3 = Ret (n, s4)"
    using r2 unfolding s3_def [symmetric] by (auto simp: run_bind_eq_Ret)
  obtain c g s5 where s5: "advance_machine C p a len (th_seq d) (th_ack d) (th_flags d) n s4 = (c, g, s5)" by (metis prod_cases3)
  obtain s6 where s6: "packet_events C p a (th_seq d) (th_ack d) len (int (length d) - hl) (drop (nat hl) d) hl (th_flags d) s5 = Ret s6"
    "deliver_and_close C p a (th_seq d) len (int (length d) - hl) (drop (nat hl) d) (th_flags d) c g s6 = Ret s'"
    using r2 s4 s5 unfolding s3_def [symmetric] by (auto simp: run_bind_eq_Ret)
  have "settles s s1" by (simp add: s1_def settles_Flags)
  moreover have "settles s1 s2" by (rule settles_Window [OF s2])
  moreover have "settles s2 s3" by (simp add: s3_def settle)
  moreover have "settles s3 s4" by (rule settles_ProcessFlags [OF s4])
  ultimately have before: "settles s s4" by (blast intro: settles_trans)
  then have "pkt_orig p \<longleftrightarrow> a = orig_at s4" using assms(2) by (simp add: settles_def)
  moreover have "settles s5 s'" by (rule settles_trans [OF settles_events [OF s6(1)] settles_deliver [OF s6(2)]])
  ultimately have "packet_machine C p a s4 s'" using s5 unfolding d_def by (intro advance_step) simp_all
  with before show ?thesis by (rule machine_after)
qed

lemma DeliverPacket_step:
  assumes "DeliverPacket C p s = Ret s'"
  shows "packet_step C p s s'"
proof -
  let ?hl = "int (th_off (pkt_data p)) * 4"
  obtain h s0 where h: "ExtractTCP_Header p s = Ret (h, s0)" and rest: "(case h of None \<Rightarrow> Ret s0 | Some hl \<Rightarrow> process_packet C p hl s0) = Ret s'"
    using assms by (auto simp: DeliverPacket_def run_bind_eq_Ret)
  have s0: "settles s s0" by (rule settles_Extract [OF h])
  have hd: "h = (if 20 \<le> ?hl \<and> ?hl \<le> pkt_len p \<and> 20 \<le> length (pkt_data p) then Some ?hl else None)"
    using h by (auto simp: ExtractTCP_Header_def Let_def split: if_splits)
  show ?thesis
  proof (cases h)
    case None
    with rest s0 hd show ?thesis by (auto simp: packet_step_def accepted_def Let_def split: if_splits)
  next
    case (Some hl)
    define len where "len = pkt_len p - hl"
    define caplen where "caplen = int (length (pkt_data p)) - hl"
    define s1 where "s1 = (if has_packet_contents C \<and> min len caplen > 0
               then put_out [PacketContents (take (nat (min len caplen)) (drop (nat hl) (pkt_data p)))] s0 else s0)"
    define a where "a = (pkt_orig p \<longleftrightarrow> orig_at s1)"
    obtain valid s2 where s2: "ValidateChecksum C p a len caplen s1 = (valid, s2)" by fastforce
    have "process_packet C p hl s0 = Ret s'" using rest Some by simp
    then have run: "(if valid then accept_packet C p a hl s2 else Ret s2) = Ret s'"
      using s2 unfolding process_packet_def Let_def len_def [symmetric] caplen_def [symmetric] s1_def [symmetric] a_def [symmetric]
      by simp
    have "settles s0 s1" by (simp add: s1_def settle)
    moreover have "settles s1 s2" using settles_Checksum [of s1 C p a len caplen] s2 by simp
    ultimately have s02: "settles s s2" using s0 by (blast intro: settles_trans)
    have o: "pkt_orig p \<longleftrightarrow> a = orig_at s2" using \<open>settles s1 s2\<close> by (auto simp: a_def settles_def)
    have acc: "accepted C p \<longleftrightarrow> valid"
      using s2 hd Some by (auto simp: accepted_def ValidateChecksum_def Let_def len_def caplen_def split: if_splits)
    show ?thesis
    proof (cases valid)
      case True
      then have "packet_machine C p a s2 s'" using run o by (intro accept_step) simp_all
      with s02 acc True machine_after show ?thesis unfolding packet_step_def by metis
    next
      case False
      with run s02 acc show ?thesis by (simp add: packet_step_def)
    qed
  qed
qed

text \<open>What the step of the state machine does to the view.\<close>

lemma packet_settles_or_moves:
  assumes "packet_step C p s s'"
  shows "settles s s' \<or> (\<exists>a t u. settles s t \<and> machine_step a t u \<and> settles u s')"
  using assms machine_step_ok unfolding packet_step_def packet_machine_def by (metis (full_types))

section \<open>Runs\<close>

text \<open>What happens to an analyzer: packets, timers, and the calls of the connection and of scripts.\<close>

inductive tcp_event :: "tcp_an_conf \<Rightarrow> tcp_an \<Rightarrow> tcp_an \<Rightarrow> bool" for C where
  event_packet: "DeliverPacket C p s = Ret s' \<Longrightarrow> tcp_event C s s'"
| event_attempt: "tcp_event C s (an_AttemptTimer s)"
| event_partial: "tcp_event C s (an_PartialCloseTimer s)"
| event_expire: "tcp_event C s (an_ExpireTimer C t s)"
| event_reset: "tcp_event C s (an_ResetTimer s)"
| event_delete: "tcp_event C s (an_DeleteTimer s)"
| event_reuse: "IsReuse C t pkt s = Ret (b, s') \<Longrightarrow> tcp_event C s s'"
| event_reassembly: "EnableReassembly C p overhead s = Ret s' \<Longrightarrow> tcp_event C s s'"
| event_contents: "an_SetContentsFile C p dir f s = Ret s' \<Longrightarrow> tcp_event C s s'"
| event_done: "an_Done C p s = Ret s' \<Longrightarrow> tcp_event C s s'"

inductive tcp_reachable :: "tcp_an_conf \<Rightarrow> tcp_an \<Rightarrow> bool" for C where
  reach_new: "tcp_reachable C (new_TCP_Analyzer C now children stats oaddr raddr oport rport)"
| reach_event: "tcp_reachable C s \<Longrightarrow> tcp_event C s s' \<Longrightarrow> tcp_reachable C s'"

lemma settles_timers:
  "settles s (an_AttemptTimer s)" "settles s (an_PartialCloseTimer s)" "settles s (an_ExpireTimer C t s)"
  "settles s (an_ResetTimer s)" "settles s (an_DeleteTimer s)"
  by (auto simp: an_AttemptTimer_def an_PartialCloseTimer_def an_ExpireTimer_def an_timeout_def an_ResetTimer_def
      ConnectionReset_def an_DeleteTimer_def Let_def intro!: settle)

lemma settles_reuse: "IsReuse C t pkt s = Ret (b, s') \<Longrightarrow> settles s s'"
  by (auto simp: IsReuse_def Let_def split: if_splits intro!: settle)

lemma settles_Add: "AddReassembler C p a R s = Ret s' \<Longrightarrow> settles s s'"
  by (auto simp: AddReassembler_def Let_def split: if_splits intro!: settle elim!: settles_reasm)

lemma settles_Enable:
  assumes "EnableReassembly C p overhead s = Ret s'"
  shows "settles s s'"
proof -
  define R where "R b = new_TCP_Reassembler (reasm_conf C) Forward b (an_stats s) overhead" for b
  obtain s1 s2 where "AddReassembler C p (orig_at s) (R True) s = Ret s1" "AddReassembler C p (\<not> orig_at s1) (R False) s1 = Ret s2"
    and s': "s' = (let s = s2\<lparr>reassembling := True\<rparr>;
        s = (if has_new_connection_contents C then put_out [Event ''new_connection_contents''] s else s);
        s = s\<lparr>reassembling := True\<rparr>
      in if has_new_connection_contents C then put_out [Event ''new_connection_contents''] s else s)"
    using assms by (auto simp: EnableReassembly_def SetReassembler_def run_bind_eq_Ret R_def Let_def)
  then have "settles s s2" by (blast intro: settles_trans settles_Add)
  then show ?thesis unfolding s' Let_def by (intro settle; simp)
qed

lemma settles_contents:
  assumes "an_SetContentsFile C p dir f s = Ret s'"
  shows "settles s s'"
proof -
  have one: "settles t u" if "endpoint_SetContentsFile C p a f t = Ret u" for a f t u
    using that by (auto simp: endpoint_SetContentsFile_def split: option.splits intro!: settle elim!: settles_reasm)
  have null: "endpoint_SetContentsFile C p a None t = Undef" for a t by (simp add: endpoint_SetContentsFile_def)
  obtain s1 where "s1 = s \<or> endpoint_SetContentsFile C p (orig_at s) f s = Ret s1"
    "s' = s1 \<or> endpoint_SetContentsFile C p (\<not> orig_at s1) f s1 = Ret s'"
    using assms unfolding an_SetContentsFile_def null by (auto simp: run_bind_eq_Ret split: if_splits)
  then have "settles s s1" "settles s1 s'" using one settles_refl by metis+
  then show ?thesis by (rule settles_trans)
qed

lemma settles_Done:
  assumes "an_Done C p s = Ret s'"
  shows "settles s s'"
proof -
  define s0 where "s0 = (if has_connection_pending C \<and> is_active s \<and> \<not> BothClosed s then put_out [Event ''connection_pending''] s else s)"
  have "run_bind (reasm_call C p (orig_at s0) (tcp_Done (reasm_conf C)) s0) (\<lambda>s.
      run_bind (reasm_call C p (\<not> orig_at s) (tcp_Done (reasm_conf C)) s) (\<lambda>s. Ret (s\<lparr>finished := True\<rparr>))) = Ret s'"
    using assms unfolding an_Done_def s0_def [symmetric] Let_def .
  then obtain s1 s2 where r: "reasm_call C p (orig_at s0) (tcp_Done (reasm_conf C)) s0 = Ret s1"
    "reasm_call C p (\<not> orig_at s1) (tcp_Done (reasm_conf C)) s1 = Ret s2" "s' = s2\<lparr>finished := True\<rparr>"
    unfolding run_bind_eq_Ret by auto
  have "settles s s0" by (simp add: s0_def settle)
  from settles_reasm [OF r(2) settles_reasm [OF r(1) this]] show ?thesis unfolding r(3) by (rule settles_fields)
qed

text \<open>Every event is a packet's step or settles.\<close>

lemma event_cases:
  assumes "tcp_event C s s'"
  shows "settles s s' \<or> (\<exists>p. packet_step C p s s')"
  using assms
  by cases (auto dest: DeliverPacket_step settles_reuse settles_Enable settles_contents settles_Done intro: settles_timers)

text \<open>What holds of every analyzer: one announcement, and none while the responder was silent; as many ends as closes.\<close>

definition accounted_for :: "tcp_an \<Rightarrow> bool" where
  "accounted_for s \<longleftrightarrow> announcements s \<le> 1 \<and> finishes s \<le> closes s
     \<and> (ep_state (ends s (\<not> orig_at s)) = TCP_ENDPOINT_INACTIVE \<longrightarrow> announcements s = 0)"

lemma settles_accounted:
  assumes "settles s s'" "accounted_for s"
  shows "accounted_for s'"
proof -
  obtain es where es: "an_out s' = an_out s @ es" "filter establishing es = []" "length (filter finishing es) + closes s \<le> closes s'"
    using assms(1) unfolding settles_def by blast
  then have "announcements s' = announcements s" "finishes s' + closes s \<le> finishes s + closes s'"
    by (simp_all add: announcements_def finishes_def)
  with assms show ?thesis unfolding accounted_for_def settles_def by auto
qed

lemma machine_accounted:
  assumes "machine_step a s s'" "accounted_for s"
  shows "accounted_for s'"
proof -
  note step = assms(1) [unfolded machine_step_def]
  have fin: "finishes s' \<le> closes s'" using step assms(2) by (simp add: accounted_for_def closes_def)
  from step consider (same) "announcements s' = announcements s" "orig_at s' = orig_at s"
    | (first) "announcements s' \<le> announcements s + 1" "a \<noteq> orig_at s" "ep_state (ends s a) = TCP_ENDPOINT_INACTIVE"
        "ep_state (ends s' (\<not> orig_at s')) \<noteq> TCP_ENDPOINT_INACTIVE" by blast
  then show ?thesis
  proof cases
    case same
    have "ep_state (ends s' b) \<noteq> TCP_ENDPOINT_INACTIVE" if "ep_state (ends s b) \<noteq> TCP_ENDPOINT_INACTIVE" for b
      using step that by (cases "b = a") (auto simp: sender_moves_simps peer_moves_simps)
    from this [of "\<not> orig_at s"] same fin assms(2) show ?thesis unfolding accounted_for_def by auto
  next
    case first
    then have "a = (\<not> orig_at s)" by blast
    with first fin assms(2) show ?thesis unfolding accounted_for_def by auto
  qed
qed

lemma event_accounted:
  assumes "tcp_event C s s'" "accounted_for s"
  shows "accounted_for s'"
  using event_cases [OF assms(1)] packet_settles_or_moves assms(2) by (blast intro: settles_accounted machine_accounted)

lemma new_accounted: "accounted_for (new_TCP_Analyzer C now children stats oaddr raddr oport rport)"
  by (simp add: accounted_for_def announcements_def finishes_def closes_def new_TCP_Analyzer_def new_tcp_end_def establishing_def finishing_def)

lemma reachable_accounted: "tcp_reachable C s \<Longrightarrow> accounted_for s"
  by (induction rule: tcp_reachable.induct) (auto intro: new_accounted event_accounted)

text \<open>C13. Whatever packets, timers and calls a TCP connection sees, it is announced at most once, and it is reported as
  finished at most once for each of its sides that was closed, so at most twice.\<close>

theorem connection_announced_once:
  assumes "tcp_reachable C s"
  shows "length (filter (\<lambda>e. e = Event ''connection_established'') (an_out s)) \<le> 1
    \<and> length (filter (\<lambda>e. e = Event ''connection_finished'' \<or> e = Event ''connection_half_finished'') (an_out s))
      \<le> of_bool (did_close (ends s True)) + of_bool (did_close (ends s False))"
  using reachable_accounted [OF assms]
  by (simp_all add: accounted_for_def announcements_def finishes_def closes_def establishing_def [abs_def] finishing_def [abs_def])

section \<open>The order of states\<close>

text \<open>The stage of an endpoint.\<close>

definition stage :: "EndpointState \<Rightarrow> nat" where
  "stage st = (case st of TCP_ENDPOINT_INACTIVE \<Rightarrow> 0 | TCP_ENDPOINT_PARTIAL \<Rightarrow> 1 | TCP_ENDPOINT_SYN_SENT \<Rightarrow> 2
     | TCP_ENDPOINT_SYN_ACK_SENT \<Rightarrow> 2 | TCP_ENDPOINT_ESTABLISHED \<Rightarrow> 3 | TCP_ENDPOINT_CLOSED \<Rightarrow> 4 | TCP_ENDPOINT_RESET \<Rightarrow> 4)"

definition advances :: "EndpointState \<Rightarrow> EndpointState \<Rightarrow> bool" where
  "advances st st' \<longleftrightarrow> st' = st \<or> stage st < stage st' \<or> (stage st = 4 \<and> stage st' = 4)"

lemma advances_trans: "advances x y \<Longrightarrow> advances y z \<Longrightarrow> advances x z"
  by (auto simp: advances_def)

lemma moves_advance: "sender_moves x y \<Longrightarrow> advances x y" "peer_moves x y \<Longrightarrow> advances x y"
  by (auto simp: sender_moves_simps peer_moves_simps advances_def stage_def split: EndpointState.splits)

definition progress :: "tcp_an \<Rightarrow> tcp_an \<Rightarrow> bool" where
  "progress s s' \<longleftrightarrow> (\<forall>a. advances (ep_state (ends s a)) (ep_state (ends s' a)) \<and> (did_close (ends s a) \<longrightarrow> did_close (ends s' a)))"

lemma progress_trans: "progress s t \<Longrightarrow> progress t u \<Longrightarrow> progress s u"
  unfolding progress_def by (blast intro: advances_trans)

lemma settles_progress: "settles s t \<Longrightarrow> progress s t"
  by (simp add: settles_def progress_def advances_def)

lemma machine_progress:
  assumes "machine_step a s t"
  shows "progress s t"
  unfolding progress_def
proof
  fix b
  show "advances (ep_state (ends s b)) (ep_state (ends t b)) \<and> (did_close (ends s b) \<longrightarrow> did_close (ends t b))"
    using assms by (cases "b = a") (auto simp: machine_step_def moves_advance)
qed

lemma event_progress: "tcp_event C s s' \<Longrightarrow> progress s s'"
  using event_cases [of C s s'] packet_settles_or_moves by (blast intro: progress_trans settles_progress machine_progress)

text \<open>C14. Over any sequence of packets, timers and calls each side of a connection only advances: from inactive through
  partial, the handshake and established to closed or reset.  It never goes back to an earlier stage, after established
  comes only closed or reset, a side that sent a SYN never becomes one that sent a SYN acknowledgement, and a side once
  reported as closed stays so.\<close>

theorem tcp_states_advance:
  assumes "(tcp_event C)\<^sup>*\<^sup>* s s'"
  shows "(ep_state (ends s' a) = ep_state (ends s a) \<or> stage (ep_state (ends s a)) < stage (ep_state (ends s' a))
       \<or> {ep_state (ends s a), ep_state (ends s' a)} = {TCP_ENDPOINT_CLOSED, TCP_ENDPOINT_RESET})
    \<and> (did_close (ends s a) \<longrightarrow> did_close (ends s' a))"
proof -
  have p: "progress s s'" using assms
  proof (induction rule: rtranclp_induct)
    case base
    show ?case by (simp add: progress_def advances_def)
  next
    case (step t u)
    then show ?case by (blast intro: progress_trans event_progress)
  qed
  then have "ep_state (ends s' a) = ep_state (ends s a) \<or> stage (ep_state (ends s a)) < stage (ep_state (ends s' a))
      \<or> {ep_state (ends s a), ep_state (ends s' a)} = {TCP_ENDPOINT_CLOSED, TCP_ENDPOINT_RESET}"
    by (cases "ep_state (ends s a)"; cases "ep_state (ends s' a)") (auto simp: progress_def advances_def stage_def dest!: spec [of _ a])
  with p show ?thesis by (simp add: progress_def)
qed

end
