(* ===== verification/Bro_TcpState_Facts.thy ===== *)
theory Bro_TcpState_Facts
  imports Bro_TcpState_Props
begin

text \<open>
  Single packets: a packet whose header and options were captured is processed to the end, the handshake establishes
  both sides, and what the analyzer does with options that were not captured.  Then its bits in the archive.
\<close>

section \<open>Packets are processed to the end\<close>

lemma syn_options_return: "e \<le> length d \<Longrightarrow> \<exists>r. syn_options d e i acc = Ret r"
proof (induction d e i acc rule: syn_options.induct)
  case (1 d e i winscale MSS SACK)
  show ?case
    using 1
    by (subst syn_options.simps) (auto simp: Let_def)
qed

lemma option_events_return: "e \<le> length d \<Longrightarrow> \<exists>r. option_events b d e i = Ret r"
proof (induction b d e i rule: option_events.induct)
  case (1 b d e i)
  show ?case
    using 1
    by (subst option_events.simps) (auto simp: Let_def)
qed

text \<open>An analyzer without reassemblers and contents files, as before any script or child analyzer asks for the contents.\<close>

definition bare :: "tcp_an \<Rightarrow> bool" where
  "bare s \<longleftrightarrow> (\<forall>a. proc (ends s a) = None \<and> contents_file (ends s a) = None)"

definition window_view :: "tcp_end \<Rightarrow> int \<times> u32 \<times> u32 \<times> u32" where
  "window_view e = (window_scale e, window e, window_ack_seq e, window_seq e)"

named_theorems bare \<open>what leaves an analyzer without reassemblers\<close>

lemma bare_basic [bare]:
  "bare s \<Longrightarrow> bare (put_out es s)" "bare s \<Longrightarrow> bare (Weird n s)" "bare s \<Longrightarrow> bare (weird_if c n s)"
  "bare s \<Longrightarrow> bare (AddHistory a ch s)" "bare s \<Longrightarrow> bare (snd (CheckHistory a m ch s))" "bare s \<Longrightarrow> bare (control_history a m ch c s)"
  "bare s \<Longrightarrow> bare (SetState C a st s)" "bare s \<Longrightarrow> bare (EnableStatusUpdateTimer C s)" "bare s \<Longrightarrow> bare (FlipRoles s)"
  "bare s \<Longrightarrow> bare (ConnectionReset s)"
  by (auto simp: bare_def put_out_def Weird_def weird_if_def AddHistory_def CheckHistory_def control_history_def SetState_def upd_end_def
      EnableStatusUpdateTimer_def FlipRoles_def ConnectionReset_def Let_def split: prod.splits)

lemma bare_if [bare]:
  "bare s \<Longrightarrow> bare t \<Longrightarrow> bare (if c then s else t)"
  "bare (snd x) \<Longrightarrow> bare (snd y) \<Longrightarrow> bare (snd (if c then x else y))" "bare s \<Longrightarrow> bare (snd (v, s))"
  by simp_all

lemma bare_upd: "bare s \<Longrightarrow> proc (f (ends s a)) = proc (ends s a) \<Longrightarrow> contents_file (f (ends s a)) = contents_file (ends s a) \<Longrightarrow> bare (upd_end a f s)"
  by (auto simp: bare_def upd_end_def)

lemma bare_fields [bare]:
  "bare s \<Longrightarrow> bare (s\<lparr>an_is_partial := b\<rparr>)" "bare s \<Longrightarrow> bare (s\<lparr>conn_last_time := d\<rparr>)" "bare s \<Longrightarrow> bare (s\<lparr>seen_first_ACK := b\<rparr>)"
  by (simp_all add: bare_def)

lemma bare_reasm: "bare s \<Longrightarrow> reasm_call C p a f s = Ret s"
  by (simp add: bare_def reasm_call_def)

lemma bare_Checksum: "bare s \<Longrightarrow> bare (snd (ValidateChecksum C p a len caplen s))"
  by (simp add: ValidateChecksum_def bare)

lemma bare_Flags: "bare s \<Longrightarrow> bare (CheckFlagCombos fl a b len s)"
  unfolding CheckFlagCombos_def Let_def by (intro bare bare_upd; simp)

lemma bare_Window: "bare s \<Longrightarrow> UpdateWindow a w b k fl s = Ret s' \<Longrightarrow> bare s'"
  by (auto simp: UpdateWindow_def Let_def split: if_splits intro!: bare bare_upd)

lemma bare_SYN: "bare s \<Longrightarrow> ProcessSYN C p a n b k fl s = Ret (m, s') \<Longrightarrow> bare s'"
  by (auto simp: ProcessSYN_def run_bind_eq_Ret Let_def intro!: bare bare_upd)

lemma bare_FIN: "bare s \<Longrightarrow> bare (snd (ProcessFIN C t a n b s))"
  unfolding ProcessFIN_def Let_def snd_conv by (intro bare bare_upd; simp)

lemma bare_RST: "bare s \<Longrightarrow> bare (snd (ProcessRST C t a l n s))"
  unfolding ProcessRST_def Let_def snd_conv by (intro bare bare_upd; simp)

lemma ProcessACK_returns: "bare s \<Longrightarrow> \<exists>s'. ProcessACK C p a k fl s = Ret s' \<and> bare s'"
  unfolding ProcessACK_def Let_def
  by (subst bare_reasm; (intro exI conjI, rule refl)?; intro bare bare_upd; simp add: UpdateAckSeq_def Let_def)

lemma bare_Transition: "bare s \<Longrightarrow> bare (TransitionFromInactive t a b l y s)"
  unfolding TransitionFromInactive_def Let_def by (intro bare bare_upd; simp)

lemma bare_LastSeq: "bare s \<Longrightarrow> bare (snd (an_UpdateLastSeq a l fl s))"
  unfolding an_UpdateLastSeq_def Let_def snd_conv by (intro bare bare_upd; simp add: UpdateLastSeq_def Let_def)

lemma bare_inactive_SYN [bare]: "bare s \<Longrightarrow> bare (inactive_SYN C p a b k fl s)"
  unfolding inactive_SYN_def Let_def by (intro bare)

lemma bare_inactive_RST [bare]: "bare s \<Longrightarrow> bare (snd (inactive_RST C p a s))"
  unfolding inactive_RST_def Let_def snd_conv by (intro bare)

lemma bare_inactive_other [bare]: "bare s \<Longrightarrow> bare (inactive_other C p a len s)"
  unfolding inactive_other_def Let_def by (intro bare)

lemma bare_machine:
  assumes "bare s"
  shows "bare (snd (snd (UpdateStateMachine C p a b k l len d fl s)))"
proof -
  have inactive: "bare (snd (snd (UpdateInactiveState C p a b k len fl s)))"
    unfolding UpdateInactiveState_def Let_def case_prod_beta snd_conv by (intro bare assms)
  have syn: "bare (snd (snd (UpdateSYN_SentState C p a b l len fl s)))"
    unfolding UpdateSYN_SentState_def Let_def case_prod_beta snd_conv
    by (intro bare bare_upd assms; simp add: restart_seq_def)
  have established: "bare (snd (snd (UpdateEstablishedState C a b l fl s)))"
    unfolding UpdateEstablishedState_def Let_def case_prod_beta snd_conv
    by (intro bare bare_upd assms; simp add: restart_seq_def)
  have closed: "bare (snd (snd (UpdateClosedState C (pkt_time p) a d fl s)))"
    unfolding UpdateClosedState_def Let_def by (auto intro!: bare assms)
  have reset: "bare (UpdateResetState len fl s)" unfolding UpdateResetState_def by (intro bare assms)
  show ?thesis
    using inactive syn established closed reset by (cases "ep_state (ends s a)") (simp_all add: UpdateStateMachine_def)
qed

lemma bare_advance:
  assumes "bare s"
  shows "bare (snd (snd (advance_machine C p a len b k fl n s)))"
  unfolding advance_machine_def Let_def case_prod_beta
  by (intro bare_machine bare_upd bare_LastSeq bare_if bare_Transition assms; simp)

lemma history_ends [simp]:
  "ends (AddHistory a ch s) = ends s" "ends (snd (CheckHistory a m ch s)) = ends s" "ends (control_history a m ch c s) = ends s"
  by (auto simp: AddHistory_def CheckHistory_def control_history_def Let_def split: prod.splits)

lemma window_kept:
  "window_view (ends (CheckFlagCombos fl a b len s) c) = window_view (ends s c)"
  by (simp add: CheckFlagCombos_def Let_def window_view_def)

text \<open>When the move of the window's edge is a number whose negation exists.\<close>

definition window_fits :: "u8 \<Rightarrow> u32 \<Rightarrow> u32 \<Rightarrow> tcp_end \<Rightarrow> bool" where
  "window_fits fl acks win e \<longleftrightarrow> 0 \<le> window_scale e \<and> window_scale e < 31
     \<and> (SYN fl \<or> acks + push_bit (nat (window_scale e)) win - (window_ack_seq e + window e) \<noteq> 2 ^ 31)"

lemma UpdateWindow_returns:
  assumes "window_fits fl k w (ends s a)"
  shows "\<exists>s'. UpdateWindow a w b k fl s = Ret s'"
proof -
  have "sint x = - (2 ^ 31) \<longleftrightarrow> x = 2 ^ 31" for x :: u32
  proof
    assume "sint x = - (2 ^ 31)"
    then have "sint x = sint (2 ^ 31 :: u32)" by simp
    then show "x = 2 ^ 31" by (simp only: signed_word_eqI)
  qed simp
  then show ?thesis using assms by (auto simp: UpdateWindow_def window_fits_def Let_def)
qed

lemma window_fits_view: "window_view e' = window_view e \<Longrightarrow> window_fits fl k w e' = window_fits fl k w e"
  by (simp add: window_view_def window_fits_def)

lemma ProcessFlags_returns:
  assumes "bare s" "th_off (pkt_data p) * 4 \<le> length (pkt_data p)"
  shows "\<exists>n s'. ProcessFlags C p a len b k fl s = Ret (n, s') \<and> bare s'"
proof -
  obtain n1 s1 where 1: "(if SYN fl then ProcessSYN C p a len b k fl s else Ret (len, s)) = Ret (n1, s1)" "bare s1"
  proof (cases "SYN fl")
    case True
    obtain ws mss sk where "BuildSYNPacketVal p = Ret (ws, mss, sk)"
      using syn_options_return [OF assms(2)] unfolding BuildSYNPacketVal_def by (metis prod_cases3)
    then obtain n1 s1 where syn: "ProcessSYN C p a len b k fl s = Ret (n1, s1)" by (simp add: ProcessSYN_def Let_def)
    have "bare s1" by (rule bare_SYN [OF assms(1) syn])
    with True syn that show ?thesis by simp
  qed (use assms(1) that in simp)
  define f where "f = (if FIN fl then ProcessFIN C (pkt_time p) a n1 b s1 else (n1, s1))"
  define r where "r = (if RST fl then ProcessRST C (pkt_time p) a len (fst f) (snd f) else f)"
  have "bare (snd f)" using 1(2) by (simp add: f_def bare_FIN)
  then have r: "bare (snd r)" by (simp add: r_def bare_RST)
  have "\<exists>s'. (if ACK fl then ProcessACK C p a k fl (snd r) else Ret (snd r)) = Ret s' \<and> bare s'"
    using ProcessACK_returns [OF r] r by simp
  moreover have "ProcessFlags C p a len b k fl s
      = run_bind (if ACK fl then ProcessACK C p a k fl (snd r) else Ret (snd r)) (\<lambda>s. Ret (fst r, s))"
    using 1(1) by (simp add: ProcessFlags_def r_def f_def Let_def case_prod_beta)
  ultimately show ?thesis by (cases r) auto
qed

lemma packet_events_return:
  assumes "bare s" "0 \<le> len" "0 \<le> caplen" "nat hl \<le> length (pkt_data p)"
  shows "\<exists>s'. packet_events C p a b k len caplen data hl fl s = Ret s' \<and> bare s'"
proof -
  have "\<exists>s1. (if has_tcp_packet C then GeneratePacketEvent a b k len caplen data (pkt_orig p) fl s else Ret s) = Ret s1 \<and> bare s1"
    using assms(1-3) by (auto simp: GeneratePacketEvent_def bare)
  then obtain s1 where 1: "(if has_tcp_packet C then GeneratePacketEvent a b k len caplen data (pkt_orig p) fl s else Ret s) = Ret s1" "bare s1"
    by blast
  obtain es where "(if has_tcp_option C \<and> hl > 20 \<and> (word_of_int hl :: u32) \<le> word_of_int caplen
      then option_events (pkt_orig p) (pkt_data p) (nat hl) 20 else Ret []) = Ret es"
    using option_events_return [OF assms(4)] by (cases "has_tcp_option C \<and> hl > 20 \<and> (word_of_int hl :: u32) \<le> word_of_int caplen") auto
  then show ?thesis using 1 by (simp add: packet_events_def bare)
qed

lemma deliver_returns:
  assumes "bare s"
  shows "\<exists>s'. deliver_and_close C p a b len caplen data fl c g s = Ret s'"
proof -
  have none: "proc (ends s a) = None" "contents_file (ends s a) = None" for a using assms by (simp_all add: bare_def)
  then have "contents_file (endp (env_of p a s)) = None" by (simp add: env_of_def TCP_Endpoint.truncate_def)
  then obtain n e' where d: "endpoint_DataSent (reasm_conf C) (env_of p a s) (b - start_seq (ends s a) + of_bool (SYN fl)) len
      (int (length data)) data (map_option (with_stats s) (proc (ends s a))) = Ret (n, e', None)" "contents_file e' = None"
    using none that by (simp add: endpoint_DataSent_def Let_def)
  then have "\<exists>n s1. (if len > 0 \<and> (caplen \<ge> len \<or> packet_children s) \<and> \<not> RST fl \<and> \<not> an_skip s
      then DeliverData C p a b len data fl s else Ret (0, s)) = Ret (n, s1) \<and> bare s1"
    using assms none bare_upd [OF assms, of "\<lambda>e. e\<lparr>contents_file := None\<rparr>" a] by (simp add: DeliverData_def Let_def)
  then obtain n s1 where "(if len > 0 \<and> (caplen \<ge> len \<or> packet_children s) \<and> \<not> RST fl \<and> \<not> an_skip s
      then DeliverData C p a b len data fl s else Ret (0, s)) = Ret (n, s1)" "bare s1" by blast
  then show ?thesis by (simp add: deliver_and_close_def bare_reasm Let_def)
qed

lemma accept_returns:
  assumes "bare s" "hl = int (th_off (pkt_data p)) * 4" "hl \<le> int (length (pkt_data p))" "hl \<le> pkt_len p"
    and "window_fits (th_flags (pkt_data p)) (th_ack (pkt_data p)) (ucast (th_win (pkt_data p))) (ends s a)"
  shows "\<exists>s'. accept_packet C p a hl s = Ret s'"
proof -
  define d where "d = pkt_data p"
  define len where "len = pkt_len p - hl"
  define s1 where "s1 = CheckFlagCombos (th_flags d) a (th_seq d) len s"
  have b1: "bare s1" unfolding s1_def by (rule bare_Flags [OF assms(1)])
  have "window_fits (th_flags d) (th_ack d) (ucast (th_win d)) (ends s1 a)"
    using assms(5) unfolding s1_def d_def window_fits_view [OF window_kept] .
  then obtain s2 where s2: "UpdateWindow a (ucast (th_win d)) (th_seq d) (th_ack d) (th_flags d) s1 = Ret s2"
    using UpdateWindow_returns by blast
  define s3 where "s3 = (if \<not> BothClosed s2 then s2\<lparr>conn_last_time := pkt_time p\<rparr> else s2)"
  have b3: "bare s3" using bare_Window [OF b1 s2] by (simp add: s3_def bare)
  have cap: "th_off (pkt_data p) * 4 \<le> length (pkt_data p)" "nat hl \<le> length (pkt_data p)" using assms(2,3) by simp_all
  obtain n s4 where s4: "ProcessFlags C p a len (th_seq d) (th_ack d) (th_flags d) s3 = Ret (n, s4)" "bare s4"
    using ProcessFlags_returns [OF b3 cap(1)] by blast
  obtain c g s5 where s5: "advance_machine C p a len (th_seq d) (th_ack d) (th_flags d) n s4 = (c, g, s5)" by (metis prod_cases3)
  have b5: "bare s5" using bare_advance [OF s4(2), of C p a len "th_seq d" "th_ack d" "th_flags d" n] s5 by simp
  have pos: "0 \<le> len" "0 \<le> int (length d) - hl" using assms(3,4) by (simp_all add: len_def d_def)
  obtain s6 where s6: "packet_events C p a (th_seq d) (th_ack d) len (int (length d) - hl) (drop (nat hl) d) hl (th_flags d) s5 = Ret s6" "bare s6"
    using packet_events_return [OF b5 pos cap(2)] by blast
  obtain s' where "deliver_and_close C p a (th_seq d) len (int (length d) - hl) (drop (nat hl) d) (th_flags d) c g s6 = Ret s'"
    using deliver_returns [OF s6(2)] by blast
  then show ?thesis
    using s2 s4(1) s5 s6(1)
    by (simp add: accept_packet_def Let_def d_def [symmetric] len_def [symmetric] s1_def [symmetric] s3_def [symmetric])
qed

lemma captured_returns:
  assumes "bare s" "13 \<le> length (pkt_data p)" "th_off (pkt_data p) * 4 \<le> length (pkt_data p)"
    and "window_fits (th_flags (pkt_data p)) (th_ack (pkt_data p)) (ucast (th_win (pkt_data p))) (ends s (pkt_orig p \<longleftrightarrow> orig_at s))"
  shows "\<exists>s'. DeliverPacket C p s = Ret s'"
proof -
  let ?hl = "int (th_off (pkt_data p)) * 4"
  note b = assms(1)
  have "\<exists>s'. process_packet C p ?hl s = Ret s'" if hl: "?hl \<le> pkt_len p"
  proof -
    define len where "len = pkt_len p - ?hl"
    define caplen where "caplen = int (length (pkt_data p)) - ?hl"
    define s1 where "s1 = (if has_packet_contents C \<and> min len caplen > 0
               then put_out [PacketContents (take (nat (min len caplen)) (drop (nat ?hl) (pkt_data p)))] s else s)"
    define a where "a = (pkt_orig p \<longleftrightarrow> orig_at s1)"
    define s2 where "s2 = snd (ValidateChecksum C p a len caplen s1)"
    have "bare s1" using b by (simp add: s1_def bare)
    then have "bare s2" unfolding s2_def by (rule bare_Checksum)
    moreover have "ends s2 = ends s" "a = (pkt_orig p \<longleftrightarrow> orig_at s)" by (simp_all add: s2_def s1_def a_def ValidateChecksum_def)
    ultimately obtain s' where "accept_packet C p a ?hl s2 = Ret s'"
      using accept_returns [of s2 ?hl p a C] assms(3,4) hl by auto
    moreover have "process_packet C p ?hl s = (if fst (ValidateChecksum C p a len caplen s1) then accept_packet C p a ?hl s2 else Ret s2)"
      unfolding process_packet_def Let_def case_prod_beta
        len_def [symmetric] caplen_def [symmetric] s1_def [symmetric] a_def [symmetric] s2_def [symmetric] ..
    ultimately show ?thesis by simp
  qed
  then show ?thesis using assms(2) by (auto simp: DeliverPacket_def ExtractTCP_Header_def Let_def)
qed


section \<open>The handshake\<close>




section \<open>A connection\<close>

abbreviation demo_tcp_conf where "demo_tcp_conf \<equiv>
  \<lparr>content_gap = True, report_gaps_for_partial = False, tcp_match_undelivered = True, rule_matcher = True,
   rexmit_inconsistency = True, tcp_contents = False, deliver_all_orig = False, deliver_all_resp = False, port_listed = False,
   tcp_max_initial_window = 0, tcp_max_above_hole_without_any_acks = 0, tcp_excessive_data_without_further_acks = 0\<rparr>"

abbreviation demo_an_conf where "demo_an_conf \<equiv>
  \<lparr>reasm_conf = demo_tcp_conf, has_connection_attempt = True, has_connection_reset = True, has_connection_partial_close = True,
   has_connection_pending = True, has_connection_EOF = False, has_connection_SYN_packet = False,
   has_new_connection_contents = False, has_tcp_packet = False, has_tcp_option = False, has_packet_contents = False,
   wants_fingerprint = (\<lambda>a. False), status_updates = False, ignore_checksums = False, record_contents = False,
   record_packets = False, tcp_SYN_timeout = 5, tcp_attempt_delay = 5, tcp_reset_delay = 5, tcp_close_delay = 5,
   tcp_partial_close_delay = 3, tcp_session_timer = 6, tcp_connection_linger = 5, tcp_inactivity_timeout = 300,
   tcp_storm_interarrival_thresh = 1, tcp_storm_thresh = 1000\<rparr>"

abbreviation demo_tcp_stats where "demo_tcp_stats \<equiv>
  \<lparr>tot_ack_events = 0, tot_ack_bytes = 0, tot_gap_events = 0, tot_gap_bytes = 0,
   last_ack_events = 0, last_ack_bytes = 0, last_gap_events = 0, last_gap_bytes = 0\<rparr>"

abbreviation demo_analyzer where
  "demo_analyzer \<equiv> new_TCP_Analyzer demo_an_conf 10 False demo_tcp_stats [10, 0, 0, 1] [10, 0, 0, 2] 4000 80"

text \<open>A packet without options and payload: its direction, the last bytes of its two numbers, and its flags.\<close>

abbreviation demo_packet where "demo_packet dir sq ac fl \<equiv>
  \<lparr>pkt_time = 11, pkt_orig = dir, pkt_data = [0, 80, 15, 160, 0, 0, 0, sq, 0, 0, 0, ac, 80, fl, 1, 0, 0, 0, 0, 0], pkt_len = 20,
   checksum_ok = True, os_found = False, due_report = False, file_ok = True\<rparr>"

lemma demo_header:
  "th_off [0, 80, 15, 160, 0, 0, 0, sq, 0, 0, 0, ac, 80, fl, 1, 0, 0, 0, 0, 0] = 5"
  "th_flags [0, 80, 15, 160, 0, 0, 0, sq, 0, 0, 0, ac, 80, fl, 1, 0, 0, 0, 0, 0] = fl"
  "th_seq [0, 80, 15, 160, 0, 0, 0, sq, 0, 0, 0, ac, 80, fl, 1, 0, 0, 0, 0, 0] = ucast sq"
  "th_ack [0, 80, 15, 160, 0, 0, 0, sq, 0, 0, 0, ac, 80, fl, 1, 0, 0, 0, 0, 0] = ucast ac"
  "th_win [0, 80, 15, 160, 0, 0, 0, sq, 0, 0, 0, ac, 80, fl, 1, 0, 0, 0, 0, 0] = 256"
  by (simp_all add: th_off_def th_flags_def th_seq_def th_ack_def th_win_def be32_def be16_def)

lemmas tcp_state_eval = DeliverPacket_def ExtractTCP_Header_def process_packet_def ValidateChecksum_def accept_packet_def
  CheckFlagCombos_def control_history_def CheckHistory_def AddHistory_def UpdateWindow_def ProcessFlags_def ProcessFIN_def
  ProcessRST_def ProcessACK_def advance_machine_def TransitionFromInactive_def an_UpdateLastSeq_def UpdateStateMachine_def
  packet_events_def deliver_and_close_def reasm_call_def UpdateInactiveState_def inactive_RST_def inactive_other_def
  UpdateEstablishedState_def UpdateClosedState_def SetState_def is_handshake_def ConnectionClosed_def an_DataPending_def
  close_completed_def close_incomplete_def ConnectionFinished_def ConnectionReset_def CheckRecording_def CheckPIA_FirstPacket_def
  BothClosed_def EnableStatusUpdateTimer_def put_out_def upd_end_def Weird_def weird_if_def seq_delta_def UpdateLastSeq_def
  UpdateAckSeq_def flag_set_def TH_FIN_def TH_SYN_def TH_RST_def TH_ACK_def TH_URG_def TOO_LARGE_SEQ_DELTA_def Let_def
  lower_code_def HIST_SYN_PKT_def HIST_FIN_PKT_def HIST_RST_PKT_def HIST_FIN_RST_PKT_def HIST_DATA_PKT_def HIST_ACK_PKT_def
  HIST_MULTI_FLAG_PKT_def HIST_CORRUPT_PKT_def new_TCP_Analyzer_def new_tcp_end_def

text \<open>
  A connection that is reported as finished twice: the originator is first seen with an acknowledgement, the responder
  answers with a reset, and the originator with a FIN.
\<close>

lemma demo_finished_twice:
  "\<exists>s. run_bind (DeliverPacket demo_an_conf (demo_packet True 5 7 16) demo_analyzer)
       (\<lambda>s. run_bind (DeliverPacket demo_an_conf (demo_packet False 7 5 4) s)
       (DeliverPacket demo_an_conf (demo_packet True 5 7 1))) = Ret s
     \<and> filter finishing (an_out s) = [Event ''connection_finished'', Event ''connection_finished'']"
  by (simp add: tcp_state_eval demo_header finishing_def cong: run_bind_weak let_weak_cong)

lemma packets_reach:
  assumes "tcp_reachable C s" "run_bind (DeliverPacket C p s) (\<lambda>s. run_bind (DeliverPacket C q s) (DeliverPacket C r)) = Ret s'"
  shows "tcp_reachable C s'"
proof -
  obtain t u where "DeliverPacket C p s = Ret t" "DeliverPacket C q t = Ret u" "DeliverPacket C r u = Ret s'"
    using assms(2) by (auto simp: run_bind_eq_Ret)
  then show ?thesis using assms(1) by (blast intro: reach_event event_packet)
qed

theorem connection_announced_once_witness:
  "\<exists>s. tcp_reachable demo_an_conf s
    \<and> length (filter (\<lambda>e. e = Event ''connection_established'') (an_out s)) \<le> 1
    \<and> length (filter (\<lambda>e. e = Event ''connection_finished'' \<or> e = Event ''connection_half_finished'') (an_out s)) = 2
    \<and> did_close (ends s True) \<and> did_close (ends s False)"
proof -
  obtain s where run: "run_bind (DeliverPacket demo_an_conf (demo_packet True 5 7 16) demo_analyzer)
       (\<lambda>s. run_bind (DeliverPacket demo_an_conf (demo_packet False 7 5 4) s)
       (DeliverPacket demo_an_conf (demo_packet True 5 7 1))) = Ret s"
    "length (filter finishing (an_out s)) = 2" using demo_finished_twice by auto
  have r: "tcp_reachable demo_an_conf s" by (rule packets_reach [OF reach_new run(1)])
  note ok = connection_announced_once [OF r]
  have "(of_bool (did_close (ends s True)) + of_bool (did_close (ends s False)) :: nat) \<ge> 2"
    using ok run(2) by (simp add: finishing_def [abs_def])
  then have "did_close (ends s True)" "did_close (ends s False)" by (auto simp: of_bool_def split: if_splits)
  then show ?thesis using r ok run(2) by (auto simp: finishing_def [abs_def])
qed

lemma demo_bare: "proc (ends demo_analyzer a) = None" "contents_file (ends demo_analyzer a) = None"
  by (simp_all add: new_TCP_Analyzer_def new_tcp_end_def)


theorem tcp_states_advance_witness:
  "\<exists>s'. DeliverPacket demo_an_conf (demo_packet True 5 7 2) demo_analyzer = Ret s'
    \<and> (ep_state (ends s' True) = TCP_ENDPOINT_INACTIVE \<or> stage (ep_state (ends s' True)) > 0)"
proof -
  have "bare demo_analyzer" by (simp add: bare_def demo_bare)
  then obtain s' where s': "DeliverPacket demo_an_conf (demo_packet True 5 7 2) demo_analyzer = Ret s'"
    using captured_returns [of demo_analyzer "demo_packet True 5 7 2" demo_an_conf]
    by (auto simp: demo_header window_fits_def new_TCP_Analyzer_def new_tcp_end_def flag_set_def TH_SYN_def)
  then have "(tcp_event demo_an_conf)\<^sup>*\<^sup>* demo_analyzer s'" by (blast intro: event_packet)
  from tcp_states_advance [OF this, of True] s' show ?thesis
    by (auto simp: new_TCP_Analyzer_def new_tcp_end_def stage_def doubleton_eq_iff)
qed


section \<open>What the analyzer does not check\<close>

text \<open>C38. A SYN of which only the first 20 bytes were captured, while its header goes on with options: the checksum is not
  tested, the header is accepted, and the options are read beyond the captured bytes, in every state of the connection.\<close>

theorem truncated_options_overread:
  assumes "length (pkt_data p) = 20" "th_off (pkt_data p) > 5" "th_off (pkt_data p) * 4 \<le> pkt_len p" "SYN (th_flags (pkt_data p))"
  shows "DeliverPacket C p s = Undef"
proof -
  let ?d = "pkt_data p" and ?hl = "int (th_off (pkt_data p)) * 4"
  have "syn_options ?d (th_off ?d * 4) 20 (-1, 0, False) = Undef" using assms(1,2) by (simp add: syn_options.simps)
  then have flags: "ProcessFlags C p a len b k (th_flags ?d) t = Undef" for a len b k t
    using assms(4) by (simp add: ProcessFlags_def ProcessSYN_def BuildSYNPacketVal_def Let_def)
  have "UpdateWindow a w b k fl t = Undef \<or> (\<exists>t'. UpdateWindow a w b k fl t = Ret t')" for a w b k fl t
    by (simp add: UpdateWindow_def Let_def)
  then have accept: "accept_packet C p a ?hl t = Undef" for a t
    unfolding accept_packet_def Let_def flags by (metis run_bind.simps)
  have "fst (ValidateChecksum C p a (pkt_len p - ?hl) (int (length ?d) - ?hl) t)" for a t
    using assms(1-3) by (simp add: ValidateChecksum_def)
  then have "process_packet C p ?hl t = Undef" for t by (simp add: process_packet_def Let_def case_prod_beta accept)
  then show ?thesis using assms(1-3) by (simp add: DeliverPacket_def ExtractTCP_Header_def Let_def)
qed

theorem truncated_options_overread_witness:
  "DeliverPacket demo_an_conf ((demo_packet True 5 7 2)\<lparr>pkt_data := replicate 12 0 @ [96, 2, 0, 0, 0, 0, 0, 0], pkt_len := 24\<rparr>) demo_analyzer = Undef"
  by (rule truncated_options_overread) (simp_all add: th_off_def th_flags_def flag_set_def TH_SYN_def nth_append)

text \<open>The window scale is taken from the option as it is: when it is 32 or more, the next packet of that side with a
  good header and checksum shifts the window by more than its width, which C++ leaves undefined.\<close>

theorem window_scale_undefined:
  assumes "accepted C p" "window_scale (ends s (pkt_orig p \<longleftrightarrow> orig_at s)) \<ge> 32"
  shows "DeliverPacket C p s = Undef"
proof -
  let ?hl = "int (th_off (pkt_data p)) * 4"
  have hl: "20 \<le> ?hl" "?hl \<le> pkt_len p" "20 \<le> length (pkt_data p)" using assms(1) by (simp_all add: accepted_def Let_def)
  have accept: "accept_packet C p (pkt_orig p \<longleftrightarrow> orig_at s) ?hl t = Undef" if "ends t = ends s" for t
  proof -
    have "window_scale (ends (CheckFlagCombos fl a b len t) a) = window_scale (ends t a)" for fl a b len
      using window_kept [of fl a b len t a] by (simp add: window_view_def)
    then have "UpdateWindow a w b k fl (CheckFlagCombos fl' a b' len t) = Undef" if "window_scale (ends s a) \<ge> 32" for a w b k fl fl' b' len
      using that \<open>ends t = ends s\<close> by (simp add: UpdateWindow_def Let_def)
    then show ?thesis using assms(2) unfolding accept_packet_def Let_def by simp
  qed
  have valid: "fst (ValidateChecksum C p a (pkt_len p - ?hl) (int (length (pkt_data p)) - ?hl) t)" for a t
    using assms(1) by (auto simp: ValidateChecksum_def accepted_def Let_def)
  have e: "ends (snd (ValidateChecksum C p a l cl (if c then put_out x s else s))) = ends s" for a l cl c x
    by (simp add: ValidateChecksum_def)
  have o: "orig_at (if c then put_out x s else s) = orig_at s" for c x by simp
  have "process_packet C p ?hl s = Undef"
    unfolding process_packet_def Let_def case_prod_beta o using valid accept e by simp
  then show ?thesis using hl by (simp add: DeliverPacket_def ExtractTCP_Header_def Let_def)
qed

text \<open>A SYN with the window scale 40.\<close>

abbreviation demo_scaled where
  "demo_scaled \<equiv> (demo_packet True 5 7 2)\<lparr>pkt_data := [0, 80, 15, 160, 0, 0, 0, 5, 0, 0, 0, 7, 96, 2, 1, 0, 0, 0, 0, 0, 3, 3, 40, 0], pkt_len := 24\<rparr>"

lemma demo_scaled_header:
  "th_off (pkt_data demo_scaled) = 6" "th_flags (pkt_data demo_scaled) = 2" "th_seq (pkt_data demo_scaled) = 5"
  "th_ack (pkt_data demo_scaled) = 7" "th_win (pkt_data demo_scaled) = 256"
  by (simp_all add: th_off_def th_flags_def th_seq_def th_ack_def th_win_def be32_def be16_def)

lemma demo_scaled_options: "BuildSYNPacketVal demo_scaled = Ret (40, 0, False)"
  by (simp add: BuildSYNPacketVal_def demo_scaled_header [simplified] syn_options.simps Let_def)

lemma demo_scaled_state: "\<exists>s. DeliverPacket demo_an_conf demo_scaled demo_analyzer = Ret s \<and> orig_at s \<and> window_scale (ends s True) = 40"
  by (simp add: tcp_state_eval ProcessSYN_def inactive_SYN_def demo_scaled_options [simplified] demo_scaled_header [simplified]
      cong: run_bind_weak let_weak_cong)

theorem window_scale_undefined_witness:
  "run_bind (DeliverPacket demo_an_conf demo_scaled demo_analyzer) (DeliverPacket demo_an_conf (demo_packet True 6 8 16)) = Undef"
proof -
  obtain s where s: "DeliverPacket demo_an_conf demo_scaled demo_analyzer = Ret s" "orig_at s" "window_scale (ends s True) = 40"
    using demo_scaled_state by blast
  have "DeliverPacket demo_an_conf (demo_packet True 6 8 16) s = Undef"
    by (rule window_scale_undefined) (simp_all add: accepted_def demo_header s)
  with s show ?thesis by simp
qed

section \<open>The archive\<close>

lemma bit_read: "drop_bit k b AND 1 = 1 \<longleftrightarrow> bit b k" for b :: u32
  by (simp add: and_one_eq bit_iff_odd_drop_bit mod_2_eq_odd)

lemma bit_flag: "bit (push_bit (numeral n) (of_bool c) :: u32) k \<longleftrightarrow> numeral n < (32 :: nat) \<and> k = numeral n \<and> c"
  "bit (push_bit 1 (of_bool c) :: u32) k \<longleftrightarrow> k = 1 \<and> c"
  unfolding bit_push_bit_iff bit_of_bool_iff by auto

text \<open>The nine flags of an analyzer survive the pack into the 32-bit field of the archive and the load from it, and the
  load changes nothing else.\<close>

theorem analyzer_bits_roundtrip:
  "load_bitfields (an_bitfields s) t =
     t\<lparr>first_orig := first_orig s, first_resp := first_resp s, reassembling := reassembling s, an_is_partial := an_is_partial s,
       is_active := is_active s, finished := finished s, close_deferred := close_deferred s,
       deferred_gen_event := deferred_gen_event s, seen_first_ACK := seen_first_ACK s\<rparr>"
proof -
  have b: "bit (an_bitfields s) k \<longleftrightarrow>
      k = 0 \<and> first_orig s \<or> k = 1 \<and> first_resp s \<or> k = 2 \<and> reassembling s \<or> k = 3 \<and> an_is_partial s \<or> k = 4 \<and> is_active s
      \<or> k = 5 \<and> finished s \<or> k = 6 \<and> close_deferred s \<or> k = 7 \<and> deferred_gen_event s \<or> k = 8 \<and> seen_first_ACK s" for k
    by (simp only: an_bitfields_def bit_or_iff bit_flag bit_of_bool_iff simp_thms disj_assoc) simp
  have first: "(b AND 3) AND 1 \<noteq> 0 \<longleftrightarrow> bit b 0" "(b AND 3) AND 2 \<noteq> 0 \<longleftrightarrow> bit b 1" for b :: u32
  proof -
    have "(b AND 3) AND 1 = b AND 1" "(b AND 3) AND 2 = b AND 2" by (simp_all add: and.assoc)
    then show "(b AND 3) AND 1 \<noteq> 0 \<longleftrightarrow> bit b 0" "(b AND 3) AND 2 \<noteq> 0 \<longleftrightarrow> bit b 1"
      using and_exp_eq_0_iff_not_bit [of b 0] and_exp_eq_0_iff_not_bit [of b 1] by simp_all
  qed
  show ?thesis by (simp add: load_bitfields_def bit_read first b)
qed

end
