(* ===== verification/Spec2Isabelle.thy ===== *)
theory Spec2Isabelle
  imports Sdmbn_Conn Sdmbn_Event_Props Sdmbn_State_Props Sdmbn_Core
    Bro_Queue Bro_Timer Bro_Frag_Props Bro_Sdmbn_Props
    Nf_Iptables_Props Bro_Dict_Robust Bro_List_Props
    Bro_Base64_Props Bro_IntSet Bro_Tcp_Facts
    Bro_TcpState_Facts
begin

text \<open>
  A verification development of OpenNF, a control plane that moves the state of network functions
  between their instances.  It models the C and C++ code of the network functions' side.

  \<^bold>\<open>The program.\<close>  A controller (Java, under \<^verbatim>\<open>src/controller\<close>) talks to network functions over two
  connections each.  The shared library, \<^verbatim>\<open>src/shared\<close>, is linked into every network function: it
  reads commands from the state connection, calls the function's callbacks to get, put and delete
  state, sends exported state and acknowledgements, and for packets consults event filters that the
  controller installs, which drop, buffer or process a packet and raise events.  Two network
  functions are part of the repository: one that moves the connections the Linux kernel tracks, in
  \<^verbatim>\<open>src/iptables-sdmbn\<close>, and the intrusion detection system Bro with callbacks added, in
  \<^verbatim>\<open>src/bro-2.1/src\<close>.

  \<^bold>\<open>Shared ground.\<close>  \<open>OFM_Prelude\<close> has machine words, byte order and the outcome type \<open>run\<close>: a value,
  \<open>Undef\<close> for undefined behaviour, \<open>Blocked\<close> for a mutex that is never released, \<open>Aborted\<close> for a failed
  assertion or fatal report.  Every access to memory that the code does not check is checked in the
  model and gives \<open>Undef\<close> when it is out of range.  \<open>OFM_Refine\<close> has the locale \<open>refines\<close>, a simulation of
  operations with results that is lifted once to sequences of operations; the dictionary, the list and the
  integer set are its interpretations.

  \<^bold>\<open>The shared library.\<close>
  \<^item> \<open>Sdmbn_Types\<close>: the structures of \<^verbatim>\<open>SDMBN.h\<close>, \<^verbatim>\<open>event.h\<close>, \<^verbatim>\<open>SDMBNCore.h\<close>, \<^verbatim>\<open>SDMBNConfig.h\<close>, and the
    globals of the library as the record \<open>sdmbn\<close>; \<open>s_sent\<close> is the history of messages sent, with the
    connection of each, and \<open>s_nf\<close> the state of the network function.
  \<^item> \<open>Sdmbn_Base64\<close> (\<^verbatim>\<open>SDMBNCore.c\<close>): the text encoding of blobs, its round trip and the overrun for
    texts of odd length.
  \<^item> \<open>Sdmbn_Json\<close> (\<^verbatim>\<open>SDMBNJson.c\<close>): flow keys as JSON; the JSON library is a record of functions whose
    documented laws are the locale \<open>json_c_laws\<close>, interpreted on a model of JSON values.
  \<^item> \<open>Sdmbn_Messages\<close>: the composition of every message and \<open>json_send\<close>.
  \<^item> \<open>Sdmbn_Conn\<close> (\<^verbatim>\<open>SDMBNConn.c\<close>): message framing over a stream that splits at will; every message
    arrives whole, and a stream that ends inside one is read for ever.
  \<^item> \<open>Sdmbn_Event\<close>, \<open>Sdmbn_Event_Props\<close> (\<^verbatim>\<open>event.c\<close>): the filters, the decision for a packet, buffering
    and the release of buffered packets.  The search over the filters refines "the newest filter that covers
    the packet"; packets are released in order; the processing lock is balanced.
  \<^item> \<open>Sdmbn_State\<close>, \<open>Sdmbn_State_Props\<close> (\<^verbatim>\<open>state.c\<close>): the command handlers and their dispatch.  Every
    command gets exactly one reply; exported per-flow state reaches the put callback unchanged.
  \<^item> \<open>Sdmbn_Core\<close> (\<^verbatim>\<open>SDMBNCore.c\<close>, \<^verbatim>\<open>SDMBNConfig.c\<close>): start-up, shutdown, notifications and the configuration
    file.

  \<^bold>\<open>The iptables network function.\<close>
  \<^item> \<open>Nf_Netmsg\<close>, \<open>Nf_Netmsg_Props\<close> (\<^verbatim>\<open>utils/build.c\<close>, \<^verbatim>\<open>parse.c\<close>, \<^verbatim>\<open>network.c\<close>, \<^verbatim>\<open>network.h\<close>): the binary message for
    a connection.  The builder appends the encoding of a list of attributes to a static buffer and
    never fills a seventh of it; parsing has the effect of copying the attributes directly
    (\<open>copy_conn\<close>); arbitrary bytes are parsed without leaving the buffer.
  \<^item> \<open>Nf_Iptables\<close>, \<open>Nf_Iptables_Props\<close> (\<^verbatim>\<open>main.c\<close>): the callbacks.  The message format, the text encoding
    and the state messages together move a connection; deletion and export select the same
    connections; several failures are reported as successes.

  \<^bold>\<open>Bro.\<close>
  \<^item> \<open>Bro_Queue\<close> (\<^verbatim>\<open>Queue.cc\<close>): a ring buffer; the locale \<open>deque\<close> is its contract and the list its
    specification.
  \<^item> \<open>Bro_PriorityQueue\<close> (\<^verbatim>\<open>PriorityQueue.cc\<close>): a heap with offsets in its elements; the locale
    \<open>priority_queue\<close> is its contract.
  \<^item> \<open>Bro_Timer\<close> (\<^verbatim>\<open>Timer.cc\<close>): the timer manager on top of it; the locale \<open>timer_queue\<close> extends the contract.
  \<^item> \<open>Bro_IP\<close> (\<^verbatim>\<open>IP.h\<close>, \<^verbatim>\<open>IP.cc\<close>): IPv4 and IPv6 headers and the chain of extension headers.
  \<^item> \<open>Bro_Reassem\<close> (\<^verbatim>\<open>Reassem.cc\<close>): the chain of data blocks; its callbacks are arguments.
    \<open>Bro_Reassem_Add\<close> abstracts it to the partial map from positions to bytes in which the first copy of
    every byte wins, \<open>Bro_Reassem_Start\<close> shows which block is reported as new, and \<open>Bro_Reassem_Props\<close> has the
    invariant of whole runs, trimming and clearing.
  \<^item> \<open>Bro_Frag\<close>, \<open>Bro_Frag_Props\<close> (\<^verbatim>\<open>Frag.cc\<close>): IP fragments on top of the reassembler and the headers.
  \<^item> \<open>Bro_Tcp\<close> (\<^verbatim>\<open>TCP_Reassembler.cc\<close>, part of \<^verbatim>\<open>TCP_Endpoint.cc\<close>): TCP streams on top of the reassembler; what
    goes to analyzers, events, rules and files is one list of outputs.  \<open>Bro_Tcp_Props\<close> reads the stream off that
    list, \<open>Bro_Tcp_Stream\<close> has the invariant and the callbacks, \<open>Bro_Tcp_Run\<close> runs of calls: the stream is in
    order and of first copies, and complete when acknowledgements follow the data.  \<open>Bro_Tcp_Facts\<close>: a stall, the
    rules, the archive, and counting across wraps.
  \<^item> \<open>Bro_TcpState\<close> (\<^verbatim>\<open>TCP.cc\<close>, the rest of \<^verbatim>\<open>TCP_Endpoint.cc\<close>): the analyzer that drives the two reassemblers of
    a connection: flags, windows, the states of the endpoints, close, timers, and its flags in the archive.
    \<open>Bro_TcpState_Props\<close>: events, reachable states, the order of states, and how often a connection is announced and
    finished; \<open>Bro_TcpState_Facts\<close>: packets are processed to their end, the handshake, and options that are not checked.
  \<^item> \<open>Bro_Dict\<close> (\<^verbatim>\<open>Dict.cc\<close>, \<^verbatim>\<open>Dict.h\<close>): the hash table with incremental resizing and cookies.  \<open>Bro_Dict_Props\<close>: it
    refines an association list; \<open>Bro_Dict_Iter\<close>: reachable states and iteration; \<open>Bro_Dict_Robust\<close>: iteration
    under changes, and where it misses an entry.
  \<^item> \<open>Bro_List\<close>, \<open>Bro_List_Props\<close> (\<^verbatim>\<open>List.cc\<close>): the growing array refines lists.
  \<^item> \<open>Bro_IntSet\<close> (\<^verbatim>\<open>IntSet.cc\<close>, \<^verbatim>\<open>IntSet.h\<close>): the growing bitmap refines sets.
  \<^item> \<open>Bro_Base64\<close>, \<open>Bro_Base64_Props\<close> (\<^verbatim>\<open>Base64.cc\<close>): the incremental decoder, which may be moved at any byte.
  \<^item> \<open>Bro_Sdmbn\<close>, \<open>Bro_Sdmbn_Props\<close> (\<^verbatim>\<open>main.cc\<close>, \<^verbatim>\<open>Sessions.cc\<close>, \<^verbatim>\<open>Conn.cc\<close>): export and import of Bro's
    connections and the delivery of packets to them; a moved connection loses its packets.

  \<^bold>\<open>Loops and bounds.\<close>  Loops over lists and buffers are structural or carry a measure.  Five loops
  may run for ever and are \<open>partial_function (option)\<close> with \<open>None\<close> for that: the release of
  buffered packets, whose theorem shows when it ends; the two loops of the timer manager, whose
  theorems show that the bounded advance and the expiry of all timers end; the reading of a message, which
  is endless when the stream ends inside one; and the search for a prime in the dictionary, which ends
  because primes exist.  \<open>BlockInserted\<close> and \<open>TrimToSeq\<close> of a TCP
  stream call each other; the model bounds the depth by two and gives \<open>Undef\<close> beyond, and the theorems
  on runs show that this is never reached.  Counters and sizes are words where the code can wrap; the hypotheses
  that bound lengths by \<open>2 ^ 31\<close> are the range in which a signed sequence or count is its value.

  \<^bold>\<open>Parameters.\<close>  json-c, libnetfilter\_conntrack, the kernel, the pipes to commands, the boost archives,
  Bro's analyzers and the dispatch of timers are arguments.  What theorems need of them is a
  named hypothesis or a locale, and each such theorem has an example in which it holds.

  \<^bold>\<open>Not modelled.\<close>  Sockets, threads and the raw discovery frames of \<^verbatim>\<open>discovery.c\<close>, which are
  sequences of system calls; the Java controller, its applications and Floodlight; Bro's analyzers,
  script interpreter, logging and communication; the vendored boost.  Interleavings of the library's
  threads are modelled only as far as a mutex is held across calls.

  Of the code around the modelled parts these are left out: the calendar queue \<^verbatim>\<open>cq.c\<close> and the
  timer manager on it, whose bucket widths are averages of doubles; the dispatch of fragments in the
  sessions, which needs the whole of packet decoding; the sum of a TCP checksum, the fingerprints of operating systems
  and the analyzers above \<^verbatim>\<open>TCP.cc\<close>, whose calls are outputs of the model; regular expressions and the address trie,
  which the moved state does not contain.
\<close>

end
